(* ===== verification/Prelude.thy ===== *)
theory Prelude
  imports Main "HOL-Library.Sublist"
begin

text \<open>
  Prelude of the user-service model: the collections of facts the other theories extend and
  use, the generic list lemmas they share, and the shape of every operation that may fail.

  A Go function that returns a value and an error is a function into a sum: \<open>Inl e\<close> is the
  error return, \<open>Inr x\<close> the normal one. One that also touches the world outside the process
  takes a state and returns it updated beside its result, the type \<open>('e, 'a, 's) io\<close>.
\<close>

section \<open>Collections of facts\<close>

named_theorems go_defs \<open>definitions of the modelled operations, for unfolding\<close>
named_theorems err_simps \<open>how errors.Is sees the error values of the program\<close>
named_theorems frame_simps \<open>which parts of the state an operation leaves alone\<close>
named_theorems cfg_simps \<open>projections of configuration values\<close>

section \<open>Operations that may fail and change the state\<close>

type_synonym ('e, 'a, 's) io = "'s \<Rightarrow> ('e + 'a) \<times> 's"

lemma result_cases:
  fixes x :: "('e + 'a) \<times> 's"
  obtains (error) e s where "x = (Inl e, s)" | (ok) v s where "x = (Inr v, s)"
  by (metis surj_pair sum.exhaust_sel)

lemma not_Inl_iff: "(\<forall>e. x \<noteq> Inl e) \<longleftrightarrow> (\<exists>v. x = Inr v)"
  by (cases x) auto

section \<open>Lists\<close>

lemma replicate_numeral: "replicate (numeral k) x = x # replicate (pred_numeral k) x"
  by (simp add: numeral_eq_Suc)

lemma prefix_app_cancel: "prefix (a @ b) (a @ c) \<longleftrightarrow> prefix b c"
  by simp

lemma sublist_appI1: "sublist x a \<Longrightarrow> sublist x (a @ b)"
  by (simp add: sublist_append)

lemma sublist_appI2: "sublist x b \<Longrightarrow> sublist x (a @ b)"
  by (simp add: sublist_append)

lemma find_Some_in: "find P xs = Some x \<Longrightarrow> x \<in> set xs \<and> P x"
  by (auto simp: find_Some_iff)

lemma find_None_all: "find P xs = None \<longleftrightarrow> (\<forall>x\<in>set xs. \<not> P x)"
  by (auto simp: find_None_iff)

text \<open>With distinct keys, looking a key up finds the element that has it.\<close>

lemma find_key:
  assumes "distinct (map f xs)" and "x \<in> set xs"
  shows "find (\<lambda>y. f y = f x) xs = Some x"
  using assms by (induction xs) (auto simp: image_iff)

lemma find_key_unique:
  assumes "distinct (map f xs)" and "x \<in> set xs" and "f x = k"
  shows "find (\<lambda>y. f y = k) xs = Some x"
  using find_key [OF assms(1,2)] assms(3) by simp

lemma find_map_inv:
  assumes "\<And>x. x \<in> set xs \<Longrightarrow> P (g x) = P x"
  shows "find P (map g xs) = map_option g (find P xs)"
  using assms by (induction xs) auto

lemma find_append:
  "find P (xs @ ys) = (case find P xs of None \<Rightarrow> find P ys | Some x \<Rightarrow> Some x)"
  by (induction xs) auto

lemma find_filter_other:
  assumes "\<And>x. x \<in> set xs \<Longrightarrow> P x \<Longrightarrow> Q x"
  shows "find P (filter Q xs) = find P xs"
  using assms by (induction xs) auto

lemma find_filter_none:
  assumes "\<And>x. x \<in> set xs \<Longrightarrow> P x \<Longrightarrow> \<not> Q x"
  shows "find P (filter Q xs) = None"
  using assms by (induction xs) auto

lemma distinct_map_filter_key: "distinct (map f xs) \<Longrightarrow> distinct (map f (filter P xs))"
  by (induction xs) auto

text \<open>With distinct keys, at most one element has a given key.\<close>

lemma filter_key_find:
  assumes "distinct (map f xs)"
  shows "filter (\<lambda>x. f x = k) xs =
    (case find (\<lambda>x. f x = k) xs of None \<Rightarrow> [] | Some x \<Rightarrow> [x])"
  using assms
proof (induction xs)
  case Nil
  then show ?case by simp
next
  case (Cons x xs)
  then show ?case
    by (cases "f x = k")
      (force simp: filter_empty_conv image_iff dest: find_Some_in split: option.splits)+
qed

end
