(* ===== verification/GoStrings.thy ===== *)
theory GoStrings
  imports Prelude
begin

text \<open>
  The part of Go's standard library for strings that the program uses. A Go string is a
  sequence of bytes, and an Isabelle \<open>char\<close> is a byte, so a string literal here is the
  UTF-8 encoding of the Go literal.

  \<^item> \<open>TrimSpace\<close> is strings.TrimSpace: it removes the UTF-8 encodings of the code points with
    the White_Space property from both ends (the ASCII ones, U+0085, U+00A0, U+1680,
    U+2000 to U+200A, U+2028, U+2029, U+202F, U+205F and U+3000). Every such encoding starts
    with a leading byte and no proper suffix of one is another, so stripping encodings from
    the end is what decoding the last rune does.
  \<^item> \<open>ToLower\<close> as far as its result is ASCII, \<open>Contains\<close>, \<open>HasPrefix\<close>, \<open>CutPrefix\<close>, the decimal
    rendering of fmt's percent-d, and strconv.Atoi on the values the program parses.
\<close>

section \<open>Bytes\<close>

abbreviation byte :: "nat \<Rightarrow> char" where
  "byte \<equiv> char_of"

abbreviation code :: "char \<Rightarrow> nat" where
  "code \<equiv> of_char"

section \<open>White space\<close>

definition space_runes :: "string list" where
  "space_runes =
     map (\<lambda>n. [byte n]) [9, 10, 11, 12, 13, 32] @
     [[byte 0xC2, byte 0x85], [byte 0xC2, byte 0xA0], [byte 0xE1, byte 0x9A, byte 0x80]] @
     map (\<lambda>n. [byte 0xE2, byte 0x80, byte n])
       [0x80, 0x81, 0x82, 0x83, 0x84, 0x85, 0x86, 0x87, 0x88, 0x89, 0x8A, 0xA8, 0xA9, 0xAF] @
     [[byte 0xE2, byte 0x81, byte 0x9F], [byte 0xE3, byte 0x80, byte 0x80]]"

text \<open>The length of the white-space rune a string starts with, 0 when there is none.\<close>

definition lead_len :: "string list \<Rightarrow> string \<Rightarrow> nat" where
  "lead_len ws s = (case find (\<lambda>w. prefix w s) ws of None \<Rightarrow> 0 | Some w \<Rightarrow> length w)"

text \<open>Strip runes of a given list from the front.\<close>

function strip :: "string list \<Rightarrow> string \<Rightarrow> string" where
  "strip ws s = (if lead_len ws s = 0 \<or> s = [] then s else strip ws (drop (lead_len ws s) s))"
  by pat_completeness auto
termination
  by (relation "measure (\<lambda>(ws, s). length s)") auto

declare strip.simps [simp del]

definition TrimLeftSpace :: "string \<Rightarrow> string" where
  "TrimLeftSpace s = strip space_runes s"

definition TrimRightSpace :: "string \<Rightarrow> string" where
  "TrimRightSpace s = rev (strip (map rev space_runes) (rev s))"

definition TrimSpace :: "string \<Rightarrow> string" where
  "TrimSpace s = TrimRightSpace (TrimLeftSpace s)"

definition starts_space :: "string \<Rightarrow> bool" where
  "starts_space s = list_ex (\<lambda>w. prefix w s) space_runes"

definition ends_space :: "string \<Rightarrow> bool" where
  "ends_space s = list_ex (\<lambda>w. suffix w s) space_runes"

lemma space_runes_nonempty: "w \<in> set space_runes \<Longrightarrow> w \<noteq> []"
  by (auto simp: space_runes_def)

lemma lead_len_0:
  assumes "\<forall>w\<in>set ws. w \<noteq> []"
  shows "lead_len ws s = 0 \<longleftrightarrow> (\<forall>w\<in>set ws. \<not> prefix w s)"
  using assms
  by (auto simp: lead_len_def find_None_all split: option.splits dest: find_Some_in)

lemma strip_no_lead:
  assumes "\<forall>w\<in>set ws. w \<noteq> []" and "w \<in> set ws"
  shows "\<not> prefix w (strip ws s)"
  using assms
proof (induction ws s rule: strip.induct)
  case (1 ws s)
  show ?case
  proof (cases "lead_len ws s = 0 \<or> s = []")
    case True
    with 1 show ?thesis by (auto simp: strip.simps [of ws s] lead_len_0)
  next
    case False
    with 1 show ?thesis by (simp add: strip.simps [of ws s])
  qed
qed

lemma strip_id:
  assumes "\<forall>w\<in>set ws. w \<noteq> []" and "\<forall>w\<in>set ws. \<not> prefix w s"
  shows "strip ws s = s"
  using assms by (subst strip.simps) (simp add: lead_len_0)

lemma strip_suffix: "suffix (strip ws s) s"
proof (induction ws s rule: strip.induct)
  case (1 ws s)
  then show ?case
    by (subst strip.simps) (auto intro: suffix_order.trans suffix_drop)
qed

lemma rev_space_runes_nonempty: "\<forall>w\<in>set (map rev space_runes). w \<noteq> []"
  by (auto dest: space_runes_nonempty)

lemma TrimLeftSpace_start: "\<not> starts_space (TrimLeftSpace s)"
  using strip_no_lead [of space_runes] space_runes_nonempty
  by (auto simp: starts_space_def TrimLeftSpace_def list_ex_iff)

lemma TrimRightSpace_end: "\<not> ends_space (TrimRightSpace s)"
proof
  assume "ends_space (TrimRightSpace s)"
  then obtain w where "w \<in> set space_runes" "suffix w (TrimRightSpace s)"
    by (auto simp: ends_space_def list_ex_iff)
  then have "rev w \<in> set (map rev space_runes)"
    "prefix (rev w) (strip (map rev space_runes) (rev s))"
    by (auto simp: TrimRightSpace_def suffix_to_prefix)
  then show False
    using strip_no_lead [OF rev_space_runes_nonempty] by blast
qed

lemma TrimRightSpace_prefix: "prefix (TrimRightSpace s) s"
  using strip_suffix [of "map rev space_runes" "rev s"]
  by (simp add: TrimRightSpace_def suffix_to_prefix)

lemma TrimLeftSpace_suffix: "suffix (TrimLeftSpace s) s"
  by (simp add: TrimLeftSpace_def strip_suffix)

lemma TrimLeftSpace_id: "\<not> starts_space s \<Longrightarrow> TrimLeftSpace s = s"
  by (auto simp: TrimLeftSpace_def starts_space_def list_ex_iff space_runes_nonempty
      intro!: strip_id)

lemma TrimRightSpace_id: "\<not> ends_space s \<Longrightarrow> TrimRightSpace s = s"
proof -
  assume "\<not> ends_space s"
  then have "\<forall>w\<in>set (map rev space_runes). \<not> prefix w (rev s)"
    by (auto simp: ends_space_def list_ex_iff suffix_to_prefix)
  then show ?thesis
    using strip_id [OF rev_space_runes_nonempty, of "rev s"] by (simp add: TrimRightSpace_def)
qed

lemma starts_space_prefix: "prefix t s \<Longrightarrow> starts_space t \<Longrightarrow> starts_space s"
  unfolding starts_space_def list_ex_iff using prefix_order.trans by blast

text \<open>A trimmed string has no white space at either end, and trimming it again is the identity.\<close>

lemma TrimSpace_start: "\<not> starts_space (TrimSpace s)"
  unfolding TrimSpace_def
  using starts_space_prefix [OF TrimRightSpace_prefix] TrimLeftSpace_start by blast

lemma TrimSpace_end: "\<not> ends_space (TrimSpace s)"
  by (simp add: TrimSpace_def TrimRightSpace_end)

lemma TrimSpace_id: "\<not> starts_space s \<Longrightarrow> \<not> ends_space s \<Longrightarrow> TrimSpace s = s"
  by (simp add: TrimSpace_def TrimLeftSpace_id TrimRightSpace_id)

lemma TrimSpace_idem [simp]: "TrimSpace (TrimSpace s) = TrimSpace s"
  by (rule TrimSpace_id [OF TrimSpace_start TrimSpace_end])

lemma TrimSpace_Nil [simp]: "TrimSpace [] = []"
  by (rule TrimSpace_id)
    (auto simp: starts_space_def ends_space_def list_ex_iff dest: space_runes_nonempty)

lemma TrimSpace_sublist: "sublist (TrimSpace s) s"
proof -
  obtain a where a: "s = a @ TrimLeftSpace s"
    using TrimLeftSpace_suffix by (auto simp: suffix_def)
  obtain b where b: "TrimLeftSpace s = TrimSpace s @ b"
    using TrimRightSpace_prefix by (auto simp: prefix_def TrimSpace_def)
  from a b have "s = a @ TrimSpace s @ b" by simp
  then show ?thesis unfolding sublist_def by blast
qed

lemma space_rune_ends:
  "w \<in> set space_runes \<Longrightarrow> w \<noteq> [] \<and> (\<forall>x\<in>{hd w, last w}. code x < 33 \<or> 128 \<le> code x)"
  unfolding space_runes_def by (simp, elim disjE; simp)

text \<open>A string that starts and ends with a visible ASCII character is trimmed.\<close>

lemma TrimSpace_visible:
  assumes "s \<noteq> []" and "\<forall>x\<in>{hd s, last s}. 33 \<le> code x \<and> code x < 128"
  shows "TrimSpace s = s"
proof (rule TrimSpace_id)
  show "\<not> starts_space s"
  proof
    assume "starts_space s"
    then obtain w where w: "w \<in> set space_runes" "prefix w s" by (auto simp: starts_space_def list_ex_iff)
    then have "hd w = hd s" using space_rune_ends [OF w(1)] by (auto simp: prefix_def)
    then show False using space_rune_ends [OF w(1)] assms(2) by (auto simp: not_le)
  qed
  show "\<not> ends_space s"
  proof
    assume "ends_space s"
    then obtain w where w: "w \<in> set space_runes" "suffix w s" by (auto simp: ends_space_def list_ex_iff)
    then have "last w = last s" using space_rune_ends [OF w(1)] by (auto simp: suffix_def)
    then show False using space_rune_ends [OF w(1)] assms(2) by (auto simp: not_le)
  qed
qed

text \<open>A space joins two trimmed strings to a trimmed one.\<close>

lemma space_rune_bytes:
  "w \<in> set space_runes \<Longrightarrow> \<forall>x\<in>set (tl w) \<union> set (butlast w). 128 \<le> code x"
  unfolding space_runes_def by (simp, elim disjE; simp)

lemma space_not_inside:
  assumes "w \<in> set space_runes"
  shows "CHR '' '' \<notin> set (tl w)" and "CHR '' '' \<notin> set (butlast w)"
proof -
  have "\<not> 128 \<le> code (CHR '' '')" by simp
  then show "CHR '' '' \<notin> set (tl w)" and "CHR '' '' \<notin> set (butlast w)"
    using space_rune_bytes [OF assms] by blast+
qed

lemma starts_space_join:
  assumes "f \<noteq> []" "\<not> starts_space f"
  shows "\<not> starts_space (f @ CHR '' '' # l)"
proof
  assume "starts_space (f @ CHR '' '' # l)"
  then obtain w where w: "w \<in> set space_runes" "prefix w (f @ CHR '' '' # l)"
    by (auto simp: starts_space_def list_ex_iff)
  then have "\<not> prefix w f" using assms(2) by (auto simp: starts_space_def list_ex_iff)
  with w(2) obtain d where "w = f @ CHR '' '' # d"
    by (auto simp: prefix_append prefix_Cons)
  then have "CHR '' '' \<in> set (tl w)" using assms(1) by (cases f) auto
  with space_not_inside [OF w(1)] show False by simp
qed

lemma ends_space_join:
  assumes "l \<noteq> []" "\<not> ends_space l"
  shows "\<not> ends_space (f @ CHR '' '' # l)"
proof
  assume "ends_space (f @ CHR '' '' # l)"
  then obtain w where w: "w \<in> set space_runes" "suffix w ((f @ [CHR '' '']) @ l)"
    by (auto simp: ends_space_def list_ex_iff)
  then have "\<not> suffix w l" using assms(2) by (auto simp: ends_space_def list_ex_iff)
  with w(2) obtain d where d: "w = d @ l" "suffix d (f @ [CHR '' ''])"
    by (auto simp only: suffix_append)
  with \<open>\<not> suffix w l\<close> obtain e where "d = e @ [CHR '' '']"
    by (cases d rule: rev_cases) (auto simp: suffix_def)
  with d(1) assms(1) have "CHR '' '' \<in> set (butlast w)" by (simp add: butlast_append)
  with space_not_inside [OF w(1)] show False by simp
qed

section \<open>Searching and cutting\<close>

text \<open>strings.Contains, strings.HasPrefix and strings.CutPrefix.\<close>

fun HasPrefix :: "string \<Rightarrow> string \<Rightarrow> bool" where
  "HasPrefix s [] = True"
| "HasPrefix [] (_ # _) = False"
| "HasPrefix (c # cs) (p # ps) = (c = p \<and> HasPrefix cs ps)"

fun Contains :: "string \<Rightarrow> string \<Rightarrow> bool" where
  "Contains [] p = (p = [])"
| "Contains (c # cs) p = (HasPrefix (c # cs) p \<or> Contains cs p)"

definition CutPrefix :: "string \<Rightarrow> string \<Rightarrow> string \<times> bool" where
  "CutPrefix s p = (if HasPrefix s p then (drop (length p) s, True) else (s, False))"

lemma HasPrefix_prefix: "HasPrefix s p = prefix p s"
  by (induction s p rule: HasPrefix.induct) auto

lemma Contains_sublist: "Contains s p = sublist p s"
  by (induction s) (auto simp: HasPrefix_prefix sublist_Cons_right)

lemma Contains_self [simp]: "Contains p p"
  by (simp add: Contains_sublist)

lemma Contains_appI1: "Contains a p \<Longrightarrow> Contains (a @ b) p"
  by (simp add: Contains_sublist sublist_appI1)

lemma Contains_appI2: "Contains b p \<Longrightarrow> Contains (a @ b) p"
  by (simp add: Contains_sublist sublist_appI2)

section \<open>Case\<close>

text \<open>The ASCII part of strings.ToLower, and the upper-case folding used for JSON keys.\<close>

definition lower_char :: "char \<Rightarrow> char" where
  "lower_char c = (if 65 \<le> code c \<and> code c \<le> 90 then byte (code c + 32) else c)"

definition upper_char :: "char \<Rightarrow> char" where
  "upper_char c = (if 97 \<le> code c \<and> code c \<le> 122 then byte (code c - 32) else c)"

text \<open>Of the other letters only U+0130 and U+212A have an ASCII letter as their lower case.\<close>

fun ToLower :: "string \<Rightarrow> string" where
  "ToLower [] = []"
| "ToLower (c # cs) =
    (if c = CHR 0xC4 \<and> take 1 cs = [CHR 0xB0] then CHR ''i'' # ToLower (drop 1 cs)
     else if c = CHR 0xE2 \<and> take 2 cs = [CHR 0x84, CHR 0xAA] then CHR ''k'' # ToLower (drop 2 cs)
     else lower_char c # ToLower cs)"

declare ToLower.simps(2) [simp del]

lemma ToLower_ascii_map: "list_all (\<lambda>c. code c < 128) s \<Longrightarrow> ToLower s = map lower_char s"
  by (induction s) (auto simp: ToLower.simps)

section \<open>Decimal numbers\<close>

definition digit_char :: "nat \<Rightarrow> char" where
  "digit_char n = ''0123456789'' ! n"

fun digits :: "nat \<Rightarrow> string" where
  "digits n = (if n < 10 then [digit_char n] else digits (n div 10) @ [digit_char (n mod 10)])"

declare digits.simps [simp del]

definition itoa :: "int \<Rightarrow> string" where
  "itoa i = (if i < 0 then ''-'' @ digits (nat (- i)) else digits (nat i))"

definition pad0 :: "nat \<Rightarrow> string \<Rightarrow> string" where
  "pad0 w s = replicate (w - length s) (CHR ''0'') @ s"

text \<open>strconv.Atoi: an optional sign and decimal digits, within 64 bits.\<close>

definition digit_val :: "char \<Rightarrow> int option" where
  "digit_val c = (if 48 \<le> code c \<and> code c \<le> 57 then Some (int (code c) - 48) else None)"

fun digits_val :: "int \<Rightarrow> string \<Rightarrow> int option" where
  "digits_val acc [] = Some acc"
| "digits_val acc (c # cs) =
    (case digit_val c of None \<Rightarrow> None | Some d \<Rightarrow> digits_val (10 * acc + d) cs)"

definition Atoi :: "string \<Rightarrow> int option" where
  "Atoi s =
    (let (neg, ds) = (case s of
           c # cs \<Rightarrow> if c = CHR ''-'' then (True, cs) else if c = CHR ''+'' then (False, cs) else (False, s)
         | [] \<Rightarrow> (False, s))
     in if ds = [] then None
        else case digits_val 0 ds of
               None \<Rightarrow> None
             | Some n \<Rightarrow>
                 let v = (if neg then - n else n) in
                 if - (2 ^ 63) \<le> v \<and> v < 2 ^ 63 then Some v else None)"

end
