(* ===== verification/GoErrors.thy ===== *)
theory GoErrors
  imports GoStrings
begin

text \<open>
  Go error values. An error is known to the program in three ways only: by its identity or the
  identity of an error it wraps (errors.Is against a package variable), by the type of an error
  in its chain (errors.As), and by its text.

  \<^item> \<open>Sentinel p t\<close> is the variable of package \<open>p\<close> made by errors.New with text \<open>t\<close>;
    within a package the texts are distinct, so the pair identifies the variable;
  \<^item> \<open>PgErr code constraint t\<close> is a value of the type pgconn.PgError of module jackc/pgconn,
    with its rendered text;
  \<^item> \<open>Wrapped t e\<close> is what fmt.Errorf makes of a format with the percent-w verb: text \<open>t\<close>,
    wrapping \<open>e\<close>;
  \<^item> \<open>Permanent e\<close> is an error marked as not worth retrying (resilience.Permanent);
  \<^item> \<open>Foreign t\<close> is any other error, made by a library the program calls.
\<close>

datatype goerr =
    Sentinel string string
  | PgErr string string string
  | Wrapped string goerr
  | Permanent goerr
  | Foreign string

fun error_text :: "goerr \<Rightarrow> string" where
  "error_text (Sentinel p t) = t"
| "error_text (PgErr c k t) = t"
| "error_text (Wrapped t e) = t"
| "error_text (Permanent e) = error_text e"
| "error_text (Foreign t) = t"

text \<open>errors.Is, for a target that is a package variable.\<close>

fun errors_is :: "goerr \<Rightarrow> goerr \<Rightarrow> bool" where
  "errors_is (Wrapped t e) g \<longleftrightarrow> Wrapped t e = g \<or> errors_is e g"
| "errors_is (Permanent e) g \<longleftrightarrow> Permanent e = g \<or> errors_is e g"
| "errors_is e g \<longleftrightarrow> e = g"

text \<open>errors.As with a target of type pointer to pgconn.PgError: its code and constraint.\<close>

fun errors_as_pg :: "goerr \<Rightarrow> (string \<times> string) option" where
  "errors_as_pg (PgErr c k t) = Some (c, k)"
| "errors_as_pg (Wrapped t e) = errors_as_pg e"
| "errors_as_pg (Permanent e) = errors_as_pg e"
| "errors_as_pg e = None"

text \<open>errors.As with a target of type resilience.PermanentError.\<close>

fun is_permanent :: "goerr \<Rightarrow> bool" where
  "is_permanent (Permanent e) = True"
| "is_permanent (Wrapped t e) = is_permanent e"
| "is_permanent e = False"

text \<open>
  The two formats the program wraps errors with: an error of its own in front of a cause it
  only prints, and a message in front of a cause it wraps.
\<close>

definition wrap_with :: "goerr \<Rightarrow> goerr \<Rightarrow> goerr" where
  "wrap_with d e = Wrapped (error_text d @ '': '' @ error_text e) d"

definition wrap_msg :: "string \<Rightarrow> goerr \<Rightarrow> goerr" where
  "wrap_msg m e = Wrapped (m @ '': '' @ error_text e) e"

text \<open>The percent-q verb, with every byte from 0x80 on taken as part of a printable rune.\<close>

definition hex_digit :: "nat \<Rightarrow> char" where
  "hex_digit n = ''0123456789abcdef'' ! n"

definition quote_char :: "char \<Rightarrow> string" where
  "quote_char c =
    (let n = code c in
     if n = 34 \<or> n = 92 then [CHR 0x5C, c]
     else if n = 7 then [CHR 0x5C, CHR ''a'']
     else if n = 8 then [CHR 0x5C, CHR ''b'']
     else if n = 9 then [CHR 0x5C, CHR ''t'']
     else if n = 10 then [CHR 0x5C, CHR ''n'']
     else if n = 11 then [CHR 0x5C, CHR ''v'']
     else if n = 12 then [CHR 0x5C, CHR ''f'']
     else if n = 13 then [CHR 0x5C, CHR ''r'']
     else if n < 32 \<or> n = 127 then [CHR 0x5C, CHR ''x'', hex_digit (n div 16), hex_digit (n mod 16)]
     else [c])"

definition go_quote :: "string \<Rightarrow> string" where
  "go_quote s = [CHR 0x22] @ concat (map quote_char s) @ [CHR 0x22]"

lemma errors_is_wrap_with [err_simps]:
  "errors_is (wrap_with d e) (Sentinel p t) \<longleftrightarrow> errors_is d (Sentinel p t)"
  by (simp add: wrap_with_def)

lemma errors_is_wrap_msg [err_simps]:
  "errors_is (wrap_msg m e) (Sentinel p t) \<longleftrightarrow> errors_is e (Sentinel p t)"
  by (simp add: wrap_msg_def)

lemma error_text_wrap_with: "error_text (wrap_with d e) = error_text d @ '': '' @ error_text e"
  by (simp add: wrap_with_def)

lemma error_text_wrap_msg: "error_text (wrap_msg m e) = m @ '': '' @ error_text e"
  by (simp add: wrap_msg_def)

end
