(* ===== verification/GoTime.thy ===== *)
theory GoTime
  imports GoStrings
begin

text \<open>
  Instants and their text form. A time.Time is the number of nanoseconds since
  0001-01-01T00:00:00 UTC, so that Go's zero time is 0; the program reads times only after
  converting them to UTC, so the location is not kept. Durations are nanoseconds too.

  \<open>format_time\<close> is Time.Format with the layouts the program uses on UTC times, the literal
  2006-01-02T15:04:05.999999999Z and time.RFC3339Nano: they agree there. The civil date is
  computed from the day number over the proleptic Gregorian calendar (400-year eras that start
  in March).
\<close>

type_synonym time = int

definition nanosecond :: int where "nanosecond = 1"
definition millisecond :: int where "millisecond = 1000000"
definition second :: int where "second = 1000000000"
definition minute :: int where "minute = 60 * second"
definition hour :: int where "hour = 60 * minute"

definition day_ns :: int where
  "day_ns = 86400000000000"

text \<open>Year (from March), day of that year, month and day; each step takes the last one's results.\<close>

definition civil_month :: "int \<Rightarrow> int \<Rightarrow> int \<Rightarrow> int \<times> int \<times> int" where
  "civil_month y doy mp =
    (if mp < 10 then (y, mp + 3, doy - (153 * mp + 2) div 5 + 1)
     else (y + 1, mp - 9, doy - (153 * mp + 2) div 5 + 1))"

definition civil_day :: "int \<Rightarrow> int \<Rightarrow> int \<times> int \<times> int" where
  "civil_day y doy = civil_month y doy ((5 * doy + 2) div 153)"

definition civil_year :: "int \<Rightarrow> int \<Rightarrow> int \<Rightarrow> int \<times> int \<times> int" where
  "civil_year era doe yoe = civil_day (yoe + era * 400) (doe - (365 * yoe + yoe div 4 - yoe div 100))"

definition civil_era :: "int \<Rightarrow> int \<Rightarrow> int \<times> int \<times> int" where
  "civil_era era doe =
     civil_year era doe ((doe - doe div 1460 + doe div 36524 - doe div 146096) div 365)"

definition civil :: "int \<Rightarrow> int \<times> int \<times> int" where
  "civil days = civil_era ((days + 306) div 146097) ((days + 306) mod 146097)"

definition two :: "int \<Rightarrow> string" where
  "two n = pad0 2 (itoa n)"

definition year_text :: "int \<Rightarrow> string" where
  "year_text y = (if y < 0 then ''-'' @ pad0 4 (itoa (- y)) else pad0 4 (itoa y))"

definition frac_text :: "int \<Rightarrow> string" where
  "frac_text ns =
    (let ds = rev (dropWhile (\<lambda>c. c = CHR ''0'') (rev (pad0 9 (itoa ns))))
     in if ds = [] then [] else ''.'' @ ds)"

definition clock_text :: "int \<Rightarrow> string" where
  "clock_text secs = two (secs div 3600) @ '':'' @ two (secs div 60 mod 60) @ '':'' @ two (secs mod 60)"

definition date_text :: "int \<times> int \<times> int \<Rightarrow> string" where
  "date_text = (\<lambda>(y, m, d). year_text y @ ''-'' @ two m @ ''-'' @ two d)"

definition format_time :: "time \<Rightarrow> string" where
  "format_time t =
     date_text (civil (t div day_ns)) @ ''T'' @
     clock_text (t mod day_ns div 1000000000) @ frac_text (t mod 1000000000) @ ''Z''"

lemmas civil_defs = civil_def civil_era_def civil_year_def civil_day_def civil_month_def

lemmas time_text_defs = format_time_def date_text_def clock_text_def civil_defs day_ns_def two_def
  year_text_def frac_text_def pad0_def itoa_def digits.simps digit_char_def replicate_numeral

lemma format_zero_time: "format_time 0 = ''0001-01-01T00:00:00Z''"
  by (simp add: time_text_defs)

lemma format_time_example:
  "format_time 63912616200123000000 = ''2026-04-24T08:30:00.123Z''"
  by (simp add: time_text_defs)

end
