(* ===== verification/Domain.thy ===== *)
theory Domain
  imports GoErrors GoTime
begin

text \<open>
  The package internal/domain: the user entity, its life-cycle states, the error variables, the
  display name, and the two repository interfaces the application layer is written against.

  A Go interface value is a record of its methods. A method takes its arguments and the state
  of the world and returns a result or an error with the state after the call; the contexts the
  methods take only carry deadlines and trace data and are not modelled (a deadline that
  expires is one of the failures an environment may inject). A pointer that may be nil is an
  option.

  The two locales state what the application layer relies on: what a successful call has done
  to the stored users, what a failed call may have done, and which errors say that a user does
  not exist. They are interpreted on the PostgreSQL and the Redis repository in the theories
  of those.
\<close>

section \<open>Entities\<close>

definition StatusPendingRegistration :: string where
  "StatusPendingRegistration = ''pending_registration''"

definition StatusActive :: string where
  "StatusActive = ''active''"

definition StatusRegistrationFailed :: string where
  "StatusRegistrationFailed = ''registration_failed''"

record user =
  u_ID :: string
  u_Username :: string
  u_DisplayName :: string
  u_FirstName :: string
  u_LastName :: string
  u_AvatarID :: string
  u_AvatarURL :: string
  u_About :: string
  u_IsActive :: bool
  u_Status :: string
  u_CreatedAt :: time
  u_UpdatedAt :: time

text \<open>The zero value of the struct, from which a composite literal sets only some fields.\<close>

definition zero_user :: user where
  "zero_user = \<lparr>u_ID = [], u_Username = [], u_DisplayName = [], u_FirstName = [], u_LastName = [],
     u_AvatarID = [], u_AvatarURL = [], u_About = [], u_IsActive = False, u_Status = [],
     u_CreatedAt = 0, u_UpdatedAt = 0\<rparr>"

record create_user_params =
  p_ID :: string
  p_Username :: string
  p_FirstName :: string
  p_LastName :: string
  p_AvatarID :: string

section \<open>Errors\<close>

definition ErrInvalidUserID :: goerr where
  "ErrInvalidUserID = Sentinel ''user'' ''invalid user id''"

definition ErrInvalidUsername :: goerr where
  "ErrInvalidUsername = Sentinel ''user'' ''invalid username''"

definition ErrUserIDAlreadyTaken :: goerr where
  "ErrUserIDAlreadyTaken = Sentinel ''user'' ''user id is already taken''"

definition ErrUsernameAlreadyTaken :: goerr where
  "ErrUsernameAlreadyTaken = Sentinel ''user'' ''username is already taken''"

definition ErrUserNotFound :: goerr where
  "ErrUserNotFound = Sentinel ''user'' ''user not found''"

definition ErrFailedToCreateUser :: goerr where
  "ErrFailedToCreateUser = Sentinel ''user'' ''failed to create user''"

definition ErrFailedToFindUser :: goerr where
  "ErrFailedToFindUser = Sentinel ''user'' ''failed to find user''"

definition ErrFailedToDeleteUser :: goerr where
  "ErrFailedToDeleteUser = Sentinel ''user'' ''failed to delete user''"

lemmas domain_err_defs = ErrInvalidUserID_def ErrInvalidUsername_def ErrUserIDAlreadyTaken_def
  ErrUsernameAlreadyTaken_def ErrUserNotFound_def ErrFailedToCreateUser_def
  ErrFailedToFindUser_def ErrFailedToDeleteUser_def

text \<open>What errors.Is says of the domain errors themselves, and of an error wrapped around one.\<close>

lemma errors_is_domain [simp, err_simps]:
  "errors_is ErrInvalidUserID e \<longleftrightarrow> ErrInvalidUserID = e"
  "errors_is ErrInvalidUsername e \<longleftrightarrow> ErrInvalidUsername = e"
  "errors_is ErrUserIDAlreadyTaken e \<longleftrightarrow> ErrUserIDAlreadyTaken = e"
  "errors_is ErrUsernameAlreadyTaken e \<longleftrightarrow> ErrUsernameAlreadyTaken = e"
  "errors_is ErrUserNotFound e \<longleftrightarrow> ErrUserNotFound = e"
  "errors_is ErrFailedToCreateUser e \<longleftrightarrow> ErrFailedToCreateUser = e"
  "errors_is ErrFailedToFindUser e \<longleftrightarrow> ErrFailedToFindUser = e"
  "errors_is ErrFailedToDeleteUser e \<longleftrightarrow> ErrFailedToDeleteUser = e"
  by (simp_all add: domain_err_defs)

lemma errors_is_wrap_domain [simp, err_simps]:
  "errors_is (wrap_with d e) ErrInvalidUserID \<longleftrightarrow> errors_is d ErrInvalidUserID"
  "errors_is (wrap_with d e) ErrInvalidUsername \<longleftrightarrow> errors_is d ErrInvalidUsername"
  "errors_is (wrap_with d e) ErrUserIDAlreadyTaken \<longleftrightarrow> errors_is d ErrUserIDAlreadyTaken"
  "errors_is (wrap_with d e) ErrUsernameAlreadyTaken \<longleftrightarrow> errors_is d ErrUsernameAlreadyTaken"
  "errors_is (wrap_with d e) ErrUserNotFound \<longleftrightarrow> errors_is d ErrUserNotFound"
  "errors_is (wrap_msg m e) ErrInvalidUserID \<longleftrightarrow> errors_is e ErrInvalidUserID"
  "errors_is (wrap_msg m e) ErrUserIDAlreadyTaken \<longleftrightarrow> errors_is e ErrUserIDAlreadyTaken"
  "errors_is (wrap_msg m e) ErrUsernameAlreadyTaken \<longleftrightarrow> errors_is e ErrUsernameAlreadyTaken"
  "errors_is (wrap_msg m e) ErrUserNotFound \<longleftrightarrow> errors_is e ErrUserNotFound"
  by (simp_all add: domain_err_defs err_simps)

text \<open>The error variables are distinct.\<close>

lemma domain_err_neq [simp]:
  "ErrInvalidUserID \<noteq> ErrInvalidUsername" "ErrInvalidUserID \<noteq> ErrUserIDAlreadyTaken"
  "ErrInvalidUserID \<noteq> ErrUsernameAlreadyTaken" "ErrInvalidUserID \<noteq> ErrUserNotFound"
  "ErrInvalidUserID \<noteq> ErrFailedToCreateUser" "ErrInvalidUserID \<noteq> ErrFailedToFindUser"
  "ErrInvalidUserID \<noteq> ErrFailedToDeleteUser"
  "ErrInvalidUsername \<noteq> ErrInvalidUserID" "ErrInvalidUsername \<noteq> ErrUserIDAlreadyTaken"
  "ErrInvalidUsername \<noteq> ErrUsernameAlreadyTaken" "ErrInvalidUsername \<noteq> ErrUserNotFound"
  "ErrInvalidUsername \<noteq> ErrFailedToCreateUser" "ErrInvalidUsername \<noteq> ErrFailedToFindUser"
  "ErrInvalidUsername \<noteq> ErrFailedToDeleteUser"
  "ErrUserIDAlreadyTaken \<noteq> ErrInvalidUserID" "ErrUserIDAlreadyTaken \<noteq> ErrInvalidUsername"
  "ErrUserIDAlreadyTaken \<noteq> ErrUsernameAlreadyTaken" "ErrUserIDAlreadyTaken \<noteq> ErrUserNotFound"
  "ErrUserIDAlreadyTaken \<noteq> ErrFailedToCreateUser" "ErrUserIDAlreadyTaken \<noteq> ErrFailedToFindUser"
  "ErrUserIDAlreadyTaken \<noteq> ErrFailedToDeleteUser"
  "ErrUsernameAlreadyTaken \<noteq> ErrInvalidUserID" "ErrUsernameAlreadyTaken \<noteq> ErrInvalidUsername"
  "ErrUsernameAlreadyTaken \<noteq> ErrUserIDAlreadyTaken" "ErrUsernameAlreadyTaken \<noteq> ErrUserNotFound"
  "ErrUsernameAlreadyTaken \<noteq> ErrFailedToCreateUser" "ErrUsernameAlreadyTaken \<noteq> ErrFailedToFindUser"
  "ErrUsernameAlreadyTaken \<noteq> ErrFailedToDeleteUser"
  "ErrUserNotFound \<noteq> ErrInvalidUserID" "ErrUserNotFound \<noteq> ErrInvalidUsername"
  "ErrUserNotFound \<noteq> ErrUserIDAlreadyTaken" "ErrUserNotFound \<noteq> ErrUsernameAlreadyTaken"
  "ErrUserNotFound \<noteq> ErrFailedToCreateUser" "ErrUserNotFound \<noteq> ErrFailedToFindUser"
  "ErrUserNotFound \<noteq> ErrFailedToDeleteUser"
  "ErrFailedToCreateUser \<noteq> ErrInvalidUserID" "ErrFailedToCreateUser \<noteq> ErrInvalidUsername"
  "ErrFailedToCreateUser \<noteq> ErrUserIDAlreadyTaken" "ErrFailedToCreateUser \<noteq> ErrUsernameAlreadyTaken"
  "ErrFailedToCreateUser \<noteq> ErrUserNotFound" "ErrFailedToCreateUser \<noteq> ErrFailedToFindUser"
  "ErrFailedToCreateUser \<noteq> ErrFailedToDeleteUser"
  "ErrFailedToFindUser \<noteq> ErrInvalidUserID" "ErrFailedToFindUser \<noteq> ErrInvalidUsername"
  "ErrFailedToFindUser \<noteq> ErrUserIDAlreadyTaken" "ErrFailedToFindUser \<noteq> ErrUsernameAlreadyTaken"
  "ErrFailedToFindUser \<noteq> ErrUserNotFound" "ErrFailedToFindUser \<noteq> ErrFailedToCreateUser"
  "ErrFailedToFindUser \<noteq> ErrFailedToDeleteUser"
  "ErrFailedToDeleteUser \<noteq> ErrInvalidUserID" "ErrFailedToDeleteUser \<noteq> ErrInvalidUsername"
  "ErrFailedToDeleteUser \<noteq> ErrUserIDAlreadyTaken" "ErrFailedToDeleteUser \<noteq> ErrUsernameAlreadyTaken"
  "ErrFailedToDeleteUser \<noteq> ErrUserNotFound" "ErrFailedToDeleteUser \<noteq> ErrFailedToCreateUser"
  "ErrFailedToDeleteUser \<noteq> ErrFailedToFindUser"
  by (simp_all add: domain_err_defs)

section \<open>Display name\<close>

definition DisplayName :: "string \<Rightarrow> string \<Rightarrow> string" where
  "DisplayName firstName lastName =
    (let firstName = TrimSpace firstName; lastName = TrimSpace lastName in
     if firstName = [] \<and> lastName = [] then []
     else if firstName = [] then lastName
     else if lastName = [] then firstName
     else firstName @ '' '' @ lastName)"

text \<open>A display name has no white space around it.\<close>

lemma TrimSpace_DisplayName [simp]: "TrimSpace (DisplayName f l) = DisplayName f l"
proof (cases "TrimSpace f = [] \<or> TrimSpace l = []")
  case True
  then show ?thesis by (auto simp: DisplayName_def Let_def)
next
  case False
  then have "TrimSpace (TrimSpace f @ CHR '' '' # TrimSpace l) = TrimSpace f @ CHR '' '' # TrimSpace l"
    by (intro TrimSpace_id starts_space_join ends_space_join TrimSpace_start TrimSpace_end) auto
  with False show ?thesis by (simp add: DisplayName_def Let_def)
qed

section \<open>Repository interfaces\<close>

record 's user_repository =
  ur_Create :: "create_user_params \<Rightarrow> (goerr, user, 's) io"
  ur_GetByID :: "string \<Rightarrow> (goerr, user, 's) io"
  ur_GetByUsername :: "string \<Rightarrow> (goerr, user, 's) io"
  ur_ExistsByUsername :: "string \<Rightarrow> (goerr, bool, 's) io"
  ur_ActivateByID :: "string \<Rightarrow> (goerr, user, 's) io"
  ur_DeactivateByID :: "string \<Rightarrow> (goerr, unit, 's) io"
  ur_DeleteByID :: "string \<Rightarrow> (goerr, unit, 's) io"

record 's user_read_repository =
  rr_Upsert :: "user option \<Rightarrow> (goerr, unit, 's) io"
  rr_GetByID :: "string \<Rightarrow> (goerr, user option, 's) io"
  rr_DeleteByID :: "string \<Rightarrow> (goerr, unit, 's) io"
  rr_UpsertByUsername :: "user option \<Rightarrow> (goerr, unit, 's) io"
  rr_GetByUsername :: "string \<Rightarrow> (goerr, user option, 's) io"
  rr_DeleteByUsername :: "string \<Rightarrow> (goerr, unit, 's) io"

section \<open>What the interfaces promise\<close>

text \<open>How a stored user changes: the user made from creation parameters, and the two transitions.\<close>

definition created_from :: "create_user_params \<Rightarrow> user \<Rightarrow> bool" where
  "created_from p u \<longleftrightarrow> u = zero_user
     \<lparr>u_ID := u_ID u, u_Username := p_Username p, u_FirstName := p_FirstName p,
      u_LastName := p_LastName p, u_AvatarID := p_AvatarID p,
      u_Status := StatusPendingRegistration, u_CreatedAt := u_CreatedAt u, u_UpdatedAt := u_CreatedAt u\<rparr>"

definition activated_from :: "user \<Rightarrow> user \<Rightarrow> bool" where
  "activated_from v u \<longleftrightarrow>
     u = v\<lparr>u_IsActive := True, u_Status := StatusActive, u_UpdatedAt := u_UpdatedAt u\<rparr>"

definition deactivated_from :: "user \<Rightarrow> user \<Rightarrow> bool" where
  "deactivated_from v u \<longleftrightarrow>
     u = v\<lparr>u_IsActive := False, u_Status := StatusRegistrationFailed, u_UpdatedAt := u_UpdatedAt u\<rparr>"

text \<open>The effect of a call on the stored users, as it may or may not have happened.\<close>

type_synonym user_store = "string \<rightharpoonup> user"

definition stores :: "(user \<Rightarrow> user \<Rightarrow> bool) \<Rightarrow> string option \<Rightarrow> user_store \<Rightarrow> user_store \<Rightarrow> user \<Rightarrow> bool" where
  "stores rel key us us' u \<longleftrightarrow>
     key = Some (u_ID u) \<and> (\<exists>v. us (u_ID u) = Some v \<and> rel v u) \<and> us' = us(u_ID u \<mapsto> u)"

definition inserts :: "create_user_params \<Rightarrow> string option \<Rightarrow> user_store \<Rightarrow> user_store \<Rightarrow> user \<Rightarrow> bool" where
  "inserts p key us us' u \<longleftrightarrow>
     key = Some (u_ID u) \<and> us (u_ID u) = None \<and> created_from p u \<and> us' = us(u_ID u \<mapsto> u)"

definition removes :: "string option \<Rightarrow> user_store \<Rightarrow> user_store \<Rightarrow> bool" where
  "removes key us us' \<longleftrightarrow> (\<exists>k. key = Some k \<and> us k \<noteq> None \<and> us' = us(k := None))"

definition absent :: "string option \<Rightarrow> user_store \<Rightarrow> bool" where
  "absent key us \<longleftrightarrow> (\<exists>k. key = Some k \<and> us k = None)"

text \<open>
  The write model. \<open>users\<close> is the abstraction of its state: the stored users by identifier;
  \<open>canon\<close> is the identifier an argument denotes, if any; \<open>inv\<close> is its invariant and \<open>kept\<close>
  the part of the state that is not its own. A failed write may have happened all the same.
\<close>

locale user_repository_contract =
  fixes repo :: "'s user_repository"
    and users :: "'s \<Rightarrow> user_store"
    and canon :: "string \<Rightarrow> string option"
    and inv :: "'s \<Rightarrow> bool"
    and kept :: "'s \<Rightarrow> 'k"
  assumes create_frame: "inv s \<Longrightarrow> ur_Create repo p s = (r, s') \<Longrightarrow> inv s' \<and> kept s' = kept s"
    and create_ok: "inv s \<Longrightarrow> ur_Create repo p s = (Inr u, s') \<Longrightarrow>
      inserts p (canon (p_ID p)) (users s) (users s') u"
    and create_err: "inv s \<Longrightarrow> ur_Create repo p s = (Inl e, s') \<Longrightarrow>
      users s' = users s \<or> (\<exists>u. inserts p (canon (p_ID p)) (users s) (users s') u)"
    and get_frame: "inv s \<Longrightarrow> ur_GetByID repo i s = (g, s') \<Longrightarrow>
      inv s' \<and> kept s' = kept s \<and> users s' = users s"
    and get_ok: "inv s \<Longrightarrow> ur_GetByID repo i s = (Inr u, s') \<Longrightarrow>
      canon i = Some (u_ID u) \<and> users s (u_ID u) = Some u"
    and get_absent: "inv s \<Longrightarrow> ur_GetByID repo i s = (Inl e, s') \<Longrightarrow>
      errors_is e ErrUserNotFound \<Longrightarrow> absent (canon i) (users s)"
    and byname_frame: "inv s \<Longrightarrow> ur_GetByUsername repo n s = (g, s') \<Longrightarrow>
      inv s' \<and> kept s' = kept s \<and> users s' = users s"
    and byname_ok: "inv s \<Longrightarrow> ur_GetByUsername repo n s = (Inr u, s') \<Longrightarrow>
      users s (u_ID u) = Some u \<and> u_Username u = n"
    and byname_absent: "inv s \<Longrightarrow> ur_GetByUsername repo n s = (Inl e, s') \<Longrightarrow>
      errors_is e ErrUserNotFound \<Longrightarrow> users s k = Some u \<Longrightarrow> u_Username u \<noteq> n"
    and exists_frame: "inv s \<Longrightarrow> ur_ExistsByUsername repo n s = (b, s') \<Longrightarrow>
      inv s' \<and> kept s' = kept s \<and> users s' = users s"
    and exists_ok: "inv s \<Longrightarrow> ur_ExistsByUsername repo n s = (Inr x, s') \<Longrightarrow>
      x \<longleftrightarrow> (\<exists>k u. users s k = Some u \<and> u_Username u = n)"
    and activate_frame: "inv s \<Longrightarrow> ur_ActivateByID repo i s = (g, s') \<Longrightarrow> inv s' \<and> kept s' = kept s"
    and activate_ok: "inv s \<Longrightarrow> ur_ActivateByID repo i s = (Inr u, s') \<Longrightarrow>
      stores activated_from (canon i) (users s) (users s') u"
    and activate_err: "inv s \<Longrightarrow> ur_ActivateByID repo i s = (Inl e, s') \<Longrightarrow>
      users s' = users s \<or> (\<exists>u. stores activated_from (canon i) (users s) (users s') u)"
    and activate_absent: "inv s \<Longrightarrow> ur_ActivateByID repo i s = (Inl e, s') \<Longrightarrow>
      errors_is e ErrUserNotFound \<Longrightarrow> absent (canon i) (users s)"
    and deactivate_frame: "inv s \<Longrightarrow> ur_DeactivateByID repo i s = (d, s') \<Longrightarrow> inv s' \<and> kept s' = kept s"
    and deactivate_ok: "inv s \<Longrightarrow> ur_DeactivateByID repo i s = (Inr x1, s') \<Longrightarrow>
      \<exists>u. stores deactivated_from (canon i) (users s) (users s') u"
    and deactivate_err: "inv s \<Longrightarrow> ur_DeactivateByID repo i s = (Inl e, s') \<Longrightarrow>
      users s' = users s \<or> (\<exists>u. stores deactivated_from (canon i) (users s) (users s') u)"
    and deactivate_absent: "inv s \<Longrightarrow> ur_DeactivateByID repo i s = (Inl e, s') \<Longrightarrow>
      errors_is e ErrUserNotFound \<Longrightarrow> absent (canon i) (users s)"
    and delete_frame: "inv s \<Longrightarrow> ur_DeleteByID repo i s = (d, s') \<Longrightarrow> inv s' \<and> kept s' = kept s"
    and delete_ok: "inv s \<Longrightarrow> ur_DeleteByID repo i s = (Inr x1, s') \<Longrightarrow>
      removes (canon i) (users s) (users s')"
    and delete_err: "inv s \<Longrightarrow> ur_DeleteByID repo i s = (Inl e, s') \<Longrightarrow>
      users s' = users s \<or> removes (canon i) (users s) (users s')"
    and delete_absent: "inv s \<Longrightarrow> ur_DeleteByID repo i s = (Inl e, s') \<Longrightarrow>
      errors_is e ErrUserNotFound \<Longrightarrow> absent (canon i) (users s)"

text \<open>
  The read model: two projections of users, the previews by identifier and the detailed entries
  by user name. \<open>as_preview\<close> and \<open>as_detailed\<close> are what a stored user comes back as, for the
  users that are \<open>storable\<close>.
\<close>

locale user_read_contract =
  fixes rrepo :: "'s user_read_repository"
    and preview :: "'s \<Rightarrow> user_store"
    and detailed :: "'s \<Rightarrow> user_store"
    and as_preview :: "user \<Rightarrow> user"
    and as_detailed :: "user \<Rightarrow> user"
    and storable :: "user \<Rightarrow> bool"
    and rinv :: "'s \<Rightarrow> bool"
    and rkept :: "'s \<Rightarrow> 'r"
  assumes upsert_frame: "rinv s \<Longrightarrow> rr_Upsert rrepo uo s = (x, s') \<Longrightarrow>
      rinv s' \<and> rkept s' = rkept s \<and> detailed s' = detailed s"
    and upsert_ok: "rinv s \<Longrightarrow> rr_Upsert rrepo (Some u) s = (Inr x1, s') \<Longrightarrow> storable u \<Longrightarrow>
      preview s' = (preview s)(u_ID u \<mapsto> as_preview u)"
    and upsert_err: "rinv s \<Longrightarrow> rr_Upsert rrepo (Some u) s = (Inl e, s') \<Longrightarrow> storable u \<Longrightarrow>
      preview s' = preview s \<or> preview s' = (preview s)(u_ID u \<mapsto> as_preview u)"
    and upsert_not_absent: "rinv s \<Longrightarrow> rr_Upsert rrepo uo s = (Inl e, s') \<Longrightarrow> \<not> errors_is e ErrUserNotFound"
    and rget_frame: "rinv s \<Longrightarrow> rr_GetByID rrepo i s = (g, s') \<Longrightarrow>
      rinv s' \<and> rkept s' = rkept s \<and> preview s' = preview s \<and> detailed s' = detailed s"
    and rget_ok: "rinv s \<Longrightarrow> rr_GetByID rrepo i s = (Inr uo, s') \<Longrightarrow> uo = preview s i \<and> uo \<noteq> None"
    and rget_absent: "rinv s \<Longrightarrow> rr_GetByID rrepo i s = (Inl e, s') \<Longrightarrow>
      errors_is e ErrUserNotFound \<Longrightarrow> preview s i = None"
    and rdelete_frame: "rinv s \<Longrightarrow> rr_DeleteByID rrepo i s = (x, s') \<Longrightarrow>
      rinv s' \<and> rkept s' = rkept s \<and> detailed s' = detailed s"
    and rdelete_ok: "rinv s \<Longrightarrow> rr_DeleteByID rrepo i s = (Inr x1, s') \<Longrightarrow>
      preview s' = (preview s)(i := None)"
    and rdelete_err: "rinv s \<Longrightarrow> rr_DeleteByID rrepo i s = (Inl e, s') \<Longrightarrow>
      preview s' = preview s \<or> preview s' = (preview s)(i := None)"
    and dupsert_frame: "rinv s \<Longrightarrow> rr_UpsertByUsername rrepo uo s = (x, s') \<Longrightarrow>
      rinv s' \<and> rkept s' = rkept s \<and> preview s' = preview s"
    and dupsert_ok: "rinv s \<Longrightarrow> rr_UpsertByUsername rrepo (Some u) s = (Inr x1, s') \<Longrightarrow> storable u \<Longrightarrow>
      detailed s' = (detailed s)(u_Username u \<mapsto> as_detailed u)"
    and dupsert_err: "rinv s \<Longrightarrow> rr_UpsertByUsername rrepo (Some u) s = (Inl e, s') \<Longrightarrow> storable u \<Longrightarrow>
      detailed s' = detailed s \<or> detailed s' = (detailed s)(u_Username u \<mapsto> as_detailed u)"
    and dupsert_not_absent: "rinv s \<Longrightarrow> rr_UpsertByUsername rrepo uo s = (Inl e, s') \<Longrightarrow> \<not> errors_is e ErrUserNotFound"
    and dget_frame: "rinv s \<Longrightarrow> rr_GetByUsername rrepo n s = (g, s') \<Longrightarrow>
      rinv s' \<and> rkept s' = rkept s \<and> preview s' = preview s \<and> detailed s' = detailed s"
    and dget_ok: "rinv s \<Longrightarrow> rr_GetByUsername rrepo n s = (Inr uo, s') \<Longrightarrow> uo = detailed s n \<and> uo \<noteq> None"
    and dget_absent: "rinv s \<Longrightarrow> rr_GetByUsername rrepo n s = (Inl e, s') \<Longrightarrow>
      errors_is e ErrUserNotFound \<Longrightarrow> detailed s n = None"
    and ddelete_frame: "rinv s \<Longrightarrow> rr_DeleteByUsername rrepo n s = (x, s') \<Longrightarrow>
      rinv s' \<and> rkept s' = rkept s \<and> preview s' = preview s"
    and ddelete_ok: "rinv s \<Longrightarrow> rr_DeleteByUsername rrepo n s = (Inr x1, s') \<Longrightarrow>
      detailed s' = (detailed s)(n := None)"
    and ddelete_err: "rinv s \<Longrightarrow> rr_DeleteByUsername rrepo n s = (Inl e, s') \<Longrightarrow>
      detailed s' = detailed s \<or> detailed s' = (detailed s)(n := None)"

end
