(* ===== verification/World.thy ===== *)
theory World
  imports Domain
begin

text \<open>
  The state the service's adapters share and the environment they run in.

  The state \<open>world\<close> holds the users table and its transactional outbox (PostgreSQL, as the
  migrations define them), the Redis key space, the messages accepted by the broker, and the
  metrics recorded so far; it also counts the calls made to systems outside the process.

  The environment \<open>env\<close> is a parameter of every operation and is all that is outside the
  repository. Each call to an external system may fail, in one of two ways: the request is lost
  before it took effect, or the effect happened and only the reply is lost. Besides these
  faults the environment gives the clock, the answers of the file service, how PostgreSQL reads
  a UUID, which strings it accepts as TEXT, the error value the driver makes of a rejection, and
  the two functions of the shared library that put a message into an envelope (with an identifier
  and a time of its own, hence the call number) and take it out. \<open>env_ok\<close> states the documented behaviour the correctness of the code rests on.
\<close>

section \<open>Stored data\<close>

record user_row =
  row_ID :: string
  row_Username :: string
  row_FirstName :: string
  row_LastName :: string
  row_AvatarID :: string
  row_About :: string
  row_IsActive :: bool
  row_Status :: string
  row_CreatedAt :: time
  row_UpdatedAt :: time

text \<open>
  A row of outbox_events, as the trigger on the users table writes it. Its primary key is random
  and is left out; the payload is the row the event is about.
\<close>

record outbox_event =
  ob_aggregate_type :: string
  ob_aggregate_id :: string
  ob_event_type :: string
  ob_operation :: string
  ob_schema_version :: int
  ob_payload :: user_row
  ob_occurred_at :: time

text \<open>The calls to the metrics recorder, without the measured durations.\<close>

datatype metric = ObserveDB string string string string | ObserveRedis string string string

record world =
  w_users :: "user_row list"
  w_outbox :: "outbox_event list"
  w_redis :: "string \<rightharpoonup> string"
  w_bus :: "(string \<times> string) list"
  w_metrics :: "metric list"
  w_calls :: nat

definition empty_world :: world where
  "empty_world = \<lparr>w_users = [], w_outbox = [], w_redis = Map.empty, w_bus = [], w_metrics = [],
     w_calls = 0\<rparr>"

section \<open>The environment\<close>

datatype fault = NoFault | Lost goerr | Late goerr

text \<open>Why PostgreSQL rejects a statement; a conflict names every unique constraint it violates.\<close>

datatype pg_rejection = UniqueViolation "string list" | InvalidUUID string | InvalidText

record env =
  e_pg_fault :: "nat \<Rightarrow> fault"
  e_rows_fault :: "nat \<Rightarrow> goerr option"
  e_redis_fault :: "nat \<Rightarrow> fault"
  e_bus_fault :: "nat \<Rightarrow> fault"
  e_file_url :: "nat \<Rightarrow> string \<Rightarrow> goerr + string"
  e_clock :: "nat \<Rightarrow> time"
  e_uuid :: "string \<rightharpoonup> string"
  e_text_ok :: "string \<Rightarrow> bool"
  e_reject :: "pg_rejection \<Rightarrow> goerr"
  e_wrap :: "nat \<Rightarrow> string \<Rightarrow> string \<Rightarrow> goerr + string"
  e_unwrap :: "string \<Rightarrow> goerr + string"

definition fault_error :: "fault \<Rightarrow> goerr option" where
  "fault_error f = (case f of NoFault \<Rightarrow> None | Lost e \<Rightarrow> Some e | Late e \<Rightarrow> Some e)"

text \<open>
  One call to an external system: it is counted, and the fault the environment injects at this
  point decides whether the action happens and whether its result arrives.
\<close>

definition ext_call :: "(nat \<Rightarrow> fault) \<Rightarrow> (goerr, 'a, world) io \<Rightarrow> (goerr, 'a, world) io" where
  "ext_call faults act w =
    (let w1 = w\<lparr>w_calls := Suc (w_calls w)\<rparr> in
     case faults (w_calls w) of
       NoFault \<Rightarrow> act w1
     | Lost e \<Rightarrow> (Inl e, w1)
     | Late e \<Rightarrow> (Inl e, snd (act w1)))"

definition observe :: "metric \<Rightarrow> world \<Rightarrow> world" where
  "observe m w = w\<lparr>w_metrics := w_metrics w @ [m]\<rparr>"

text \<open>The error variables of the libraries that the code compares with.\<close>

definition sql_ErrNoRows :: goerr where
  "sql_ErrNoRows = Sentinel ''sql'' ''sql: no rows in result set''"

definition redis_Nil :: goerr where
  "redis_Nil = Sentinel ''redis'' ''redis: nil''"

section \<open>Documented behaviour of the environment\<close>

text \<open>
  The canonical text of a UUID reads as itself. An error the environment injects is neither the
  no-rows nor the key-missing marker, which only an answered request returns. TEXT values are
  well-formed UTF-8, and so is every string of a gRPC reply.
\<close>

definition env_ok :: "(string \<Rightarrow> bool) \<Rightarrow> env \<Rightarrow> bool" where
  "env_ok valid E \<longleftrightarrow>
     (\<forall>i u. e_uuid E i = Some u \<longrightarrow> e_uuid E u = Some u \<and> valid u) \<and>
     e_text_ok E [] \<and> (\<forall>s. e_text_ok E s \<longrightarrow> valid s) \<and>
     (\<forall>n e. fault_error (e_pg_fault E n) = Some e \<longrightarrow> \<not> errors_is e sql_ErrNoRows) \<and>
     (\<forall>r. \<not> errors_is (e_reject E r) sql_ErrNoRows) \<and>
     (\<forall>n e. fault_error (e_redis_fault E n) = Some e \<longrightarrow> \<not> errors_is e ErrUserNotFound \<and> e \<noteq> redis_Nil) \<and>
     (\<forall>n f u. e_file_url E n f = Inr u \<longrightarrow> valid u)"

lemma env_okD:
  assumes "env_ok valid E"
  shows "e_uuid E i = Some u \<Longrightarrow> e_uuid E u = Some u"
    and "e_uuid E i = Some u \<Longrightarrow> valid u"
    and "e_text_ok E []"
    and "e_text_ok E s \<Longrightarrow> valid s"
    and "fault_error (e_pg_fault E n) = Some e \<Longrightarrow> \<not> errors_is e sql_ErrNoRows"
    and "\<not> errors_is (e_reject E r) sql_ErrNoRows"
    and "fault_error (e_redis_fault E n) = Some e \<Longrightarrow> \<not> errors_is e ErrUserNotFound"
    and "fault_error (e_redis_fault E n) = Some e \<Longrightarrow> e \<noteq> redis_Nil"
    and "e_file_url E n f = Inr y \<Longrightarrow> valid y"
  using assms by (auto simp: env_ok_def)

section \<open>Reasoning about calls\<close>

lemma ext_call_cases:
  assumes "ext_call faults act w = (r, w')"
  obtains (answered) "act (w\<lparr>w_calls := Suc (w_calls w)\<rparr>) = (r, w')" "faults (w_calls w) = NoFault"
    | (lost) e where "fault_error (faults (w_calls w)) = Some e" "r = Inl e"
        "w' = w\<lparr>w_calls := Suc (w_calls w)\<rparr>"
    | (late) e where "fault_error (faults (w_calls w)) = Some e" "r = Inl e"
        "w' = snd (act (w\<lparr>w_calls := Suc (w_calls w)\<rparr>))"
proof (cases "faults (w_calls w)")
  case NoFault
  with assms show ?thesis by (intro answered) (simp_all add: ext_call_def)
next
  case (Lost e)
  with assms show ?thesis by (intro lost [of e]) (simp_all add: ext_call_def fault_error_def)
next
  case (Late e)
  with assms show ?thesis by (intro late [of e]) (simp_all add: ext_call_def fault_error_def)
qed

text \<open>A call without fault is the action.\<close>

lemma ext_call_NoFault:
  "faults (w_calls w) = NoFault \<Longrightarrow> ext_call faults act w = act (w\<lparr>w_calls := Suc (w_calls w)\<rparr>)"
  by (simp add: ext_call_def)

lemma observe_simps [simp, frame_simps]:
  "w_users (observe m w) = w_users w" "w_outbox (observe m w) = w_outbox w"
  "w_redis (observe m w) = w_redis w" "w_bus (observe m w) = w_bus w"
  "w_calls (observe m w) = w_calls w" "w_metrics (observe m w) = w_metrics w @ [m]"
  by (simp_all add: observe_def)

text \<open>
  A part \<open>f\<close> of the world that the action and the call counter leave alone is left alone by the
  call, whatever fault occurs.
\<close>

lemma ext_call_frame:
  assumes "\<And>v. f (snd (act v)) = f v" and "\<And>v n. f (v\<lparr>w_calls := n\<rparr>) = f v"
  shows "f (snd (ext_call faults act w)) = f w"
proof -
  have "f (snd (act (w\<lparr>w_calls := Suc (w_calls w)\<rparr>))) = f w"
    by (simp only: assms)
  moreover have "f (w\<lparr>w_calls := Suc (w_calls w)\<rparr>) = f w"
    by (rule assms(2))
  ultimately show ?thesis
    by (cases "faults (w_calls w)") (simp_all only: ext_call_def Let_def fault.case snd_conv)
qed

end
