(* ===== verification/GoJson.thy ===== *)
theory GoJson
  imports GoErrors
begin

text \<open>
  The part of encoding/json the program uses: Marshal of structs of strings and booleans, and
  Unmarshal of a whole document into such a struct.

  Encoding escapes as the encoder does with HTML escaping on: the quote, the backslash, control
  characters, the characters less-than, greater-than and ampersand, U+2028 and U+2029; an
  invalid UTF-8 byte becomes the escape of U+FFFD. Decoding is a recursive-descent parser over the
  whole grammar, with the decoder's treatment of escapes, surrogate pairs and invalid
  bytes. The parser spends one unit of fuel per nested call, and starts with one more than
  twice the length of the input; \<open>parse_fuel_enough\<close> shows that more fuel never changes a result. The decoder's
  limit of 10000 nested values is not modelled, nor are the texts of its errors.

  Unmarshal into a struct sets the fields whose names match up to the decoder's case folding, a
  later member overriding an earlier one, a null leaving the field, a value of another type
  making the whole call fail; members that match no field are skipped.
\<close>

section \<open>UTF-8\<close>

definition in_range :: "nat \<Rightarrow> nat \<Rightarrow> char \<Rightarrow> bool" where
  "in_range lo hi c \<longleftrightarrow> lo \<le> code c \<and> code c \<le> hi"

abbreviation tail_byte :: "char \<Rightarrow> bool" where
  "tail_byte \<equiv> in_range 0x80 0xBF"

text \<open>
  The length of the well-formed encoding a non-empty string starts with, 0 when it starts with
  none. The ranges of the second byte exclude overlong forms, surrogates and code points beyond
  U+10FFFF.
\<close>

definition second_ok :: "char \<Rightarrow> char \<Rightarrow> bool" where
  "second_ok a b =
    (if code a = 0xE0 then in_range 0xA0 0xBF b
     else if code a = 0xED then in_range 0x80 0x9F b
     else if code a = 0xF0 then in_range 0x90 0xBF b
     else if code a = 0xF4 then in_range 0x80 0x8F b
     else tail_byte b)"

fun utf8_len :: "string \<Rightarrow> nat" where
  "utf8_len [] = 0"
| "utf8_len (a # s) =
    (if code a < 0x80 then 1
     else if in_range 0xC2 0xDF a then
       (case s of b # _ \<Rightarrow> if tail_byte b then 2 else 0 | _ \<Rightarrow> 0)
     else if in_range 0xE0 0xEF a then
       (case s of b # c # _ \<Rightarrow> if second_ok a b \<and> tail_byte c then 3 else 0 | _ \<Rightarrow> 0)
     else if in_range 0xF0 0xF4 a then
       (case s of b # c # d # _ \<Rightarrow>
          if second_ok a b \<and> tail_byte c \<and> tail_byte d then 4 else 0 | _ \<Rightarrow> 0)
     else 0)"

lemma utf8_len_le: "utf8_len s \<le> length s"
  by (cases s) (auto split: list.splits)

lemma utf8_len_app: "utf8_len s > 0 \<Longrightarrow> utf8_len (s @ t) = utf8_len s"
  by (cases s) (auto split: list.splits if_splits)

lemma utf8_len_take: "utf8_len s > 0 \<Longrightarrow> utf8_len (take (utf8_len s) s @ t) = utf8_len s"
  by (cases s) (auto simp: numeral_2_eq_2 numeral_3_eq_3 eval_nat_numeral split: list.splits if_splits)

function utf8_valid :: "string \<Rightarrow> bool" where
  "utf8_valid s =
    (if s = [] then True else if utf8_len s = 0 then False else utf8_valid (drop (utf8_len s) s))"
  by pat_completeness auto
termination
  by (relation "measure length") auto

declare utf8_valid.simps [simp del] utf8_len.simps(2) [simp del]

lemma utf8_valid_Nil [simp]: "utf8_valid []"
  by (simp add: utf8_valid.simps)

lemma utf8_valid_ascii: "list_all (\<lambda>c. code c < 128) s \<Longrightarrow> utf8_valid s"
  by (induction s) (auto simp: utf8_valid.simps [of "_ # _"] utf8_len.simps)

text \<open>The encoding of a code point (at most 0x10FFFF and no surrogate).\<close>

definition utf8_encode :: "nat \<Rightarrow> string" where
  "utf8_encode n =
    (if n < 0x80 then [byte n]
     else if n < 0x800 then [byte (0xC0 + n div 64), byte (0x80 + n mod 64)]
     else if n < 0x10000 then
       [byte (0xE0 + n div 4096), byte (0x80 + n div 64 mod 64), byte (0x80 + n mod 64)]
     else [byte (0xF0 + n div 262144), byte (0x80 + n div 4096 mod 64),
           byte (0x80 + n div 64 mod 64), byte (0x80 + n mod 64)])"

definition replacement :: string where
  "replacement = [CHR 0xEF, CHR 0xBF, CHR 0xBD]"

section \<open>Encoding\<close>

definition u_escape :: "nat \<Rightarrow> string" where
  "u_escape n = [CHR 0x5C, CHR ''u'', hex_digit (n div 4096), hex_digit (n div 256 mod 16),
     hex_digit (n div 16 mod 16), hex_digit (n mod 16)]"

definition esc_ascii :: "char \<Rightarrow> string" where
  "esc_ascii c =
    (if c = CHR 0x22 \<or> c = CHR 0x5C then [CHR 0x5C, c]
     else if c = CHR 0x08 then [CHR 0x5C, CHR ''b'']
     else if c = CHR 0x0C then [CHR 0x5C, CHR ''f'']
     else if c = CHR 0x0A then [CHR 0x5C, CHR ''n'']
     else if c = CHR 0x0D then [CHR 0x5C, CHR ''r'']
     else if c = CHR 0x09 then [CHR 0x5C, CHR ''t'']
     else if code c < 32 \<or> c = CHR ''<'' \<or> c = CHR ''>'' \<or> c = CHR ''&'' then u_escape (code c)
     else [c])"

definition line_sep :: "string \<Rightarrow> nat option" where
  "line_sep r = (if r = [CHR 0xE2, CHR 0x80, CHR 0xA8] then Some 0x2028
                 else if r = [CHR 0xE2, CHR 0x80, CHR 0xA9] then Some 0x2029 else None)"

definition esc_rune :: "string \<Rightarrow> string" where
  "esc_rune r = (case line_sep r of Some n \<Rightarrow> u_escape n | None \<Rightarrow> r)"

function esc :: "string \<Rightarrow> string" where
  "esc [] = []"
| "esc (c # cs) =
    (if code c < 0x80 then esc_ascii c @ esc cs
     else if utf8_len (c # cs) = 0 then u_escape 0xFFFD @ esc cs
     else esc_rune (take (utf8_len (c # cs)) (c # cs)) @ esc (drop (utf8_len (c # cs)) (c # cs)))"
  by pat_completeness auto
termination
  by (relation "measure length") auto

declare esc.simps(2) [simp del]

definition enc_string :: "string \<Rightarrow> string" where
  "enc_string s = CHR 0x22 # esc s @ [CHR 0x22]"

datatype json = JNull | JBool bool | JNum string | JStr string
  | JArr "json list" | JObj "(string \<times> json) list"

fun join_comma :: "string list \<Rightarrow> string" where
  "join_comma [] = []"
| "join_comma [x] = x"
| "join_comma (x # y # ys) = x @ CHR '','' # join_comma (y # ys)"

fun enc :: "json \<Rightarrow> string" where
  "enc JNull = ''null''"
| "enc (JBool b) = (if b then ''true'' else ''false'')"
| "enc (JNum n) = n"
| "enc (JStr s) = enc_string s"
| "enc (JArr vs) = CHR 0x5B # join_comma (map enc vs) @ [CHR 0x5D]"
| "enc (JObj kvs) = CHR 0x7B # join_comma (map (\<lambda>(k, v). enc_string k @ CHR '':'' # enc v) kvs) @ [CHR 0x7D]"

section \<open>Decoding\<close>

definition hexval :: "char \<Rightarrow> nat option" where
  "hexval c =
    (let n = code c in
     if 48 \<le> n \<and> n \<le> 57 then Some (n - 48)
     else if 97 \<le> n \<and> n \<le> 102 then Some (n - 87)
     else if 65 \<le> n \<and> n \<le> 70 then Some (n - 55)
     else None)"

fun hex4 :: "string \<Rightarrow> (nat \<times> string) option" where
  "hex4 (a # b # c # d # r) =
    (case (hexval a, hexval b, hexval c, hexval d) of
       (Some w, Some x, Some y, Some z) \<Rightarrow> Some (4096 * w + 256 * x + 16 * y + z, r)
     | _ \<Rightarrow> None)"
| "hex4 _ = None"

definition surrogate :: "nat \<Rightarrow> bool" where
  "surrogate n \<longleftrightarrow> 0xD800 \<le> n \<and> n < 0xE000"

text \<open>
  The code point of an escape already read as \<open>n\<close>, and what is left: a high surrogate takes the
  low one that follows, any other surrogate is U+FFFD.
\<close>

definition escaped_rune :: "nat \<Rightarrow> string \<Rightarrow> nat \<times> string" where
  "escaped_rune n r =
    (if surrogate n then
       (case r of
          p # q # r' \<Rightarrow>
            if p = CHR 0x5C \<and> q = CHR ''u'' then
              (case hex4 r' of
                 Some (m, r'') \<Rightarrow>
                   if n < 0xDC00 \<and> 0xDC00 \<le> m \<and> m < 0xE000
                   then (0x10000 + (n - 0xD800) * 1024 + (m - 0xDC00), r'')
                   else (0xFFFD, r)
               | None \<Rightarrow> (0xFFFD, r))
            else (0xFFFD, r)
        | _ \<Rightarrow> (0xFFFD, r))
     else (n, r))"

definition simple_escape :: "char \<Rightarrow> char option" where
  "simple_escape e =
    (if e = CHR 0x22 \<or> e = CHR 0x5C \<or> e = CHR ''/'' then Some e
     else if e = CHR ''b'' then Some (CHR 0x08)
     else if e = CHR ''f'' then Some (CHR 0x0C)
     else if e = CHR ''n'' then Some (CHR 0x0A)
     else if e = CHR ''r'' then Some (CHR 0x0D)
     else if e = CHR ''t'' then Some (CHR 0x09)
     else None)"

text \<open>What one step of a string literal yields (the bytes it stands for) and what is left.\<close>

fun unquote_step :: "string \<Rightarrow> (string \<times> string) option" where
  "unquote_step [] = None"
| "unquote_step (c # cs) =
    (if c = CHR 0x5C then
       (case cs of
          [] \<Rightarrow> None
        | e # r \<Rightarrow>
            if e = CHR ''u'' then
              (case hex4 r of
                 None \<Rightarrow> None
               | Some (n, r') \<Rightarrow>
                   (case escaped_rune n r' of (m, r'') \<Rightarrow> Some (utf8_encode m, r'')))
            else (case simple_escape e of None \<Rightarrow> None | Some d \<Rightarrow> Some ([d], r)))
     else if code c < 32 then None
     else if utf8_len (c # cs) = 0 then Some (replacement, cs)
     else Some (take (utf8_len (c # cs)) (c # cs), drop (utf8_len (c # cs)) (c # cs)))"

declare unquote_step.simps(2) [simp del]

lemma hex4_shorter: "hex4 r = Some (n, r') \<Longrightarrow> length r' < length r"
  by (cases r rule: hex4.cases) (auto split: option.splits)

lemma escaped_rune_le: "escaped_rune n r = (m, r') \<Longrightarrow> length r' \<le> length r"
  by (auto simp: escaped_rune_def split: list.splits if_splits option.splits dest!: hex4_shorter)

lemma unquote_step_shorter: "unquote_step s = Some (b, r) \<Longrightarrow> length r < length s"
  by (cases s)
    (auto simp: unquote_step.simps split: list.splits if_splits option.splits prod.splits
      dest!: hex4_shorter escaped_rune_le)

function unquote :: "string \<Rightarrow> (string \<times> string) option" where
  "unquote s =
    (case s of
       [] \<Rightarrow> None
     | c # cs \<Rightarrow>
         if c = CHR 0x22 then Some ([], cs)
         else (case unquote_step s of
                 None \<Rightarrow> None
               | Some (b, r) \<Rightarrow> map_option (\<lambda>(t, r'). (b @ t, r')) (unquote r)))"
  by pat_completeness auto
termination
  by (relation "measure length") (auto dest: unquote_step_shorter)

declare unquote.simps [simp del]


subsection \<open>Values\<close>

definition json_ws :: "char \<Rightarrow> bool" where
  "json_ws c \<longleftrightarrow> c = CHR '' '' \<or> c = CHR 0x09 \<or> c = CHR 0x0A \<or> c = CHR 0x0D"

definition skip_ws :: "string \<Rightarrow> string" where
  "skip_ws s = dropWhile json_ws s"

definition is_digit :: "char \<Rightarrow> bool" where
  "is_digit c \<longleftrightarrow> in_range 48 57 c"

text \<open>A number literal: sign, integer part without leading zeros, fraction, exponent.\<close>

definition int_part :: "string \<Rightarrow> (string \<times> string) option" where
  "int_part s =
    (case s of
       [] \<Rightarrow> None
     | c # cs \<Rightarrow>
         if c = CHR ''0'' then Some ([c], cs)
         else if is_digit c then Some (takeWhile is_digit s, dropWhile is_digit s)
         else None)"

definition digit_run :: "string \<Rightarrow> (string \<times> string) option" where
  "digit_run s = (if takeWhile is_digit s = [] then None
                  else Some (takeWhile is_digit s, dropWhile is_digit s))"

definition frac_part :: "string \<Rightarrow> (string \<times> string) option" where
  "frac_part s =
    (case s of
       c # cs \<Rightarrow> if c = CHR ''.'' then map_option (\<lambda>(d, r). (c # d, r)) (digit_run cs) else Some ([], s)
     | [] \<Rightarrow> Some ([], s))"

definition exp_part :: "string \<Rightarrow> (string \<times> string) option" where
  "exp_part s =
    (case s of
       c # cs \<Rightarrow>
         if c = CHR ''e'' \<or> c = CHR ''E'' then
           (case cs of
              d # ds \<Rightarrow>
                if d = CHR ''+'' \<or> d = CHR ''-''
                then map_option (\<lambda>(x, r). (c # d # x, r)) (digit_run ds)
                else map_option (\<lambda>(x, r). (c # x, r)) (digit_run cs)
            | [] \<Rightarrow> None)
         else Some ([], s)
     | [] \<Rightarrow> Some ([], s))"

definition unsigned_number :: "string \<Rightarrow> (string \<times> string) option" where
  "unsigned_number s =
    (case int_part s of
       None \<Rightarrow> None
     | Some (i, r1) \<Rightarrow>
         (case frac_part r1 of
            None \<Rightarrow> None
          | Some (f, r2) \<Rightarrow> map_option (\<lambda>(e, r3). (i @ f @ e, r3)) (exp_part r2)))"

definition parse_number :: "string \<Rightarrow> (json \<times> string) option" where
  "parse_number s =
    (case s of
       c # cs \<Rightarrow>
         if c = CHR ''-'' then map_option (\<lambda>(n, r). (JNum (c # n), r)) (unsigned_number cs)
         else map_option (\<lambda>(n, r). (JNum n, r)) (unsigned_number s)
     | [] \<Rightarrow> None)"

definition parse_literal :: "string \<Rightarrow> (json \<times> string) option" where
  "parse_literal s =
    (if HasPrefix s ''true'' then Some (JBool True, drop 4 s)
     else if HasPrefix s ''false'' then Some (JBool False, drop 5 s)
     else if HasPrefix s ''null'' then Some (JNull, drop 4 s)
     else parse_number s)"

text \<open>
  Values, the members of an object from the first key on, and the elements of an array from the
  first element on.
\<close>

fun parse_value :: "nat \<Rightarrow> string \<Rightarrow> (json \<times> string) option"
  and parse_members :: "nat \<Rightarrow> string \<Rightarrow> ((string \<times> json) list \<times> string) option"
  and parse_elems :: "nat \<Rightarrow> string \<Rightarrow> (json list \<times> string) option"
where
  "parse_value 0 s = None"
| "parse_value (Suc n) s =
    (case skip_ws s of
       [] \<Rightarrow> None
     | c # cs \<Rightarrow>
         if c = CHR 0x22 then map_option (\<lambda>(t, r). (JStr t, r)) (unquote cs)
         else if c = CHR 0x7B then
           (case skip_ws cs of
              [] \<Rightarrow> None
            | d # ds \<Rightarrow>
                if d = CHR 0x7D then Some (JObj [], ds)
                else map_option (\<lambda>(kvs, r). (JObj kvs, r)) (parse_members n (d # ds)))
         else if c = CHR 0x5B then
           (case skip_ws cs of
              [] \<Rightarrow> None
            | d # ds \<Rightarrow>
                if d = CHR 0x5D then Some (JArr [], ds)
                else map_option (\<lambda>(vs, r). (JArr vs, r)) (parse_elems n (d # ds)))
         else parse_literal (c # cs))"
| "parse_members 0 s = None"
| "parse_members (Suc n) s =
    (case skip_ws s of
       [] \<Rightarrow> None
     | c # cs \<Rightarrow>
         if c \<noteq> CHR 0x22 then None
         else (case unquote cs of
             None \<Rightarrow> None
           | Some (k, r) \<Rightarrow>
               (case skip_ws r of
                  [] \<Rightarrow> None
                | d # ds \<Rightarrow>
                    if d \<noteq> CHR '':'' then None
                    else (case parse_value n ds of
                        None \<Rightarrow> None
                      | Some (v, r') \<Rightarrow>
                          (case skip_ws r' of
                             [] \<Rightarrow> None
                           | e # es \<Rightarrow>
                               if e = CHR 0x7D then Some ([(k, v)], es)
                               else if e = CHR '','' then
                                 map_option (\<lambda>(kvs, r''). ((k, v) # kvs, r'')) (parse_members n es)
                               else None)))))"
| "parse_elems 0 s = None"
| "parse_elems (Suc n) s =
    (case parse_value n s of
       None \<Rightarrow> None
     | Some (v, r) \<Rightarrow>
         (case skip_ws r of
            [] \<Rightarrow> None
          | e # es \<Rightarrow>
              if e = CHR 0x5D then Some ([v], es)
              else if e = CHR '','' then
                map_option (\<lambda>(vs, r'). (v # vs, r')) (parse_elems n es)
              else None))"

definition parse_json :: "string \<Rightarrow> json option" where
  "parse_json s =
    (case parse_value (Suc (2 * length s)) s of
       Some (v, r) \<Rightarrow> if skip_ws r = [] then Some v else None
     | None \<Rightarrow> None)"

declare parse_value.simps(2) [simp del] parse_members.simps(2) [simp del]
  parse_elems.simps(2) [simp del]

section \<open>Reading back what was written\<close>

lemma unquote_end: "unquote (CHR 0x22 # r) = Some ([], r)"
  by (simp add: unquote.simps)

lemma unquote_step_app:
  assumes "unquote_step s = Some (b, r)" and "s \<noteq> []" and "hd s \<noteq> CHR 0x22"
  shows "unquote s = map_option (\<lambda>(t, r'). (b @ t, r')) (unquote r)"
proof (cases s)
  case (Cons c cs)
  with assms show ?thesis by (subst unquote.simps) simp
qed (use assms in simp)

lemma hexval_hex_digit: "n < 16 \<Longrightarrow> hexval (hex_digit n) = Some n"
  by (auto simp: hexval_def hex_digit_def less_Suc_eq numeral_eq_Suc)

lemma hex4_u_escape:
  "n < 65536 \<Longrightarrow> hex4 (drop 2 (u_escape n) @ r) = Some (n, r)"
proof -
  assume "n < 65536"
  then have "n div 4096 < 16" by linarith
  moreover have "4096 * (n div 4096) + 256 * (n div 256 mod 16) + 16 * (n div 16 mod 16) + n mod 16 = n"
  proof -
    have "n = 16 * (n div 16) + n mod 16" by simp
    moreover have "n div 16 = 16 * (n div 256) + n div 16 mod 16"
      using mult_div_mod_eq [of 16 "n div 16"] by (simp add: div_mult2_eq [symmetric])
    moreover have "n div 256 = 16 * (n div 4096) + n div 256 mod 16"
      using mult_div_mod_eq [of 16 "n div 256"] by (simp add: div_mult2_eq [symmetric])
    ultimately show ?thesis by linarith
  qed
  ultimately show ?thesis
    by (simp add: u_escape_def hexval_hex_digit)
qed

lemma unquote_step_u_escape:
  assumes "n < 65536" and "\<not> surrogate n"
  shows "unquote_step (u_escape n @ r) = Some (utf8_encode n, r)"
  using hex4_u_escape [OF assms(1), of r] assms(2)
  by (simp add: unquote_step.simps u_escape_def escaped_rune_def)

lemma utf8_encode_ascii: "code c < 128 \<Longrightarrow> utf8_encode (code c) = [c]"
  by (simp add: utf8_encode_def)

lemma esc_ascii_step:
  assumes "code c < 128"
  shows "unquote_step (esc_ascii c @ r) = Some ([c], r)"
proof -
  have "\<not> surrogate (code c)" using assms by (simp add: surrogate_def)
  then show ?thesis
    using unquote_step_u_escape [of "code c" r] assms
    by (auto simp: esc_ascii_def unquote_step.simps simple_escape_def utf8_len.simps
        utf8_encode_ascii)
qed

lemma esc_ascii_hd [simp]: "esc_ascii c \<noteq> []" "hd (esc_ascii c) \<noteq> CHR 0x22"
  by (auto simp: esc_ascii_def u_escape_def)

lemma utf8_encode_seps:
  "utf8_encode 0x2028 = [CHR 0xE2, CHR 0x80, CHR 0xA8]"
  "utf8_encode 0x2029 = [CHR 0xE2, CHR 0x80, CHR 0xA9]"
  by (simp_all add: utf8_encode_def char_of_eq_iff take_bit_eq_mod)

lemma esc_rune_step:
  assumes "utf8_len s > 0" and "s \<noteq> []" and "code (hd s) \<ge> 128"
  shows "unquote_step (esc_rune (take (utf8_len s) s) @ r) = Some (take (utf8_len s) s, r)"
proof (cases "line_sep (take (utf8_len s) s)")
  case None
  from assms(1,2) obtain c cs where s: "take (utf8_len s) s = c # cs" "c = hd s"
    by (cases s) (auto simp: take_Cons')
  have "utf8_len ((c # cs) @ r) = utf8_len s"
    using utf8_len_take [OF assms(1), of r] s by simp
  moreover have "c \<noteq> CHR 0x5C" "\<not> code c < 32"
    using assms(3) s(2) by auto
  moreover have len: "utf8_len s = Suc (length cs)"
    using utf8_len_le [of s] arg_cong [OF s(1), of length] by simp
  ultimately show ?thesis
    using None s by (simp add: esc_rune_def unquote_step.simps)
next
  case (Some n)
  then have "n < 65536" "\<not> surrogate n" "utf8_encode n = take (utf8_len s) s"
    by (auto simp: line_sep_def surrogate_def utf8_encode_seps split: if_splits)
  with Some show ?thesis
    by (simp add: esc_rune_def unquote_step_u_escape)
qed

lemma esc_rune_hd:
  assumes "utf8_len s > 0" and "s \<noteq> []" and "code (hd s) \<ge> 128"
  shows "esc_rune (take (utf8_len s) s) \<noteq> []" "hd (esc_rune (take (utf8_len s) s)) \<noteq> CHR 0x22"
  using assms by (cases s; auto simp: esc_rune_def u_escape_def take_Cons' split: option.splits)+

text \<open>Reading back an escaped string gives the string, when it is well-formed UTF-8.\<close>

lemma unquote_esc:
  "utf8_valid s \<Longrightarrow> unquote (esc s @ CHR 0x22 # r) = Some (s, r)"
proof (induction s rule: esc.induct)
  case 1
  show ?case by (simp add: unquote_end)
next
  case (2 c cs)
  let ?n = "utf8_len (c # cs)"
  from 2(4) have n: "?n > 0" and v: "utf8_valid (drop ?n (c # cs))"
    by (simp_all add: utf8_valid.simps [of "c # cs"] split: if_splits)
  show ?case
  proof (cases "code c < 0x80")
    case True
    then have "?n = 1" by (simp add: utf8_len.simps)
    with v True 2(1) have "unquote (esc cs @ CHR 0x22 # r) = Some (cs, r)" by simp
    with True show ?thesis
      using unquote_step_app [OF esc_ascii_step [OF True, of "esc cs @ CHR 0x22 # r"]]
      by (simp add: esc.simps(2))
  next
    case False
    let ?t = "esc (drop ?n (c # cs)) @ CHR 0x22 # r"
    have "unquote ?t = Some (drop ?n (c # cs), r)"
      using 2(3) [OF False] n v by simp
    then have "unquote (esc_rune (take ?n (c # cs)) @ ?t) = Some (take ?n (c # cs) @ drop ?n (c # cs), r)"
      using unquote_step_app [OF esc_rune_step [of "c # cs" ?t]] esc_rune_hd [of "c # cs"] False n
      by simp
    moreover have "esc (c # cs) = esc_rune (take ?n (c # cs)) @ esc (drop ?n (c # cs))"
      using False n by (simp add: esc.simps(2))
    ultimately show ?thesis by (simp only: append_assoc append_take_drop_id)
  qed
qed

lemma skip_ws_id: "s = [] \<or> \<not> json_ws (hd s) \<Longrightarrow> skip_ws s = s"
  by (cases s) (auto simp: skip_ws_def)

lemma skip_ws_Cons: "\<not> json_ws c \<Longrightarrow> skip_ws (c # s) = c # s"
  by (simp add: skip_ws_def)

lemma json_ws_punct [simp]:
  "\<not> json_ws (CHR 0x22)" "\<not> json_ws (CHR 0x7B)" "\<not> json_ws (CHR 0x7D)" "\<not> json_ws (CHR '':'')"
  "\<not> json_ws (CHR '','')" "\<not> json_ws (CHR ''t'')" "\<not> json_ws (CHR ''f'')" "\<not> json_ws (CHR ''n'')"
  "\<not> json_ws (CHR 0x5B)" "\<not> json_ws (CHR 0x5D)"
  by (simp_all add: json_ws_def)

text \<open>Scalars: the values a field of the program's structs holds.\<close>

fun scalar :: "json \<Rightarrow> bool" where
  "scalar (JStr s) = utf8_valid s"
| "scalar (JBool b) = True"
| "scalar JNull = True"
| "scalar _ = False"

lemma parse_enc_scalar:
  assumes "scalar v"
  shows "parse_value (Suc n) (enc v @ r) = Some (v, r)"
  using assms
  by (cases v)
    (auto simp: parse_value.simps(2) enc_string_def skip_ws_Cons unquote_esc parse_literal_def)

definition enc_member :: "string \<times> json \<Rightarrow> string" where
  "enc_member kv = enc_string (fst kv) @ CHR '':'' # enc (snd kv)"

lemma enc_JObj: "enc (JObj kvs) = CHR 0x7B # join_comma (map enc_member kvs) @ [CHR 0x7D]"
  by (simp add: enc_member_def [abs_def] case_prod_unfold)

lemma parse_members_enc:
  assumes "kvs \<noteq> []" and "\<forall>(k, v)\<in>set kvs. utf8_valid k \<and> scalar v" and "length kvs < n"
  shows "parse_members n (join_comma (map enc_member kvs) @ CHR 0x7D # r) = Some (kvs, r)"
  using assms
proof (induction kvs arbitrary: n)
  case Nil
  then show ?case by simp
next
  case (Cons kv kvs)
  obtain k v where kv: "kv = (k, v)" by fastforce
  from Cons.prems obtain m where n: "n = Suc (Suc m)" "length kvs < Suc m"
    by (cases n; cases "n - 1") auto
  have step: "parse_members n (enc_member kv @ t) =
      (case skip_ws t of
         [] \<Rightarrow> None
       | e # es \<Rightarrow> if e = CHR 0x7D then Some ([(k, v)], es)
           else if e = CHR '','' then map_option (\<lambda>(kvs, r''). ((k, v) # kvs, r'')) (parse_members (Suc m) es)
           else None)" for t
    using Cons.prems(2) parse_enc_scalar [of v m t]
    by (simp add: kv n parse_members.simps(2) enc_member_def enc_string_def skip_ws_Cons unquote_esc)
  show ?case
  proof (cases kvs)
    case Nil
    with step [of "CHR 0x7D # r"] show ?thesis by (simp add: kv skip_ws_Cons)
  next
    case (Cons kv' kvs')
    with Cons.IH [of "Suc m"] Cons.prems n
    have "parse_members (Suc m) (join_comma (map enc_member kvs) @ CHR 0x7D # r) = Some (kvs, r)"
      by simp
    with step [of "CHR '','' # join_comma (map enc_member kvs) @ CHR 0x7D # r"] Cons
    show ?thesis by (simp add: kv skip_ws_Cons)
  qed
qed

lemma length_join_comma: "length kvs \<le> length (join_comma (map enc_member kvs))"
proof -
  have "length xs \<le> length (join_comma xs)" if "\<forall>x\<in>set xs. x \<noteq> []" for xs :: "string list"
    using that by (induction xs rule: join_comma.induct) (auto simp: Suc_le_eq neq_Nil_conv)
  from this [of "map enc_member kvs"] show ?thesis
    by (simp add: enc_member_def enc_string_def)
qed

text \<open>A document made of a flat object is read back as that object.\<close>

lemma parse_enc_flat:
  assumes "\<forall>(k, v)\<in>set kvs. utf8_valid k \<and> scalar v"
  shows "parse_json (enc (JObj kvs)) = Some (JObj kvs)"
proof (cases kvs)
  case Nil
  then show ?thesis
    by (simp add: parse_json_def parse_value.simps(2) skip_ws_Cons eval_nat_numeral)
      (simp add: skip_ws_def)
next
  case (Cons kv kvs')
  let ?m = "join_comma (map enc_member kvs)"
  have "length kvs < 2 * length (enc (JObj kvs))"
    using length_join_comma [of kvs] by (simp add: enc_JObj del: enc.simps)
  then have "parse_members (2 * length (enc (JObj kvs))) (?m @ CHR 0x7D # []) = Some (kvs, [])"
    using parse_members_enc [OF _ assms] Cons by blast
  moreover obtain t where "?m @ [CHR 0x7D] = CHR 0x22 # t"
    using Cons by (cases kvs') (auto simp: enc_member_def enc_string_def)
  ultimately show ?thesis
    by (simp add: parse_json_def parse_value.simps(2) skip_ws_Cons enc_JObj del: enc.simps)
      (simp add: skip_ws_def)
qed

text \<open>More fuel than one unit per byte never changes what the parser returns.\<close>

lemma skip_ws_len: "skip_ws s = t \<Longrightarrow> length t \<le> length s"
  by (auto simp: skip_ws_def length_dropWhile_le)

lemma unquote_shorter: "unquote s = Some (t, r) \<Longrightarrow> length r < length s"
proof (induction s arbitrary: t rule: unquote.induct)
  case (1 s)
  show ?case
  proof (cases s)
    case Nil
    with 1 show ?thesis by (simp add: unquote.simps)
  next
    case (Cons c cs)
    show ?thesis
    proof (cases "c = CHR 0x22")
      case True
      with 1(2) Cons show ?thesis by (simp add: unquote.simps)
    next
      case False
      with 1(2) Cons obtain b q where "unquote_step s = Some (b, q)"
        and "\<exists>t'. unquote q = Some (t', r)"
        by (subst (asm) unquote.simps) (auto split: option.splits)
      with 1(1) [OF Cons False, of "(b, q)" b q] unquote_step_shorter [of s b q]
      show ?thesis by (auto simp: Cons dest: order.strict_trans)
    qed
  qed
qed

lemma digit_run_le: "digit_run s = Some (d, r) \<Longrightarrow> length r \<le> length s"
  by (auto simp: digit_run_def length_dropWhile_le split: if_splits)

lemma int_part_shorter: "int_part s = Some (d, r) \<Longrightarrow> length r < length s"
  by (cases s) (auto simp: int_part_def length_dropWhile_le less_Suc_eq_le split: if_splits)

lemma frac_part_le: "frac_part s = Some (d, r) \<Longrightarrow> length r \<le> length s"
  by (cases s) (auto simp: frac_part_def split: if_splits dest!: digit_run_le)

lemma exp_part_le: "exp_part s = Some (d, r) \<Longrightarrow> length r \<le> length s"
  by (cases s) (auto simp: exp_part_def split: if_splits list.splits dest!: digit_run_le)

lemma unsigned_number_shorter: "unsigned_number s = Some (d, r) \<Longrightarrow> length r < length s"
  by (auto simp: unsigned_number_def split: option.splits
      dest!: int_part_shorter frac_part_le exp_part_le)

lemma parse_literal_shorter: "parse_literal s = Some (v, r) \<Longrightarrow> length r < length s"
  by (cases s)
    (auto simp: parse_literal_def parse_number_def split: if_splits dest!: unsigned_number_shorter)

lemma parse_shorter_all:
  "(\<forall>s v r. parse_value n s = Some (v, r) \<longrightarrow> length r < length s) \<and>
   (\<forall>s kvs r. parse_members n s = Some (kvs, r) \<longrightarrow> length r < length s) \<and>
   (\<forall>s vs r. parse_elems n s = Some (vs, r) \<longrightarrow> length r < length s)"
proof (induction n)
  case 0
  show ?case by simp
next
  case (Suc n)
  note dests = skip_ws_len unquote_shorter parse_literal_shorter
    Suc [THEN conjunct1, rule_format] Suc [THEN conjunct2, THEN conjunct1, rule_format]
    Suc [THEN conjunct2, THEN conjunct2, rule_format]
  have "length r < length s" if "parse_value (Suc n) s = Some (v, r)" for s v r
    using that by (auto simp: parse_value.simps(2) split: list.splits if_splits dest!: dests)
  moreover have "length r < length s" if "parse_members (Suc n) s = Some (kvs, r)" for s kvs r
    using that
    by (auto simp: parse_members.simps(2) split: list.splits if_splits option.splits dest!: dests)
  moreover have "length r < length s" if "parse_elems (Suc n) s = Some (vs, r)" for s vs r
    using that
    by (auto simp: parse_elems.simps(2) split: list.splits if_splits option.splits dest!: dests)
  ultimately show ?case by blast
qed

lemmas parse_value_shorter = parse_shorter_all [THEN conjunct1, rule_format]
lemmas parse_members_shorter = parse_shorter_all [THEN conjunct2, THEN conjunct1, rule_format]
lemmas parse_elems_shorter = parse_shorter_all [THEN conjunct2, THEN conjunct2, rule_format]

lemma parse_fuel_all:
  "(\<forall>s. 2 * length s < n \<longrightarrow> parse_value (Suc n) s = parse_value n s) \<and>
   (\<forall>s. 2 * length s + 1 < n \<longrightarrow> parse_members (Suc n) s = parse_members n s) \<and>
   (\<forall>s. 2 * length s + 1 < n \<longrightarrow> parse_elems (Suc n) s = parse_elems n s)"
proof (induction n)
  case 0
  show ?case by simp
next
  case (Suc n)
  note IH = Suc [THEN conjunct1, rule_format] Suc [THEN conjunct2, THEN conjunct1, rule_format]
    Suc [THEN conjunct2, THEN conjunct2, rule_format]
  note dests = skip_ws_len unquote_shorter parse_value_shorter
  have "parse_value (Suc (Suc n)) s = parse_value (Suc n) s" if "2 * length s < Suc n" for s
    using that unfolding parse_value.simps(2)
    by (auto simp: IH split: list.splits dest!: skip_ws_len)
  moreover have "parse_members (Suc (Suc n)) s = parse_members (Suc n) s" if len: "2 * length s + 1 < Suc n" for s
  proof -
    have val: "parse_value (Suc n) ds = parse_value n ds"
      if "skip_ws s = c # cs" "unquote cs = Some (k, r)" "skip_ws r = d # ds" for c cs k r d ds
      using len skip_ws_len [OF that(1)] unquote_shorter [OF that(2)] skip_ws_len [OF that(3)]
      by (simp add: IH)
    have rest: "parse_members (Suc n) es = parse_members n es"
      if "skip_ws s = c # cs" "unquote cs = Some (k, r)" "skip_ws r = d # ds"
        "parse_value n ds = Some (v, r')" "skip_ws r' = e # es" for c cs k r d ds v r' e es
      using len skip_ws_len [OF that(1)] unquote_shorter [OF that(2)] skip_ws_len [OF that(3)]
        parse_value_shorter [OF that(4)] skip_ws_len [OF that(5)]
      by (simp add: IH)
    show ?thesis
      unfolding parse_members.simps(2) [of "Suc n" s] parse_members.simps(2) [of n s]
      by (simp add: val rest cong: if_cong split: list.split option.split)
  qed
  moreover have "parse_elems (Suc (Suc n)) s = parse_elems (Suc n) s" if "2 * length s + 1 < Suc n" for s
    using that unfolding parse_elems.simps(2) [of "Suc n" s] parse_elems.simps(2) [of n s]
    by (auto simp: IH split: list.splits option.splits dest!: dests)
  ultimately show ?case by blast
qed

text \<open>The fuel \<open>parse_json\<close> starts with is enough: more of it gives the same result.\<close>

lemma parse_fuel_enough:
  "2 * length s < n \<Longrightarrow> parse_value n s = parse_value (Suc (2 * length s)) s"
proof (induction n)
  case 0
  then show ?case by simp
next
  case (Suc n)
  show ?case
  proof (cases "2 * length s < n")
    case True
    then have "parse_value (Suc n) s = parse_value n s"
      using parse_fuel_all [of n, THEN conjunct1] by blast
    with Suc.IH [OF True] show ?thesis by simp
  next
    case False
    with Suc.prems have "n = 2 * length s" by simp
    then show ?thesis by simp
  qed
qed

section \<open>Structs\<close>

text \<open>
  The decoder's folding of member names: ASCII letters to upper case, U+017F to S and U+212A to K.
\<close>

fun fold_key :: "string \<Rightarrow> string" where
  "fold_key [] = []"
| "fold_key (c # cs) =
    (if c = CHR 0xC5 \<and> take 1 cs = [CHR 0xBF] then CHR ''S'' # fold_key (drop 1 cs)
     else if c = CHR 0xE2 \<and> take 2 cs = [CHR 0x84, CHR 0xAA] then CHR ''K'' # fold_key (drop 2 cs)
     else upper_char c # fold_key cs)"

declare fold_key.simps(2) [simp del]

definition key_matches :: "string \<Rightarrow> string \<Rightarrow> bool" where
  "key_matches f k \<longleftrightarrow> fold_key f = fold_key k"

type_synonym members = "(string \<times> json) list"

definition set_str :: "string \<Rightarrow> string \<Rightarrow> string \<times> json \<Rightarrow> string" where
  "set_str f acc kv =
    (if key_matches f (fst kv) then (case snd kv of JStr s \<Rightarrow> s | _ \<Rightarrow> acc) else acc)"

definition set_bool :: "string \<Rightarrow> bool \<Rightarrow> string \<times> json \<Rightarrow> bool" where
  "set_bool f acc kv =
    (if key_matches f (fst kv) then (case snd kv of JBool b \<Rightarrow> b | _ \<Rightarrow> acc) else acc)"

definition str_field :: "string \<Rightarrow> members \<Rightarrow> string" where
  "str_field f kvs = foldl (set_str f) [] kvs"

definition bool_field :: "string \<Rightarrow> members \<Rightarrow> bool" where
  "bool_field f kvs = foldl (set_bool f) False kvs"

definition is_str :: "json \<Rightarrow> bool" where
  "is_str v = (case v of JStr _ \<Rightarrow> True | JNull \<Rightarrow> True | _ \<Rightarrow> False)"

definition is_bool :: "json \<Rightarrow> bool" where
  "is_bool v = (case v of JBool _ \<Rightarrow> True | JNull \<Rightarrow> True | _ \<Rightarrow> False)"

definition member_ok :: "string list \<Rightarrow> string list \<Rightarrow> string \<times> json \<Rightarrow> bool" where
  "member_ok strs bools kv \<longleftrightarrow>
     (list_ex (\<lambda>f. key_matches f (fst kv)) strs \<longrightarrow> is_str (snd kv)) \<and>
     (list_ex (\<lambda>f. key_matches f (fst kv)) bools \<longrightarrow> is_bool (snd kv))"

definition json_syntax_error :: goerr where
  "json_syntax_error = Foreign ''json: syntax error''"

definition json_type_error :: goerr where
  "json_type_error = Foreign ''json: cannot unmarshal into Go value''"

text \<open>
  json.Unmarshal into a struct with the given string and boolean fields: the members to take
  field values from, or the error.
\<close>

definition unmarshal :: "string list \<Rightarrow> string list \<Rightarrow> string \<Rightarrow> goerr + members" where
  "unmarshal strs bools raw =
    (case parse_json raw of
       None \<Rightarrow> Inl json_syntax_error
     | Some JNull \<Rightarrow> Inr []
     | Some (JObj kvs) \<Rightarrow>
         if list_all (member_ok strs bools) kvs then Inr kvs else Inl json_type_error
     | Some _ \<Rightarrow> Inl json_type_error)"

text \<open>Names made of lower-case letters and underscores fold to different names.\<close>

definition plain_key :: "string \<Rightarrow> bool" where
  "plain_key s = list_all (\<lambda>c. c = CHR ''_'' \<or> 97 \<le> code c \<and> code c \<le> 122) s"

lemma fold_key_plain: "plain_key s \<Longrightarrow> fold_key s = map upper_char s"
  by (induction s) (auto simp: fold_key.simps plain_key_def)

lemma upper_char_inj:
  assumes "c = CHR ''_'' \<or> 97 \<le> code c \<and> code c \<le> 122"
    and "d = CHR ''_'' \<or> 97 \<le> code d \<and> code d \<le> 122"
  shows "upper_char c = upper_char d \<longleftrightarrow> c = d"
proof
  assume eq: "upper_char c = upper_char d"
  have "code (upper_char x) = (if x = CHR ''_'' then 95 else code x - 32)"
    if "x = CHR ''_'' \<or> 97 \<le> code x \<and> code x \<le> 122" for x
    using that by (auto simp: upper_char_def take_bit_eq_mod)
  from this [OF assms(1)] this [OF assms(2)] eq
  have "(if c = CHR ''_'' then 95 else code c - 32) = (if d = CHR ''_'' then 95 else code d - 32)"
    by metis
  then have "code c = code d"
    using assms by (cases "c = CHR ''_''"; cases "d = CHR ''_''") (auto simp del: of_char_eq_iff)
  then show "c = d" by simp
qed simp

lemma key_matches_plain:
  assumes "plain_key f" and "plain_key k"
  shows "key_matches f k \<longleftrightarrow> f = k"
proof -
  have "map upper_char f = map upper_char k \<longleftrightarrow> f = k"
    using assms unfolding plain_key_def
  proof (induction f arbitrary: k)
    case (Cons c f)
    then show ?case by (cases k) (auto simp: upper_char_inj)
  qed auto
  with assms show ?thesis by (simp add: key_matches_def fold_key_plain)
qed

lemma foldl_set_str_other:
  "\<forall>kv\<in>set kvs. \<not> key_matches f (fst kv) \<Longrightarrow> foldl (set_str f) acc kvs = acc"
  by (induction kvs arbitrary: acc) (auto simp: set_str_def)

lemma foldl_set_bool_other:
  "\<forall>kv\<in>set kvs. \<not> key_matches f (fst kv) \<Longrightarrow> foldl (set_bool f) acc kvs = acc"
  by (induction kvs arbitrary: acc) (auto simp: set_bool_def)

definition plain_members :: "members \<Rightarrow> bool" where
  "plain_members kvs \<longleftrightarrow> distinct (map fst kvs) \<and> list_all plain_key (map fst kvs)"

lemma str_field_member:
  assumes "plain_members kvs" and "(f, JStr s) \<in> set kvs"
  shows "str_field f kvs = s"
proof -
  obtain as bs where kvs: "kvs = as @ (f, JStr s) # bs"
    using assms(2) by (meson split_list)
  then have "f \<notin> fst ` set bs" "plain_key f" "\<forall>kv\<in>set bs. plain_key (fst kv)"
    using assms(1) by (auto simp: plain_members_def list_all_iff)
  then have "\<forall>kv\<in>set bs. \<not> key_matches f (fst kv)"
    by (metis key_matches_plain imageI)
  then show ?thesis
    by (simp add: str_field_def kvs foldl_set_str_other) (simp add: set_str_def key_matches_def)
qed

lemma bool_field_member:
  assumes "plain_members kvs" and "(f, JBool b) \<in> set kvs"
  shows "bool_field f kvs = b"
proof -
  obtain as bs where kvs: "kvs = as @ (f, JBool b) # bs"
    using assms(2) by (meson split_list)
  then have "f \<notin> fst ` set bs" "plain_key f" "\<forall>kv\<in>set bs. plain_key (fst kv)"
    using assms(1) by (auto simp: plain_members_def list_all_iff)
  then have "\<forall>kv\<in>set bs. \<not> key_matches f (fst kv)"
    by (metis key_matches_plain imageI)
  then show ?thesis
    by (simp add: bool_field_def kvs foldl_set_bool_other) (simp add: set_bool_def key_matches_def)
qed

text \<open>
  A struct of string and boolean fields, written by the encoder, is read back as the same
  members when its strings are well-formed UTF-8.
\<close>

definition typed_members :: "string list \<Rightarrow> string list \<Rightarrow> members \<Rightarrow> bool" where
  "typed_members strs bools kvs \<longleftrightarrow>
     list_all (\<lambda>(k, v). (k \<in> set strs \<and> is_str v) \<or> (k \<in> set bools \<and> is_bool v)) kvs"

lemma plain_key_valid: "plain_key k \<Longrightarrow> utf8_valid k"
proof (rule utf8_valid_ascii)
  assume k: "plain_key k"
  have "code c < 128" if "c \<in> set k" for c
  proof -
    have "c = CHR ''_'' \<or> code c \<le> 122"
      using k that by (auto simp: plain_key_def list_all_iff)
    then show ?thesis by (elim disjE) simp_all
  qed
  then show "list_all (\<lambda>c. code c < 128) k" by (simp add: list_all_iff)
qed

lemma unmarshal_enc:
  assumes "plain_members kvs" and "list_all scalar (map snd kvs)"
    and "list_all plain_key (strs @ bools)" and "set strs \<inter> set bools = {}"
    and "typed_members strs bools kvs"
  shows "unmarshal strs bools (enc (JObj kvs)) = Inr kvs"
proof -
  have "\<forall>(k, v)\<in>set kvs. utf8_valid k \<and> scalar v"
    using assms(1,2) by (force simp: plain_members_def list_all_iff intro: plain_key_valid)
  then have "parse_json (enc (JObj kvs)) = Some (JObj kvs)" by (rule parse_enc_flat)
  moreover have "member_ok strs bools (k, v)" if "(k, v) \<in> set kvs" for k v
  proof -
    have "plain_key k" using assms(1) that by (auto simp: plain_members_def list_all_iff)
    moreover have "\<forall>f\<in>set strs \<union> set bools. plain_key f"
      using assms(3) by (auto simp: list_all_iff)
    moreover have "(k \<in> set strs \<and> is_str v) \<or> (k \<in> set bools \<and> is_bool v)"
      using assms(5) that by (auto simp: typed_members_def list_all_iff)
    ultimately show ?thesis
      using assms(4) by (auto simp: member_ok_def list_ex_iff key_matches_plain)
  qed
  ultimately show ?thesis
    by (auto simp: unmarshal_def list_all_iff)
qed

section \<open>Well-formed strings\<close>

abbreviation ascii :: "string \<Rightarrow> bool" where
  "ascii \<equiv> list_all (\<lambda>c. code c < 128)"

lemma second_tail: "second_ok a b \<Longrightarrow> tail_byte b"
  by (auto simp: second_ok_def in_range_def split: if_splits)

text \<open>The bytes of a rune after the first are continuation bytes.\<close>

lemma utf8_len_cases:
  assumes "1 < utf8_len s"
  obtains a b r where "s = a # b # r" "utf8_len s = 2" "tail_byte b"
  | a b c r where "s = a # b # c # r" "utf8_len s = 3" "tail_byte b" "tail_byte c"
  | a b c d r where "s = a # b # c # d # r" "utf8_len s = 4" "tail_byte b" "tail_byte c" "tail_byte d"
proof (cases s)
  case (Cons a t)
  with assms that show ?thesis
    by (simp add: utf8_len.simps split: if_splits list.splits) (blast dest: second_tail)+
qed (use assms in simp)

lemma utf8_len_tail:
  assumes "0 < i" and "i < utf8_len s"
  shows "tail_byte (s ! i)"
proof -
  have "1 < utf8_len s" using assms by simp
  moreover have "i < 4 \<Longrightarrow> i = 1 \<or> i = 2 \<or> i = 3" using assms(1) by auto
  ultimately show ?thesis
    by (cases rule: utf8_len_cases) (use assms in \<open>auto simp: less_Suc_eq eval_nat_numeral\<close>)
qed

lemma utf8_valid_append: "utf8_valid a \<Longrightarrow> utf8_valid (a @ b) \<longleftrightarrow> utf8_valid b"
proof (induction a rule: utf8_valid.induct)
  case (1 s)
  show ?case
  proof (cases "s = []")
    case False
    with 1 have len: "0 < utf8_len s" "utf8_valid (drop (utf8_len s) s)"
      by (auto simp: utf8_valid.simps [of s] split: if_splits)
    with False 1 show ?thesis
      by (subst utf8_valid.simps) (simp add: utf8_len_app utf8_len_le)
  qed simp
qed

text \<open>A well-formed string cut before a byte that starts a rune is well-formed.\<close>

lemma utf8_valid_cut:
  "utf8_valid (t @ w) \<Longrightarrow> w \<noteq> [] \<Longrightarrow> \<not> tail_byte (hd w) \<Longrightarrow> utf8_valid t"
proof (induction t rule: length_induct)
  case (1 t)
  show ?case
  proof (cases "t = []")
    case False
    let ?n = "utf8_len (t @ w)"
    have n: "0 < ?n" "utf8_valid (drop ?n (t @ w))"
      using 1(2) False by (auto simp: utf8_valid.simps [of "t @ w"] split: if_splits)
    have le: "?n \<le> length t"
    proof (rule ccontr)
      assume "\<not> ?n \<le> length t"
      then have "tail_byte ((t @ w) ! length t)" using False by (intro utf8_len_tail) auto
      with 1(3,4) show False by (simp add: hd_conv_nth nth_append)
    qed
    then have t: "take ?n (t @ w) @ drop ?n t = t" by simp
    have "utf8_len t = ?n" using utf8_len_take [OF n(1), of "drop ?n t"] t by simp
    moreover have "utf8_valid (drop ?n t)" using 1 n le False by simp
    ultimately show ?thesis using n(1) by (simp add: utf8_valid.simps [of t])
  qed simp
qed

lemma space_rune_head: "w \<in> set space_runes \<Longrightarrow> w \<noteq> [] \<and> \<not> tail_byte (hd w) \<and> utf8_len w = length w"
  unfolding space_runes_def
  by (simp, elim disjE; simp add: in_range_def utf8_len.simps second_ok_def)

lemma lead_len_take:
  assumes "lead_len ws s \<noteq> 0" obtains w where "w \<in> set ws" "s = w @ drop (lead_len ws s) s"
  using assms
  by (auto simp: lead_len_def prefix_def split: option.splits dest!: find_Some_in)

lemma utf8_valid_TrimLeft: "utf8_valid s \<Longrightarrow> utf8_valid (TrimLeftSpace s)"
proof -
  have "utf8_valid s \<Longrightarrow> ws = space_runes \<Longrightarrow> utf8_valid (strip ws s)" for ws
  proof (induction ws s rule: strip.induct)
    case (1 ws s)
    show ?case
    proof (cases "lead_len ws s = 0 \<or> s = []")
      case True
      then have "strip ws s = s" by (simp add: strip.simps [of ws s])
      with 1 show ?thesis by simp
    next
      case False
      then obtain w where w: "w \<in> set space_runes" "s = w @ drop (lead_len ws s) s"
        using lead_len_take [of ws s] 1(3) by metis
      have "utf8_valid w"
        using space_rune_head [OF w(1)] by (simp add: utf8_valid.simps [of w])
      then have "utf8_valid (drop (lead_len ws s) s)"
        using utf8_valid_append w(2) 1(2) by metis
      moreover have "strip ws s = strip ws (drop (lead_len ws s) s)"
        using False by (simp add: strip.simps [of ws s])
      ultimately show ?thesis using 1 False by simp
    qed
  qed
  then show "utf8_valid s \<Longrightarrow> utf8_valid (TrimLeftSpace s)" by (simp add: TrimLeftSpace_def)
qed

lemma utf8_valid_TrimRight: "utf8_valid s \<Longrightarrow> utf8_valid (TrimRightSpace s)"
proof -
  have "utf8_valid (rev s) \<Longrightarrow> ws = map rev space_runes \<Longrightarrow> utf8_valid (rev (strip ws s))" for ws s
  proof (induction ws s rule: strip.induct)
    case (1 ws s)
    show ?case
    proof (cases "lead_len ws s = 0 \<or> s = []")
      case True
      then have "strip ws s = s" by (simp add: strip.simps [of ws s])
      with 1 show ?thesis by simp
    next
      case False
      then obtain w where w: "w \<in> set space_runes" "s = rev w @ drop (lead_len ws s) s"
        using lead_len_take [of ws s] 1(3) by (metis (no_types, lifting) image_iff list.set_map)
      then have "rev s = rev (drop (lead_len ws s) s) @ w" by (metis rev_append rev_rev_ident)
      then have "utf8_valid (rev (drop (lead_len ws s) s))"
        using utf8_valid_cut space_rune_head [OF w(1)] 1(2) by metis
      moreover have "strip ws s = strip ws (drop (lead_len ws s) s)"
        using False by (simp add: strip.simps [of ws s])
      ultimately show ?thesis using 1 False by simp
    qed
  qed
  from this [of "rev s"] show "utf8_valid s \<Longrightarrow> utf8_valid (TrimRightSpace s)"
    by (simp add: TrimRightSpace_def)
qed

lemma utf8_valid_TrimSpace [simp]: "utf8_valid s \<Longrightarrow> utf8_valid (TrimSpace s)"
  by (simp add: TrimSpace_def utf8_valid_TrimLeft utf8_valid_TrimRight)

end
