(* ===== verification/WriteRepo.thy ===== *)
theory WriteRepo
  imports World GoJson
begin

text \<open>
  The write model: package internal/infra/write/postgres with its mapper and row model, over the
  schema of migration/postgres.

  The statements of query.go are functions on the table: a list of rows in insertion order with
  the primary key and the unique user name checked on insert, every change appended to the
  outbox by the trigger of migration 5. A repository method issues its statement as one
  external call, records one metric, and passes a failure through the error translator.
\<close>

section \<open>Constructor errors and error wrappers\<close>

definition ErrNilPostgresDB :: goerr where
  "ErrNilPostgresDB = Sentinel ''postgres'' ''postgres db is nil''"

definition ErrNilDBErrorTranslator :: goerr where
  "ErrNilDBErrorTranslator = Sentinel ''postgres'' ''db error translator is nil''"

definition ErrNilLogger :: goerr where
  "ErrNilLogger = Sentinel ''postgres'' ''logger is nil''"

definition WrapCreateUserError :: "goerr \<Rightarrow> goerr" where
  "WrapCreateUserError err = wrap_with ErrFailedToCreateUser err"

definition WrapFindUserError :: "goerr \<Rightarrow> goerr" where
  "WrapFindUserError err = wrap_with ErrFailedToFindUser err"

definition WrapDeleteUserError :: "goerr \<Rightarrow> goerr" where
  "WrapDeleteUserError err = wrap_with ErrFailedToDeleteUser err"

definition WrapDomainError :: "goerr \<Rightarrow> goerr \<Rightarrow> goerr" where
  "WrapDomainError domainErr err = wrap_with domainErr err"

section \<open>Error translator\<close>

definition UsersPrimaryKeyConstraint :: string where
  "UsersPrimaryKeyConstraint = ''users_pkey''"

definition UsersUsernameConstraint :: string where
  "UsersUsernameConstraint = ''users_username_key''"

text \<open>The two SQLSTATE codes of package pgerrcode the translator knows.\<close>

definition pg_UniqueViolation :: string where
  "pg_UniqueViolation = ''23505''"

definition pg_InvalidTextRepresentation :: string where
  "pg_InvalidTextRepresentation = ''22P02''"

record db_error_translator =
  tr_TranslateCreateUserError :: "goerr \<Rightarrow> goerr"
  tr_TranslateFindUserError :: "goerr \<Rightarrow> goerr"
  tr_TranslateDeleteUserError :: "goerr \<Rightarrow> goerr"

text \<open>The first part, on the driver's error type: \<open>None\<close> is falling through the switch.\<close>

definition translate_create_typed :: "goerr \<Rightarrow> goerr option" where
  "translate_create_typed err =
    (case errors_as_pg err of
       None \<Rightarrow> None
     | Some (pgcode, constraint) \<Rightarrow>
         if pgcode = pg_UniqueViolation then
           (if constraint = UsersPrimaryKeyConstraint then Some (WrapDomainError ErrUserIDAlreadyTaken err)
            else if constraint = UsersUsernameConstraint then Some (WrapDomainError ErrUsernameAlreadyTaken err)
            else None)
         else if pgcode = pg_InvalidTextRepresentation then Some (WrapDomainError ErrInvalidUserID err)
         else None)"

text \<open>The second part, on the text of the error.\<close>

definition translate_create_text :: "goerr \<Rightarrow> goerr" where
  "translate_create_text err =
    (let errMsg = error_text err in
     if Contains errMsg (''SQLSTATE '' @ pg_UniqueViolation) then
       (if Contains errMsg UsersPrimaryKeyConstraint then WrapDomainError ErrUserIDAlreadyTaken err
        else if Contains errMsg UsersUsernameConstraint then WrapDomainError ErrUsernameAlreadyTaken err
        else WrapCreateUserError err)
     else if Contains errMsg (''SQLSTATE '' @ pg_InvalidTextRepresentation)
       then WrapDomainError ErrInvalidUserID err
     else WrapCreateUserError err)"

definition TranslateCreateUserError :: "goerr \<Rightarrow> goerr" where
  "TranslateCreateUserError err =
    (case translate_create_typed err of Some e \<Rightarrow> e | None \<Rightarrow> translate_create_text err)"

definition TranslateFindUserError :: "goerr \<Rightarrow> goerr" where
  "TranslateFindUserError err =
    (if errors_is err sql_ErrNoRows then WrapDomainError ErrUserNotFound err
     else WrapFindUserError err)"

definition TranslateDeleteUserError :: "goerr \<Rightarrow> goerr" where
  "TranslateDeleteUserError err = WrapDeleteUserError err"

definition NewPgErrorTranslator :: db_error_translator where
  "NewPgErrorTranslator =
    \<lparr>tr_TranslateCreateUserError = TranslateCreateUserError,
     tr_TranslateFindUserError = TranslateFindUserError,
     tr_TranslateDeleteUserError = TranslateDeleteUserError\<rparr>"

section \<open>Mapper\<close>

definition MapUserRowToDomain :: "user_row \<Rightarrow> user" where
  "MapUserRowToDomain r = zero_user
    \<lparr>u_ID := row_ID r, u_Username := row_Username r, u_FirstName := row_FirstName r,
     u_LastName := row_LastName r, u_AvatarID := row_AvatarID r, u_About := row_About r,
     u_IsActive := row_IsActive r, u_Status := row_Status r,
     u_CreatedAt := row_CreatedAt r, u_UpdatedAt := row_UpdatedAt r\<rparr>"

section \<open>The table, its outbox and the statements\<close>

text \<open>The trigger function of migration 5, for each of the three operations.\<close>

definition capture_user_outbox_event :: "string \<Rightarrow> user_row \<Rightarrow> time \<Rightarrow> outbox_event" where
  "capture_user_outbox_event operation row now =
    \<lparr>ob_aggregate_type = ''user'', ob_aggregate_id = row_ID row,
     ob_event_type = ''user.profile.'' @ operation, ob_operation = operation,
     ob_schema_version = 1, ob_payload = row, ob_occurred_at = now\<rparr>"

definition violated_constraints :: "string \<Rightarrow> string \<Rightarrow> user_row list \<Rightarrow> string list" where
  "violated_constraints uid username rows =
     (if list_ex (\<lambda>r. row_ID r = uid) rows then [UsersPrimaryKeyConstraint] else []) @
     (if list_ex (\<lambda>r. row_Username r = username) rows then [UsersUsernameConstraint] else [])"

text \<open>The row an INSERT makes: the columns it does not name take their defaults.\<close>

definition inserted_row :: "string \<Rightarrow> create_user_params \<Rightarrow> time \<Rightarrow> user_row" where
  "inserted_row uid p now =
    \<lparr>row_ID = uid, row_Username = p_Username p, row_FirstName = p_FirstName p,
     row_LastName = p_LastName p, row_AvatarID = p_AvatarID p, row_About = [],
     row_IsActive = False, row_Status = ''pending_registration'',
     row_CreatedAt = now, row_UpdatedAt = now\<rparr>"

definition createUserQuery :: "env \<Rightarrow> create_user_params \<Rightarrow> (goerr, user_row, world) io" where
  "createUserQuery E p w =
    (case e_uuid E (p_ID p) of
       None \<Rightarrow> (Inl (e_reject E (InvalidUUID (p_ID p))), w)
     | Some uid \<Rightarrow>
         if \<not> list_all (e_text_ok E) [p_Username p, p_FirstName p, p_LastName p, p_AvatarID p]
         then (Inl (e_reject E InvalidText), w)
         else if violated_constraints uid (p_Username p) (w_users w) \<noteq> []
         then (Inl (e_reject E (UniqueViolation (violated_constraints uid (p_Username p) (w_users w)))), w)
         else (let now = e_clock E (w_calls w); row = inserted_row uid p now in
               (Inr row, w\<lparr>w_users := w_users w @ [row],
                           w_outbox := w_outbox w @ [capture_user_outbox_event ''created'' row now]\<rparr>)))"

definition getUserByID :: "env \<Rightarrow> string \<Rightarrow> (goerr, user_row, world) io" where
  "getUserByID E i w =
    (case e_uuid E i of
       None \<Rightarrow> (Inl (e_reject E (InvalidUUID i)), w)
     | Some uid \<Rightarrow>
         (case find (\<lambda>r. row_ID r = uid) (w_users w) of
            None \<Rightarrow> (Inl sql_ErrNoRows, w) | Some r \<Rightarrow> (Inr r, w)))"

definition getUserByUsername :: "env \<Rightarrow> string \<Rightarrow> (goerr, user_row, world) io" where
  "getUserByUsername E username w =
    (if \<not> e_text_ok E username then (Inl (e_reject E InvalidText), w)
     else case find (\<lambda>r. row_Username r = username) (w_users w) of
            None \<Rightarrow> (Inl sql_ErrNoRows, w) | Some r \<Rightarrow> (Inr r, w))"

definition existsByUsernameQuery :: "env \<Rightarrow> string \<Rightarrow> (goerr, bool, world) io" where
  "existsByUsernameQuery E username w =
    (if \<not> e_text_ok E username then (Inl (e_reject E InvalidText), w)
     else (Inr (list_ex (\<lambda>r. row_Username r = username) (w_users w)), w))"

text \<open>
  An UPDATE of the rows with a given key, returning the updated rows; the trigger adds one
  event for each.
\<close>

definition update_rows :: "(user_row \<Rightarrow> user_row) \<Rightarrow> string \<Rightarrow> time \<Rightarrow> world \<Rightarrow> user_row list \<times> world" where
  "update_rows upd uid now w =
    (let hit = map upd (filter (\<lambda>r. row_ID r = uid) (w_users w)) in
     (hit, w\<lparr>w_users := map (\<lambda>r. if row_ID r = uid then upd r else r) (w_users w),
             w_outbox := w_outbox w @ map (\<lambda>r. capture_user_outbox_event ''updated'' r now) hit\<rparr>))"

definition activate_row :: "time \<Rightarrow> user_row \<Rightarrow> user_row" where
  "activate_row now r = r\<lparr>row_IsActive := True, row_Status := ''active'', row_UpdatedAt := now\<rparr>"

definition deactivate_row :: "time \<Rightarrow> user_row \<Rightarrow> user_row" where
  "deactivate_row now r =
     r\<lparr>row_IsActive := False, row_Status := ''registration_failed'', row_UpdatedAt := now\<rparr>"

definition activateUserByID :: "env \<Rightarrow> string \<Rightarrow> (goerr, user_row, world) io" where
  "activateUserByID E i w =
    (case e_uuid E i of
       None \<Rightarrow> (Inl (e_reject E (InvalidUUID i)), w)
     | Some uid \<Rightarrow>
         (let now = e_clock E (w_calls w) in
          case update_rows (activate_row now) uid now w of
            ([], w') \<Rightarrow> (Inl sql_ErrNoRows, w') | (r # _, w') \<Rightarrow> (Inr r, w')))"

definition deactivateUserByID :: "env \<Rightarrow> string \<Rightarrow> (goerr, nat, world) io" where
  "deactivateUserByID E i w =
    (case e_uuid E i of
       None \<Rightarrow> (Inl (e_reject E (InvalidUUID i)), w)
     | Some uid \<Rightarrow>
         (let now = e_clock E (w_calls w) in
          case update_rows (deactivate_row now) uid now w of (hit, w') \<Rightarrow> (Inr (length hit), w')))"

definition deleteUserByID :: "env \<Rightarrow> string \<Rightarrow> (goerr, nat, world) io" where
  "deleteUserByID E i w =
    (case e_uuid E i of
       None \<Rightarrow> (Inl (e_reject E (InvalidUUID i)), w)
     | Some uid \<Rightarrow>
         (let now = e_clock E (w_calls w); hit = filter (\<lambda>r. row_ID r = uid) (w_users w) in
          (Inr (length hit),
           w\<lparr>w_users := filter (\<lambda>r. row_ID r \<noteq> uid) (w_users w),
             w_outbox := w_outbox w @ map (\<lambda>r. capture_user_outbox_event ''deactivated'' r now) hit\<rparr>)))"

section \<open>Repository methods\<close>

definition db_metric :: "string \<Rightarrow> string \<Rightarrow> world \<Rightarrow> world" where
  "db_metric operation status w = observe (ObserveDB ''postgres'' operation ''users'' status) w"

definition Create :: "env \<Rightarrow> db_error_translator \<Rightarrow> create_user_params \<Rightarrow> (goerr, user, world) io" where
  "Create E T params w =
    (case ext_call (e_pg_fault E) (createUserQuery E params) w of
       (Inl err, w1) \<Rightarrow> (Inl (tr_TranslateCreateUserError T err), db_metric ''create'' ''error'' w1)
     | (Inr userRow, w1) \<Rightarrow> (Inr (MapUserRowToDomain userRow), db_metric ''create'' ''success'' w1))"

definition GetByID :: "env \<Rightarrow> db_error_translator \<Rightarrow> string \<Rightarrow> (goerr, user, world) io" where
  "GetByID E T userID w =
    (case ext_call (e_pg_fault E) (getUserByID E userID) w of
       (Inl err, w1) \<Rightarrow> (Inl (tr_TranslateFindUserError T err), db_metric ''get_by_id'' ''error'' w1)
     | (Inr userRow, w1) \<Rightarrow> (Inr (MapUserRowToDomain userRow), db_metric ''get_by_id'' ''success'' w1))"

definition GetByUsername :: "env \<Rightarrow> db_error_translator \<Rightarrow> string \<Rightarrow> (goerr, user, world) io" where
  "GetByUsername E T username w =
    (case ext_call (e_pg_fault E) (getUserByUsername E username) w of
       (Inl err, w1) \<Rightarrow> (Inl (tr_TranslateFindUserError T err), db_metric ''get_by_username'' ''error'' w1)
     | (Inr userRow, w1) \<Rightarrow>
         (Inr (MapUserRowToDomain userRow), db_metric ''get_by_username'' ''success'' w1))"

definition ExistsByUsername :: "env \<Rightarrow> db_error_translator \<Rightarrow> string \<Rightarrow> (goerr, bool, world) io" where
  "ExistsByUsername E T username w =
    (case ext_call (e_pg_fault E) (existsByUsernameQuery E username) w of
       (Inl err, w1) \<Rightarrow> (Inl (WrapFindUserError err), db_metric ''exists_by_username'' ''error'' w1)
     | (Inr b, w1) \<Rightarrow> (Inr b, db_metric ''exists_by_username'' ''success'' w1))"

definition ActivateByID :: "env \<Rightarrow> db_error_translator \<Rightarrow> string \<Rightarrow> (goerr, user, world) io" where
  "ActivateByID E T userID w =
    (case ext_call (e_pg_fault E) (activateUserByID E userID) w of
       (Inl err, w1) \<Rightarrow> (Inl (tr_TranslateFindUserError T err), db_metric ''activate_by_id'' ''error'' w1)
     | (Inr userRow, w1) \<Rightarrow>
         (Inr (MapUserRowToDomain userRow), db_metric ''activate_by_id'' ''success'' w1))"

definition DeactivateByID :: "env \<Rightarrow> db_error_translator \<Rightarrow> string \<Rightarrow> (goerr, unit, world) io" where
  "DeactivateByID E T userID w =
    (case ext_call (e_pg_fault E) (deactivateUserByID E userID) w of
       (Inl err, w1) \<Rightarrow> (Inl (tr_TranslateDeleteUserError T err), db_metric ''deactivate_by_id'' ''error'' w1)
     | (Inr rowsAffected, w1) \<Rightarrow>
         (case e_rows_fault E (w_calls w1) of
            Some err \<Rightarrow>
              (Inl (tr_TranslateDeleteUserError T err), db_metric ''deactivate_by_id'' ''error'' w1)
          | None \<Rightarrow>
              if rowsAffected = 0 then (Inl ErrUserNotFound, db_metric ''deactivate_by_id'' ''error'' w1)
              else (Inr (), db_metric ''deactivate_by_id'' ''success'' w1)))"

definition DeleteByID :: "env \<Rightarrow> db_error_translator \<Rightarrow> string \<Rightarrow> (goerr, unit, world) io" where
  "DeleteByID E T userID w =
    (case ext_call (e_pg_fault E) (deleteUserByID E userID) w of
       (Inl err, w1) \<Rightarrow> (Inl (tr_TranslateDeleteUserError T err), db_metric ''delete_by_id'' ''error'' w1)
     | (Inr rowsAffected, w1) \<Rightarrow>
         (case e_rows_fault E (w_calls w1) of
            Some err \<Rightarrow>
              (Inl (tr_TranslateDeleteUserError T err), db_metric ''delete_by_id'' ''error'' w1)
          | None \<Rightarrow>
              if rowsAffected = 0 then (Inl ErrUserNotFound, db_metric ''delete_by_id'' ''error'' w1)
              else (Inr (), db_metric ''delete_by_id'' ''success'' w1)))"

definition pg_repo :: "env \<Rightarrow> db_error_translator \<Rightarrow> world user_repository" where
  "pg_repo E T =
    \<lparr>ur_Create = Create E T, ur_GetByID = GetByID E T, ur_GetByUsername = GetByUsername E T,
     ur_ExistsByUsername = ExistsByUsername E T, ur_ActivateByID = ActivateByID E T,
     ur_DeactivateByID = DeactivateByID E T, ur_DeleteByID = DeleteByID E T\<rparr>"

text \<open>The constructor: the database handle stands for its environment, the logger is a flag.\<close>

definition New :: "env option \<Rightarrow> db_error_translator option \<Rightarrow> unit option
    \<Rightarrow> goerr + world user_repository" where
  "New db translator log =
    (case db of
       None \<Rightarrow> Inl ErrNilPostgresDB
     | Some E \<Rightarrow>
         (case translator of
            None \<Rightarrow> Inl ErrNilDBErrorTranslator
          | Some T \<Rightarrow> if log = None then Inl ErrNilLogger else Inr (pg_repo E T)))"

section \<open>Invariant and abstraction\<close>

text \<open>
  The constraints of the table: unique keys and user names, canonical identifiers, text the
  server accepts, and a status that agrees with the active flag.
\<close>

definition status_ok :: "bool \<Rightarrow> string \<Rightarrow> bool" where
  "status_ok active status \<longleftrightarrow>
     (active \<and> status = StatusActive) \<or>
     (\<not> active \<and> status \<in> {StatusPendingRegistration, StatusRegistrationFailed})"

definition row_ok :: "env \<Rightarrow> user_row \<Rightarrow> bool" where
  "row_ok E r \<longleftrightarrow>
     e_uuid E (row_ID r) = Some (row_ID r) \<and>
     list_all (e_text_ok E)
       [row_Username r, row_FirstName r, row_LastName r, row_AvatarID r, row_About r] \<and>
     status_ok (row_IsActive r) (row_Status r)"

definition table_ok :: "env \<Rightarrow> world \<Rightarrow> bool" where
  "table_ok E w \<longleftrightarrow> distinct (map row_ID (w_users w)) \<and> distinct (map row_Username (w_users w)) \<and>
     list_all (row_ok E) (w_users w)"

definition users_view :: "world \<Rightarrow> user_store" where
  "users_view w k = map_option MapUserRowToDomain (find (\<lambda>r. row_ID r = k) (w_users w))"

text \<open>
  What a consumer of the outbox rebuilds: the rows by identifier, from the events in their order.
  The table and its outbox agree when that is the table.
\<close>

definition apply_event :: "(string \<rightharpoonup> user_row) \<Rightarrow> outbox_event \<Rightarrow> (string \<rightharpoonup> user_row)" where
  "apply_event rows e =
    (if ob_operation e = ''deactivated'' then rows(ob_aggregate_id e := None)
     else rows(ob_aggregate_id e \<mapsto> ob_payload e))"

definition replay :: "outbox_event list \<Rightarrow> (string \<rightharpoonup> user_row)" where
  "replay events = foldl apply_event Map.empty events"

definition rows_view :: "world \<Rightarrow> (string \<rightharpoonup> user_row)" where
  "rows_view w k = find (\<lambda>r. row_ID r = k) (w_users w)"

definition outbox_ok :: "world \<Rightarrow> bool" where
  "outbox_ok w \<longleftrightarrow> replay (w_outbox w) = rows_view w"

definition pg_inv :: "env \<Rightarrow> world \<Rightarrow> bool" where
  "pg_inv E w \<longleftrightarrow> env_ok utf8_valid E \<and> table_ok E w \<and> outbox_ok w"

definition pg_kept :: "world \<Rightarrow> (string \<rightharpoonup> string) \<times> (string \<times> string) list" where
  "pg_kept w = (w_redis w, w_bus w)"

lemma view_calls [simp]:
  "users_view (w\<lparr>w_calls := n\<rparr>) = users_view w" "pg_inv E (w\<lparr>w_calls := n\<rparr>) = pg_inv E w"
  "pg_kept (w\<lparr>w_calls := n\<rparr>) = pg_kept w"
  by (auto simp: users_view_def pg_inv_def table_ok_def outbox_ok_def rows_view_def pg_kept_def fun_eq_iff)

lemma view_metric [simp]:
  "users_view (db_metric a b w) = users_view w" "pg_inv E (db_metric a b w) = pg_inv E w"
  "pg_kept (db_metric a b w) = pg_kept w" "w_users (db_metric a b w) = w_users w"
  "w_outbox (db_metric a b w) = w_outbox w" "w_redis (db_metric a b w) = w_redis w"
  "w_bus (db_metric a b w) = w_bus w" "w_calls (db_metric a b w) = w_calls w"
  by (auto simp: users_view_def pg_inv_def table_ok_def outbox_ok_def rows_view_def pg_kept_def
      db_metric_def fun_eq_iff)

lemma mapper_fields [simp]:
  "u_ID (MapUserRowToDomain r) = row_ID r" "u_Username (MapUserRowToDomain r) = row_Username r"
  "u_IsActive (MapUserRowToDomain r) = row_IsActive r" "u_Status (MapUserRowToDomain r) = row_Status r"
  "u_FirstName (MapUserRowToDomain r) = row_FirstName r"
  "u_LastName (MapUserRowToDomain r) = row_LastName r"
  "u_AvatarID (MapUserRowToDomain r) = row_AvatarID r" "u_About (MapUserRowToDomain r) = row_About r"
  "u_AvatarURL (MapUserRowToDomain r) = []" "u_DisplayName (MapUserRowToDomain r) = []"
  "u_CreatedAt (MapUserRowToDomain r) = row_CreatedAt r"
  "u_UpdatedAt (MapUserRowToDomain r) = row_UpdatedAt r"
  by (simp_all add: MapUserRowToDomain_def zero_user_def)

lemma users_view_Some:
  assumes "users_view w k = Some u"
  obtains r where "r \<in> set (w_users w)" "row_ID r = k" "u = MapUserRowToDomain r"
  using assms by (auto simp: users_view_def dest: find_Some_in)

lemma users_view_in:
  assumes "table_ok E w" and "r \<in> set (w_users w)"
  shows "users_view w (row_ID r) = Some (MapUserRowToDomain r)"
  using assms find_key [of row_ID "w_users w" r] by (simp add: table_ok_def users_view_def)

lemma users_view_None: "users_view w k = None \<longleftrightarrow> (\<forall>r\<in>set (w_users w). row_ID r \<noteq> k)"
  by (simp add: users_view_def find_None_all)

text \<open>Events and rows.\<close>

lemma replay_append: "replay (es @ [e]) = apply_event (replay es) e"
  by (simp add: replay_def)

lemma rows_view_snoc:
  assumes "w_users w' = w_users w @ [r]" and "\<forall>v\<in>set (w_users w). row_ID v \<noteq> row_ID r"
  shows "rows_view w' = (rows_view w)(row_ID r \<mapsto> r)"
proof
  fix k
  have "find (\<lambda>v. row_ID v = row_ID r) (w_users w) = None" using assms(2) by (simp add: find_None_all)
  then show "rows_view w' k = ((rows_view w)(row_ID r \<mapsto> r)) k"
    by (cases "k = row_ID r") (auto simp: rows_view_def assms(1) find_append split: option.splits)
qed

lemma outbox_insert:
  assumes "outbox_ok w" and "w_users w' = w_users w @ [r]"
    and "\<forall>v\<in>set (w_users w). row_ID v \<noteq> row_ID r"
    and "w_outbox w' = w_outbox w @ [capture_user_outbox_event ''created'' r now]"
  shows "outbox_ok w'"
  using assms rows_view_snoc [OF assms(2,3)]
  by (simp add: outbox_ok_def replay_append apply_event_def capture_user_outbox_event_def)

lemma rows_view_update:
  assumes "\<And>r. row_ID (upd r) = row_ID r"
    and "w_users w' = map (\<lambda>r. if row_ID r = uid then upd r else r) (w_users w)"
  shows "rows_view w' k = (if k = uid then map_option upd (rows_view w uid) else rows_view w k)"
proof -
  let ?g = "\<lambda>r. if row_ID r = uid then upd r else r"
  have "row_ID (?g r) = row_ID r" for r using assms(1) by simp
  then have "find (\<lambda>r. row_ID r = k) (w_users w') = map_option ?g (find (\<lambda>r. row_ID r = k) (w_users w))"
    unfolding assms(2) by (intro find_map_inv) simp
  then show ?thesis
    by (cases "find (\<lambda>r. row_ID r = k) (w_users w)") (auto simp: rows_view_def dest: find_Some_in)
qed

lemma outbox_update:
  assumes "outbox_ok w" and "\<And>r. row_ID (upd r) = row_ID r"
    and "w_users w' = map (\<lambda>r. if row_ID r = uid then upd r else r) (w_users w)"
    and "w_outbox w' = w_outbox w @
      map (\<lambda>r. capture_user_outbox_event ''updated'' r now)
        (case rows_view w uid of None \<Rightarrow> [] | Some r \<Rightarrow> [upd r])"
  shows "outbox_ok w'"
proof (cases "rows_view w uid")
  case None
  then have "rows_view w' = rows_view w"
    using rows_view_update [OF assms(2,3)] by (auto simp: fun_eq_iff)
  with None assms show ?thesis by (simp add: outbox_ok_def)
next
  case (Some r)
  then have "row_ID r = uid" by (auto simp: rows_view_def dest: find_Some_in)
  moreover have "rows_view w' = (rows_view w)(uid \<mapsto> upd r)"
    using rows_view_update [OF assms(2,3)] Some by (auto simp: fun_eq_iff)
  ultimately show ?thesis
    using Some assms by (simp add: outbox_ok_def replay_append apply_event_def capture_user_outbox_event_def)
qed

lemma outbox_delete:
  assumes "outbox_ok w" and "distinct (map row_ID (w_users w))"
    and "w_users w' = filter (\<lambda>r. row_ID r \<noteq> uid) (w_users w)"
    and "w_outbox w' = w_outbox w @
      map (\<lambda>r. capture_user_outbox_event ''deactivated'' r now) (filter (\<lambda>r. row_ID r = uid) (w_users w))"
  shows "outbox_ok w'"
proof -
  have hit: "filter (\<lambda>r. row_ID r = uid) (w_users w) = (case rows_view w uid of None \<Rightarrow> [] | Some r \<Rightarrow> [r])"
    using filter_key_find [OF assms(2), of uid] by (simp add: rows_view_def)
  have rows: "rows_view w' = (rows_view w)(uid := None)"
  proof
    fix k
    show "rows_view w' k = ((rows_view w)(uid := None)) k"
      by (cases "k = uid") (simp_all add: rows_view_def assms(3) find_filter_none find_filter_other)
  qed
  show ?thesis
  proof (cases "rows_view w uid")
    case None
    with rows hit assms show ?thesis by (simp add: outbox_ok_def fun_upd_idem)
  next
    case (Some r)
    then have "row_ID r = uid" by (auto simp: rows_view_def dest: find_Some_in)
    with Some rows hit assms show ?thesis
      by (simp add: outbox_ok_def replay_append apply_event_def capture_user_outbox_event_def)
  qed
qed

section \<open>The statements\<close>

lemma violated_Nil:
  "violated_constraints uid n rows = [] \<longleftrightarrow>
     (\<forall>r\<in>set rows. row_ID r \<noteq> uid) \<and> (\<forall>r\<in>set rows. row_Username r \<noteq> n)"
  by (auto simp: violated_constraints_def list_ex_iff)

lemma insert_stmt_effect:
  assumes "pg_inv E w" and "createUserQuery E p w = (Inr row, w')"
  shows "inserts p (e_uuid E (p_ID p)) (users_view w) (users_view w') (MapUserRowToDomain row)"
    and "pg_inv E w'" and "pg_kept w' = pg_kept w"
proof -
  obtain uid where uid: "e_uuid E (p_ID p) = Some uid"
    and texts: "list_all (e_text_ok E) [p_Username p, p_FirstName p, p_LastName p, p_AvatarID p]"
    and fresh: "\<forall>r\<in>set (w_users w). row_ID r \<noteq> uid" "\<forall>r\<in>set (w_users w). row_Username r \<noteq> p_Username p"
    and row: "row = inserted_row uid p (e_clock E (w_calls w))"
    and w': "w_users w' = w_users w @ [row]" "pg_kept w' = pg_kept w"
      "w_outbox w' = w_outbox w @ [capture_user_outbox_event ''created'' row (e_clock E (w_calls w))]"
    using assms(2)
    by (auto simp: createUserQuery_def Let_def violated_Nil pg_kept_def
        split: option.splits if_splits)
  have id: "row_ID row = uid" by (simp add: row inserted_row_def)
  have "users_view w' = (users_view w)(uid \<mapsto> MapUserRowToDomain row)"
    using fresh(1) w'(1) id
    by (force simp: users_view_def fun_eq_iff find_append find_None_all split: option.splits
        dest: find_Some_in)
  moreover have "created_from p (MapUserRowToDomain row)"
    by (simp add: created_from_def MapUserRowToDomain_def row inserted_row_def zero_user_def
        StatusPendingRegistration_def)
  ultimately show "inserts p (e_uuid E (p_ID p)) (users_view w) (users_view w') (MapUserRowToDomain row)"
    using uid fresh(1) id by (simp add: inserts_def users_view_None)
  have "row_ok E row"
    using assms(1) uid texts env_okD(1,3)
    by (auto simp: row_ok_def row inserted_row_def pg_inv_def status_ok_def
        StatusPendingRegistration_def)
  moreover have "outbox_ok w'"
    by (rule outbox_insert [OF _ w'(1) _ w'(3)]) (use assms(1) fresh(1) id in \<open>auto simp: pg_inv_def\<close>)
  ultimately show "pg_inv E w'"
    using assms(1) fresh w'(1) id by (auto simp: pg_inv_def table_ok_def row inserted_row_def)
qed (use assms(2) in \<open>auto simp: createUserQuery_def Let_def pg_kept_def split: option.splits if_splits\<close>)

lemma insert_failed: "createUserQuery E p w = (Inl e, w') \<Longrightarrow> w' = w"
  by (auto simp: createUserQuery_def Let_def split: option.splits if_splits)


text \<open>
  An update keeps the keys; it changes the row with the given identifier, when there is one, and
  returns it.
\<close>

definition keeps_keys :: "env \<Rightarrow> (user_row \<Rightarrow> user_row) \<Rightarrow> bool" where
  "keeps_keys E upd \<longleftrightarrow>
     (\<forall>r. row_ID (upd r) = row_ID r \<and> row_Username (upd r) = row_Username r \<and>
          (row_ok E r \<longrightarrow> row_ok E (upd r)))"

lemma activate_row_keeps: "keeps_keys E (activate_row now)"
  by (auto simp: keeps_keys_def activate_row_def row_ok_def status_ok_def StatusActive_def)

lemma deactivate_row_keeps: "keeps_keys E (deactivate_row now)"
  by (auto simp: keeps_keys_def deactivate_row_def row_ok_def status_ok_def
      StatusRegistrationFailed_def)

lemma update_hit:
  assumes "pg_inv E w" and "update_rows upd uid now w = (hit, w')"
  shows "hit = (case find (\<lambda>r. row_ID r = uid) (w_users w) of None \<Rightarrow> [] | Some r \<Rightarrow> [upd r])"
  using assms filter_key_find [of row_ID "w_users w" uid]
  by (auto simp: update_rows_def Let_def pg_inv_def table_ok_def split: option.splits)

lemma update_effect:
  assumes "pg_inv E w" and "keeps_keys E upd" and "update_rows upd uid now w = (hit, w')"
  shows "pg_inv E w'" and "pg_kept w' = pg_kept w"
    and "users_view w' = (case hit of [] \<Rightarrow> users_view w
                          | r # _ \<Rightarrow> (users_view w)(uid \<mapsto> MapUserRowToDomain r))"
proof -
  let ?g = "\<lambda>r. if row_ID r = uid then upd r else r"
  have users: "w_users w' = map ?g (w_users w)" and kept: "pg_kept w' = pg_kept w"
    and outbox: "w_outbox w' = w_outbox w @ map (\<lambda>r. capture_user_outbox_event ''updated'' r now) hit"
    using assms(3) by (auto simp: update_rows_def Let_def pg_kept_def)
  have ids: "row_ID (?g r) = row_ID r" "row_Username (?g r) = row_Username r" for r
    using assms(2) by (auto simp: keeps_keys_def)
  then have maps: "map row_ID (w_users w') = map row_ID (w_users w)"
    "map row_Username (w_users w') = map row_Username (w_users w)"
    by (simp_all add: users)
  show "pg_inv E w'"
  proof -
    have "list_all (row_ok E) (w_users w')"
      using assms(1,2) by (auto simp: users list_all_iff keeps_keys_def pg_inv_def table_ok_def)
    moreover have "outbox_ok w'"
      by (rule outbox_update [OF _ _ users])
        (use assms(1,2) outbox update_hit [OF assms(1,3)] in
          \<open>auto simp: pg_inv_def keeps_keys_def rows_view_def\<close>)
    ultimately show ?thesis using assms(1) maps by (simp add: pg_inv_def table_ok_def)
  qed
  show "pg_kept w' = pg_kept w" by (rule kept)
  have finds: "find (\<lambda>r. row_ID r = k) (w_users w') = map_option ?g (find (\<lambda>r. row_ID r = k) (w_users w))" for k
    unfolding users by (rule find_map_inv) (simp only: ids)
  have view: "users_view w' k =
      (if k = uid then map_option (MapUserRowToDomain \<circ> upd) (find (\<lambda>r. row_ID r = uid) (w_users w))
       else users_view w k)" for k
  proof (cases "find (\<lambda>r. row_ID r = k) (w_users w)")
    case None
    then show ?thesis by (auto simp: users_view_def finds)
  next
    case (Some r)
    then have "row_ID r = k" by (auto dest: find_Some_in)
    with Some show ?thesis by (cases "k = uid") (simp_all add: users_view_def finds)
  qed
  show "users_view w' = (case hit of [] \<Rightarrow> users_view w
                          | r # _ \<Rightarrow> (users_view w)(uid \<mapsto> MapUserRowToDomain r))"
    using update_hit [OF assms(1,3)]
    by (cases "find (\<lambda>r. row_ID r = uid) (w_users w)")
      (auto simp: view fun_eq_iff users_view_def [of w uid])
qed

lemma update_stores:
  assumes "pg_inv E w" and "keeps_keys E upd" and "update_rows upd uid now w = (r # rs, w')"
    and "\<And>v. rel (MapUserRowToDomain v) (MapUserRowToDomain (upd v))"
    and "key = Some uid"
  shows "stores rel key (users_view w) (users_view w') (MapUserRowToDomain r)"
proof -
  from update_hit [OF assms(1,3)] obtain v where
    v: "find (\<lambda>r. row_ID r = uid) (w_users w) = Some v" "r = upd v" "rs = []"
    by (auto split: option.splits)
  then have "row_ID v = uid" by (auto dest: find_Some_in)
  then have "row_ID r = uid" using assms(2) v(2) by (simp add: keeps_keys_def)
  with v assms(4) update_effect(3) [OF assms(1-3)] assms(5) show ?thesis
    by (auto simp: stores_def users_view_def)
qed

lemma update_miss:
  assumes "pg_inv E w" and "update_rows upd uid now w = ([], w')"
  shows "users_view w uid = None"
  using update_hit [OF assms] by (simp add: users_view_def split: option.splits)

lemma activation_rel:
  "activated_from (MapUserRowToDomain v) (MapUserRowToDomain (activate_row now v))"
  by (simp add: activated_from_def MapUserRowToDomain_def activate_row_def StatusActive_def)

lemma deactivation_rel:
  "deactivated_from (MapUserRowToDomain v) (MapUserRowToDomain (deactivate_row now v))"
  by (simp add: deactivated_from_def MapUserRowToDomain_def deactivate_row_def
      StatusRegistrationFailed_def)

lemma activate_frame:
  assumes "pg_inv E w" and "activateUserByID E i w = (x, w')"
  shows "pg_inv E w' \<and> pg_kept w' = pg_kept w"
  using assms update_effect(1,2) [OF assms(1) activate_row_keeps]
  by (auto simp: activateUserByID_def Let_def split: option.splits prod.splits list.splits)

lemma activate_stmt_effect:
  assumes "pg_inv E w" and "activateUserByID E i w = (x, w')"
  shows "case x of
      Inr r \<Rightarrow> stores activated_from (e_uuid E i) (users_view w) (users_view w') (MapUserRowToDomain r)
    | Inl e \<Rightarrow> users_view w' = users_view w \<and> (errors_is e sql_ErrNoRows \<longrightarrow> absent (e_uuid E i) (users_view w))"
proof (cases "e_uuid E i")
  case None
  with assms show ?thesis
    by (auto simp: activateUserByID_def absent_def pg_inv_def env_okD)
next
  case (Some uid)
  let ?now = "e_clock E (w_calls w)"
  obtain hit w1 where upd: "update_rows (activate_row ?now) uid ?now w = (hit, w1)"
    by fastforce
  show ?thesis
  proof (cases hit)
    case Nil
    with upd assms Some update_effect(3) [OF assms(1) activate_row_keeps upd] show ?thesis
      using update_miss [OF assms(1)]
      by (auto simp: activateUserByID_def Let_def absent_def)
  next
    case (Cons r rs)
    with upd assms Some show ?thesis
      using update_stores [where rel = activated_from, OF assms(1) activate_row_keeps upd [unfolded Cons]
          activation_rel Some]
      by (auto simp: activateUserByID_def Let_def)
  qed
qed


lemma deactivate_frame:
  assumes "pg_inv E w" and "deactivateUserByID E i w = (x, w')"
  shows "pg_inv E w' \<and> pg_kept w' = pg_kept w"
  using assms update_effect(1,2) [OF assms(1) deactivate_row_keeps]
  by (auto simp: deactivateUserByID_def Let_def split: option.splits prod.splits)

lemma deactivate_stmt_effect:
  assumes "pg_inv E w" and "deactivateUserByID E i w = (x, w')"
  shows "case x of
      Inr n \<Rightarrow> (if n = 0 then users_view w' = users_view w \<and> absent (e_uuid E i) (users_view w)
                else \<exists>u. stores deactivated_from (e_uuid E i) (users_view w) (users_view w') u)
    | Inl e \<Rightarrow> users_view w' = users_view w"
proof (cases "e_uuid E i")
  case None
  with assms show ?thesis by (auto simp: deactivateUserByID_def)
next
  case (Some uid)
  let ?now = "e_clock E (w_calls w)"
  obtain hit w1 where upd: "update_rows (deactivate_row ?now) uid ?now w = (hit, w1)"
    by fastforce
  show ?thesis
  proof (cases hit)
    case Nil
    with upd assms Some update_effect(3) [OF assms(1) deactivate_row_keeps upd] show ?thesis
      using update_miss [OF assms(1)]
      by (auto simp: deactivateUserByID_def Let_def absent_def)
  next
    case (Cons r rs)
    with upd assms Some show ?thesis
      using update_stores [where rel = deactivated_from, OF assms(1) deactivate_row_keeps
          upd [unfolded Cons] deactivation_rel Some]
      by (auto simp: deactivateUserByID_def Let_def)
  qed
qed

lemma delete_frame:
  assumes "pg_inv E w" and "deleteUserByID E i w = (x, w')"
  shows "pg_inv E w' \<and> pg_kept w' = pg_kept w"
proof (cases "e_uuid E i")
  case (Some uid)
  have "outbox_ok w'"
    by (rule outbox_delete [of w _ uid "e_clock E (w_calls w)"])
      (use assms Some in \<open>auto simp: deleteUserByID_def Let_def pg_inv_def table_ok_def\<close>)
  with Some assms show ?thesis
    by (auto simp: deleteUserByID_def Let_def pg_inv_def table_ok_def pg_kept_def list_all_iff
        intro: distinct_map_filter_key)
qed (use assms in \<open>auto simp: deleteUserByID_def\<close>)

lemma delete_stmt_effect:
  assumes "pg_inv E w" and "deleteUserByID E i w = (x, w')"
  shows "case x of
      Inr n \<Rightarrow> (if n = 0 then users_view w' = users_view w \<and> absent (e_uuid E i) (users_view w)
                else removes (e_uuid E i) (users_view w) (users_view w'))
    | Inl e \<Rightarrow> users_view w' = users_view w"
proof (cases "e_uuid E i")
  case None
  with assms show ?thesis by (auto simp: deleteUserByID_def)
next
  case (Some uid)
  with assms(2) have x: "x = Inr (length (filter (\<lambda>r. row_ID r = uid) (w_users w)))"
    and w': "w_users w' = filter (\<lambda>r. row_ID r \<noteq> uid) (w_users w)"
    by (auto simp: deleteUserByID_def Let_def)
  have view: "users_view w' = (users_view w)(uid := None)"
  proof
    fix k
    show "users_view w' k = ((users_view w)(uid := None)) k"
      by (cases "k = uid") (simp_all add: users_view_def w' find_filter_none find_filter_other)
  qed
  have "length (filter (\<lambda>r. row_ID r = uid) (w_users w)) = 0 \<longleftrightarrow> users_view w uid = None"
    by (auto simp: users_view_None filter_empty_conv)
  with x view Some show ?thesis by (auto simp: removes_def absent_def fun_upd_idem_iff)
qed

lemma get_stmt_effect:
  assumes "pg_inv E w" and "getUserByID E i w = (x, w')"
  shows "w' = w \<and> (case x of
      Inr r \<Rightarrow> e_uuid E i = Some (row_ID r) \<and> users_view w (row_ID r) = Some (MapUserRowToDomain r)
    | Inl e \<Rightarrow> errors_is e sql_ErrNoRows \<longrightarrow> absent (e_uuid E i) (users_view w))"
proof (cases "e_uuid E i")
  case None
  with assms show ?thesis by (auto simp: getUserByID_def pg_inv_def env_okD)
next
  case (Some uid)
  show ?thesis
  proof (cases "find (\<lambda>r. row_ID r = uid) (w_users w)")
    case None
    with Some assms(2) show ?thesis by (auto simp: getUserByID_def absent_def users_view_def)
  next
    case found: (Some r)
    then have "row_ID r = uid" by (auto dest: find_Some_in)
    with found Some assms(2) show ?thesis by (auto simp: getUserByID_def users_view_def)
  qed
qed

lemma byname_stmt_effect:
  assumes "pg_inv E w" and "getUserByUsername E n w = (x, w')"
  shows "w' = w \<and> (case x of
      Inr r \<Rightarrow> row_Username r = n \<and> users_view w (row_ID r) = Some (MapUserRowToDomain r)
    | Inl e \<Rightarrow> errors_is e sql_ErrNoRows \<longrightarrow> (\<forall>k u. users_view w k = Some u \<longrightarrow> u_Username u \<noteq> n))"
proof (cases "find (\<lambda>r. row_Username r = n) (w_users w)")
  case None
  then have "u_Username u \<noteq> n" if "users_view w k = Some u" for k u
    using that None by (fastforce simp: find_None_all elim!: users_view_Some)
  with None assms show ?thesis
    by (auto simp: getUserByUsername_def pg_inv_def env_okD split: if_splits)
next
  case (Some r)
  then have "r \<in> set (w_users w)" "row_Username r = n" by (auto dest: find_Some_in)
  with Some assms show ?thesis
    by (auto simp: getUserByUsername_def pg_inv_def env_okD users_view_in split: if_splits)
qed

lemma exists_stmt_effect:
  assumes "pg_inv E w" and "existsByUsernameQuery E n w = (x, w')"
  shows "w' = w \<and> (case x of
      Inr b \<Rightarrow> b \<longleftrightarrow> (\<exists>k u. users_view w k = Some u \<and> u_Username u = n)
    | Inl e \<Rightarrow> True)"
proof -
  have t: "table_ok E w" using assms(1) by (simp add: pg_inv_def)
  have "list_ex (\<lambda>r. row_Username r = n) (w_users w) \<longleftrightarrow>
      (\<exists>k u. users_view w k = Some u \<and> u_Username u = n)"
  proof
    assume "list_ex (\<lambda>r. row_Username r = n) (w_users w)"
    then obtain r where "r \<in> set (w_users w)" "row_Username r = n" by (auto simp: list_ex_iff)
    with users_view_in [OF t, of r] show "\<exists>k u. users_view w k = Some u \<and> u_Username u = n"
      by (intro exI [of _ "row_ID r"] exI [of _ "MapUserRowToDomain r"]) simp
  next
    assume "\<exists>k u. users_view w k = Some u \<and> u_Username u = n"
    then show "list_ex (\<lambda>r. row_Username r = n) (w_users w)"
      by (auto simp: list_ex_iff elim!: users_view_Some)
  qed
  with assms(2) show ?thesis
    by (auto simp: existsByUsernameQuery_def split: if_splits)
qed

section \<open>The repository keeps the contract\<close>

text \<open>What a repository call does to the state, from what its statement does.\<close>

lemma pg_call:
  assumes "pg_inv E w" and "ext_call (e_pg_fault E) act w = (x, w1)"
    and "\<And>v y v'. pg_inv E v \<Longrightarrow> act v = (y, v') \<Longrightarrow> pg_inv E v' \<and> pg_kept v' = pg_kept v"
  shows "pg_inv E w1 \<and> pg_kept w1 = pg_kept w"
proof -
  let ?v = "w\<lparr>w_calls := Suc (w_calls w)\<rparr>"
  obtain y v' where act: "act ?v = (y, v')" by fastforce
  have "pg_inv E ?v" using assms(1) by simp
  then have "pg_inv E v' \<and> pg_kept v' = pg_kept ?v" using act by (rule assms(3))
  with assms(2) act assms(1) show ?thesis by (auto elim!: ext_call_cases)
qed

text \<open>Either the statement answered, or it failed and its effect may have happened.\<close>

lemma pg_call_effect:
  assumes "pg_inv E w" and "ext_call (e_pg_fault E) act w = (x, w1)"
  obtains (answered) v where "pg_inv E v" "users_view v = users_view w" "act v = (x, w1)"
    | (lost) e where "x = Inl e" "\<not> errors_is e sql_ErrNoRows" "users_view w1 = users_view w"
    | (late) e v y where "x = Inl e" "\<not> errors_is e sql_ErrNoRows" "pg_inv E v"
        "users_view v = users_view w" "act v = (y, w1)"
proof -
  let ?v = "w\<lparr>w_calls := Suc (w_calls w)\<rparr>"
  have v: "pg_inv E ?v" "users_view ?v = users_view w" using assms(1) by simp_all
  have env: "env_ok utf8_valid E" using assms(1) by (simp add: pg_inv_def)
  obtain y v' where act: "act ?v = (y, v')" by fastforce
  from assms(2) show ?thesis
  proof (cases rule: ext_call_cases)
    case answered
    with v show ?thesis using that(1) by blast
  next
    case (lost e)
    with v env_okD(5) [OF env lost(1)] show ?thesis using that(2) by simp
  next
    case (late e)
    with act have "act ?v = (y, w1)" by simp
    with env_okD(5) [OF env late(1)] show ?thesis by (intro that(3) [OF late(2) _ v])
  qed
qed

lemma find_error_absent [simp]:
  "errors_is (TranslateFindUserError e) ErrUserNotFound \<longleftrightarrow> errors_is e sql_ErrNoRows"
  by (simp add: TranslateFindUserError_def WrapDomainError_def WrapFindUserError_def)

lemma delete_error_absent [simp]: "\<not> errors_is (TranslateDeleteUserError e) ErrUserNotFound"
  by (simp add: TranslateDeleteUserError_def WrapDeleteUserError_def)

lemma pg_translator [simp]:
  "tr_TranslateCreateUserError NewPgErrorTranslator = TranslateCreateUserError"
  "tr_TranslateFindUserError NewPgErrorTranslator = TranslateFindUserError"
  "tr_TranslateDeleteUserError NewPgErrorTranslator = TranslateDeleteUserError"
  by (simp_all add: NewPgErrorTranslator_def)

lemma insert_frame:
  assumes "pg_inv E w" and "createUserQuery E p w = (x, w')"
  shows "pg_inv E w' \<and> pg_kept w' = pg_kept w"
  using assms insert_stmt_effect(2,3) [OF assms(1)] insert_failed [of E p w]
  by (cases x) auto

lemma Create_outcome:
  assumes "pg_inv E w" and "Create E T p w = (x, w')"
  shows "pg_inv E w' \<and> pg_kept w' = pg_kept w \<and>
    (case x of
       Inr u \<Rightarrow> inserts p (e_uuid E (p_ID p)) (users_view w) (users_view w') u
     | Inl e \<Rightarrow> users_view w' = users_view w \<or>
         (\<exists>u. inserts p (e_uuid E (p_ID p)) (users_view w) (users_view w') u))"
proof -
  obtain y w1 where c: "ext_call (e_pg_fault E) (createUserQuery E p) w = (y, w1)"
    by fastforce
  have frame: "pg_inv E w1 \<and> pg_kept w1 = pg_kept w"
    by (rule pg_call [OF assms(1) c insert_frame])
  from assms(1) c show ?thesis
  proof (cases rule: pg_call_effect)
    case (answered v)
    with assms(2) c frame insert_stmt_effect(1) [OF answered(1), of p] insert_failed [of E p v]
    show ?thesis by (cases y) (auto simp: Create_def)
  next
    case (lost e)
    with assms(2) c frame show ?thesis by (auto simp: Create_def)
  next
    case (late e v z)
    with assms(2) c frame insert_stmt_effect(1) [OF late(3), of p] insert_failed [of E p v]
    show ?thesis by (cases z) (auto simp: Create_def)
  qed
qed

text \<open>A query leaves everything but the counters alone.\<close>

lemma pg_read:
  assumes "pg_inv E w" and "ext_call (e_pg_fault E) act w = (x, w1)"
    and "\<And>v y v'. pg_inv E v \<Longrightarrow> act v = (y, v') \<Longrightarrow> v' = v"
  shows "pg_inv E w1 \<and> pg_kept w1 = pg_kept w \<and> users_view w1 = users_view w"
proof -
  let ?v = "w\<lparr>w_calls := Suc (w_calls w)\<rparr>"
  obtain y v' where act: "act ?v = (y, v')" by fastforce
  have "pg_inv E ?v" using assms(1) by simp
  with act have "v' = ?v" using assms(3) by blast
  with assms(2) act assms(1) show ?thesis by (auto elim!: ext_call_cases)
qed

lemma GetByID_outcome:
  assumes "pg_inv E w" and "GetByID E NewPgErrorTranslator i w = (x, w')"
  shows "pg_inv E w' \<and> pg_kept w' = pg_kept w \<and> users_view w' = users_view w \<and>
    (case x of
       Inr u \<Rightarrow> e_uuid E i = Some (u_ID u) \<and> users_view w (u_ID u) = Some u
     | Inl e \<Rightarrow> errors_is e ErrUserNotFound \<longrightarrow> absent (e_uuid E i) (users_view w))"
proof -
  obtain y w1 where c: "ext_call (e_pg_fault E) (getUserByID E i) w = (y, w1)"
    by fastforce
  have frame: "pg_inv E w1 \<and> pg_kept w1 = pg_kept w \<and> users_view w1 = users_view w"
    by (rule pg_read [OF assms(1) c]) (use get_stmt_effect in blast)
  from assms(1) c show ?thesis
  proof (cases rule: pg_call_effect)
    case (answered v)
    with assms(2) c frame get_stmt_effect [OF answered(1,3)] show ?thesis
      by (cases y) (auto simp: GetByID_def)
  qed (use assms(2) c frame in \<open>auto simp: GetByID_def\<close>)
qed

lemma GetByUsername_outcome:
  assumes "pg_inv E w" and "GetByUsername E NewPgErrorTranslator n w = (x, w')"
  shows "pg_inv E w' \<and> pg_kept w' = pg_kept w \<and> users_view w' = users_view w \<and>
    (case x of
       Inr u \<Rightarrow> u_Username u = n \<and> users_view w (u_ID u) = Some u
     | Inl e \<Rightarrow> errors_is e ErrUserNotFound \<longrightarrow>
         (\<forall>k u. users_view w k = Some u \<longrightarrow> u_Username u \<noteq> n))"
proof -
  obtain y w1 where c: "ext_call (e_pg_fault E) (getUserByUsername E n) w = (y, w1)"
    by fastforce
  have frame: "pg_inv E w1 \<and> pg_kept w1 = pg_kept w \<and> users_view w1 = users_view w"
    by (rule pg_read [OF assms(1) c]) (use byname_stmt_effect in blast)
  from assms(1) c show ?thesis
  proof (cases rule: pg_call_effect)
    case (answered v)
    with assms(2) c frame byname_stmt_effect [OF answered(1,3)] show ?thesis
      by (cases y) (auto simp: GetByUsername_def)
  qed (use assms(2) c frame in \<open>auto simp: GetByUsername_def\<close>)
qed

lemma ExistsByUsername_outcome:
  assumes "pg_inv E w" and "ExistsByUsername E T n w = (x, w')"
  shows "pg_inv E w' \<and> pg_kept w' = pg_kept w \<and> users_view w' = users_view w \<and>
    (case x of
       Inr b \<Rightarrow> b \<longleftrightarrow> (\<exists>k u. users_view w k = Some u \<and> u_Username u = n)
     | Inl e \<Rightarrow> True)"
proof -
  obtain y w1 where c: "ext_call (e_pg_fault E) (existsByUsernameQuery E n) w = (y, w1)"
    by fastforce
  have frame: "pg_inv E w1 \<and> pg_kept w1 = pg_kept w \<and> users_view w1 = users_view w"
    by (rule pg_read [OF assms(1) c]) (use exists_stmt_effect in blast)
  from assms(1) c show ?thesis
  proof (cases rule: pg_call_effect)
    case (answered v)
    with assms(2) c frame exists_stmt_effect [OF answered(1,3)] show ?thesis
      by (cases y) (auto simp: ExistsByUsername_def)
  qed (use assms(2) c frame in \<open>auto simp: ExistsByUsername_def\<close>)
qed

lemma ActivateByID_outcome:
  assumes "pg_inv E w" and "ActivateByID E NewPgErrorTranslator i w = (x, w')"
  shows "pg_inv E w' \<and> pg_kept w' = pg_kept w \<and>
    (case x of
       Inr u \<Rightarrow> stores activated_from (e_uuid E i) (users_view w) (users_view w') u
     | Inl e \<Rightarrow> (users_view w' = users_view w \<or>
         (\<exists>u. stores activated_from (e_uuid E i) (users_view w) (users_view w') u)) \<and>
         (errors_is e ErrUserNotFound \<longrightarrow> absent (e_uuid E i) (users_view w)))"
proof -
  obtain y w1 where c: "ext_call (e_pg_fault E) (activateUserByID E i) w = (y, w1)"
    by fastforce
  have frame: "pg_inv E w1 \<and> pg_kept w1 = pg_kept w"
    by (rule pg_call [OF assms(1) c activate_frame])
  from assms(1) c show ?thesis
  proof (cases rule: pg_call_effect)
    case (answered v)
    with assms(2) c frame activate_stmt_effect [OF answered(1,3)] show ?thesis
      by (cases y) (auto simp: ActivateByID_def)
  next
    case (lost e)
    with assms(2) c frame show ?thesis by (auto simp: ActivateByID_def)
  next
    case (late e v z)
    with assms(2) c frame activate_stmt_effect [OF late(3,5)] show ?thesis
      by (cases z) (auto simp: ActivateByID_def)
  qed
qed

lemma DeactivateByID_outcome:
  assumes "pg_inv E w" and "DeactivateByID E NewPgErrorTranslator i w = (x, w')"
  shows "pg_inv E w' \<and> pg_kept w' = pg_kept w \<and>
    (case x of
       Inr _ \<Rightarrow> \<exists>u. stores deactivated_from (e_uuid E i) (users_view w) (users_view w') u
     | Inl e \<Rightarrow> (users_view w' = users_view w \<or>
         (\<exists>u. stores deactivated_from (e_uuid E i) (users_view w) (users_view w') u)) \<and>
         (errors_is e ErrUserNotFound \<longrightarrow> absent (e_uuid E i) (users_view w)))"
proof -
  obtain y w1 where c: "ext_call (e_pg_fault E) (deactivateUserByID E i) w = (y, w1)"
    by fastforce
  have frame: "pg_inv E w1 \<and> pg_kept w1 = pg_kept w"
    by (rule pg_call [OF assms(1) c deactivate_frame])
  from assms(1) c show ?thesis
  proof (cases rule: pg_call_effect)
    case (answered v)
    with assms(2) c frame deactivate_stmt_effect [OF answered(1,3)] show ?thesis
      by (cases y) (auto simp: DeactivateByID_def split: option.splits if_splits)
  next
    case (lost e)
    with assms(2) c frame show ?thesis by (auto simp: DeactivateByID_def)
  next
    case (late e v z)
    with assms(2) c frame deactivate_stmt_effect [OF late(3,5)] show ?thesis
      by (cases z) (auto simp: DeactivateByID_def split: if_splits)
  qed
qed

lemma DeleteByID_outcome:
  assumes "pg_inv E w" and "DeleteByID E NewPgErrorTranslator i w = (x, w')"
  shows "pg_inv E w' \<and> pg_kept w' = pg_kept w \<and>
    (case x of
       Inr _ \<Rightarrow> removes (e_uuid E i) (users_view w) (users_view w')
     | Inl e \<Rightarrow> (users_view w' = users_view w \<or>
         removes (e_uuid E i) (users_view w) (users_view w')) \<and>
         (errors_is e ErrUserNotFound \<longrightarrow> absent (e_uuid E i) (users_view w)))"
proof -
  obtain y w1 where c: "ext_call (e_pg_fault E) (deleteUserByID E i) w = (y, w1)"
    by fastforce
  have frame: "pg_inv E w1 \<and> pg_kept w1 = pg_kept w"
    by (rule pg_call [OF assms(1) c delete_frame])
  from assms(1) c show ?thesis
  proof (cases rule: pg_call_effect)
    case (answered v)
    with assms(2) c frame delete_stmt_effect [OF answered(1,3)] show ?thesis
      by (cases y) (auto simp: DeleteByID_def split: option.splits if_splits)
  next
    case (lost e)
    with assms(2) c frame show ?thesis by (auto simp: DeleteByID_def)
  next
    case (late e v z)
    with assms(2) c frame delete_stmt_effect [OF late(3,5)] show ?thesis
      by (cases z) (auto simp: DeleteByID_def split: if_splits)
  qed
qed

lemma pg_repo_methods [simp]:
  "ur_Create (pg_repo E T) = Create E T" "ur_GetByID (pg_repo E T) = GetByID E T"
  "ur_GetByUsername (pg_repo E T) = GetByUsername E T"
  "ur_ExistsByUsername (pg_repo E T) = ExistsByUsername E T"
  "ur_ActivateByID (pg_repo E T) = ActivateByID E T"
  "ur_DeactivateByID (pg_repo E T) = DeactivateByID E T"
  "ur_DeleteByID (pg_repo E T) = DeleteByID E T"
  by (simp_all add: pg_repo_def)

interpretation pg: user_repository_contract "pg_repo E NewPgErrorTranslator" users_view "e_uuid E"
  "pg_inv E" pg_kept for E
  by (unfold_locales; unfold pg_repo_methods;
      (drule (1) Create_outcome | drule (1) GetByID_outcome | drule (1) GetByUsername_outcome |
       drule (1) ExistsByUsername_outcome | drule (1) ActivateByID_outcome |
       drule (1) DeactivateByID_outcome | drule (1) DeleteByID_outcome); auto)

end
