(* ===== verification/ReadRepo.thy ===== *)
theory ReadRepo
  imports World GoJson
begin

text \<open>
  The read model: package internal/infra/read/redis with its mapper and cache models. Redis is a
  map from keys to values and its three commands are SET without expiry, GET and DEL; values
  are JSON documents, written and read with the codec of GoJson. Each method issues its command
  as one external call and records one metric.
\<close>

section \<open>Errors\<close>

definition ErrNilRedisClient :: goerr where
  "ErrNilRedisClient = Sentinel ''redisrepo'' ''redis client is nil''"

definition ErrNilUser :: goerr where
  "ErrNilUser = Sentinel ''redisrepo'' ''user is nil''"

definition ErrNilLogger :: goerr where
  "ErrNilLogger = Sentinel ''redisrepo'' ''logger is nil''"

definition WrapMarshalUserCacheError :: "goerr \<Rightarrow> goerr" where
  "WrapMarshalUserCacheError err = wrap_msg ''marshal user cache'' err"

definition WrapSetUserCacheError :: "string \<Rightarrow> goerr \<Rightarrow> goerr" where
  "WrapSetUserCacheError key err = wrap_msg (''set user cache by key '' @ go_quote key) err"

definition WrapDeleteUserCacheError :: "string \<Rightarrow> goerr \<Rightarrow> goerr" where
  "WrapDeleteUserCacheError key err = wrap_msg (''delete user cache by key '' @ go_quote key) err"

definition WrapGetUserCacheError :: "string \<Rightarrow> goerr \<Rightarrow> goerr" where
  "WrapGetUserCacheError key err = wrap_msg (''get user cache by key '' @ go_quote key) err"

definition WrapUnmarshalUserCacheError :: "goerr \<Rightarrow> goerr" where
  "WrapUnmarshalUserCacheError err = wrap_msg ''unmarshal user cache'' err"

section \<open>Cache models\<close>

record user_cache =
  c_ID :: string
  c_Username :: string
  c_FirstName :: string
  c_LastName :: string
  c_AvatarID :: string
  c_AvatarURL :: string
  c_IsActive :: bool
  c_CreatedAt :: string
  c_UpdatedAt :: string

record user_detailed_cache =
  d_ID :: string
  d_Username :: string
  d_DisplayName :: string
  d_AvatarID :: string
  d_AvatarURL :: string
  d_About :: string
  d_CreatedAt :: string
  d_UpdatedAt :: string

text \<open>The struct tags give the member names and their order.\<close>

definition marshal_user_cache :: "user_cache \<Rightarrow> string" where
  "marshal_user_cache c = enc (JObj
    [(''user_id'', JStr (c_ID c)), (''username'', JStr (c_Username c)),
     (''first_name'', JStr (c_FirstName c)), (''last_name'', JStr (c_LastName c)),
     (''avatar_id'', JStr (c_AvatarID c)), (''avatar_url'', JStr (c_AvatarURL c)),
     (''is_active'', JBool (c_IsActive c)), (''created_at'', JStr (c_CreatedAt c)),
     (''updated_at'', JStr (c_UpdatedAt c))])"

definition user_cache_strings :: "string list" where
  "user_cache_strings = [''user_id'', ''username'', ''first_name'', ''last_name'', ''avatar_id'',
     ''avatar_url'', ''created_at'', ''updated_at'']"

definition unmarshal_user_cache :: "string \<Rightarrow> goerr + user_cache" where
  "unmarshal_user_cache raw =
    (case unmarshal user_cache_strings [''is_active''] raw of
       Inl err \<Rightarrow> Inl err
     | Inr ms \<Rightarrow> Inr \<lparr>c_ID = str_field ''user_id'' ms, c_Username = str_field ''username'' ms,
         c_FirstName = str_field ''first_name'' ms, c_LastName = str_field ''last_name'' ms,
         c_AvatarID = str_field ''avatar_id'' ms, c_AvatarURL = str_field ''avatar_url'' ms,
         c_IsActive = bool_field ''is_active'' ms, c_CreatedAt = str_field ''created_at'' ms,
         c_UpdatedAt = str_field ''updated_at'' ms\<rparr>)"

definition marshal_detailed_cache :: "user_detailed_cache \<Rightarrow> string" where
  "marshal_detailed_cache d = enc (JObj
    [(''user_id'', JStr (d_ID d)), (''username'', JStr (d_Username d)),
     (''display_name'', JStr (d_DisplayName d)), (''avatar_id'', JStr (d_AvatarID d)),
     (''avatar_url'', JStr (d_AvatarURL d)), (''about'', JStr (d_About d)),
     (''created_at'', JStr (d_CreatedAt d)), (''updated_at'', JStr (d_UpdatedAt d))])"

definition detailed_cache_strings :: "string list" where
  "detailed_cache_strings = [''user_id'', ''username'', ''display_name'', ''avatar_id'',
     ''avatar_url'', ''about'', ''created_at'', ''updated_at'']"

definition unmarshal_detailed_cache :: "string \<Rightarrow> goerr + user_detailed_cache" where
  "unmarshal_detailed_cache raw =
    (case unmarshal detailed_cache_strings [] raw of
       Inl err \<Rightarrow> Inl err
     | Inr ms \<Rightarrow> Inr \<lparr>d_ID = str_field ''user_id'' ms, d_Username = str_field ''username'' ms,
         d_DisplayName = str_field ''display_name'' ms, d_AvatarID = str_field ''avatar_id'' ms,
         d_AvatarURL = str_field ''avatar_url'' ms, d_About = str_field ''about'' ms,
         d_CreatedAt = str_field ''created_at'' ms, d_UpdatedAt = str_field ''updated_at'' ms\<rparr>)"

section \<open>Mapper\<close>

definition MapDomainUserToCache :: "user \<Rightarrow> user_cache" where
  "MapDomainUserToCache u =
    \<lparr>c_ID = u_ID u, c_Username = u_Username u, c_FirstName = u_FirstName u,
     c_LastName = u_LastName u, c_AvatarID = u_AvatarID u, c_AvatarURL = u_AvatarURL u,
     c_IsActive = u_IsActive u, c_CreatedAt = format_time (u_CreatedAt u),
     c_UpdatedAt = format_time (u_UpdatedAt u)\<rparr>"

text \<open>The mapper package has a display-name function of its own.\<close>

definition mapper_DisplayName :: "string \<Rightarrow> string \<Rightarrow> string" where
  "mapper_DisplayName firstName lastName =
    (let firstName = TrimSpace firstName; lastName = TrimSpace lastName in
     if firstName = [] \<and> lastName = [] then []
     else if firstName = [] then lastName
     else if lastName = [] then firstName
     else firstName @ '' '' @ lastName)"

definition MapDomainUserToDetailedCache :: "user \<Rightarrow> user_detailed_cache" where
  "MapDomainUserToDetailedCache u =
    (let displayName = TrimSpace (u_DisplayName u);
         displayName = (if displayName = [] then mapper_DisplayName (u_FirstName u) (u_LastName u)
                        else displayName)
     in \<lparr>d_ID = u_ID u, d_Username = u_Username u, d_DisplayName = displayName,
         d_AvatarID = u_AvatarID u, d_AvatarURL = u_AvatarURL u, d_About = u_About u,
         d_CreatedAt = format_time (u_CreatedAt u), d_UpdatedAt = format_time (u_UpdatedAt u)\<rparr>)"

definition MapCacheToDomainUser :: "user_cache \<Rightarrow> user" where
  "MapCacheToDomainUser c = zero_user
    \<lparr>u_ID := c_ID c, u_Username := c_Username c, u_FirstName := c_FirstName c,
     u_LastName := c_LastName c, u_AvatarID := c_AvatarID c, u_AvatarURL := c_AvatarURL c,
     u_IsActive := c_IsActive c\<rparr>"

definition MapDetailedCacheToDomainUser :: "user_detailed_cache \<Rightarrow> user" where
  "MapDetailedCacheToDomainUser d = zero_user
    \<lparr>u_ID := d_ID d, u_Username := d_Username d, u_DisplayName := d_DisplayName d,
     u_AvatarID := d_AvatarID d, u_AvatarURL := d_AvatarURL d, u_About := d_About d,
     u_IsActive := True\<rparr>"

section \<open>Repository methods\<close>

definition UserPreviewCacheKey :: "string \<Rightarrow> string" where
  "UserPreviewCacheKey userID = ''user:preview:'' @ userID"

definition UserDetailedCacheKey :: "string \<Rightarrow> string" where
  "UserDetailedCacheKey username = ''user:detailed:'' @ username"

definition redis_set :: "string \<Rightarrow> string \<Rightarrow> (goerr, unit, world) io" where
  "redis_set key payload w = (Inr (), w\<lparr>w_redis := (w_redis w)(key \<mapsto> payload)\<rparr>)"

definition redis_get :: "string \<Rightarrow> (goerr, string, world) io" where
  "redis_get key w = (case w_redis w key of None \<Rightarrow> (Inl redis_Nil, w) | Some raw \<Rightarrow> (Inr raw, w))"

definition redis_del :: "string \<Rightarrow> (goerr, unit, world) io" where
  "redis_del key w = (Inr (), w\<lparr>w_redis := (w_redis w)(key := None)\<rparr>)"

definition redis_metric :: "string \<Rightarrow> string \<Rightarrow> string \<Rightarrow> world \<Rightarrow> world" where
  "redis_metric operation entity status w = observe (ObserveRedis operation entity status) w"

text \<open>
  Marshalling a struct of strings and booleans cannot fail, so the marshal-error branches of the
  two upserts are never taken.
\<close>

definition Upsert :: "env \<Rightarrow> user option \<Rightarrow> (goerr, unit, world) io" where
  "Upsert E user w =
    (case user of
       None \<Rightarrow> (Inl ErrNilUser, redis_metric ''set'' ''user'' ''error'' w)
     | Some u \<Rightarrow>
         (let payload = marshal_user_cache (MapDomainUserToCache u); key = UserPreviewCacheKey (u_ID u) in
          case ext_call (e_redis_fault E) (redis_set key payload) w of
            (Inl err, w1) \<Rightarrow> (Inl (WrapSetUserCacheError key err), redis_metric ''set'' ''user'' ''error'' w1)
          | (Inr _, w1) \<Rightarrow> (Inr (), redis_metric ''set'' ''user'' ''success'' w1)))"

definition UpsertByUsername :: "env \<Rightarrow> user option \<Rightarrow> (goerr, unit, world) io" where
  "UpsertByUsername E user w =
    (case user of
       None \<Rightarrow> (Inl ErrNilUser, redis_metric ''set'' ''user_detailed'' ''error'' w)
     | Some u \<Rightarrow>
         (let payload = marshal_detailed_cache (MapDomainUserToDetailedCache u);
              key = UserDetailedCacheKey (u_Username u) in
          case ext_call (e_redis_fault E) (redis_set key payload) w of
            (Inl err, w1) \<Rightarrow>
              (Inl (WrapSetUserCacheError key err), redis_metric ''set'' ''user_detailed'' ''error'' w1)
          | (Inr _, w1) \<Rightarrow> (Inr (), redis_metric ''set'' ''user_detailed'' ''success'' w1)))"

definition DeleteByID :: "env \<Rightarrow> string \<Rightarrow> (goerr, unit, world) io" where
  "DeleteByID E userID w =
    (let key = UserPreviewCacheKey userID in
     case ext_call (e_redis_fault E) (redis_del key) w of
       (Inl err, w1) \<Rightarrow> (Inl (WrapDeleteUserCacheError key err), redis_metric ''del'' ''user'' ''error'' w1)
     | (Inr _, w1) \<Rightarrow> (Inr (), redis_metric ''del'' ''user'' ''success'' w1))"

definition DeleteByUsername :: "env \<Rightarrow> string \<Rightarrow> (goerr, unit, world) io" where
  "DeleteByUsername E username w =
    (let key = UserDetailedCacheKey username in
     case ext_call (e_redis_fault E) (redis_del key) w of
       (Inl err, w1) \<Rightarrow>
         (Inl (WrapDeleteUserCacheError key err), redis_metric ''del'' ''user_detailed'' ''error'' w1)
     | (Inr _, w1) \<Rightarrow> (Inr (), redis_metric ''del'' ''user_detailed'' ''success'' w1))"

definition GetByID :: "env \<Rightarrow> string \<Rightarrow> (goerr, user option, world) io" where
  "GetByID E userID w =
    (let key = UserPreviewCacheKey userID in
     case ext_call (e_redis_fault E) (redis_get key) w of
       (Inl err, w1) \<Rightarrow>
         (Inl (if err = redis_Nil then ErrUserNotFound else WrapGetUserCacheError key err),
          redis_metric ''get'' ''user'' ''error'' w1)
     | (Inr raw, w1) \<Rightarrow>
         (case unmarshal_user_cache raw of
            Inl err \<Rightarrow> (Inl (WrapUnmarshalUserCacheError err), redis_metric ''get'' ''user'' ''error'' w1)
          | Inr cache \<Rightarrow>
              (Inr (Some (MapCacheToDomainUser cache)), redis_metric ''get'' ''user'' ''success'' w1)))"

definition GetByUsername :: "env \<Rightarrow> string \<Rightarrow> (goerr, user option, world) io" where
  "GetByUsername E username w =
    (let key = UserDetailedCacheKey username in
     case ext_call (e_redis_fault E) (redis_get key) w of
       (Inl err, w1) \<Rightarrow>
         (Inl (if err = redis_Nil then ErrUserNotFound else WrapGetUserCacheError key err),
          redis_metric ''get'' ''user_detailed'' ''error'' w1)
     | (Inr raw, w1) \<Rightarrow>
         (case unmarshal_detailed_cache raw of
            Inl err \<Rightarrow>
              (Inl (WrapUnmarshalUserCacheError err), redis_metric ''get'' ''user_detailed'' ''error'' w1)
          | Inr cache \<Rightarrow>
              (Inr (Some (MapDetailedCacheToDomainUser cache)),
               redis_metric ''get'' ''user_detailed'' ''success'' w1)))"

definition redis_repo :: "env \<Rightarrow> world user_read_repository" where
  "redis_repo E =
    \<lparr>rr_Upsert = Upsert E, rr_GetByID = GetByID E, rr_DeleteByID = DeleteByID E,
     rr_UpsertByUsername = UpsertByUsername E, rr_GetByUsername = GetByUsername E,
     rr_DeleteByUsername = DeleteByUsername E\<rparr>"

definition New :: "env option \<Rightarrow> unit option \<Rightarrow> goerr + world user_read_repository" where
  "New rdb log =
    (case rdb of
       None \<Rightarrow> Inl ErrNilRedisClient
     | Some E \<Rightarrow> if log = None then Inl ErrNilLogger else Inr (redis_repo E))"

section \<open>Texts of times are well-formed\<close>

lemma ascii_digits: "ascii (digits n)"
proof (induction n rule: digits.induct)
  case (1 n)
  have d: "code (digit_char k) < 128" if "k < 10" for k
  proof -
    have "k \<in> set [0,1,2,3,4,5,6,7,8,9]" using that by auto
    then show ?thesis by (auto simp: digit_char_def)
  qed
  with 1 show ?case by (subst digits.simps) auto
qed

lemma ascii_pad: "ascii (pad0 w (itoa i))"
  using ascii_digits by (auto simp: pad0_def itoa_def list_all_iff)

lemma ascii_two: "ascii (two i)"
  by (simp only: two_def ascii_pad)

lemma ascii_format_time: "ascii (format_time t)"
proof -
  have "ascii (date_text d)" for d
    using ascii_pad ascii_two by (cases d) (auto simp: date_text_def year_text_def)
  moreover have "ascii (frac_text n)" for n
    using ascii_pad [of 9 n]
    by (auto simp: frac_text_def Let_def list_all_iff dest!: set_dropWhileD)
  moreover have "ascii (clock_text n)" for n
    using ascii_two by (auto simp: clock_text_def)
  ultimately show ?thesis by (simp only: format_time_def list_all_append) simp
qed

lemma utf8_valid_format_time [simp]: "utf8_valid (format_time t)"
  by (rule utf8_valid_ascii [OF ascii_format_time])

section \<open>Round trip of the cache documents\<close>

definition cache_ok :: "user_cache \<Rightarrow> bool" where
  "cache_ok c \<longleftrightarrow> list_all utf8_valid [c_ID c, c_Username c, c_FirstName c, c_LastName c,
     c_AvatarID c, c_AvatarURL c, c_CreatedAt c, c_UpdatedAt c]"

definition detailed_ok :: "user_detailed_cache \<Rightarrow> bool" where
  "detailed_ok d \<longleftrightarrow> list_all utf8_valid [d_ID d, d_Username d, d_DisplayName d, d_AvatarID d,
     d_AvatarURL d, d_About d, d_CreatedAt d, d_UpdatedAt d]"

lemma unmarshal_marshal_cache:
  assumes "cache_ok c"
  shows "unmarshal_user_cache (marshal_user_cache c) = Inr c"
proof -
  let ?ms = "[(''user_id'', JStr (c_ID c)), (''username'', JStr (c_Username c)),
     (''first_name'', JStr (c_FirstName c)), (''last_name'', JStr (c_LastName c)),
     (''avatar_id'', JStr (c_AvatarID c)), (''avatar_url'', JStr (c_AvatarURL c)),
     (''is_active'', JBool (c_IsActive c)), (''created_at'', JStr (c_CreatedAt c)),
     (''updated_at'', JStr (c_UpdatedAt c))]"
  have plain: "plain_members ?ms"
    by (simp add: plain_members_def plain_key_def)
  have "unmarshal user_cache_strings [''is_active''] (enc (JObj ?ms)) = Inr ?ms"
    by (rule unmarshal_enc [OF plain])
      (use assms in \<open>simp_all add: user_cache_strings_def plain_key_def typed_members_def is_str_def
        is_bool_def cache_ok_def\<close>)
  moreover note [simp] = str_field_member [OF plain] bool_field_member [OF plain]
  ultimately show ?thesis
    by (simp add: unmarshal_user_cache_def marshal_user_cache_def)
qed

lemma unmarshal_marshal_detailed:
  assumes "detailed_ok d"
  shows "unmarshal_detailed_cache (marshal_detailed_cache d) = Inr d"
proof -
  let ?ms = "[(''user_id'', JStr (d_ID d)), (''username'', JStr (d_Username d)),
     (''display_name'', JStr (d_DisplayName d)), (''avatar_id'', JStr (d_AvatarID d)),
     (''avatar_url'', JStr (d_AvatarURL d)), (''about'', JStr (d_About d)),
     (''created_at'', JStr (d_CreatedAt d)), (''updated_at'', JStr (d_UpdatedAt d))]"
  have plain: "plain_members ?ms"
    by (simp add: plain_members_def plain_key_def)
  have "unmarshal detailed_cache_strings [] (enc (JObj ?ms)) = Inr ?ms"
    by (rule unmarshal_enc [OF plain])
      (use assms in \<open>simp_all add: detailed_cache_strings_def plain_key_def typed_members_def is_str_def
        is_bool_def detailed_ok_def\<close>)
  moreover note [simp] = str_field_member [OF plain]
  ultimately show ?thesis
    by (simp add: unmarshal_detailed_cache_def marshal_detailed_cache_def)
qed

section \<open>The two projections of users\<close>

text \<open>The users whose strings are well-formed UTF-8, and what they come back as.\<close>

definition storable :: "user \<Rightarrow> bool" where
  "storable u \<longleftrightarrow> list_all utf8_valid [u_ID u, u_Username u, u_DisplayName u, u_FirstName u,
     u_LastName u, u_AvatarID u, u_AvatarURL u, u_About u]"

definition as_preview :: "user \<Rightarrow> user" where
  "as_preview u = zero_user
    \<lparr>u_ID := u_ID u, u_Username := u_Username u, u_FirstName := u_FirstName u,
     u_LastName := u_LastName u, u_AvatarID := u_AvatarID u, u_AvatarURL := u_AvatarURL u,
     u_IsActive := u_IsActive u\<rparr>"

definition shown_name :: "user \<Rightarrow> string" where
  "shown_name u = (if TrimSpace (u_DisplayName u) = [] then DisplayName (u_FirstName u) (u_LastName u)
                   else TrimSpace (u_DisplayName u))"

definition as_detailed :: "user \<Rightarrow> user" where
  "as_detailed u = zero_user
    \<lparr>u_ID := u_ID u, u_Username := u_Username u, u_DisplayName := shown_name u,
     u_AvatarID := u_AvatarID u, u_AvatarURL := u_AvatarURL u, u_About := u_About u,
     u_IsActive := True\<rparr>"

text \<open>The mapper's display name is the domain's.\<close>

lemma mapper_DisplayName_eq: "mapper_DisplayName = DisplayName"
  by (simp add: fun_eq_iff mapper_DisplayName_def DisplayName_def)

lemma utf8_valid_DisplayName [simp]:
  "utf8_valid f \<Longrightarrow> utf8_valid l \<Longrightarrow> utf8_valid (DisplayName f l)"
  by (auto simp: DisplayName_def Let_def utf8_valid_append utf8_valid.simps [of "CHR '' '' # _"]
      utf8_len.simps)

lemma cache_ok_storable [simp]: "storable u \<Longrightarrow> cache_ok (MapDomainUserToCache u)"
  by (simp add: storable_def cache_ok_def MapDomainUserToCache_def)

lemma detailed_ok_storable [simp]: "storable u \<Longrightarrow> detailed_ok (MapDomainUserToDetailedCache u)"
  by (simp add: storable_def detailed_ok_def MapDomainUserToDetailedCache_def Let_def
      mapper_DisplayName_eq)

definition preview :: "world \<Rightarrow> user_store" where
  "preview w userID = (case w_redis w (UserPreviewCacheKey userID) of
     None \<Rightarrow> None
   | Some raw \<Rightarrow> (case unmarshal_user_cache raw of
                   Inl _ \<Rightarrow> None | Inr cache \<Rightarrow> Some (MapCacheToDomainUser cache)))"

definition detailed :: "world \<Rightarrow> user_store" where
  "detailed w username = (case w_redis w (UserDetailedCacheKey username) of
     None \<Rightarrow> None
   | Some raw \<Rightarrow> (case unmarshal_detailed_cache raw of
                   Inl _ \<Rightarrow> None | Inr cache \<Rightarrow> Some (MapDetailedCacheToDomainUser cache)))"

definition redis_inv :: "env \<Rightarrow> world \<Rightarrow> bool" where
  "redis_inv E w \<longleftrightarrow> env_ok utf8_valid E"

definition redis_kept :: "world \<Rightarrow> user_row list \<times> outbox_event list \<times> (string \<times> string) list" where
  "redis_kept w = (w_users w, w_outbox w, w_bus w)"

lemma key_eq [simp]:
  "UserPreviewCacheKey a = UserPreviewCacheKey b \<longleftrightarrow> a = b"
  "UserDetailedCacheKey a = UserDetailedCacheKey b \<longleftrightarrow> a = b"
  "UserPreviewCacheKey a \<noteq> UserDetailedCacheKey b" "UserDetailedCacheKey b \<noteq> UserPreviewCacheKey a"
  by (simp_all add: UserPreviewCacheKey_def UserDetailedCacheKey_def)

text \<open>The effect of the three commands on the two projections.\<close>

lemma preview_update:
  "preview (w\<lparr>w_redis := (w_redis w)(UserPreviewCacheKey i \<mapsto> marshal_user_cache c)\<rparr>) =
     (preview w)(i := map_option MapCacheToDomainUser
        (case unmarshal_user_cache (marshal_user_cache c) of Inl _ \<Rightarrow> None | Inr c \<Rightarrow> Some c))"
  "detailed (w\<lparr>w_redis := (w_redis w)(UserPreviewCacheKey i \<mapsto> raw)\<rparr>) = detailed w"
  "preview (w\<lparr>w_redis := (w_redis w)(UserPreviewCacheKey i := None)\<rparr>) = (preview w)(i := None)"
  "detailed (w\<lparr>w_redis := (w_redis w)(UserPreviewCacheKey i := None)\<rparr>) = detailed w"
  by (auto simp: fun_eq_iff preview_def detailed_def split: sum.splits)

lemma detailed_update:
  "detailed (w\<lparr>w_redis := (w_redis w)(UserDetailedCacheKey n \<mapsto> marshal_detailed_cache c)\<rparr>) =
     (detailed w)(n := map_option MapDetailedCacheToDomainUser
        (case unmarshal_detailed_cache (marshal_detailed_cache c) of Inl _ \<Rightarrow> None | Inr c \<Rightarrow> Some c))"
  "preview (w\<lparr>w_redis := (w_redis w)(UserDetailedCacheKey n \<mapsto> raw)\<rparr>) = preview w"
  "detailed (w\<lparr>w_redis := (w_redis w)(UserDetailedCacheKey n := None)\<rparr>) = (detailed w)(n := None)"
  "preview (w\<lparr>w_redis := (w_redis w)(UserDetailedCacheKey n := None)\<rparr>) = preview w"
  by (auto simp: fun_eq_iff preview_def detailed_def split: sum.splits)

lemma mapped_preview: "MapCacheToDomainUser (MapDomainUserToCache u) = as_preview u"
  by (simp add: MapCacheToDomainUser_def MapDomainUserToCache_def as_preview_def)

lemma mapped_detailed: "MapDetailedCacheToDomainUser (MapDomainUserToDetailedCache u) = as_detailed u"
  by (simp add: MapDetailedCacheToDomainUser_def MapDomainUserToDetailedCache_def as_detailed_def
      shown_name_def mapper_DisplayName_eq Let_def)

lemma redis_view_simps [simp]:
  "preview (w\<lparr>w_calls := n\<rparr>) = preview w" "detailed (w\<lparr>w_calls := n\<rparr>) = detailed w"
  "redis_kept (w\<lparr>w_calls := n\<rparr>) = redis_kept w" "redis_inv E (w\<lparr>w_calls := n\<rparr>) = redis_inv E w"
  "preview (redis_metric a b c w) = preview w" "detailed (redis_metric a b c w) = detailed w"
  "redis_kept (redis_metric a b c w) = redis_kept w" "redis_inv E (redis_metric a b c w) = redis_inv E w"
  "redis_kept (w\<lparr>w_redis := r\<rparr>) = redis_kept w" "redis_inv E (w\<lparr>w_redis := r\<rparr>) = redis_inv E w"
  by (auto simp: fun_eq_iff preview_def detailed_def redis_kept_def redis_inv_def redis_metric_def)

section \<open>The repository keeps the contract\<close>

lemma injected_error [simp]:
  assumes "redis_inv E w" and "fault_error (e_redis_fault E n) = Some e"
  shows "\<not> errors_is e ErrUserNotFound" and "e \<noteq> redis_Nil"
  using assms env_okD(7,8) by (auto simp: redis_inv_def)

lemma redis_calls [simp]:
  "preview (w\<lparr>w_calls := n, w_redis := r\<rparr>) = preview (w\<lparr>w_redis := r\<rparr>)"
  "detailed (w\<lparr>w_calls := n, w_redis := r\<rparr>) = detailed (w\<lparr>w_redis := r\<rparr>)"
  "redis_kept (w\<lparr>w_calls := n, w_redis := r\<rparr>) = redis_kept w"
  "redis_inv E (w\<lparr>w_calls := n, w_redis := r\<rparr>) = redis_inv E w"
  by (auto simp: fun_eq_iff preview_def detailed_def redis_kept_def redis_inv_def)

lemma redis_wraps [simp]:
  "errors_is (WrapSetUserCacheError k e) ErrUserNotFound \<longleftrightarrow> errors_is e ErrUserNotFound"
  "errors_is (WrapDeleteUserCacheError k e) ErrUserNotFound \<longleftrightarrow> errors_is e ErrUserNotFound"
  "errors_is (WrapGetUserCacheError k e) ErrUserNotFound \<longleftrightarrow> errors_is e ErrUserNotFound"
  "errors_is (WrapUnmarshalUserCacheError e) ErrUserNotFound \<longleftrightarrow> errors_is e ErrUserNotFound"
  by (simp_all add: WrapSetUserCacheError_def WrapDeleteUserCacheError_def
      WrapGetUserCacheError_def WrapUnmarshalUserCacheError_def)

text \<open>A write command: the request is counted, and the write happened unless it was lost.\<close>

lemma redis_write_cases:
  assumes "ext_call (e_redis_fault E) act w = (x, w1)"
    and "act = redis_set k p \<and> r = (w_redis w)(k \<mapsto> p) \<or> act = redis_del k \<and> r = (w_redis w)(k := None)"
  obtains (carried) "x = Inr ()" "w1 = w\<lparr>w_calls := Suc (w_calls w), w_redis := r\<rparr>"
    | (late) e n where "x = Inl e" "fault_error (e_redis_fault E n) = Some e"
        "w1 = w\<lparr>w_calls := Suc (w_calls w), w_redis := r\<rparr>"
    | (lost) e n where "x = Inl e" "fault_error (e_redis_fault E n) = Some e"
        "w1 = w\<lparr>w_calls := Suc (w_calls w)\<rparr>"
proof -
  have act: "act v = (Inr (), v\<lparr>w_redis := r\<rparr>)" if "w_redis v = w_redis w" for v
    using assms(2) that by (auto simp: redis_set_def redis_del_def)
  from assms(1) show ?thesis
    by (cases rule: ext_call_cases)
      (use act that in \<open>auto simp: act\<close>)
qed

lemma ErrNilUser_neq [simp]: "\<not> errors_is ErrNilUser ErrUserNotFound"
  by (simp add: ErrNilUser_def ErrUserNotFound_def)

lemma redis_Upsert_outcome:
  assumes "redis_inv E w" and "Upsert E uo w = (x, w')"
  shows "redis_inv E w' \<and> redis_kept w' = redis_kept w \<and> detailed w' = detailed w \<and>
    (\<forall>e. x = Inl e \<longrightarrow> \<not> errors_is e ErrUserNotFound) \<and>
    (\<forall>u. uo = Some u \<and> storable u \<longrightarrow>
       (case x of
          Inr _ \<Rightarrow> preview w' = (preview w)(u_ID u \<mapsto> as_preview u)
        | Inl e \<Rightarrow> preview w' = preview w \<or> preview w' = (preview w)(u_ID u \<mapsto> as_preview u)))"
proof (cases uo)
  case None
  with assms show ?thesis by (auto simp: Upsert_def)
next
  case (Some u)
  let ?k = "UserPreviewCacheKey (u_ID u)" and ?p = "marshal_user_cache (MapDomainUserToCache u)"
  obtain y w1 where c: "ext_call (e_redis_fault E) (redis_set ?k ?p) w = (y, w1)" by fastforce
  have rt: "storable u \<Longrightarrow> unmarshal_user_cache ?p = Inr (MapDomainUserToCache u)"
    by (simp add: unmarshal_marshal_cache)
  from c disjI1 [OF conjI [OF refl refl]] show ?thesis
  proof (cases rule: redis_write_cases)
    case carried
    with Some assms c rt show ?thesis by (auto simp: Upsert_def Let_def preview_update mapped_preview)
  next
    case (late e n)
    with Some assms c rt show ?thesis by (auto simp: Upsert_def Let_def preview_update mapped_preview)
  next
    case (lost e n)
    with Some assms c show ?thesis by (auto simp: Upsert_def Let_def)
  qed
qed

lemma redis_UpsertByUsername_outcome:
  assumes "redis_inv E w" and "UpsertByUsername E uo w = (x, w')"
  shows "redis_inv E w' \<and> redis_kept w' = redis_kept w \<and> preview w' = preview w \<and>
    (\<forall>e. x = Inl e \<longrightarrow> \<not> errors_is e ErrUserNotFound) \<and>
    (\<forall>u. uo = Some u \<and> storable u \<longrightarrow>
       (case x of
          Inr _ \<Rightarrow> detailed w' = (detailed w)(u_Username u \<mapsto> as_detailed u)
        | Inl e \<Rightarrow> detailed w' = detailed w \<or> detailed w' = (detailed w)(u_Username u \<mapsto> as_detailed u)))"
proof (cases uo)
  case None
  with assms show ?thesis by (auto simp: UpsertByUsername_def)
next
  case (Some u)
  let ?k = "UserDetailedCacheKey (u_Username u)"
    and ?p = "marshal_detailed_cache (MapDomainUserToDetailedCache u)"
  obtain y w1 where c: "ext_call (e_redis_fault E) (redis_set ?k ?p) w = (y, w1)" by fastforce
  have rt: "storable u \<Longrightarrow> unmarshal_detailed_cache ?p = Inr (MapDomainUserToDetailedCache u)"
    by (simp add: unmarshal_marshal_detailed)
  from c disjI1 [OF conjI [OF refl refl]] show ?thesis
  proof (cases rule: redis_write_cases)
    case carried
    with Some assms c rt show ?thesis
      by (auto simp: UpsertByUsername_def Let_def detailed_update mapped_detailed)
  next
    case (late e n)
    with Some assms c rt show ?thesis
      by (auto simp: UpsertByUsername_def Let_def detailed_update mapped_detailed)
  next
    case (lost e n)
    with Some assms c show ?thesis by (auto simp: UpsertByUsername_def Let_def)
  qed
qed

lemma redis_DeleteByID_outcome:
  assumes "redis_inv E w" and "DeleteByID E i w = (x, w')"
  shows "redis_inv E w' \<and> redis_kept w' = redis_kept w \<and> detailed w' = detailed w \<and>
    (case x of
       Inr _ \<Rightarrow> preview w' = (preview w)(i := None)
     | Inl e \<Rightarrow> preview w' = preview w \<or> preview w' = (preview w)(i := None))"
proof -
  let ?k = "UserPreviewCacheKey i"
  obtain y w1 where c: "ext_call (e_redis_fault E) (redis_del ?k) w = (y, w1)" by fastforce
  from c disjI2 [OF conjI [OF refl refl]] show ?thesis
    by (cases rule: redis_write_cases)
      (use assms c in \<open>auto simp: DeleteByID_def Let_def preview_update\<close>)
qed

lemma redis_DeleteByUsername_outcome:
  assumes "redis_inv E w" and "DeleteByUsername E n w = (x, w')"
  shows "redis_inv E w' \<and> redis_kept w' = redis_kept w \<and> preview w' = preview w \<and>
    (case x of
       Inr _ \<Rightarrow> detailed w' = (detailed w)(n := None)
     | Inl e \<Rightarrow> detailed w' = detailed w \<or> detailed w' = (detailed w)(n := None))"
proof -
  let ?k = "UserDetailedCacheKey n"
  obtain y w1 where c: "ext_call (e_redis_fault E) (redis_del ?k) w = (y, w1)" by fastforce
  from c disjI2 [OF conjI [OF refl refl]] show ?thesis
    by (cases rule: redis_write_cases)
      (use assms c in \<open>auto simp: DeleteByUsername_def Let_def detailed_update\<close>)
qed

text \<open>A read: a stored value, the marker that there is none, or a failure that is not that marker.\<close>

lemma redis_read_cases:
  assumes "redis_inv E w" and "ext_call (e_redis_fault E) (redis_get k) w = (x, w1)"
  obtains (found) raw where "x = Inr raw" "w_redis w k = Some raw" "w1 = w\<lparr>w_calls := Suc (w_calls w)\<rparr>"
    | (missing) "x = Inl redis_Nil" "w_redis w k = None" "w1 = w\<lparr>w_calls := Suc (w_calls w)\<rparr>"
    | (failed) e where "x = Inl e" "e \<noteq> redis_Nil" "\<not> errors_is e ErrUserNotFound"
        "w1 = w\<lparr>w_calls := Suc (w_calls w)\<rparr>"
  using assms(2)
proof (cases rule: ext_call_cases)
  case answered
  with that(1,2) show ?thesis by (auto simp: redis_get_def split: option.splits)
next
  case (lost e)
  with that(3) injected_error [OF assms(1)] show ?thesis by auto
next
  case (late e)
  with that(3) injected_error [OF assms(1)] show ?thesis
    by (auto simp: redis_get_def split: option.splits)
qed

lemma unmarshal_error [simp]:
  "unmarshal_user_cache raw = Inl e \<Longrightarrow> \<not> errors_is e ErrUserNotFound"
  "unmarshal_detailed_cache raw = Inl e \<Longrightarrow> \<not> errors_is e ErrUserNotFound"
  by (auto simp: unmarshal_user_cache_def unmarshal_detailed_cache_def unmarshal_def
      json_syntax_error_def json_type_error_def ErrUserNotFound_def
      split: sum.splits option.splits json.splits if_splits)

lemma redis_GetByID_outcome:
  assumes "redis_inv E w" and "GetByID E i w = (x, w')"
  shows "redis_inv E w' \<and> redis_kept w' = redis_kept w \<and> preview w' = preview w \<and>
    detailed w' = detailed w \<and>
    (case x of
       Inr uo \<Rightarrow> uo = preview w i \<and> uo \<noteq> None
     | Inl e \<Rightarrow> errors_is e ErrUserNotFound \<longrightarrow> w_redis w (UserPreviewCacheKey i) = None)"
proof -
  obtain y w1 where c: "ext_call (e_redis_fault E) (redis_get (UserPreviewCacheKey i)) w = (y, w1)"
    by fastforce
  from assms(1) c show ?thesis
    by (cases rule: redis_read_cases)
      (use assms c in \<open>auto simp: GetByID_def Let_def preview_def split: sum.splits\<close>)
qed

lemma redis_GetByUsername_outcome:
  assumes "redis_inv E w" and "GetByUsername E n w = (x, w')"
  shows "redis_inv E w' \<and> redis_kept w' = redis_kept w \<and> preview w' = preview w \<and>
    detailed w' = detailed w \<and>
    (case x of
       Inr uo \<Rightarrow> uo = detailed w n \<and> uo \<noteq> None
     | Inl e \<Rightarrow> errors_is e ErrUserNotFound \<longrightarrow> w_redis w (UserDetailedCacheKey n) = None)"
proof -
  obtain y w1 where c: "ext_call (e_redis_fault E) (redis_get (UserDetailedCacheKey n)) w = (y, w1)"
    by fastforce
  from assms(1) c show ?thesis
    by (cases rule: redis_read_cases)
      (use assms c in \<open>auto simp: GetByUsername_def Let_def detailed_def split: sum.splits\<close>)
qed

lemma redis_repo_methods [simp]:
  "rr_Upsert (redis_repo E) = Upsert E" "rr_GetByID (redis_repo E) = GetByID E"
  "rr_DeleteByID (redis_repo E) = DeleteByID E"
  "rr_UpsertByUsername (redis_repo E) = UpsertByUsername E"
  "rr_GetByUsername (redis_repo E) = GetByUsername E"
  "rr_DeleteByUsername (redis_repo E) = DeleteByUsername E"
  by (simp_all add: redis_repo_def)

interpretation redis: user_read_contract "redis_repo E" preview detailed as_preview as_detailed
  storable "redis_inv E" redis_kept for E
  by (unfold_locales; unfold redis_repo_methods;
      (drule (1) redis_Upsert_outcome | drule (1) redis_GetByID_outcome | drule (1) redis_DeleteByID_outcome |
       drule (1) redis_UpsertByUsername_outcome | drule (1) redis_GetByUsername_outcome |
       drule (1) redis_DeleteByUsername_outcome);
      auto simp: preview_def detailed_def)

end
