(* ===== verification/Application.thy ===== *)
theory Application
  imports Domain
begin

text \<open>
  The application layer: package internal/application. The service is a record of its four
  collaborators; each operation passes the state through the collaborators in the order of the
  code and returns at the first error the code returns at. Log calls are left out.

  The locale \<open>user_service_backend\<close> joins the contracts of the two repositories with what the
  service needs of the file client and the publisher. Inside it, every operation is shown to
  move the stored users by at most one step of the life cycle \<open>user_step\<close>, whatever fails on
  the way, and to keep the previews \<open>coherent\<close> with the stored users where it does so.
\<close>

section \<open>Collaborators and errors\<close>

definition ErrNilUserRepository :: goerr where
  "ErrNilUserRepository = Sentinel ''service'' ''user repository is nil''"

definition ErrNilUserReadRepository :: goerr where
  "ErrNilUserReadRepository = Sentinel ''service'' ''user read repository is nil''"

definition ErrNilFileURLClient :: goerr where
  "ErrNilFileURLClient = Sentinel ''service'' ''file url client is nil''"

definition ErrNilDetailedUserPublisher :: goerr where
  "ErrNilDetailedUserPublisher = Sentinel ''service'' ''detailed user publisher is nil''"

definition ErrNilLogger :: goerr where
  "ErrNilLogger = Sentinel ''service'' ''logger is nil''"

record 's file_url_client =
  fc_GetFileURL :: "string \<Rightarrow> (goerr, string, 's) io"

record 's detailed_user_publisher =
  pb_PublishDetailedUserRequested :: "user option \<Rightarrow> (goerr, unit, 's) io"

record 's user_service =
  svc_repo :: "'s user_repository"
  svc_readRepo :: "'s user_read_repository"
  svc_files :: "'s file_url_client"
  svc_pub :: "'s detailed_user_publisher"

definition noopFileURLClient :: "'s file_url_client" where
  "noopFileURLClient = \<lparr>fc_GetFileURL = (\<lambda>_ s. (Inr [], s))\<rparr>"

definition noopDetailedUserPublisher :: "'s detailed_user_publisher" where
  "noopDetailedUserPublisher = \<lparr>pb_PublishDetailedUserRequested = (\<lambda>_ s. (Inr (), s))\<rparr>"

definition New :: "'s user_repository option \<Rightarrow> 's user_read_repository option \<Rightarrow> unit option
    \<Rightarrow> goerr + 's user_service" where
  "New repo readRepo log =
    (case repo of
       None \<Rightarrow> Inl ErrNilUserRepository
     | Some repo \<Rightarrow>
         (case readRepo of
            None \<Rightarrow> Inl ErrNilUserReadRepository
          | Some readRepo \<Rightarrow>
              if log = None then Inl ErrNilLogger
              else Inr \<lparr>svc_repo = repo, svc_readRepo = readRepo, svc_files = noopFileURLClient,
                        svc_pub = noopDetailedUserPublisher\<rparr>))"

definition NewDetailed :: "'s user_repository option \<Rightarrow> 's user_read_repository option
    \<Rightarrow> 's file_url_client option \<Rightarrow> 's detailed_user_publisher option \<Rightarrow> unit option
    \<Rightarrow> goerr + 's user_service" where
  "NewDetailed repo readRepo files pub log =
    (case repo of
       None \<Rightarrow> Inl ErrNilUserRepository
     | Some repo \<Rightarrow>
         (case readRepo of
            None \<Rightarrow> Inl ErrNilUserReadRepository
          | Some readRepo \<Rightarrow>
              (case files of
                 None \<Rightarrow> Inl ErrNilFileURLClient
               | Some files \<Rightarrow>
                   (case pub of
                      None \<Rightarrow> Inl ErrNilDetailedUserPublisher
                    | Some pub \<Rightarrow>
                        if log = None then Inl ErrNilLogger
                        else Inr \<lparr>svc_repo = repo, svc_readRepo = readRepo, svc_files = files,
                                  svc_pub = pub\<rparr>))))"

section \<open>Commands\<close>

definition CreateUser :: "'s user_service \<Rightarrow> string \<Rightarrow> string \<Rightarrow> string \<Rightarrow> string
    \<Rightarrow> (goerr, user, 's) io" where
  "CreateUser svc userID username firstName lastName s =
    (if userID = [] then (Inl ErrInvalidUserID, s)
     else case ur_Create (svc_repo svc)
                 \<lparr>p_ID = userID, p_Username = username, p_FirstName = firstName,
                  p_LastName = lastName, p_AvatarID = []\<rparr> s of
            (Inl err, s1) \<Rightarrow> (Inl err, s1)
          | (Inr user, s1) \<Rightarrow>
              (case rr_Upsert (svc_readRepo svc) (Some user) s1 of
                 (Inl err, s2) \<Rightarrow> (Inl err, s2)
               | (Inr _, s2) \<Rightarrow> (Inr user, s2)))"

definition DeleteUser :: "'s user_service \<Rightarrow> string \<Rightarrow> (goerr, unit, 's) io" where
  "DeleteUser svc userID s =
    (if userID = [] then (Inl ErrInvalidUserID, s)
     else case ur_DeleteByID (svc_repo svc) userID s of
            (Inl err, s1) \<Rightarrow> (Inl err, s1)
          | (Inr _, s1) \<Rightarrow>
              (case rr_DeleteByID (svc_readRepo svc) userID s1 of
                 (Inl err, s2) \<Rightarrow> (Inl err, s2)
               | (Inr _, s2) \<Rightarrow> (Inr (), s2)))"

definition ActivateUser :: "'s user_service \<Rightarrow> string \<Rightarrow> (goerr, user, 's) io" where
  "ActivateUser svc userID s =
    (if userID = [] then (Inl ErrInvalidUserID, s)
     else case ur_ActivateByID (svc_repo svc) userID s of
            (Inl err, s1) \<Rightarrow> (Inl err, s1)
          | (Inr user, s1) \<Rightarrow>
              (case rr_Upsert (svc_readRepo svc) (Some user) s1 of
                 (Inl err, s2) \<Rightarrow> (Inl err, s2)
               | (Inr _, s2) \<Rightarrow> (Inr user, s2)))"

definition DeactivateUser :: "'s user_service \<Rightarrow> string \<Rightarrow> (goerr, unit, 's) io" where
  "DeactivateUser svc userID s =
    (if userID = [] then (Inl ErrInvalidUserID, s)
     else case ur_DeactivateByID (svc_repo svc) userID s of
            (Inl err, s1) \<Rightarrow> (Inl err, s1)
          | (Inr _, s1) \<Rightarrow>
              (case rr_DeleteByID (svc_readRepo svc) userID s1 of
                 (Inl err, s2) \<Rightarrow> (Inl err, s2)
               | (Inr _, s2) \<Rightarrow> (Inr (), s2)))"

section \<open>Queries\<close>

definition ExistsByUsername :: "'s user_service \<Rightarrow> string \<Rightarrow> (goerr, bool, 's) io" where
  "ExistsByUsername svc username s =
    (if TrimSpace username = [] then (Inl ErrInvalidUsername, s)
     else ur_ExistsByUsername (svc_repo svc) (TrimSpace username) s)"

text \<open>The avatar look-up both loading paths share: a failure leaves the user as it is.\<close>

definition resolve_avatar :: "'s user_service \<Rightarrow> user \<Rightarrow> 's \<Rightarrow> user \<times> 's" where
  "resolve_avatar svc user s =
    (let avatarID = TrimSpace (u_AvatarID user) in
     if avatarID \<noteq> [] then
       (case fc_GetFileURL (svc_files svc) avatarID s of
          (Inr avatarURL, s1) \<Rightarrow> (user\<lparr>u_AvatarURL := avatarURL\<rparr>, s1)
        | (Inl _, s1) \<Rightarrow> (user, s1))
     else (user, s))"

definition loadUserPreview :: "'s user_service \<Rightarrow> string \<Rightarrow> (goerr, user, 's) io" where
  "loadUserPreview svc userID s =
    (case ur_GetByID (svc_repo svc) userID s of
       (Inl err, s1) \<Rightarrow> (Inl err, s1)
     | (Inr user, s1) \<Rightarrow> (case resolve_avatar svc user s1 of (user, s2) \<Rightarrow> (Inr user, s2)))"

text \<open>
  What the cached branch does with a cached preview: when it has an avatar and no URL, the URL is
  resolved and the entry written again; a failure of either is only logged.
\<close>

definition refresh_preview :: "'s user_service \<Rightarrow> user \<Rightarrow> 's \<Rightarrow> user \<times> 's" where
  "refresh_preview svc cached s =
    (if TrimSpace (u_AvatarURL cached) = [] \<and> TrimSpace (u_AvatarID cached) \<noteq> [] then
       (case fc_GetFileURL (svc_files svc) (u_AvatarID cached) s of
          (Inr avatarURL, s1) \<Rightarrow>
            (let cached = cached\<lparr>u_AvatarURL := avatarURL\<rparr> in
             case rr_Upsert (svc_readRepo svc) (Some cached) s1 of (_, s2) \<Rightarrow> (cached, s2))
        | (Inl _, s1) \<Rightarrow> (cached, s1))
     else (cached, s))"

definition GetUserPreviewByID :: "'s user_service \<Rightarrow> string \<Rightarrow> (goerr, user, 's) io" where
  "GetUserPreviewByID svc userID s =
    (let userID = TrimSpace userID in
     if userID = [] then (Inl ErrInvalidUserID, s)
     else
       (let load = (\<lambda>s1. case loadUserPreview svc userID s1 of
                           (Inl err, s2) \<Rightarrow> (Inl err, s2)
                         | (Inr user, s2) \<Rightarrow>
                             (case rr_Upsert (svc_readRepo svc) (Some user) s2 of
                                (Inl err, s3) \<Rightarrow> (Inl err, s3)
                              | (Inr _, s3) \<Rightarrow> (Inr user, s3)))
        in case rr_GetByID (svc_readRepo svc) userID s of
             (Inr (Some cached), s1) \<Rightarrow>
               (case refresh_preview svc cached s1 of (cached, s2) \<Rightarrow> (Inr cached, s2))
           | (_, s1) \<Rightarrow> load s1))"

definition GetUserPreviewByIDNoCache :: "'s user_service \<Rightarrow> string \<Rightarrow> (goerr, user, 's) io" where
  "GetUserPreviewByIDNoCache svc userID s =
    (let userID = TrimSpace userID in
     if userID = [] then (Inl ErrInvalidUserID, s) else loadUserPreview svc userID s)"

text \<open>The detailed look-up after a cache miss.\<close>

definition load_detailed :: "'s user_service \<Rightarrow> string \<Rightarrow> (goerr, user, 's) io" where
  "load_detailed svc username s =
    (case ur_GetByUsername (svc_repo svc) username s of
       (Inl err, s1) \<Rightarrow> (Inl err, s1)
     | (Inr user, s1) \<Rightarrow>
         (case resolve_avatar svc user s1 of
            (user, s2) \<Rightarrow>
              (let user = (if u_DisplayName user = []
                           then user\<lparr>u_DisplayName := DisplayName (u_FirstName user) (u_LastName user)\<rparr>
                           else user)
               in case rr_UpsertByUsername (svc_readRepo svc) (Some user) s2 of
                    (Inl err, s3) \<Rightarrow> (Inl err, s3)
                  | (Inr _, s3) \<Rightarrow>
                      (case pb_PublishDetailedUserRequested (svc_pub svc) (Some user) s3 of
                         (_, s4) \<Rightarrow> (Inr user, s4)))))"

definition GetDetailedUserByUsername :: "'s user_service \<Rightarrow> string \<Rightarrow> (goerr, user, 's) io" where
  "GetDetailedUserByUsername svc username s =
    (let username = TrimSpace username in
     if username = [] then (Inl ErrInvalidUsername, s)
     else case rr_GetByUsername (svc_readRepo svc) username s of
            (Inr (Some cached), s1) \<Rightarrow> (Inr cached, s1)
          | (_, s1) \<Rightarrow> load_detailed svc username s1)"

section \<open>The service interface\<close>

record 's user_service_methods =
  us_CreateUser :: "string \<Rightarrow> string \<Rightarrow> string \<Rightarrow> string \<Rightarrow> (goerr, user, 's) io"
  us_ExistsByUsername :: "string \<Rightarrow> (goerr, bool, 's) io"
  us_ActivateUser :: "string \<Rightarrow> (goerr, user, 's) io"
  us_DeactivateUser :: "string \<Rightarrow> (goerr, unit, 's) io"
  us_DeleteUser :: "string \<Rightarrow> (goerr, unit, 's) io"
  us_GetUserPreviewByID :: "string \<Rightarrow> (goerr, user, 's) io"
  us_GetUserPreviewByIDNoCache :: "string \<Rightarrow> (goerr, user, 's) io"
  us_GetDetailedUserByUsername :: "string \<Rightarrow> (goerr, user, 's) io"

definition UserService :: "'s user_service \<Rightarrow> 's user_service_methods" where
  "UserService svc =
    \<lparr>us_CreateUser = CreateUser svc, us_ExistsByUsername = ExistsByUsername svc,
     us_ActivateUser = ActivateUser svc, us_DeactivateUser = DeactivateUser svc,
     us_DeleteUser = DeleteUser svc, us_GetUserPreviewByID = GetUserPreviewByID svc,
     us_GetUserPreviewByIDNoCache = GetUserPreviewByIDNoCache svc,
     us_GetDetailedUserByUsername = GetDetailedUserByUsername svc\<rparr>"

lemma UserService_methods [simp]:
  "us_CreateUser (UserService svc) = CreateUser svc"
  "us_ExistsByUsername (UserService svc) = ExistsByUsername svc"
  "us_ActivateUser (UserService svc) = ActivateUser svc"
  "us_DeactivateUser (UserService svc) = DeactivateUser svc"
  "us_DeleteUser (UserService svc) = DeleteUser svc"
  "us_GetUserPreviewByID (UserService svc) = GetUserPreviewByID svc"
  "us_GetUserPreviewByIDNoCache (UserService svc) = GetUserPreviewByIDNoCache svc"
  "us_GetDetailedUserByUsername (UserService svc) = GetDetailedUserByUsername svc"
  by (simp_all add: UserService_def)

section \<open>Abstract specification\<close>

text \<open>
  The life cycle of the stored users. Nothing but the status, the active flag and the time of the
  last change of a stored user ever changes.
\<close>

inductive user_step :: "user_store \<Rightarrow> user_store \<Rightarrow> bool" where
  registered: "us (u_ID u) = None \<Longrightarrow> created_from p u \<Longrightarrow> user_step us (us(u_ID u \<mapsto> u))"
| activated: "us (u_ID u) = Some v \<Longrightarrow> activated_from v u \<Longrightarrow> user_step us (us(u_ID u \<mapsto> u))"
| deactivated: "us (u_ID u) = Some v \<Longrightarrow> deactivated_from v u \<Longrightarrow> user_step us (us(u_ID u \<mapsto> u))"
| removed: "us k = Some v \<Longrightarrow> user_step us (us(k := None))"

inductive_cases user_step_cases: "user_step us us'"

definition user_moves :: "user_store \<Rightarrow> user_store \<Rightarrow> bool" where
  "user_moves us us' \<longleftrightarrow> us' = us \<or> user_step us us'"

lemma user_moves_refl [simp, intro]: "user_moves us us"
  by (simp add: user_moves_def)

lemma inserts_moves: "inserts p key us us' u \<Longrightarrow> user_moves us us'"
  by (auto simp: inserts_def user_moves_def intro: user_step.registered)

lemma activates_moves: "stores activated_from key us us' u \<Longrightarrow> user_moves us us'"
  by (auto simp: stores_def user_moves_def intro: user_step.activated)

lemma deactivates_moves: "stores deactivated_from key us us' u \<Longrightarrow> user_moves us us'"
  by (auto simp: stores_def user_moves_def intro: user_step.deactivated)

lemma removes_moves: "removes key us us' \<Longrightarrow> user_moves us us'"
  by (auto simp: removes_def user_moves_def intro: user_step.removed)

text \<open>
  A preview of a user is its row without the fields the preview drops; its avatar URL is whatever
  was resolved. The public view of a user is what the detailed look-up shows of it.
\<close>

definition previews :: "user \<Rightarrow> user \<Rightarrow> bool" where
  "previews u c \<longleftrightarrow> c\<lparr>u_AvatarURL := []\<rparr> = zero_user
    \<lparr>u_ID := u_ID u, u_Username := u_Username u, u_FirstName := u_FirstName u,
     u_LastName := u_LastName u, u_AvatarID := u_AvatarID u, u_IsActive := u_IsActive u\<rparr>"

lemma previews_url [simp]: "previews u (c\<lparr>u_AvatarURL := x\<rparr>) = previews u c"
  by (simp add: previews_def)

definition public_view :: "user \<Rightarrow> user" where
  "public_view u = zero_user
    \<lparr>u_ID := u_ID u, u_Username := u_Username u,
     u_DisplayName := DisplayName (u_FirstName u) (u_LastName u),
     u_AvatarID := u_AvatarID u, u_AvatarURL := u_AvatarURL u, u_About := u_About u,
     u_IsActive := True\<rparr>"

text \<open>Every preview is one of the user stored under its key.\<close>

definition coherent :: "user_store \<Rightarrow> user_store \<Rightarrow> bool" where
  "coherent us ps \<longleftrightarrow> (\<forall>i c. ps i = Some c \<longrightarrow> (\<exists>u. us i = Some u \<and> previews u c))"

lemma coherent_absent: "coherent us ps \<Longrightarrow> us i = None \<Longrightarrow> ps i = None"
  unfolding coherent_def by (metis not_Some_eq)

lemma coherent_upd:
  "coherent us ps \<Longrightarrow> previews u c \<Longrightarrow> coherent (us(i \<mapsto> u)) (ps(i \<mapsto> c))"
  by (auto simp: coherent_def)

lemma coherent_cached: "coherent us ps \<Longrightarrow> us i = Some u \<Longrightarrow> previews u c \<Longrightarrow> coherent us (ps(i \<mapsto> c))"
  by (auto simp: coherent_def)

lemma coherent_new: "coherent us ps \<Longrightarrow> us i = None \<Longrightarrow> coherent (us(i \<mapsto> u)) ps"
  unfolding coherent_def by (metis fun_upd_other option.distinct(1))

lemma coherent_del: "coherent us ps \<Longrightarrow> coherent (us(i := x)) (ps(i := None))"
  by (auto simp: coherent_def)

lemma previews_self: "previews u c \<Longrightarrow> u_ID c = u_ID u"
  unfolding previews_def by (drule arg_cong [where f = u_ID]) simp

section \<open>What the service needs of its collaborators\<close>

locale user_service_backend =
  user_repository_contract "svc_repo svc" users canon inv kept +
  user_read_contract "svc_readRepo svc" preview detailed as_preview as_detailed storable rinv rkept
  for svc :: "'s user_service" and users :: "'s \<Rightarrow> user_store" and canon :: "string \<Rightarrow> string option"
    and inv :: "'s \<Rightarrow> bool" and kept :: "'s \<Rightarrow> 'k"
    and preview :: "'s \<Rightarrow> user_store" and detailed :: "'s \<Rightarrow> user_store"
    and as_preview :: "user \<Rightarrow> user" and as_detailed :: "user \<Rightarrow> user" and storable :: "user \<Rightarrow> bool"
    and rinv :: "'s \<Rightarrow> bool" and rkept :: "'s \<Rightarrow> 'r" +
  assumes write_keeps: "kept s' = kept s \<Longrightarrow> preview s' = preview s \<and> detailed s' = detailed s \<and> rinv s' = rinv s"
    and read_keeps: "rkept s' = rkept s \<Longrightarrow> users s' = users s \<and> inv s' = inv s"
    and files_keep: "fc_GetFileURL (svc_files svc) f s = (g, s') \<Longrightarrow>
      preview s' = preview s \<and> detailed s' = detailed s \<and> rinv s' = rinv s \<and>
      users s' = users s \<and> inv s' = inv s"
    and pub_keeps: "pb_PublishDetailedUserRequested (svc_pub svc) uo s = (x, s') \<Longrightarrow>
      preview s' = preview s \<and> detailed s' = detailed s \<and> rinv s' = rinv s \<and>
      users s' = users s \<and> inv s' = inv s"
    and stored: "inv s \<Longrightarrow> users s k = Some u \<Longrightarrow>
      u_ID u = k \<and> canon k = Some k \<and> u_DisplayName u = [] \<and> u_AvatarURL u = [] \<and> storable u"
    and url_storable: "inv s \<Longrightarrow> fc_GetFileURL (svc_files svc) f s = (Inr url, s') \<Longrightarrow>
      storable u \<Longrightarrow> storable (u\<lparr>u_AvatarURL := url\<rparr>)"
    and name_storable: "storable u \<Longrightarrow>
      storable (u\<lparr>u_DisplayName := DisplayName (u_FirstName u) (u_LastName u)\<rparr>)"
    and preview_storable: "previews u c \<Longrightarrow> storable (u\<lparr>u_AvatarURL := u_AvatarURL c\<rparr>) \<Longrightarrow> storable c"
    and preview_previews: "previews u (as_preview (u\<lparr>u_AvatarURL := url\<rparr>))"
    and preview_again: "previews u c \<Longrightarrow> as_preview c = c"
    and detailed_view: "u_DisplayName u = DisplayName (u_FirstName u) (u_LastName u) \<Longrightarrow>
      as_detailed u = public_view u"
begin

lemma preview_as: "previews u (as_preview u)"
  using preview_previews [of u "u_AvatarURL u"] by simp

lemma create_effect:
  assumes "inv s" "rinv s" "CreateUser svc i n f l s = (r, s')"
  defines "p \<equiv> \<lparr>p_ID = i, p_Username = n, p_FirstName = f, p_LastName = l, p_AvatarID = []\<rparr>"
  shows "inv s' \<and> rinv s' \<and> detailed s' = detailed s \<and>
    (case r of
       Inr u \<Rightarrow> inserts p (canon i) (users s) (users s') u \<and> preview s' = (preview s)(u_ID u \<mapsto> as_preview u)
     | Inl e \<Rightarrow> (users s' = users s \<and> preview s' = preview s) \<or>
         (\<exists>u. inserts p (canon i) (users s) (users s') u \<and>
              (preview s' = preview s \<or> preview s' = (preview s)(u_ID u \<mapsto> as_preview u))))"
proof (cases "i = []")
  case True
  with assms show ?thesis by (auto simp: CreateUser_def)
next
  case False
  obtain x s1 where c: "ur_Create (svc_repo svc) p s = (x, s1)" by fastforce
  have f1: "inv s1" "rinv s1" "preview s1 = preview s" "detailed s1 = detailed s"
    using create_frame [OF assms(1) c] write_keeps [of s1 s] assms(2) by auto
  show ?thesis
  proof (cases x)
    case (Inl e)
    with False c f1 create_err [OF assms(1), of p e s1] assms(3) show ?thesis
      by (auto simp: CreateUser_def p_def)
  next
    case (Inr u)
    have ins: "inserts p (canon i) (users s) (users s1) u"
      using create_ok [OF assms(1), of p u s1] c Inr by (simp add: p_def)
    then have "users s1 (u_ID u) = Some u" by (simp add: inserts_def)
    then have st: "storable u" using stored [OF f1(1)] by blast
    obtain y s2 where d: "rr_Upsert (svc_readRepo svc) (Some u) s1 = (y, s2)" by fastforce
    have f2: "rinv s2" "detailed s2 = detailed s" "users s2 = users s1" "inv s2"
      using upsert_frame [OF f1(2) d] read_keeps [of s2 s1] f1 by auto
    show ?thesis
      using False c d Inr ins f1 f2 assms(3) upsert_ok [OF f1(2), of u _ s2] upsert_err [OF f1(2), of u _ s2] st
      by (cases y) (auto simp: CreateUser_def p_def)
  qed
qed

lemma activate_effect:
  assumes "inv s" "rinv s" "ActivateUser svc i s = (r, s')"
  shows "inv s' \<and> rinv s' \<and> detailed s' = detailed s \<and>
    (case r of
       Inr u \<Rightarrow> stores activated_from (canon i) (users s) (users s') u \<and>
         preview s' = (preview s)(u_ID u \<mapsto> as_preview u)
     | Inl e \<Rightarrow> (users s' = users s \<and> preview s' = preview s) \<or>
         (\<exists>u. stores activated_from (canon i) (users s) (users s') u \<and>
              (preview s' = preview s \<or> preview s' = (preview s)(u_ID u \<mapsto> as_preview u))))"
proof (cases "i = []")
  case True
  with assms show ?thesis by (auto simp: ActivateUser_def)
next
  case False
  obtain x s1 where c: "ur_ActivateByID (svc_repo svc) i s = (x, s1)" by fastforce
  have f1: "inv s1" "rinv s1" "preview s1 = preview s" "detailed s1 = detailed s"
    using activate_frame [OF assms(1) c] write_keeps [of s1 s] assms(2) by auto
  show ?thesis
  proof (cases x)
    case (Inl e)
    with False c f1 activate_err [OF assms(1), of i e s1] assms(3) show ?thesis
      by (auto simp: ActivateUser_def)
  next
    case (Inr u)
    have ins: "stores activated_from (canon i) (users s) (users s1) u"
      using activate_ok [OF assms(1), of i u s1] c Inr by simp
    then have "users s1 (u_ID u) = Some u" by (simp add: stores_def)
    then have st: "storable u" using stored [OF f1(1)] by blast
    obtain y s2 where d: "rr_Upsert (svc_readRepo svc) (Some u) s1 = (y, s2)" by fastforce
    have f2: "rinv s2" "detailed s2 = detailed s" "users s2 = users s1" "inv s2"
      using upsert_frame [OF f1(2) d] read_keeps [of s2 s1] f1 by auto
    show ?thesis
      using False c d Inr ins f1 f2 assms(3) upsert_ok [OF f1(2), of u _ s2] upsert_err [OF f1(2), of u _ s2] st
      by (cases y) (auto simp: ActivateUser_def)
  qed
qed

lemma deactivate_effect:
  assumes "inv s" "rinv s" "DeactivateUser svc i s = (r, s')"
  shows "inv s' \<and> rinv s' \<and> detailed s' = detailed s \<and>
    (case r of
       Inr _ \<Rightarrow> (\<exists>u. stores deactivated_from (canon i) (users s) (users s') u) \<and>
         preview s' = (preview s)(i := None)
     | Inl e \<Rightarrow> (users s' = users s \<and> preview s' = preview s) \<or>
         ((\<exists>u. stores deactivated_from (canon i) (users s) (users s') u) \<and>
          (preview s' = preview s \<or> preview s' = (preview s)(i := None))))"
proof (cases "i = []")
  case True
  with assms show ?thesis by (auto simp: DeactivateUser_def)
next
  case False
  obtain x s1 where c: "ur_DeactivateByID (svc_repo svc) i s = (x, s1)" by fastforce
  have f1: "inv s1" "rinv s1" "preview s1 = preview s" "detailed s1 = detailed s"
    using deactivate_frame [OF assms(1) c] write_keeps [of s1 s] assms(2) by auto
  obtain y s2 where d: "rr_DeleteByID (svc_readRepo svc) i s1 = (y, s2)" by fastforce
  have f2: "rinv s2" "detailed s2 = detailed s" "users s2 = users s1" "inv s2"
    using rdelete_frame [OF f1(2) d] read_keeps [of s2 s1] f1 by auto
  show ?thesis
    using False c d f1 f2 assms(3) deactivate_err [OF assms(1), of i _ s1]
      deactivate_ok [OF assms(1), of i _ s1] rdelete_ok [OF f1(2), of i _ s2] rdelete_err [OF f1(2), of i _ s2]
    by (cases x; cases y) (auto simp: DeactivateUser_def)
qed

lemma delete_effect:
  assumes "inv s" "rinv s" "DeleteUser svc i s = (r, s')"
  shows "inv s' \<and> rinv s' \<and> detailed s' = detailed s \<and>
    (case r of
       Inr _ \<Rightarrow> removes (canon i) (users s) (users s') \<and> preview s' = (preview s)(i := None)
     | Inl e \<Rightarrow> (users s' = users s \<and> preview s' = preview s) \<or>
         (removes (canon i) (users s) (users s') \<and>
          (preview s' = preview s \<or> preview s' = (preview s)(i := None))))"
proof (cases "i = []")
  case True
  with assms show ?thesis by (auto simp: DeleteUser_def)
next
  case False
  obtain x s1 where c: "ur_DeleteByID (svc_repo svc) i s = (x, s1)" by fastforce
  have f1: "inv s1" "rinv s1" "preview s1 = preview s" "detailed s1 = detailed s"
    using delete_frame [OF assms(1) c] write_keeps [of s1 s] assms(2) by auto
  obtain y s2 where d: "rr_DeleteByID (svc_readRepo svc) i s1 = (y, s2)" by fastforce
  have f2: "rinv s2" "detailed s2 = detailed s" "users s2 = users s1" "inv s2"
    using rdelete_frame [OF f1(2) d] read_keeps [of s2 s1] f1 by auto
  show ?thesis
    using False c d f1 f2 assms(3) delete_err [OF assms(1), of i _ s1]
      delete_ok [OF assms(1), of i _ s1] rdelete_ok [OF f1(2), of i _ s2] rdelete_err [OF f1(2), of i _ s2]
    by (cases x; cases y) (auto simp: DeleteUser_def)
qed

lemma resolve_effect:
  assumes "inv s" "rinv s" "resolve_avatar svc u s = (v, s')"
  shows "inv s' \<and> rinv s' \<and> users s' = users s \<and> preview s' = preview s \<and> detailed s' = detailed s \<and>
    v = u\<lparr>u_AvatarURL := u_AvatarURL v\<rparr> \<and> (storable u \<longrightarrow> storable v)"
proof (cases "TrimSpace (u_AvatarID u) = []")
  case True
  with assms show ?thesis by (simp add: resolve_avatar_def)
next
  case False
  obtain x s1 where c: "fc_GetFileURL (svc_files svc) (TrimSpace (u_AvatarID u)) s = (x, s1)" by fastforce
  show ?thesis
    using False c assms files_keep [OF c] url_storable [OF assms(1)]
    by (cases x) (auto simp: resolve_avatar_def)
qed

lemma load_effect:
  assumes "inv s" "rinv s" "loadUserPreview svc i s = (r, s')"
  shows "inv s' \<and> rinv s' \<and> users s' = users s \<and> preview s' = preview s \<and> detailed s' = detailed s \<and>
    (case r of
       Inr v \<Rightarrow> canon i = Some (u_ID v) \<and> storable v \<and>
         (\<exists>u. users s (u_ID u) = Some u \<and> v = u\<lparr>u_AvatarURL := u_AvatarURL v\<rparr>)
     | Inl e \<Rightarrow> errors_is e ErrUserNotFound \<longrightarrow> absent (canon i) (users s))"
proof -
  obtain x s1 where c: "ur_GetByID (svc_repo svc) i s = (x, s1)" by fastforce
  have f1: "inv s1" "rinv s1" "preview s1 = preview s" "detailed s1 = detailed s" "users s1 = users s"
    using get_frame [OF assms(1) c] write_keeps [of s1 s] assms(2) by auto
  show ?thesis
  proof (cases x)
    case (Inl e)
    with c f1 get_absent [OF assms(1), of i e s1] assms(3) show ?thesis
      by (auto simp: loadUserPreview_def)
  next
    case (Inr u)
    obtain v s2 where d: "resolve_avatar svc u s1 = (v, s2)" by fastforce
    have g: "canon i = Some (u_ID u)" "users s (u_ID u) = Some u"
      using get_ok [OF assms(1), of i u s1] c Inr by auto
    then have "storable u" using stored [OF assms(1)] by blast
    moreover have "u_ID v = u_ID u"
      using resolve_effect [OF f1(1,2) d] by (metis user.select_convs(1) user.surjective user.update_convs(7))
    ultimately show ?thesis
      using c d Inr g f1 resolve_effect [OF f1(1,2) d] assms(3)
      by (auto simp: loadUserPreview_def)
  qed
qed

lemma refresh_frame:
  assumes "inv s" "rinv s" "refresh_preview svc c s = (v, s')"
  shows "inv s' \<and> rinv s' \<and> users s' = users s \<and> detailed s' = detailed s"
proof (cases "TrimSpace (u_AvatarURL c) = [] \<and> TrimSpace (u_AvatarID c) \<noteq> []")
  case True
  obtain x s1 where f: "fc_GetFileURL (svc_files svc) (u_AvatarID c) s = (x, s1)" by fastforce
  have f1: "inv s1" "rinv s1" "users s1 = users s" "detailed s1 = detailed s"
    using files_keep [OF f] assms(1,2) by auto
  show ?thesis
  proof (cases x)
    case (Inr url)
    obtain y s2 where d: "rr_Upsert (svc_readRepo svc) (Some (c\<lparr>u_AvatarURL := url\<rparr>)) s1 = (y, s2)" by fastforce
    from upsert_frame [OF f1(2) d] read_keeps [of s2 s1] f1 f d Inr True assms(3) show ?thesis
      by (auto simp: refresh_preview_def)
  qed (use True f f1 assms(3) in \<open>auto simp: refresh_preview_def\<close>)
qed (use assms in \<open>auto simp: refresh_preview_def\<close>)

lemma refresh_coherent:
  assumes "inv s" "rinv s" "refresh_preview svc c s = (v, s')"
    and "coherent (users s) (preview s)" "users s (u_ID u) = Some u" "previews u c"
  shows "coherent (users s') (preview s') \<and> previews u v"
proof (cases "TrimSpace (u_AvatarURL c) = [] \<and> TrimSpace (u_AvatarID c) \<noteq> []")
  case True
  obtain x s1 where f: "fc_GetFileURL (svc_files svc) (u_AvatarID c) s = (x, s1)" by fastforce
  have f1: "inv s1" "rinv s1" "users s1 = users s" "preview s1 = preview s"
    using files_keep [OF f] assms(1,2) by auto
  show ?thesis
  proof (cases x)
    case (Inr url)
    let ?c = "c\<lparr>u_AvatarURL := url\<rparr>"
    have pc: "previews u ?c" using assms(6) by simp
    have "storable (u\<lparr>u_AvatarURL := url\<rparr>)"
      using url_storable [OF assms(1)] f Inr stored [OF assms(1,5)] by blast
    then have st: "storable ?c" using preview_storable [OF pc] by simp
    obtain y s2 where d: "rr_Upsert (svc_readRepo svc) (Some ?c) s1 = (y, s2)" by fastforce
    have "users s2 = users s" using upsert_frame [OF f1(2) d] read_keeps [of s2 s1] f1 by auto
    moreover have "preview s2 = preview s \<or> preview s2 = (preview s)(u_ID u \<mapsto> ?c)"
      using upsert_ok [OF f1(2), of ?c _ s2] upsert_err [OF f1(2), of ?c _ s2] d st f1(4)
        preview_again [OF pc] previews_self [OF pc]
      by (cases y) auto
    ultimately have "coherent (users s2) (preview s2)"
      using assms(4,5) pc coherent_cached by auto
    with f d Inr True assms(3) pc show ?thesis by (auto simp: refresh_preview_def)
  qed (use True f f1 assms in \<open>auto simp: refresh_preview_def\<close>)
qed (use assms in \<open>auto simp: refresh_preview_def\<close>)

end

lemma url_only: "v = u\<lparr>u_AvatarURL := u_AvatarURL v\<rparr> \<Longrightarrow> u_ID v = u_ID u"
  by (drule arg_cong [where f = u_ID]) simp

context user_service_backend
begin

lemma read_hit:
  assumes "inv s" "rinv s" "rr_GetByID (svc_readRepo svc) i s = (g, s1)"
  shows "inv s1 \<and> rinv s1 \<and> users s1 = users s \<and> preview s1 = preview s \<and> detailed s1 = detailed s"
    and "g = Inr (Some c) \<Longrightarrow> preview s i = Some c"
  using rget_frame [OF assms(2,3)] read_keeps [of s1 s] assms rget_ok [OF assms(2), of i "Some c" s1]
  by auto

text \<open>The load after a cache miss: the user is read, enriched, and cached.\<close>

lemma load_cache_effect:
  assumes "inv s" "rinv s" "loadUserPreview svc i s = (x, s1)"
    and "(case x of Inl err \<Rightarrow> (Inl err, s1)
          | Inr user \<Rightarrow> (case rr_Upsert (svc_readRepo svc) (Some user) s1 of
               (Inl err, s3) \<Rightarrow> (Inl err, s3) | (Inr _, s3) \<Rightarrow> (Inr user, s3))) = (r, s')"
  shows "inv s' \<and> rinv s' \<and> users s' = users s \<and> detailed s' = detailed s \<and>
    (coherent (users s) (preview s) \<longrightarrow> coherent (users s') (preview s')) \<and>
    (case r of
       Inr v \<Rightarrow> canon i = Some (u_ID v) \<and>
         (\<exists>u. users s (u_ID v) = Some u \<and> previews u (as_preview v))
     | Inl e \<Rightarrow> errors_is e ErrUserNotFound \<longrightarrow> absent (canon i) (users s))"
proof -
  note l = load_effect [OF assms(1-3)]
  show ?thesis
  proof (cases x)
    case (Inl e)
    with l assms(4) show ?thesis by auto
  next
    case (Inr v)
    with l obtain u where v: "storable v" "canon i = Some (u_ID v)" "users s (u_ID u) = Some u"
      "v = u\<lparr>u_AvatarURL := u_AvatarURL v\<rparr>" and s1: "inv s1" "rinv s1"
      by auto
    have id: "u_ID v = u_ID u" using v(4) by (rule url_only)
    have pv: "previews u (as_preview v)"
      using preview_previews [of u "u_AvatarURL v"] v(4) by simp
    obtain y s2 where d: "rr_Upsert (svc_readRepo svc) (Some v) s1 = (y, s2)" by fastforce
    have fr: "inv s2" "rinv s2" "users s2 = users s" "detailed s2 = detailed s"
      using upsert_frame [OF s1(2) d] read_keeps [of s2 s1] s1 l by auto
    have "preview s2 = preview s \<or> preview s2 = (preview s)(u_ID u \<mapsto> as_preview v)"
      using upsert_ok [OF s1(2), of v _ s2] upsert_err [OF s1(2), of v _ s2] d v(1) l id
      by (cases y) auto
    then have "coherent (users s) (preview s) \<longrightarrow> coherent (users s2) (preview s2)"
      using fr(3) v(3) pv coherent_cached by auto
    moreover have "y = Inl e \<Longrightarrow> \<not> errors_is e ErrUserNotFound" for e
      using upsert_not_absent [OF s1(2)] d by blast
    ultimately show ?thesis
      using fr v id pv d Inr assms(4) by (cases y) auto
  qed
qed

lemma preview_query_effect:
  assumes "inv s" "rinv s" "coherent (users s) (preview s)" "GetUserPreviewByID svc i s = (r, s')"
  shows "inv s' \<and> rinv s' \<and> users s' = users s \<and> detailed s' = detailed s \<and>
    coherent (users s') (preview s') \<and>
    (case r of
       Inr v \<Rightarrow> canon (TrimSpace i) = Some (u_ID v) \<and>
         (\<exists>u. users s (u_ID v) = Some u \<and> previews u (as_preview v))
     | Inl e \<Rightarrow> errors_is e ErrUserNotFound \<longrightarrow> absent (canon (TrimSpace i)) (users s))"
proof (cases "TrimSpace i = []")
  case True
  with assms show ?thesis by (auto simp: GetUserPreviewByID_def)
next
  case False
  obtain g s1 where g: "rr_GetByID (svc_readRepo svc) (TrimSpace i) s = (g, s1)" by fastforce
  note hit = read_hit [OF assms(1,2) g]
  consider c where "g = Inr (Some c)" | "g = Inr None \<or> (\<exists>e. g = Inl e)"
    by (cases g) auto
  then show ?thesis
  proof cases
    case 1
    then obtain u where u: "users s (TrimSpace i) = Some u" "previews u c"
      using hit(2) assms(3) by (auto simp: coherent_def)
    have id: "u_ID u = TrimSpace i" "canon (TrimSpace i) = Some (TrimSpace i)"
      using stored [OF assms(1) u(1)] by simp_all
    obtain v s2 where v: "refresh_preview svc c s1 = (v, s2)" by fastforce
    have h: "inv s1" "rinv s1" "users s1 = users s" "preview s1 = preview s" "detailed s1 = detailed s"
      using hit(1) by simp_all
    have "inv s2 \<and> rinv s2 \<and> users s2 = users s1 \<and> detailed s2 = detailed s1"
      by (rule refresh_frame [OF h(1,2) v])
    moreover have "coherent (users s2) (preview s2) \<and> previews u v"
      by (rule refresh_coherent [OF h(1,2) v _ _ u(2)]) (use h assms(3) u id in auto)
    ultimately show ?thesis
      using 1 False g v assms(4) h u id previews_self [of u v] preview_again [of u v]
      by (auto simp: GetUserPreviewByID_def)
  next
    case 2
    obtain x s2 where x: "loadUserPreview svc (TrimSpace i) s1 = (x, s2)" by fastforce
    have h: "inv s1" "rinv s1" "users s1 = users s" "preview s1 = preview s" "detailed s1 = detailed s"
      using hit(1) by simp_all
    have "(case x of Inl err \<Rightarrow> (Inl err, s2)
          | Inr user \<Rightarrow> (case rr_Upsert (svc_readRepo svc) (Some user) s2 of
               (Inl err, s3) \<Rightarrow> (Inl err, s3) | (Inr _, s3) \<Rightarrow> (Inr user, s3))) = (r, s')"
      using 2 False g x assms(4) by (auto simp: GetUserPreviewByID_def split: sum.splits)
    from load_cache_effect [OF h(1,2) x this] h assms(3) show ?thesis by (cases r) auto
  qed
qed

text \<open>Without coherence the query still leaves the stored users and the detailed entries alone.\<close>

lemma preview_query_frame:
  assumes "inv s" "rinv s" "GetUserPreviewByID svc i s = (r, s')"
  shows "inv s' \<and> rinv s' \<and> users s' = users s \<and> detailed s' = detailed s"
proof (cases "TrimSpace i = []")
  case True
  with assms show ?thesis by (auto simp: GetUserPreviewByID_def)
next
  case False
  obtain g s1 where g: "rr_GetByID (svc_readRepo svc) (TrimSpace i) s = (g, s1)" by fastforce
  have h: "inv s1" "rinv s1" "users s1 = users s" "detailed s1 = detailed s"
    using read_hit(1) [OF assms(1,2) g] by simp_all
  consider c where "g = Inr (Some c)" | "g = Inr None \<or> (\<exists>e. g = Inl e)"
    by (cases g) auto
  then show ?thesis
  proof cases
    case 1
    obtain v s2 where v: "refresh_preview svc c s1 = (v, s2)" by fastforce
    from refresh_frame [OF h(1,2) v] 1 False g v assms(3) h show ?thesis
      by (auto simp: GetUserPreviewByID_def)
  next
    case 2
    obtain x s2 where x: "loadUserPreview svc (TrimSpace i) s1 = (x, s2)" by fastforce
    have "(case x of Inl err \<Rightarrow> (Inl err, s2)
          | Inr user \<Rightarrow> (case rr_Upsert (svc_readRepo svc) (Some user) s2 of
               (Inl err, s3) \<Rightarrow> (Inl err, s3) | (Inr _, s3) \<Rightarrow> (Inr user, s3))) = (r, s')"
      using 2 False g x assms(3) by (auto simp: GetUserPreviewByID_def split: sum.splits)
    from load_cache_effect [OF h(1,2) x this] h show ?thesis by auto
  qed
qed

lemma nocache_effect:
  assumes "inv s" "rinv s" "GetUserPreviewByIDNoCache svc i s = (r, s')"
  shows "inv s' \<and> rinv s' \<and> users s' = users s \<and> preview s' = preview s \<and> detailed s' = detailed s \<and>
    (case r of
       Inr v \<Rightarrow> canon (TrimSpace i) = Some (u_ID v) \<and>
         (\<exists>u. users s (u_ID v) = Some u \<and> v = u\<lparr>u_AvatarURL := u_AvatarURL v\<rparr>)
     | Inl e \<Rightarrow> errors_is e ErrUserNotFound \<longrightarrow> absent (canon (TrimSpace i)) (users s))"
proof (cases "TrimSpace i = []")
  case True
  with assms show ?thesis by (auto simp: GetUserPreviewByIDNoCache_def)
next
  case False
  with assms(3) have l: "loadUserPreview svc (TrimSpace i) s = (r, s')"
    by (simp add: GetUserPreviewByIDNoCache_def)
  show ?thesis
  proof (cases r)
    case (Inr v)
    with load_effect [OF assms(1,2) l] obtain u where
      u: "users s (u_ID u) = Some u" "v = u\<lparr>u_AvatarURL := u_AvatarURL v\<rparr>" by auto
    have "users s (u_ID v) = Some u" using u(1) url_only [OF u(2)] by simp
    with Inr u load_effect [OF assms(1,2) l] show ?thesis by auto
  qed (use load_effect [OF assms(1,2) l] in auto)
qed

lemma exists_effect:
  assumes "inv s" "rinv s" "ExistsByUsername svc n s = (r, s')"
  shows "inv s' \<and> rinv s' \<and> users s' = users s \<and> preview s' = preview s \<and> detailed s' = detailed s \<and>
    (case r of
       Inr b \<Rightarrow> b \<longleftrightarrow> (\<exists>k u. users s k = Some u \<and> u_Username u = TrimSpace n)
     | Inl e \<Rightarrow> True)"
proof (cases "TrimSpace n = []")
  case True
  with assms show ?thesis by (auto simp: ExistsByUsername_def)
next
  case False
  with assms(3) have e: "ur_ExistsByUsername (svc_repo svc) (TrimSpace n) s = (r, s')"
    by (simp add: ExistsByUsername_def)
  from exists_frame [OF assms(1) e] write_keeps [of s' s] exists_ok [OF assms(1), of "TrimSpace n"] e assms(2)
  show ?thesis by (cases r) auto
qed

lemma load_detailed_effect:
  assumes "inv s" "rinv s" "load_detailed svc n s = (r, s')"
  shows "inv s' \<and> rinv s' \<and> users s' = users s \<and> preview s' = preview s \<and>
    (\<exists>u url. detailed s' = detailed s \<or>
       users s (u_ID u) = Some u \<and> u_Username u = n \<and>
       detailed s' = (detailed s)(n \<mapsto> public_view (u\<lparr>u_AvatarURL := url\<rparr>))) \<and>
    (case r of
       Inr v \<Rightarrow> \<exists>u. users s (u_ID u) = Some u \<and> u_Username u = n \<and>
         v = u\<lparr>u_AvatarURL := u_AvatarURL v,
               u_DisplayName := DisplayName (u_FirstName u) (u_LastName u)\<rparr> \<and>
         detailed s' = (detailed s)(n \<mapsto> public_view v) \<and> storable v
     | Inl e \<Rightarrow> errors_is e ErrUserNotFound \<longrightarrow> (\<forall>k u. users s k = Some u \<longrightarrow> u_Username u \<noteq> n))"
proof -
  obtain x s1 where c: "ur_GetByUsername (svc_repo svc) n s = (x, s1)" by fastforce
  have f1: "inv s1" "rinv s1" "preview s1 = preview s" "detailed s1 = detailed s" "users s1 = users s"
    using byname_frame [OF assms(1) c] write_keeps [of s1 s] assms(2) by auto
  show ?thesis
  proof (cases x)
    case (Inl e)
    with c f1 byname_absent [OF assms(1), of n e s1] assms(3) show ?thesis
      by (auto simp: load_detailed_def)
  next
    case (Inr u)
    have u: "users s (u_ID u) = Some u" "u_Username u = n"
      using byname_ok [OF assms(1), of n u s1] c Inr by auto
    note st = stored [OF assms(1) u(1)]
    obtain v s2 where d: "resolve_avatar svc u s1 = (v, s2)" by fastforce
    note rv = resolve_effect [OF f1(1,2) d]
    define url where "url = u_AvatarURL v"
    have v: "v = u\<lparr>u_AvatarURL := url\<rparr>" using rv by (simp add: url_def)
    define z where "z = u\<lparr>u_AvatarURL := url, u_DisplayName := DisplayName (u_FirstName u) (u_LastName u)\<rparr>"
    have z: "(if u_DisplayName v = [] then v\<lparr>u_DisplayName := DisplayName (u_FirstName v) (u_LastName v)\<rparr>
              else v) = z"
      using st by (simp add: v z_def)
    have stz: "storable z" using rv st name_storable [of v] by (simp add: z_def v)
    have pz: "as_detailed z = public_view z" "u_Username z = n"
      using u(2) by (simp_all add: detailed_view z_def)
    have pu: "public_view z = public_view (u\<lparr>u_AvatarURL := url\<rparr>)"
      by (simp add: public_view_def z_def)
    obtain y s3 where e: "rr_UpsertByUsername (svc_readRepo svc) (Some z) s2 = (y, s3)" by fastforce
    have f2: "inv s2" "rinv s2" "users s2 = users s" "preview s2 = preview s" "detailed s2 = detailed s"
      using rv f1 by simp_all
    have f3: "inv s3" "rinv s3" "users s3 = users s" "preview s3 = preview s"
      using dupsert_frame [OF f2(2) e] read_keeps [of s3 s2] f2 by auto
    have cases: "case y of Inr _ \<Rightarrow> detailed s3 = (detailed s)(n \<mapsto> public_view z)
        | Inl e \<Rightarrow> \<not> errors_is e ErrUserNotFound \<and>
            (detailed s3 = detailed s \<or> detailed s3 = (detailed s)(n \<mapsto> public_view z))"
      using dupsert_ok [OF f2(2), of z _ s3] dupsert_err [OF f2(2), of z _ s3]
        dupsert_not_absent [OF f2(2), of "Some z" _ s3] e stz pz f2(5)
      by (cases y) auto
    obtain q s4 where p: "pb_PublishDetailedUserRequested (svc_pub svc) (Some z) s3 = (q, s4)"
      by fastforce
    have f4: "inv s4" "rinv s4" "users s4 = users s" "preview s4 = preview s" "detailed s4 = detailed s3"
      using pub_keeps [OF p] f3 by auto
    have zu: "z = u\<lparr>u_AvatarURL := u_AvatarURL z,
        u_DisplayName := DisplayName (u_FirstName u) (u_LastName u)\<rparr>"
      by (simp add: z_def)
    show ?thesis
    proof (cases y)
      case (Inl e')
      with assms(3) c Inr d e z have "r = Inl e'" "s' = s3"
        by (simp_all add: load_detailed_def)
      with Inl cases f3 u pu show ?thesis by auto
    next
      case (Inr q')
      with assms(3) c \<open>x = Inr u\<close> d e z p have "r = Inr z" "s' = s4"
        by (simp_all add: load_detailed_def)
      with Inr cases f4 u pu zu stz show ?thesis by auto
    qed
  qed
qed

end

section \<open>Sequences of calls\<close>

text \<open>
  One call of the service with its arguments, its effect on the state, and a run of calls. A run
  passes every fault the environment has for the calls it makes.
\<close>

datatype service_call =
    CallCreateUser string string string string
  | CallDeleteUser string
  | CallActivateUser string
  | CallDeactivateUser string
  | CallExistsByUsername string
  | CallGetUserPreviewByID string
  | CallGetUserPreviewByIDNoCache string
  | CallGetDetailedUserByUsername string

fun serve :: "'s user_service \<Rightarrow> service_call \<Rightarrow> 's \<Rightarrow> 's" where
  "serve svc (CallCreateUser i n f l) s = snd (CreateUser svc i n f l s)"
| "serve svc (CallDeleteUser i) s = snd (DeleteUser svc i s)"
| "serve svc (CallActivateUser i) s = snd (ActivateUser svc i s)"
| "serve svc (CallDeactivateUser i) s = snd (DeactivateUser svc i s)"
| "serve svc (CallExistsByUsername n) s = snd (ExistsByUsername svc n s)"
| "serve svc (CallGetUserPreviewByID i) s = snd (GetUserPreviewByID svc i s)"
| "serve svc (CallGetUserPreviewByIDNoCache i) s = snd (GetUserPreviewByIDNoCache svc i s)"
| "serve svc (CallGetDetailedUserByUsername n) s = snd (GetDetailedUserByUsername svc n s)"

fun run_calls :: "'s user_service \<Rightarrow> service_call list \<Rightarrow> 's \<Rightarrow> 's" where
  "run_calls svc [] s = s"
| "run_calls svc (c # cs) s = run_calls svc cs (serve svc c s)"

text \<open>
  A call completes when it is one that does not change stored users, or a creation, or succeeds
  and, for the two that name the cache entry by the argument, has the identifier in canonical form.
\<close>

fun completes :: "'s user_service \<Rightarrow> (string \<rightharpoonup> string) \<Rightarrow> service_call \<Rightarrow> 's \<Rightarrow> bool" where
  "completes svc canon (CallActivateUser i) s \<longleftrightarrow> \<not> isl (fst (ActivateUser svc i s))"
| "completes svc canon (CallDeactivateUser i) s \<longleftrightarrow>
     \<not> isl (fst (DeactivateUser svc i s)) \<and> canon i = Some i"
| "completes svc canon (CallDeleteUser i) s \<longleftrightarrow> \<not> isl (fst (DeleteUser svc i s)) \<and> canon i = Some i"
| "completes svc canon _ s \<longleftrightarrow> True"

fun all_complete :: "'s user_service \<Rightarrow> (string \<rightharpoonup> string) \<Rightarrow> service_call list \<Rightarrow> 's \<Rightarrow> bool" where
  "all_complete svc canon [] s \<longleftrightarrow> True"
| "all_complete svc canon (c # cs) s \<longleftrightarrow>
     completes svc canon c s \<and> all_complete svc canon cs (serve svc c s)"

text \<open>
  What the life cycle keeps: a user is stored under its identifier, its status agrees with its
  active flag, and it was not changed before it was created.
\<close>

definition life_ok :: "user \<Rightarrow> bool" where
  "life_ok u \<longleftrightarrow> u_Status u \<in> {StatusPendingRegistration, StatusActive, StatusRegistrationFailed} \<and>
     (u_IsActive u \<longleftrightarrow> u_Status u = StatusActive)"

definition store_ok :: "user_store \<Rightarrow> bool" where
  "store_ok us \<longleftrightarrow> (\<forall>k u. us k = Some u \<longrightarrow> u_ID u = k \<and> life_ok u)"

definition same_person :: "user \<Rightarrow> user \<Rightarrow> bool" where
  "same_person v u \<longleftrightarrow> u\<lparr>u_IsActive := False, u_Status := [], u_UpdatedAt := 0\<rparr> =
     v\<lparr>u_IsActive := False, u_Status := [], u_UpdatedAt := 0\<rparr>"

lemma status_neq [simp]:
  "StatusPendingRegistration \<noteq> StatusActive" "StatusRegistrationFailed \<noteq> StatusActive"
  "StatusActive \<noteq> StatusPendingRegistration" "StatusActive \<noteq> StatusRegistrationFailed"
  "StatusPendingRegistration \<noteq> StatusRegistrationFailed"
  "StatusRegistrationFailed \<noteq> StatusPendingRegistration"
  by (simp_all add: StatusPendingRegistration_def StatusActive_def StatusRegistrationFailed_def)

lemma created_life: "created_from p u \<Longrightarrow> life_ok u"
  unfolding created_from_def
  by (frule arg_cong [where f = u_Status], drule arg_cong [where f = u_IsActive])
    (simp add: life_ok_def zero_user_def)

lemma activated_life: "activated_from v u \<Longrightarrow> life_ok u"
  unfolding activated_from_def
  by (frule arg_cong [where f = u_Status], drule arg_cong [where f = u_IsActive])
    (simp add: life_ok_def)

lemma deactivated_life: "deactivated_from v u \<Longrightarrow> life_ok u"
  unfolding deactivated_from_def
  by (frule arg_cong [where f = u_Status], drule arg_cong [where f = u_IsActive])
    (simp add: life_ok_def)

lemma user_step_ok: "user_step us us' \<Longrightarrow> store_ok us \<Longrightarrow> store_ok us'"
  by (induction rule: user_step.induct)
    (auto simp: store_ok_def dest: created_life activated_life deactivated_life)

lemma user_steps_ok: "user_step\<^sup>*\<^sup>* us us' \<Longrightarrow> store_ok us \<Longrightarrow> store_ok us'"
  by (induction rule: rtranclp_induct) (auto intro: user_step_ok)

lemma same_person_refl [simp]: "same_person u u"
  by (simp add: same_person_def)

lemma activated_same: "activated_from v u \<Longrightarrow> same_person v u"
  unfolding activated_from_def same_person_def
  by (drule arg_cong [where f = "\<lambda>x. x\<lparr>u_IsActive := False, u_Status := [], u_UpdatedAt := 0\<rparr>"]) simp

lemma deactivated_same: "deactivated_from v u \<Longrightarrow> same_person v u"
  unfolding deactivated_from_def same_person_def
  by (drule arg_cong [where f = "\<lambda>x. x\<lparr>u_IsActive := False, u_Status := [], u_UpdatedAt := 0\<rparr>"]) simp

lemma user_step_same:
  assumes "user_step us us'" and "us k = Some v" and "us' k = Some u"
  shows "same_person v u"
  using assms
  by (cases rule: user_step.cases)
    (auto dest: activated_same deactivated_same split: if_splits)

context user_service_backend
begin

lemma detailed_query_effect:
  assumes "inv s" "rinv s" "GetDetailedUserByUsername svc i s = (r, s')"
  defines "n \<equiv> TrimSpace i"
  shows "inv s' \<and> rinv s' \<and> users s' = users s \<and> preview s' = preview s \<and>
    (\<exists>u url. detailed s' = detailed s \<or>
       users s (u_ID u) = Some u \<and> u_Username u = n \<and>
       detailed s' = (detailed s)(n \<mapsto> public_view (u\<lparr>u_AvatarURL := url\<rparr>))) \<and>
    (case r of
       Inr v \<Rightarrow> (detailed s n = Some v \<and> detailed s' = detailed s) \<or>
         (\<exists>u. users s (u_ID u) = Some u \<and> u_Username u = n \<and>
           v = u\<lparr>u_AvatarURL := u_AvatarURL v,
                 u_DisplayName := DisplayName (u_FirstName u) (u_LastName u)\<rparr> \<and>
           detailed s' = (detailed s)(n \<mapsto> public_view v) \<and> storable v)
     | Inl e \<Rightarrow> errors_is e ErrUserNotFound \<longrightarrow> (\<forall>k u. users s k = Some u \<longrightarrow> u_Username u \<noteq> n))"
proof (cases "n = []")
  case True
  with assms show ?thesis by (auto simp: GetDetailedUserByUsername_def)
next
  case False
  obtain g s1 where g: "rr_GetByUsername (svc_readRepo svc) n s = (g, s1)" by fastforce
  have h: "inv s1" "rinv s1" "users s1 = users s" "preview s1 = preview s" "detailed s1 = detailed s"
    using dget_frame [OF assms(2) g] read_keeps [of s1 s] assms(1) by auto
  consider c where "g = Inr (Some c)" | "g = Inr None \<or> (\<exists>e. g = Inl e)"
    by (cases g) auto
  then show ?thesis
  proof cases
    case 1
    then have "detailed s n = Some c" using dget_ok [OF assms(2), of n "Some c" s1] g by simp
    moreover have "r = Inr c" "s' = s1"
      using 1 g False assms(3) by (auto simp: GetDetailedUserByUsername_def n_def)
    ultimately show ?thesis using h by simp
  next
    case 2
    then have l: "load_detailed svc n s1 = (r, s')"
      using g False assms(3) by (auto simp: GetDetailedUserByUsername_def n_def split: sum.splits)
    from load_detailed_effect [OF h(1,2) l] show ?thesis
      unfolding h by (cases r) auto
  qed
qed

lemma serve_effect:
  assumes "inv s" "rinv s"
  shows "inv (serve svc c s) \<and> rinv (serve svc c s) \<and> user_moves (users s) (users (serve svc c s))"
proof -
  note moves = inserts_moves activates_moves deactivates_moves removes_moves
  show ?thesis
  proof (cases c)
    case (CallCreateUser i n f l)
    with create_effect [OF assms surjective_pairing, of i n f l] show ?thesis
      by (auto split: sum.splits dest: moves)
  next
    case (CallDeleteUser i)
    with delete_effect [OF assms surjective_pairing, of i] show ?thesis
      by (auto split: sum.splits dest: moves)
  next
    case (CallActivateUser i)
    with activate_effect [OF assms surjective_pairing, of i] show ?thesis
      by (auto split: sum.splits dest: moves)
  next
    case (CallDeactivateUser i)
    with deactivate_effect [OF assms surjective_pairing, of i] show ?thesis
      by (auto split: sum.splits dest: moves)
  next
    case (CallExistsByUsername n)
    with exists_effect [OF assms surjective_pairing, of n] show ?thesis by simp
  next
    case (CallGetUserPreviewByID i)
    with preview_query_frame [OF assms surjective_pairing, of i] show ?thesis by simp
  next
    case (CallGetUserPreviewByIDNoCache i)
    with nocache_effect [OF assms surjective_pairing, of i] show ?thesis by simp
  next
    case (CallGetDetailedUserByUsername n)
    with detailed_query_effect [OF assms surjective_pairing, of n] show ?thesis by simp
  qed
qed

lemma run_effect:
  assumes "inv s" "rinv s"
  shows "inv (run_calls svc cs s) \<and> rinv (run_calls svc cs s) \<and>
    user_step\<^sup>*\<^sup>* (users s) (users (run_calls svc cs s))"
  using assms
proof (induction cs arbitrary: s)
  case (Cons c cs)
  from serve_effect [OF Cons.prems, of c] Cons.IH [of "serve svc c s"] show ?case
    by (auto simp: user_moves_def intro: converse_rtranclp_into_rtranclp)
qed simp

lemma coherent_put: "coherent us ps \<Longrightarrow> coherent (us(i \<mapsto> u)) (ps(i \<mapsto> as_preview u))"
  by (rule coherent_upd [OF _ preview_as])

lemma serve_coherent:
  assumes "inv s" "rinv s" "coherent (users s) (preview s)" "completes svc canon c s"
  shows "coherent (users (serve svc c s)) (preview (serve svc c s))"
proof (cases c)
  case (CallCreateUser i n f l)
  with create_effect [OF assms(1,2) surjective_pairing, of i n f l] assms(3) show ?thesis
    by (auto simp: inserts_def coherent_put coherent_new split: sum.splits)
next
  case (CallDeleteUser i)
  with delete_effect [OF assms(1,2) surjective_pairing, of i] assms(3,4) show ?thesis
    by (auto simp: removes_def coherent_del split: sum.splits)
next
  case (CallActivateUser i)
  with activate_effect [OF assms(1,2) surjective_pairing, of i] assms(3,4) show ?thesis
    by (auto simp: stores_def coherent_put split: sum.splits)
next
  case (CallDeactivateUser i)
  with deactivate_effect [OF assms(1,2) surjective_pairing, of i] assms(3,4) show ?thesis
    by (auto simp: stores_def coherent_del split: sum.splits)
next
  case (CallExistsByUsername n)
  with exists_effect [OF assms(1,2) surjective_pairing, of n] assms(3) show ?thesis by simp
next
  case (CallGetUserPreviewByID i)
  with preview_query_effect [OF assms(1,2,3) surjective_pairing, of i] assms(3) show ?thesis by auto
next
  case (CallGetUserPreviewByIDNoCache i)
  with nocache_effect [OF assms(1,2) surjective_pairing, of i] assms(3) show ?thesis by simp
next
  case (CallGetDetailedUserByUsername n)
  with detailed_query_effect [OF assms(1,2) surjective_pairing, of n] assms(3) show ?thesis by simp
qed

lemma run_coherent:
  assumes "inv s" "rinv s" "coherent (users s) (preview s)" "all_complete svc canon cs s"
  shows "coherent (users (run_calls svc cs s)) (preview (run_calls svc cs s))"
  using assms
proof (induction cs arbitrary: s)
  case (Cons c cs)
  with serve_effect [of s c] serve_coherent [of s c] show ?case by simp
qed simp

end

end
