(* ===== verification/Config.thy ===== *)
theory Config
  imports GoErrors GoTime
begin

text \<open>
  Package config: the configuration structs with the default values their tags give, and Load. Reading the
  environment is left to the env package, a parameter; \<open>default_Config\<close> is what it
  yields when only the required variables are set, which are its arguments. Go's int is a
  mathematical integer: configuration values are compared and passed on, never added up.
\<close>

definition WrapParseEnvConfigError :: "goerr \<Rightarrow> goerr" where
  "WrapParseEnvConfigError err = wrap_msg ''parse env config'' err"

section \<open>Structs\<close>

record app_config =
  app_Env :: string
  app_LogLevel :: string
  app_ObservabilityMode :: string

record db_config =
  db_Host :: string
  db_Port :: int
  db_User :: string
  db_Password :: string
  db_Name :: string
  db_SSLMode :: string
  db_MaxOpenConns :: int
  db_MaxIdleConns :: int
  db_ConnMaxLifetime :: time
  db_MigrationsPath :: string
  db_MigrationsTable :: string

record file_service_config =
  fs_Address :: string

record grpc_config =
  g_Host :: string
  g_Port :: int

record kafka_config =
  k_Brokers :: "string list"
  k_GroupID :: string
  k_RecoveryTopic :: string
  k_RecoveryGroup :: string
  k_RecoveryCompletedTopic :: string
  k_DetailedUserRequestedTopic :: string
  k_DetailedUserProjectionTopic :: string
  k_SagaCreateUserTopic :: string
  k_SagaDeleteUserTopic :: string
  k_SagaCreateResultTopic :: string
  k_SagaDeleteResultTopic :: string

record metrics_config =
  m_Enabled :: bool
  m_Host :: string
  m_Port :: int
  m_Path :: string

record nats_config =
  n_URL :: string
  n_User :: string
  n_Password :: string
  n_UserEventsStream :: string
  n_UserCreatedSubject :: string
  n_UserDetailedStream :: string
  n_UserDetailedRequestedSubject :: string
  n_UserDetailedProjectionSubject :: string
  n_UserDetailedProjectionDurable :: string
  n_UserDetailedProjectionBatchSize :: int
  n_UserDetailedProjectionMaxWait :: time
  n_UserDetailedProjectionWorkers :: int
  n_UserDetailedProjectionQueueSize :: int
  n_UserDetailedProjectionAckWait :: time
  n_UserDetailedProjectionMaxDeliver :: int
  n_SagaCommandsStream :: string
  n_SagaCreateUserSubject :: string
  n_SagaDeleteUserSubject :: string
  n_SagaCreateUserResultSubject :: string
  n_SagaDeleteUserResultSubject :: string
  n_SagaCreateUserDurable :: string
  n_SagaDeleteUserDurable :: string
  n_SagaBatchSize :: int
  n_SagaMaxWait :: time
  n_SagaWorkers :: int
  n_SagaQueueSize :: int
  n_SagaAckWait :: time
  n_SagaMaxDeliver :: int
  n_SagaAdaptiveEnabled :: bool
  n_SagaAdaptiveCheckInterval :: time
  n_SagaAdaptiveMediumPending :: int
  n_SagaAdaptiveHighPending :: int
  n_SagaAdaptiveLowBatchSize :: int
  n_SagaAdaptiveLowMaxWait :: time
  n_SagaAdaptiveMediumBatchSize :: int
  n_SagaAdaptiveMediumMaxWait :: time
  n_SagaAdaptiveHighBatchSize :: int
  n_SagaAdaptiveHighMaxWait :: time

record pull_adaptive_config =
  a_Enabled :: bool
  a_CheckInterval :: time
  a_MediumPending :: int
  a_HighPending :: int
  a_LowBatchSize :: int
  a_LowMaxWait :: time
  a_MediumBatchSize :: int
  a_MediumMaxWait :: time
  a_HighBatchSize :: int
  a_HighMaxWait :: time

record pull_consumer_config =
  pc_GroupID :: string
  pc_Stream :: string
  pc_Subject :: string
  pc_Durable :: string
  pc_BatchSize :: int
  pc_MaxWait :: time
  pc_Workers :: int
  pc_QueueSize :: int
  pc_AckWait :: time
  pc_MaxDeliver :: int
  pc_Adaptive :: pull_adaptive_config

record redis_config =
  rd_Host :: string
  rd_Port :: int
  rd_Password :: string
  rd_DB :: int

text \<open>The sampling ratio of the tracer is kept as its text: nothing computes with it.\<close>

record tracing_config =
  t_Enabled :: bool
  t_Endpoint :: string
  t_Protocol :: string
  t_SampleRatio :: string
  t_ServiceVersion :: string

record service_config =
  cfg_App :: app_config
  cfg_DB :: db_config
  cfg_GRPC :: grpc_config
  cfg_Metrics :: metrics_config
  cfg_Tracing :: tracing_config
  cfg_File :: file_service_config
  cfg_Redis :: redis_config
  cfg_NATS :: nats_config
  cfg_Kafka :: kafka_config

text \<open>The zero value of the two pull-consumer structs.\<close>

definition zero_adaptive :: pull_adaptive_config where
  "zero_adaptive = \<lparr>a_Enabled = False, a_CheckInterval = 0, a_MediumPending = 0, a_HighPending = 0,
     a_LowBatchSize = 0, a_LowMaxWait = 0, a_MediumBatchSize = 0, a_MediumMaxWait = 0,
     a_HighBatchSize = 0, a_HighMaxWait = 0\<rparr>"

definition zero_pull_consumer :: pull_consumer_config where
  "zero_pull_consumer = \<lparr>pc_GroupID = [], pc_Stream = [], pc_Subject = [], pc_Durable = [],
     pc_BatchSize = 0, pc_MaxWait = 0, pc_Workers = 0, pc_QueueSize = 0, pc_AckWait = 0,
     pc_MaxDeliver = 0, pc_Adaptive = zero_adaptive\<rparr>"

section \<open>Loading\<close>

text \<open>
  What the env package makes of the environment is a parameter: it fills the struct it is given,
  which starts out as the zero value, or returns an error.
\<close>

definition Load :: "(service_config \<Rightarrow> goerr option \<times> service_config) \<Rightarrow> service_config \<Rightarrow> goerr + service_config" where
  "Load env_Parse zero =
    (case env_Parse zero of
       (Some err, cfg) \<Rightarrow> Inl (WrapParseEnvConfigError err)
     | (None, cfg) \<Rightarrow> Inr cfg)"

lemma Load_cases:
  "Load env_Parse zero = Inl e \<Longrightarrow> \<exists>err. fst (env_Parse zero) = Some err \<and> e = WrapParseEnvConfigError err"
  "Load env_Parse zero = Inr cfg \<Longrightarrow> env_Parse zero = (None, cfg)"
  by (auto simp: Load_def split: prod.splits option.splits)

section \<open>Defaults\<close>

definition default_App :: app_config where
  "default_App = \<lparr>app_Env = ''local'', app_LogLevel = ''info'', app_ObservabilityMode = ''production''\<rparr>"

definition default_DB :: "string \<Rightarrow> int \<Rightarrow> string \<Rightarrow> string \<Rightarrow> string \<Rightarrow> db_config" where
  "default_DB host port user password name =
    \<lparr>db_Host = host, db_Port = port, db_User = user, db_Password = password, db_Name = name,
     db_SSLMode = ''disable'', db_MaxOpenConns = 20, db_MaxIdleConns = 10,
     db_ConnMaxLifetime = 5 * minute, db_MigrationsPath = ''file://migration/postgres'',
     db_MigrationsTable = ''schema_migrations_user_service''\<rparr>"

definition default_File :: file_service_config where
  "default_File = \<lparr>fs_Address = ''127.0.0.1:9503''\<rparr>"

definition default_GRPC :: grpc_config where
  "default_GRPC = \<lparr>g_Host = ''0.0.0.0'', g_Port = 9502\<rparr>"

definition default_Kafka :: kafka_config where
  "default_Kafka = \<lparr>k_Brokers = [''127.0.0.1:9092''], k_GroupID = ''user-service'',
     k_RecoveryTopic = ''migration.recovery.commands.user'',
     k_RecoveryGroup = ''user-service-recovery'',
     k_RecoveryCompletedTopic = ''migration.recovery.completed'',
     k_DetailedUserRequestedTopic = ''user.detailed.requested'',
     k_DetailedUserProjectionTopic = ''user.detailed.projection.requested'',
     k_SagaCreateUserTopic = ''saga.user.create'', k_SagaDeleteUserTopic = ''saga.user.delete'',
     k_SagaCreateResultTopic = ''saga.user.create.result'',
     k_SagaDeleteResultTopic = ''saga.user.delete.result''\<rparr>"

definition default_Metrics :: metrics_config where
  "default_Metrics = \<lparr>m_Enabled = True, m_Host = ''0.0.0.0'', m_Port = 9602, m_Path = ''/metrics''\<rparr>"

definition default_NATS :: nats_config where
  "default_NATS = \<lparr>n_URL = [], n_User = [], n_Password = [],
     n_UserEventsStream = ''USER_EVENTS'', n_UserCreatedSubject = ''user.created'',
     n_UserDetailedStream = ''USER_DETAILED'',
     n_UserDetailedRequestedSubject = ''user.detailed.requested'',
     n_UserDetailedProjectionSubject = ''user.detailed.projection.requested'',
     n_UserDetailedProjectionDurable = ''user_service_user_detailed_projection'',
     n_UserDetailedProjectionBatchSize = 50, n_UserDetailedProjectionMaxWait = 500 * millisecond,
     n_UserDetailedProjectionWorkers = 4, n_UserDetailedProjectionQueueSize = 200,
     n_UserDetailedProjectionAckWait = 30 * second, n_UserDetailedProjectionMaxDeliver = 5,
     n_SagaCommandsStream = ''SAGA_USER_COMMANDS'',
     n_SagaCreateUserSubject = ''saga.user.create'', n_SagaDeleteUserSubject = ''saga.user.delete'',
     n_SagaCreateUserResultSubject = ''saga.user.create.result'',
     n_SagaDeleteUserResultSubject = ''saga.user.delete.result'',
     n_SagaCreateUserDurable = ''user_service_saga_create'',
     n_SagaDeleteUserDurable = ''user_service_saga_delete'',
     n_SagaBatchSize = 100, n_SagaMaxWait = 500 * millisecond, n_SagaWorkers = 8,
     n_SagaQueueSize = 500, n_SagaAckWait = 30 * second, n_SagaMaxDeliver = 5,
     n_SagaAdaptiveEnabled = False, n_SagaAdaptiveCheckInterval = 2 * second,
     n_SagaAdaptiveMediumPending = 200, n_SagaAdaptiveHighPending = 1000,
     n_SagaAdaptiveLowBatchSize = 25, n_SagaAdaptiveLowMaxWait = 1 * second,
     n_SagaAdaptiveMediumBatchSize = 100, n_SagaAdaptiveMediumMaxWait = 500 * millisecond,
     n_SagaAdaptiveHighBatchSize = 300, n_SagaAdaptiveHighMaxWait = 100 * millisecond\<rparr>"

definition default_Redis :: "string \<Rightarrow> int \<Rightarrow> redis_config" where
  "default_Redis host port = \<lparr>rd_Host = host, rd_Port = port, rd_Password = [], rd_DB = 0\<rparr>"

definition default_Tracing :: tracing_config where
  "default_Tracing = \<lparr>t_Enabled = True, t_Endpoint = ''http://127.0.0.1:9099'',
     t_Protocol = ''http/protobuf'', t_SampleRatio = ''1.0'', t_ServiceVersion = ''dev''\<rparr>"

definition default_Config :: "db_config \<Rightarrow> redis_config \<Rightarrow> service_config" where
  "default_Config db redis =
    \<lparr>cfg_App = default_App, cfg_DB = db, cfg_GRPC = default_GRPC, cfg_Metrics = default_Metrics,
     cfg_Tracing = default_Tracing, cfg_File = default_File, cfg_Redis = redis,
     cfg_NATS = default_NATS, cfg_Kafka = default_Kafka\<rparr>"

end
