(* ===== verification/FileClient.thy ===== *)
theory FileClient
  imports World Application Config
begin

text \<open>
  The client of the file service: package internal/infra/file/grpc. The remote procedure is the
  environment's; the client trims the identifier it sends and returns the URL of the reply as it
  is. Dialling is left to the gRPC library: it connects on the first call.
\<close>

definition ErrEmptyAddress :: goerr where
  "ErrEmptyAddress = Sentinel ''filegrpc'' ''address is empty''"

definition ErrNilLogger :: goerr where
  "ErrNilLogger = Sentinel ''filegrpc'' ''logger is nil''"

definition GetFileURL :: "env \<Rightarrow> string \<Rightarrow> (goerr, string, world) io" where
  "GetFileURL E fileID w =
    (case e_file_url E (w_calls w) (TrimSpace fileID) of
       Inl err \<Rightarrow> (Inl err, w\<lparr>w_calls := Suc (w_calls w)\<rparr>)
     | Inr url \<Rightarrow> (Inr url, w\<lparr>w_calls := Suc (w_calls w)\<rparr>))"

definition file_client :: "env \<Rightarrow> world file_url_client" where
  "file_client E = \<lparr>fc_GetFileURL = GetFileURL E\<rparr>"

text \<open>The constructor, with what grpc.NewClient says of the address.\<close>

definition New :: "(string \<Rightarrow> goerr option) \<Rightarrow> env \<Rightarrow> file_service_config \<Rightarrow> unit option
    \<Rightarrow> goerr + world file_url_client" where
  "New dial E cfg log =
    (if TrimSpace (fs_Address cfg) = [] then Inl ErrEmptyAddress
     else if log = None then Inl ErrNilLogger
     else case dial (fs_Address cfg) of Some err \<Rightarrow> Inl err | None \<Rightarrow> Inr (file_client E))"

text \<open>Closing: the client and its connection may both be nil.\<close>

definition Close :: "goerr option option option \<Rightarrow> goerr option" where
  "Close c =
    (case c of
       None \<Rightarrow> None
     | Some None \<Rightarrow> None
     | Some (Some close_result) \<Rightarrow> close_result)"

lemma GetFileURL_frame:
  "GetFileURL E f w = (r, w') \<Longrightarrow> w' = w\<lparr>w_calls := Suc (w_calls w)\<rparr> \<and>
     r = e_file_url E (w_calls w) (TrimSpace f)"
  by (auto simp: GetFileURL_def split: sum.splits)

end
