(* ===== verification/EventBroker.thy ===== *)
theory EventBroker
  imports Config Prelude
begin

text \<open>
  The transport-agnostic broker interface of internal/presentation/event_broker. A message handler
  takes the subject and the payload; a broker hands it to the library's consumer, so the methods
  that subscribe are higher-order. The locale states what a publisher may rely on: a
  published message is accepted once, after those accepted before, in the form \<open>carries\<close> says.
\<close>

type_synonym 's message_handler = "string \<Rightarrow> string \<Rightarrow> (goerr, unit, 's) io"

record 's event_broker =
  eb_Publish :: "string \<Rightarrow> string \<Rightarrow> (goerr, unit, 's) io"
  eb_Subscribe :: "string \<Rightarrow> 's message_handler \<Rightarrow> (goerr, unit, 's) io"
  eb_RunPullConsumer :: "pull_consumer_config \<Rightarrow> 's message_handler \<Rightarrow> (goerr, unit, 's) io"
  eb_Close :: "'s \<Rightarrow> 's"

locale publisher_contract =
  fixes publish :: "string \<Rightarrow> string \<Rightarrow> (goerr, unit, 's) io"
    and sent :: "'s \<Rightarrow> (string \<times> string) list"
    and carries :: "string \<Rightarrow> string \<Rightarrow> string \<Rightarrow> bool"
    and pkept :: "'s \<Rightarrow> 'p"
  assumes publish_frame: "publish subject payload s = (r, s') \<Longrightarrow> pkept s' = pkept s"
    and publish_ok: "publish subject payload s = (Inr x1, s') \<Longrightarrow>
      \<exists>body. carries subject payload body \<and> sent s' = sent s @ [(subject, body)]"
    and publish_err: "publish subject payload s = (Inl e, s') \<Longrightarrow>
      sent s' = sent s \<or> (\<exists>body. carries subject payload body \<and> sent s' = sent s @ [(subject, body)])"
begin

lemma publish_sent:
  assumes "publish subject payload s = (r, s')"
  obtains (none) e where "r = Inl e" "sent s' = sent s"
    | (one) body where "carries subject payload body" "sent s' = sent s @ [(subject, body)]"
proof (cases r)
  case (Inl e)
  with assms that show ?thesis using publish_err by blast
next
  case (Inr x)
  with assms that show ?thesis using publish_ok by blast
qed

lemma publish_monotone:
  "publish subject payload s = (r, s') \<Longrightarrow> \<exists>ms. sent s' = sent s @ ms \<and> length ms \<le> 1"
  by (erule publish_sent) auto

end

end
