(* ===== verification/KafkaBroker.thy ===== *)
theory KafkaBroker
  imports World EventBroker
begin

text \<open>
  The Kafka broker of internal/presentation/event_broker/kafka. Publishing wraps the payload in
  the shared library's envelope and writes one message to the topic; \<open>KafkaWire\<close> has
  the writer, the key and the headers of that message.
\<close>

section \<open>Publishing\<close>

definition bus_write :: "string \<Rightarrow> string \<Rightarrow> (goerr, unit, world) io" where
  "bus_write topic value w = (Inr (), w\<lparr>w_bus := w_bus w @ [(topic, value)]\<rparr>)"

definition Publish :: "env \<Rightarrow> string \<Rightarrow> string \<Rightarrow> (goerr, unit, world) io" where
  "Publish E subject payload w =
    (case e_wrap E (w_calls w) subject payload of
       Inl err \<Rightarrow> (Inl err, w)
     | Inr enveloped \<Rightarrow> ext_call (e_bus_fault E) (bus_write subject enveloped) w)"

definition enveloped :: "env \<Rightarrow> string \<Rightarrow> string \<Rightarrow> string \<Rightarrow> bool" where
  "enveloped E subject payload body \<longleftrightarrow> (\<exists>n. e_wrap E n subject payload = Inr body)"

definition bus_kept :: "world \<Rightarrow> user_row list \<times> outbox_event list \<times> (string \<rightharpoonup> string) \<times> metric list" where
  "bus_kept w = (w_users w, w_outbox w, w_redis w, w_metrics w)"

lemma Publish_effect:
  assumes "Publish E subject payload w = (r, w')"
  shows "bus_kept w' = bus_kept w \<and>
    (case r of
       Inr _ \<Rightarrow> \<exists>body. enveloped E subject payload body \<and> w_bus w' = w_bus w @ [(subject, body)]
     | Inl e \<Rightarrow> w_bus w' = w_bus w \<or>
         (\<exists>body. enveloped E subject payload body \<and> w_bus w' = w_bus w @ [(subject, body)]))"
proof (cases "e_wrap E (w_calls w) subject payload")
  case (Inl err)
  with assms show ?thesis by (auto simp: Publish_def)
next
  case (Inr body)
  then have "enveloped E subject payload body" by (auto simp: enveloped_def)
  with Inr assms show ?thesis
    by (cases "e_bus_fault E (w_calls w)")
      (auto simp: Publish_def ext_call_def bus_write_def bus_kept_def)
qed

interpretation kafka: publisher_contract "Publish E" w_bus "enveloped E" bus_kept for E
  by unfold_locales (drule Publish_effect; auto)+

end
