(* ===== verification/KafkaDetailed.thy ===== *)
theory KafkaDetailed
  imports KafkaBroker Application GoJson
begin

text \<open>
  The detailed-user projection over Kafka (detailed_user.go): the publisher that requests a
  refresh, the relay that forwards a request to the projection topic, and the subscriber that
  writes the projected user to the read model.
\<close>

definition errNilBroker :: goerr where
  "errNilBroker = Sentinel ''kafka'' ''event broker is nil''"

definition errEmptyTopic :: goerr where
  "errEmptyTopic = Sentinel ''kafka'' ''Kafka detailed-user topic is empty''"

definition errNilLogger :: goerr where
  "errNilLogger = Sentinel ''kafka'' ''logger is nil''"

definition errInvalidPayload :: goerr where
  "errInvalidPayload = Sentinel ''kafka'' ''invalid detailed user payload''"

definition errNilReadRepository :: goerr where
  "errNilReadRepository = Foreign ''user read repository is nil''"

record detailed_user_event =
  ev_UserID :: string
  ev_Username :: string
  ev_DisplayName :: string
  ev_AvatarID :: string
  ev_AvatarURL :: string
  ev_About :: string

definition event_members :: "detailed_user_event \<Rightarrow> members" where
  "event_members e =
    [(''user_id'', JStr (ev_UserID e)), (''username'', JStr (ev_Username e)),
     (''display_name'', JStr (ev_DisplayName e)), (''avatar_id'', JStr (ev_AvatarID e)),
     (''avatar_url'', JStr (ev_AvatarURL e)), (''about'', JStr (ev_About e))]"

definition marshal_event :: "detailed_user_event \<Rightarrow> string" where
  "marshal_event e = enc (JObj (event_members e))"

definition event_strings :: "string list" where
  "event_strings = [''user_id'', ''username'', ''display_name'', ''avatar_id'', ''avatar_url'', ''about'']"

definition unmarshal_event :: "string \<Rightarrow> goerr + detailed_user_event" where
  "unmarshal_event raw =
    (case unmarshal event_strings [] raw of
       Inl err \<Rightarrow> Inl err
     | Inr ms \<Rightarrow> Inr \<lparr>ev_UserID = str_field ''user_id'' ms, ev_Username = str_field ''username'' ms,
         ev_DisplayName = str_field ''display_name'' ms, ev_AvatarID = str_field ''avatar_id'' ms,
         ev_AvatarURL = str_field ''avatar_url'' ms, ev_About = str_field ''about'' ms\<rparr>)"

definition event_of :: "user \<Rightarrow> detailed_user_event" where
  "event_of u =
    \<lparr>ev_UserID = TrimSpace (u_ID u), ev_Username = TrimSpace (u_Username u),
     ev_DisplayName = TrimSpace (u_DisplayName u), ev_AvatarID = TrimSpace (u_AvatarID u),
     ev_AvatarURL = TrimSpace (u_AvatarURL u), ev_About = TrimSpace (u_About u)\<rparr>"

section \<open>Publisher\<close>

definition PublishDetailedUserRequested :: "(string \<Rightarrow> string \<Rightarrow> (goerr, unit, 's) io) \<Rightarrow> string
    \<Rightarrow> user option \<Rightarrow> (goerr, unit, 's) io" where
  "PublishDetailedUserRequested publish topic user s =
    (case user of
       None \<Rightarrow> (Inl errInvalidPayload, s)
     | Some u \<Rightarrow> publish topic (marshal_event (event_of u)) s)"

definition NewDetailedUserPublisher :: "'s event_broker option \<Rightarrow> kafka_config \<Rightarrow> unit option
    \<Rightarrow> goerr + 's detailed_user_publisher" where
  "NewDetailedUserPublisher b cfg log =
    (case b of
       None \<Rightarrow> Inl errNilBroker
     | Some b \<Rightarrow>
         if TrimSpace (k_DetailedUserRequestedTopic cfg) = [] then Inl errEmptyTopic
         else if log = None then Inl errNilLogger
         else Inr \<lparr>pb_PublishDetailedUserRequested =
                    PublishDetailedUserRequested (eb_Publish b) (k_DetailedUserRequestedTopic cfg)\<rparr>)"

section \<open>Relay\<close>

definition relay_handler :: "'s event_broker \<Rightarrow> string \<Rightarrow> 's message_handler" where
  "relay_handler b output subject payload s =
    (if payload = [] then (Inl errInvalidPayload, s) else eb_Publish b output payload s)"

definition relay_Start :: "'s event_broker \<Rightarrow> string \<Rightarrow> string \<Rightarrow> (goerr, unit, 's) io" where
  "relay_Start b input output s = eb_Subscribe b input (relay_handler b output) s"

definition NewDetailedUserProjectionRelay :: "'s event_broker option \<Rightarrow> kafka_config \<Rightarrow> unit option
    \<Rightarrow> goerr + (goerr, unit, 's) io" where
  "NewDetailedUserProjectionRelay b cfg log =
    (case b of
       None \<Rightarrow> Inl errNilBroker
     | Some b \<Rightarrow>
         if TrimSpace (k_DetailedUserRequestedTopic cfg) = [] \<or> TrimSpace (k_DetailedUserProjectionTopic cfg) = []
         then Inl errEmptyTopic
         else if log = None then Inl errNilLogger
         else Inr (relay_Start b (k_DetailedUserRequestedTopic cfg) (k_DetailedUserProjectionTopic cfg)))"

section \<open>Projection subscriber\<close>

definition user_of_event :: "detailed_user_event \<Rightarrow> user" where
  "user_of_event e = zero_user
    \<lparr>u_ID := TrimSpace (ev_UserID e), u_Username := TrimSpace (ev_Username e),
     u_DisplayName := TrimSpace (ev_DisplayName e), u_AvatarID := TrimSpace (ev_AvatarID e),
     u_AvatarURL := TrimSpace (ev_AvatarURL e), u_About := TrimSpace (ev_About e)\<rparr>"

definition projection_handler :: "'s user_read_repository \<Rightarrow> 's message_handler" where
  "projection_handler read subject payload s =
    (case unmarshal_event payload of
       Inl err \<Rightarrow> (Inl err, s)
     | Inr event \<Rightarrow>
         (let user = user_of_event event in
          if u_Username user = [] then (Inl errInvalidPayload, s)
          else rr_UpsertByUsername read (Some user) s))"

definition projection_Start :: "'s event_broker \<Rightarrow> 's user_read_repository \<Rightarrow> string
    \<Rightarrow> (goerr, unit, 's) io" where
  "projection_Start b read topic s = eb_Subscribe b topic (projection_handler read) s"

definition NewDetailedUserProjectionSubscriber :: "'s event_broker option
    \<Rightarrow> 's user_read_repository option \<Rightarrow> kafka_config \<Rightarrow> unit option \<Rightarrow> goerr + (goerr, unit, 's) io" where
  "NewDetailedUserProjectionSubscriber b read cfg log =
    (case b of
       None \<Rightarrow> Inl errNilBroker
     | Some b \<Rightarrow>
         (case read of
            None \<Rightarrow> Inl errNilReadRepository
          | Some read \<Rightarrow>
              if TrimSpace (k_DetailedUserProjectionTopic cfg) = [] then Inl errEmptyTopic
              else if log = None then Inl errNilLogger
              else Inr (projection_Start b read (k_DetailedUserProjectionTopic cfg))))"

section \<open>Round trip\<close>

definition event_ok :: "detailed_user_event \<Rightarrow> bool" where
  "event_ok e \<longleftrightarrow> list_all utf8_valid [ev_UserID e, ev_Username e, ev_DisplayName e, ev_AvatarID e,
     ev_AvatarURL e, ev_About e]"

lemma unmarshal_marshal_event:
  assumes "event_ok e"
  shows "unmarshal_event (marshal_event e) = Inr e"
proof -
  have plain: "plain_members (event_members e)"
    by (simp add: event_members_def plain_members_def plain_key_def)
  have "unmarshal event_strings [] (enc (JObj (event_members e))) = Inr (event_members e)"
    by (rule unmarshal_enc [OF plain])
      (use assms in \<open>simp_all add: event_members_def event_strings_def plain_key_def
        typed_members_def is_str_def event_ok_def\<close>)
  moreover have "str_field k (event_members e) = x" if "(k, JStr x) \<in> set (event_members e)" for k x
    using str_field_member [OF plain that] .
  ultimately show ?thesis
    by (simp add: unmarshal_event_def marshal_event_def) (simp add: event_members_def)
qed

end
