(* ===== verification/Wiring.thy ===== *)
theory Wiring
  imports WriteRepo ReadRepo FileClient KafkaDetailed
begin

text \<open>
  The service as internal/fx wires it: the PostgreSQL and the Redis repository, the gRPC file
  client and the Kafka publisher behind the application service. The contract of the application
  layer is interpreted here on those adapters, and the effects of the service's operations on the
  tables, the cache and the topics follow.
\<close>

section \<open>Wiring\<close>

definition detailed_publisher :: "env \<Rightarrow> string \<Rightarrow> world detailed_user_publisher" where
  "detailed_publisher E topic =
    \<lparr>pb_PublishDetailedUserRequested = PublishDetailedUserRequested (KafkaBroker.Publish E) topic\<rparr>"

definition wired_service :: "env \<Rightarrow> string \<Rightarrow> world user_service" where
  "wired_service E topic =
    \<lparr>svc_repo = pg_repo E NewPgErrorTranslator, svc_readRepo = redis_repo E,
     svc_files = file_client E, svc_pub = detailed_publisher E topic\<rparr>"

lemma wired_parts [simp]:
  "svc_repo (wired_service E topic) = pg_repo E NewPgErrorTranslator"
  "svc_readRepo (wired_service E topic) = redis_repo E"
  "svc_files (wired_service E topic) = file_client E"
  "svc_pub (wired_service E topic) = detailed_publisher E topic"
  by (simp_all add: wired_service_def)

section \<open>The adapters keep the contract of the service\<close>

lemma redis_inv_pg [simp]: "pg_inv E w \<Longrightarrow> redis_inv E w"
  by (simp add: pg_inv_def redis_inv_def)

lemma pg_kept_views:
  assumes "pg_kept w' = pg_kept w"
  shows "preview w' = preview w \<and> detailed w' = detailed w \<and> redis_inv E w' = redis_inv E w"
  using assms by (auto simp: pg_kept_def preview_def detailed_def redis_inv_def fun_eq_iff)

lemma redis_kept_views:
  assumes "redis_kept w' = redis_kept w"
  shows "users_view w' = users_view w \<and> pg_inv E w' = pg_inv E w"
  using assms
  by (auto simp: redis_kept_def users_view_def pg_inv_def table_ok_def outbox_ok_def rows_view_def fun_eq_iff)

lemma bus_kept_views:
  assumes "bus_kept w' = bus_kept w"
  shows "preview w' = preview w \<and> detailed w' = detailed w \<and> redis_inv E w' = redis_inv E w \<and>
    users_view w' = users_view w \<and> pg_inv E w' = pg_inv E w"
  using assms
  by (auto simp: bus_kept_def preview_def detailed_def redis_inv_def users_view_def pg_inv_def
      table_ok_def outbox_ok_def rows_view_def fun_eq_iff)

lemma publisher_views:
  assumes "pb_PublishDetailedUserRequested (detailed_publisher E topic) uo w = (x, w')"
  shows "preview w' = preview w \<and> detailed w' = detailed w \<and> redis_inv E w' = redis_inv E w \<and>
    users_view w' = users_view w \<and> pg_inv E w' = pg_inv E w"
proof (cases uo)
  case None
  with assms show ?thesis by (auto simp: detailed_publisher_def PublishDetailedUserRequested_def)
next
  case (Some u)
  with assms have "KafkaBroker.Publish E topic (marshal_event (event_of u)) w = (x, w')"
    by (simp add: detailed_publisher_def PublishDetailedUserRequested_def)
  from kafka.publish_frame [OF this] show ?thesis by (rule bus_kept_views)
qed

lemma stored_user:
  assumes "pg_inv E w" and "users_view w k = Some u"
  shows "u_ID u = k \<and> e_uuid E k = Some k \<and> u_DisplayName u = [] \<and> u_AvatarURL u = [] \<and> storable u"
proof -
  obtain r where r: "r \<in> set (w_users w)" "row_ID r = k" "u = MapUserRowToDomain r"
    using assms(2) by (rule users_view_Some)
  with assms(1) have ok: "row_ok E r" and env: "env_ok utf8_valid E"
    by (auto simp: pg_inv_def table_ok_def list_all_iff)
  then have "utf8_valid (row_ID r)" using env_okD(2) by (auto simp: row_ok_def)
  with r ok show ?thesis using env_okD(4) [OF env] by (auto simp: row_ok_def storable_def)
qed

lemma preview_url: "as_preview (u\<lparr>u_AvatarURL := x\<rparr>) = (as_preview u)\<lparr>u_AvatarURL := x\<rparr>"
  by (simp add: as_preview_def)

lemma previews_as: "previews u (as_preview u)"
  by (simp add: previews_def as_preview_def zero_user_def)

lemma previews_eq:
  assumes "previews u c"
  shows "c = as_preview (u\<lparr>u_AvatarURL := u_AvatarURL c\<rparr>)"
proof -
  have "c = c\<lparr>u_AvatarURL := []\<rparr>\<lparr>u_AvatarURL := u_AvatarURL c\<rparr>" by simp
  also have "\<dots> = as_preview (u\<lparr>u_AvatarURL := u_AvatarURL c\<rparr>)"
    using assms by (simp add: previews_def as_preview_def)
  finally show ?thesis .
qed

lemma storable_preview: "storable u \<Longrightarrow> storable (as_preview u)"
  by (simp add: storable_def as_preview_def zero_user_def)

lemma as_preview_idem: "as_preview (as_preview u) = as_preview u"
  by (simp add: as_preview_def)

interpretation wired: user_service_backend "wired_service E topic" users_view "e_uuid E" "pg_inv E"
  pg_kept preview detailed as_preview as_detailed storable "redis_inv E" redis_kept for E topic
proof (rule user_service_backend.intro)
  show "user_repository_contract (svc_repo (wired_service E topic)) users_view (e_uuid E) (pg_inv E) pg_kept"
    unfolding wired_parts by (rule pg.user_repository_contract_axioms)
  show "user_read_contract (svc_readRepo (wired_service E topic)) preview detailed as_preview as_detailed
      storable (redis_inv E) redis_kept"
    unfolding wired_parts by (rule redis.user_read_contract_axioms)
  show "user_service_backend_axioms (wired_service E topic) users_view (e_uuid E) (pg_inv E) pg_kept
      preview detailed as_preview as_detailed storable (redis_inv E) redis_kept"
  proof (unfold_locales, goal_cases)
    case 1 then show ?case by (rule pg_kept_views)
  next
    case 2 then show ?case by (rule redis_kept_views)
  next
    case (3 f s g s')
    then have "s' = s\<lparr>w_calls := Suc (w_calls s)\<rparr>" using GetFileURL_frame by (simp add: file_client_def)
    then show ?case by simp
  next
    case 4 then show ?case using publisher_views by simp
  next
    case 5 then show ?case by (rule stored_user)
  next
    case (6 s f url s' u)
    then show ?case using env_okD(9) [of utf8_valid E] GetFileURL_frame [of E f s "Inr url" s']
      by (simp add: file_client_def pg_inv_def storable_def)
  next
    case 7 then show ?case by (simp add: storable_def)
  next
    case (8 u c)
    then show ?case using previews_eq [of u c] storable_preview by metis
  next
    case 9 then show ?case using previews_as by (simp add: preview_url)
  next
    case (10 u c) then show ?case using previews_eq [of u c] as_preview_idem by metis
  next
    case 11 then show ?case
      by (simp add: as_detailed_def public_view_def shown_name_def)
  qed
qed

end
