(* ===== verification/Samples.thy ===== *)
theory Samples
  imports Wiring
begin

text \<open>
  Concrete environments on which the witnesses evaluate the model: one in which nothing fails and
  any ASCII string is a UUID whose canonical text is in lower case, and variants of it with a
  single injected fault.
\<close>

definition sample_uuid :: "string \<rightharpoonup> string" where
  "sample_uuid i = (if ascii i then Some (ToLower i) else None)"

definition sample_reject :: "pg_rejection \<Rightarrow> goerr" where
  "sample_reject r =
    (case r of
       UniqueViolation cs \<Rightarrow>
         Foreign (''ERROR: duplicate key value violates unique constraint '' @ go_quote (hd (cs @ [[]])) @
           '' (SQLSTATE 23505)'')
     | InvalidUUID i \<Rightarrow>
         Foreign (''ERROR: invalid input syntax for type uuid: '' @ go_quote i @ '' (SQLSTATE 22P02)'')
     | InvalidText \<Rightarrow> Foreign ''ERROR: invalid byte sequence for encoding UTF8 (SQLSTATE 22021)'')"

definition sample_env :: env where
  "sample_env =
    \<lparr>e_pg_fault = (\<lambda>_. NoFault), e_rows_fault = (\<lambda>_. None), e_redis_fault = (\<lambda>_. NoFault),
     e_bus_fault = (\<lambda>_. NoFault), e_file_url = (\<lambda>_ _. Inr ''http://files/a''),
     e_clock = (\<lambda>n. int n), e_uuid = sample_uuid, e_text_ok = utf8_valid,
     e_reject = sample_reject, e_wrap = (\<lambda>_ _ payload. Inr payload), e_unwrap = Inr\<rparr>"

text \<open>The same with the redis requests of given numbers lost.\<close>

definition redis_down :: "nat set \<Rightarrow> env" where
  "redis_down ns = sample_env\<lparr>e_redis_fault :=
     (\<lambda>n. if n \<in> ns then Lost (Foreign ''redis: connection refused'') else NoFault)\<rparr>"

lemma lower_char_idem [simp]: "lower_char (lower_char c) = lower_char c"
  by (auto simp: lower_char_def take_bit_eq_mod)

lemma lower_char_ascii: "code c < 128 \<Longrightarrow> code (lower_char c) < 128"
  by (auto simp: lower_char_def take_bit_eq_mod)

lemma ToLower_ascii: "ascii s \<Longrightarrow> ascii (ToLower s)"
  by (simp add: ToLower_ascii_map) (auto simp: list_all_iff lower_char_ascii)

lemma ToLower_idem: "ascii s \<Longrightarrow> ToLower (ToLower s) = ToLower s"
  using ToLower_ascii [of s] by (simp add: ToLower_ascii_map)

lemma sample_uuid_ok: "sample_uuid i = Some u \<Longrightarrow> sample_uuid u = Some u \<and> utf8_valid u"
  by (auto simp: sample_uuid_def ToLower_ascii ToLower_idem utf8_valid_ascii split: if_splits)

lemma sample_env_ok: "env_ok utf8_valid sample_env"
  by (auto simp: env_ok_def sample_env_def sample_uuid_ok fault_error_def sample_reject_def
      sql_ErrNoRows_def split: pg_rejection.splits intro: utf8_valid_ascii)

lemma redis_down_ok: "env_ok utf8_valid (redis_down ns)"
  using sample_env_ok
  by (auto simp: env_ok_def redis_down_def fault_error_def ErrUserNotFound_def redis_Nil_def)

lemma empty_world_ok: "env_ok utf8_valid E \<Longrightarrow> pg_inv E empty_world \<and> redis_inv E empty_world"
  by (simp add: pg_inv_def table_ok_def outbox_ok_def replay_def rows_view_def empty_world_def
      redis_inv_def fun_eq_iff)

abbreviation sample_service :: "world user_service" where
  "sample_service \<equiv> wired_service sample_env ''user.detailed.requested''"

definition sample_world :: world where
  "sample_world = run_calls sample_service
     [CallCreateUser ''U1'' ''alex'' ''Alex'' ''Doe'', CallActivateUser ''u1''] empty_world"

lemma coherent_empty [simp]: "coherent us Map.empty"
  by (simp add: coherent_def)

lemma empty_views [simp]:
  "users_view empty_world = Map.empty" "preview empty_world = Map.empty"
  "detailed empty_world = Map.empty"
  by (simp_all add: fun_eq_iff users_view_def preview_def detailed_def empty_world_def)

lemma sample_inv: "pg_inv sample_env sample_world"
  unfolding sample_world_def
  by (rule wired.run_effect [THEN conjunct1]) (use empty_world_ok [OF sample_env_ok] in auto)

definition sample_row :: user_row where
  "sample_row = \<lparr>row_ID = ''u1'', row_Username = ''alex'', row_FirstName = ''Alex'',
     row_LastName = ''Doe'', row_AvatarID = [], row_About = [], row_IsActive = True,
     row_Status = ''active'', row_CreatedAt = 1, row_UpdatedAt = 3\<rparr>"

lemmas eval_defs = serve.simps CreateUser_def ActivateUser_def DeactivateUser_def DeleteUser_def
  pg_repo_methods redis_repo_methods WriteRepo.Create_def WriteRepo.ActivateByID_def
  WriteRepo.DeactivateByID_def WriteRepo.DeleteByID_def Upsert_def ReadRepo.DeleteByID_def
  createUserQuery_def activateUserByID_def deactivateUserByID_def deleteUserByID_def
  update_rows_def ext_call_def redis_set_def redis_del_def inserted_row_def activate_row_def
  deactivate_row_def violated_constraints_def

lemma sample_uuid_u1 [simp]: "sample_uuid ''U1'' = Some ''u1''" "sample_uuid ''u1'' = Some ''u1''"
  by (simp_all add: sample_uuid_def ToLower_ascii_map lower_char_def char_of_eq_iff take_bit_eq_mod del: of_char_eq_iff)

lemmas env_eval = sample_env_def utf8_valid_ascii

lemma sample_world_users: "w_users sample_world = [sample_row]"
  by (simp add: sample_world_def eval_defs env_eval Let_def empty_world_def sample_row_def
      MapUserRowToDomain_def zero_user_def db_metric_def redis_metric_def observe_def)

lemma sample_coherent: "coherent (users_view sample_world) (preview sample_world)"
  unfolding sample_world_def
proof (rule wired.run_coherent)
  show "pg_inv sample_env empty_world" "redis_inv sample_env empty_world"
    using empty_world_ok [OF sample_env_ok] by simp_all
  show "coherent (users_view empty_world) (preview empty_world)" by simp
  show "all_complete sample_service (e_uuid sample_env)
      [CallCreateUser ''U1'' ''alex'' ''Alex'' ''Doe'', CallActivateUser ''u1''] empty_world"
    by (simp add: eval_defs env_eval Let_def empty_world_def db_metric_def redis_metric_def observe_def)
qed

lemma trim_alex [simp]: "TrimSpace ''alex'' = ''alex''"
  by (simp add: TrimSpace_visible)

lemmas run_eval = eval_defs env_eval Let_def empty_world_def db_metric_def redis_metric_def observe_def

lemma sample_detailed: "detailed sample_world = Map.empty"
  by (rule ext) (simp add: detailed_def sample_world_def run_eval)

lemma sample_world_calls: "w_calls sample_world = 4"
  by (simp add: sample_world_def run_eval)

definition detailed_world :: world where
  "detailed_world = serve sample_service (CallGetDetailedUserByUsername ''alex'') sample_world"

lemma detailed_world_inv: "pg_inv sample_env detailed_world"
  unfolding detailed_world_def
  by (rule wired.serve_effect [THEN conjunct1]) (simp_all add: sample_inv)

lemma sample_redis: "w_redis sample_world (UserDetailedCacheKey n) = None"
  by (simp add: sample_world_def run_eval)

lemmas detailed_eval = detailed_world_def GetDetailedUserByUsername_def load_detailed_def
  ReadRepo.GetByUsername_def redis_get_def sample_redis WriteRepo.GetByUsername_def getUserByUsername_def
  sample_world_users resolve_avatar_def detailed_publisher_def PublishDetailedUserRequested_def
  UpsertByUsername_def KafkaBroker.Publish_def bus_write_def

lemma detailed_world_users: "w_users detailed_world = [sample_row]"
  by (simp add: detailed_eval run_eval sample_row_def MapUserRowToDomain_def zero_user_def TrimSpace_visible)

lemma detailed_world_entry:
  "detailed detailed_world ''alex'' = Some (public_view (MapUserRowToDomain sample_row))"
proof -
  let ?z = "(MapUserRowToDomain sample_row)\<lparr>u_DisplayName := DisplayName ''Alex'' ''Doe''\<rparr>"
  have "w_redis detailed_world (UserDetailedCacheKey ''alex'') =
      Some (marshal_detailed_cache (MapDomainUserToDetailedCache ?z))"
    by (simp add: detailed_eval run_eval sample_row_def MapUserRowToDomain_def zero_user_def TrimSpace_visible)
  moreover have "storable ?z"
    by (simp add: storable_def sample_row_def utf8_valid_ascii)
  ultimately show ?thesis
    by (simp add: detailed_def unmarshal_marshal_detailed mapped_detailed)
      (simp add: as_detailed_def public_view_def shown_name_def sample_row_def)
qed

end
