(* ===== verification/GrpcServer.thy ===== *)
theory GrpcServer
  imports Application Config
begin

text \<open>
  The gRPC query server: package internal/presentation/grpc. The handlers translate a request
  into a call of the application service and its result into a reply or a status; starting and
  stopping the server are in \<open>ServerLifecycle\<close>.
\<close>

definition ErrNilUserService :: goerr where
  "ErrNilUserService = Sentinel ''usergrpc'' ''user service is nil''"

definition ErrNilLogger :: goerr where
  "ErrNilLogger = Sentinel ''usergrpc'' ''logger is nil''"

section \<open>Messages and statuses\<close>

text \<open>The two status codes the server uses, with the message.\<close>

datatype grpc_status = NotFound string | Internal string

record user_preview =
  pv_UserId :: string
  pv_Username :: string
  pv_DisplayName :: string
  pv_AvatarId :: string
  pv_AvatarUrl :: string

record detailed_user =
  du_UserId :: string
  du_Username :: string
  du_DisplayName :: string
  du_AvatarId :: string
  du_AvatarUrl :: string
  du_About :: string

text \<open>A reply that carries a user holds a message pointer.\<close>

record preview_response =
  pr_User :: "user_preview option"

record detailed_response =
  dr_User :: "detailed_user option"

record status_response =
  st_UserId :: string
  st_Status :: string

section \<open>Mapper\<close>

definition ToPreviewResponse :: "user option \<Rightarrow> preview_response" where
  "ToPreviewResponse user =
    (case user of
       None \<Rightarrow> \<lparr>pr_User = None\<rparr>
     | Some u \<Rightarrow> \<lparr>pr_User = Some
         \<lparr>pv_UserId = u_ID u, pv_Username = u_Username u,
          pv_DisplayName = DisplayName (u_FirstName u) (u_LastName u),
          pv_AvatarId = u_AvatarID u, pv_AvatarUrl = u_AvatarURL u\<rparr>\<rparr>)"

definition ToDetailedResponse :: "user option \<Rightarrow> detailed_response" where
  "ToDetailedResponse user =
    (case user of
       None \<Rightarrow> \<lparr>dr_User = None\<rparr>
     | Some u \<Rightarrow>
         (let displayName = u_DisplayName u;
              displayName = (if displayName = [] then DisplayName (u_FirstName u) (u_LastName u)
                             else displayName)
          in \<lparr>dr_User = Some
               \<lparr>du_UserId = u_ID u, du_Username = u_Username u, du_DisplayName = displayName,
                du_AvatarId = u_AvatarID u, du_AvatarUrl = u_AvatarURL u, du_About = u_About u\<rparr>\<rparr>))"

definition userQueryStatus :: "goerr option \<Rightarrow> grpc_status option" where
  "userQueryStatus err =
    (case err of
       None \<Rightarrow> None
     | Some err \<Rightarrow>
         if errors_is err ErrUserNotFound then Some (NotFound ''user not found'')
         else Some (Internal ''internal server error''))"

section \<open>Handlers\<close>

definition NewServer :: "'s user_service_methods option \<Rightarrow> grpc_config \<Rightarrow> unit option
    \<Rightarrow> goerr + 's user_service_methods" where
  "NewServer svc cfg log =
    (case svc of
       None \<Rightarrow> Inl ErrNilUserService
     | Some svc \<Rightarrow> if log = None then Inl ErrNilLogger else Inr svc)"

definition srv_ExistsByUsername :: "'s user_service_methods \<Rightarrow> string \<Rightarrow> (grpc_status, bool, 's) io" where
  "srv_ExistsByUsername svc username s =
    (case us_ExistsByUsername svc username s of
       (Inl err, s1) \<Rightarrow> (Inl (Internal ''internal server error''), s1)
     | (Inr exists, s1) \<Rightarrow> (Inr exists, s1))"

definition srv_ActivateUser :: "'s user_service_methods \<Rightarrow> string
    \<Rightarrow> (grpc_status, status_response, 's) io" where
  "srv_ActivateUser svc userID s =
    (case us_ActivateUser svc userID s of
       (Inl err, s1) \<Rightarrow> (Inl (Internal ''internal server error''), s1)
     | (Inr user, s1) \<Rightarrow> (Inr \<lparr>st_UserId = u_ID user, st_Status = u_Status user\<rparr>, s1))"

definition srv_DeactivateUser :: "'s user_service_methods \<Rightarrow> string
    \<Rightarrow> (grpc_status, status_response, 's) io" where
  "srv_DeactivateUser svc userID s =
    (case us_DeactivateUser svc userID s of
       (Inl err, s1) \<Rightarrow> (Inl (Internal ''internal server error''), s1)
     | (Inr _, s1) \<Rightarrow> (Inr \<lparr>st_UserId = userID, st_Status = ''registration_failed''\<rparr>, s1))"

definition srv_GetUserPreviewByID :: "'s user_service_methods \<Rightarrow> string
    \<Rightarrow> (grpc_status, preview_response, 's) io" where
  "srv_GetUserPreviewByID svc userID s =
    (case us_GetUserPreviewByID svc userID s of
       (Inl err, s1) \<Rightarrow> (Inl (the (userQueryStatus (Some err))), s1)
     | (Inr user, s1) \<Rightarrow> (Inr (ToPreviewResponse (Some user)), s1))"

definition srv_GetUserPreviewByIDNoCache :: "'s user_service_methods \<Rightarrow> string
    \<Rightarrow> (grpc_status, preview_response, 's) io" where
  "srv_GetUserPreviewByIDNoCache svc userID s =
    (case us_GetUserPreviewByIDNoCache svc userID s of
       (Inl err, s1) \<Rightarrow> (Inl (the (userQueryStatus (Some err))), s1)
     | (Inr user, s1) \<Rightarrow> (Inr \<lparr>pr_User = pr_User (ToPreviewResponse (Some user))\<rparr>, s1))"

definition srv_GetDetailedUserByUsername :: "'s user_service_methods \<Rightarrow> string
    \<Rightarrow> (grpc_status, detailed_response, 's) io" where
  "srv_GetDetailedUserByUsername svc username s =
    (case us_GetDetailedUserByUsername svc username s of
       (Inl err, s1) \<Rightarrow> (Inl (the (userQueryStatus (Some err))), s1)
     | (Inr user, s1) \<Rightarrow> (Inr (ToDetailedResponse (Some user)), s1))"

section \<open>Lemmas\<close>

lemma userQueryStatus_cases:
  "userQueryStatus (Some err) =
     Some (if errors_is err ErrUserNotFound then NotFound ''user not found''
           else Internal ''internal server error'')"
  by (simp add: userQueryStatus_def)

lemma userQueryStatus_NotFound [simp]:
  "the (userQueryStatus (Some err)) = NotFound m \<longleftrightarrow>
     errors_is err ErrUserNotFound \<and> m = ''user not found''"
  by (auto simp: userQueryStatus_cases)

end
