(* ===== verification/KafkaConsumer.thy ===== *)
theory KafkaConsumer
  imports KafkaBroker
begin

text \<open>
  The consumer loop of the Kafka broker (RunPullConsumer, retryAttempt, deadLetterMessage). The
  topic is one partition: a list of messages whose offsets are their positions. A run opens a
  reader at the committed offset and iterates until an error or a dead letter ends it; the retry
  queue and the dead-letter topic are lists. The messages another process moves back from the
  retry topic are new messages of the log.

  The claim store (package idempotency of the shared library, on the table of migration 6) is a
  parameter, and \<open>claim_contract\<close> states what the code relies on. Each iteration may meet one
  fault per request, given by its number. A trace records what became of each message.
\<close>

section \<open>State\<close>

record kafka_message =
  km_Key :: string
  km_Value :: string
  km_Headers :: "(string \<times> string) list"

record dlq_record =
  dl_OriginalKey :: string
  dl_OriginalValue :: string
  dl_OriginalTopic :: string
  dl_OriginalOffset :: nat
  dl_Attempts :: int
  dl_Error :: string

record 's claim_store =
  cl_ClaimDB :: "string \<Rightarrow> (goerr, bool, 's) io"
  cl_Release :: "string \<Rightarrow> (goerr, unit, 's) io"

text \<open>What became of the message at an offset; a handled one with its event and its success.\<close>

datatype consumed =
    Skipped nat string
  | Handled nat string bool
  | Unreadable nat
  | Requeued nat int
  | DeadLettered nat int
  | Committed nat

record retry_entry =
  re_Group :: string
  re_Message :: kafka_message
  re_Topic :: string
  re_Attempt :: int

record 's consumer =
  cs_state :: 's
  cs_log :: "kafka_message list"
  cs_pos :: nat
  cs_committed :: nat
  cs_retry :: "retry_entry list"
  cs_dlq :: "(string \<times> dlq_record) list"
  cs_trace :: "consumed list"
  cs_iter :: nat

text \<open>The broker: its addresses, its group and the dead-letter topic named after it.\<close>

record kafka_broker =
  kb_brokers :: "string list"
  kb_group :: string
  kb_deadLetter :: string

definition errNoBrokers :: goerr where
  "errNoBrokers = Foreign ''kafka brokers are empty''"

definition newBroker :: "kafka_config \<Rightarrow> goerr + kafka_broker" where
  "newBroker cfg =
    (if k_Brokers cfg = [] then Inl errNoBrokers
     else Inr \<lparr>kb_brokers = k_Brokers cfg, kb_group = k_GroupID cfg,
               kb_deadLetter = k_GroupID cfg @ ''.dead-letter''\<rparr>)"

text \<open>
  What a run depends on: the broker, the claim store when there is a database, the event identifier the
  library derives from a message, the function that takes a payload out of its envelope, the
  default retry policy's number of attempts, and the faults.
\<close>

record 's consumer_env =
  ce_broker :: kafka_broker
  ce_db :: "'s claim_store option"
  ce_event :: "string \<Rightarrow> string \<Rightarrow> string"
  ce_unwrap :: "string \<Rightarrow> goerr + string"
  ce_max_attempts :: int
  ce_fetch_err :: "nat \<Rightarrow> goerr option"
  ce_end_err :: goerr
  ce_queue_fault :: "nat \<Rightarrow> fault"
  ce_dlq_fault :: "nat \<Rightarrow> fault"
  ce_commit_fault :: "nat \<Rightarrow> fault"

datatype outcome = Continue | Return "goerr option"

text \<open>One request of the loop: a fault ends the run, whether the request took effect or not.\<close>

definition request :: "fault \<Rightarrow> outcome \<Rightarrow> ('s consumer \<Rightarrow> 's consumer) \<Rightarrow> 's consumer \<Rightarrow> outcome \<times> 's consumer" where
  "request f x act c =
    (case f of NoFault \<Rightarrow> (x, act c) | Lost e \<Rightarrow> (Return (Some e), c) | Late e \<Rightarrow> (Return (Some e), act c))"

section \<open>Operations\<close>

definition retry_header :: string where
  "retry_header = ''x-ofm-retry-attempt''"

fun retryAttempt :: "(string \<times> string) list \<Rightarrow> int" where
  "retryAttempt [] = 1"
| "retryAttempt ((k, v) # hs) =
    (if k = retry_header then
       (case Atoi v of
          Some n \<Rightarrow> if n > 0 then n else retryAttempt hs
        | None \<Rightarrow> retryAttempt hs)
     else retryAttempt hs)"

definition consumer_group :: "string \<Rightarrow> pull_consumer_config \<Rightarrow> string" where
  "consumer_group broker_group cfg =
    (let group = TrimSpace (pc_GroupID cfg) in
     if group = [] then TrimSpace broker_group @ ''-'' @ TrimSpace (pc_Subject cfg) else group)"

definition recovery_prefix :: string where
  "recovery_prefix = ''migration.recovery.commands.''"

definition note_trace :: "consumed \<Rightarrow> 's consumer \<Rightarrow> 's consumer" where
  "note_trace e c = c\<lparr>cs_trace := cs_trace c @ [e]\<rparr>"

definition deadLetterMessage :: "'s consumer_env \<Rightarrow> string \<Rightarrow> kafka_message \<Rightarrow> nat \<Rightarrow> int \<Rightarrow> goerr
    \<Rightarrow> 's consumer \<Rightarrow> outcome \<times> 's consumer" where
  "deadLetterMessage N subject msg offset attempts cause c =
    (let payload = \<lparr>dl_OriginalKey = km_Key msg, dl_OriginalValue = km_Value msg, dl_OriginalTopic = subject,
           dl_OriginalOffset = offset, dl_Attempts = attempts, dl_Error = error_text cause\<rparr>
     in request (ce_dlq_fault N (cs_iter c)) (Return None)
          (\<lambda>c. note_trace (DeadLettered offset attempts)
             (c\<lparr>cs_dlq := cs_dlq c @ [(kb_deadLetter (ce_broker N), payload)]\<rparr>)) c)"

text \<open>The claim of the message's event: whether to go on with it, or an error that ends the run.\<close>

definition claim_message :: "'s consumer_env \<Rightarrow> string \<Rightarrow> 's \<Rightarrow> (goerr + bool) \<times> 's" where
  "claim_message N event s =
    (case ce_db N of None \<Rightarrow> (Inr True, s) | Some D \<Rightarrow> cl_ClaimDB D event s)"

definition release_event :: "'s consumer_env \<Rightarrow> string \<Rightarrow> 's \<Rightarrow> 's" where
  "release_event N event s =
    (case ce_db N of None \<Rightarrow> s | Some D \<Rightarrow> snd (cl_Release D event s))"

text \<open>After a failed handler: the message is queued for another attempt, or dead-lettered.\<close>

definition handler_failed :: "'s consumer_env \<Rightarrow> pull_consumer_config \<Rightarrow> kafka_message \<Rightarrow> nat \<Rightarrow> int \<Rightarrow> goerr
    \<Rightarrow> 's consumer \<Rightarrow> outcome \<times> 's consumer" where
  "handler_failed N cfg msg offset attempts err c =
    (if \<not> is_permanent err \<and> attempts < ce_max_attempts N then
       (let entry = \<lparr>re_Group = consumer_group (kb_group (ce_broker N)) cfg, re_Message = msg,
              re_Topic = pc_Subject cfg, re_Attempt = attempts + 1\<rparr>
        in request (ce_queue_fault N (cs_iter c)) Continue
             (\<lambda>c. note_trace (Requeued offset (attempts + 1)) (c\<lparr>cs_retry := cs_retry c @ [entry]\<rparr>)) c)
     else deadLetterMessage N (pc_Subject cfg) msg offset attempts err c)"

definition commit_message :: "'s consumer_env \<Rightarrow> nat \<Rightarrow> 's consumer \<Rightarrow> outcome \<times> 's consumer" where
  "commit_message N offset c =
     request (ce_commit_fault N (cs_iter c)) Continue
       (\<lambda>c. note_trace (Committed offset) (c\<lparr>cs_committed := offset + 1\<rparr>)) c"

text \<open>What the loop does with a fetched message.\<close>

definition handle_message :: "'s consumer_env \<Rightarrow> pull_consumer_config \<Rightarrow> 's message_handler \<Rightarrow> kafka_message
    \<Rightarrow> nat \<Rightarrow> 's consumer \<Rightarrow> outcome \<times> 's consumer" where
  "handle_message N cfg handler msg offset c =
    (let attempts = retryAttempt (km_Headers msg);
         event = ce_event N (pc_Subject cfg) (km_Value msg)
     in case claim_message N event (cs_state c) of
          (Inl claimErr, s1) \<Rightarrow> (Return (Some claimErr), c\<lparr>cs_state := s1\<rparr>)
        | (Inr False, s1) \<Rightarrow> (Continue, note_trace (Skipped offset event) (c\<lparr>cs_state := s1\<rparr>))
        | (Inr True, s1) \<Rightarrow>
            (case ce_unwrap N (km_Value msg) of
               Inl unwrapErr \<Rightarrow>
                 deadLetterMessage N (pc_Subject cfg) msg offset attempts unwrapErr
                   (note_trace (Unreadable offset) (c\<lparr>cs_state := s1\<rparr>))
             | Inr unwrapped \<Rightarrow>
                 (let payload = (if HasPrefix (pc_Subject cfg) recovery_prefix then km_Value msg else unwrapped) in
                  case handler (pc_Subject cfg) payload s1 of
                    (Inl err, s2) \<Rightarrow>
                      handler_failed N cfg msg offset attempts err
                        (note_trace (Handled offset event False)
                          (c\<lparr>cs_state := release_event N event s2\<rparr>))
                  | (Inr _, s2) \<Rightarrow>
                      commit_message N offset
                        (note_trace (Handled offset event True) (c\<lparr>cs_state := s2\<rparr>)))))"

definition consume_step :: "'s consumer_env \<Rightarrow> pull_consumer_config \<Rightarrow> 's message_handler \<Rightarrow> 's consumer
    \<Rightarrow> outcome \<times> 's consumer" where
  "consume_step N cfg handler c =
    (let c = c\<lparr>cs_iter := Suc (cs_iter c)\<rparr> in
     case ce_fetch_err N (cs_iter c) of
       Some err \<Rightarrow> (Return (Some err), c)
     | None \<Rightarrow>
         if cs_pos c < length (cs_log c) then
           handle_message N cfg handler (cs_log c ! cs_pos c) (cs_pos c) (c\<lparr>cs_pos := Suc (cs_pos c)\<rparr>)
         else (Return (Some (ce_end_err N)), c))"

text \<open>Only the position, not the log, changes on the way, so the loop ends.\<close>

lemma handle_message_log:
  "handle_message N cfg handler msg offset c = (x, c') \<Longrightarrow>
     cs_log c' = cs_log c \<and> cs_pos c' = cs_pos c \<and> cs_iter c' = cs_iter c"
  by (auto simp: handle_message_def Let_def handler_failed_def deadLetterMessage_def
      commit_message_def request_def note_trace_def split: prod.splits sum.splits bool.splits fault.splits if_splits)

lemma consume_step_continues:
  assumes "consume_step N cfg handler c = (Continue, c')"
  shows "cs_log c' = cs_log c \<and> cs_pos c' = Suc (cs_pos c) \<and> cs_pos c < length (cs_log c)"
  using assms
  by (auto simp: consume_step_def Let_def split: option.splits if_splits dest: handle_message_log)

function consume :: "'s consumer_env \<Rightarrow> pull_consumer_config \<Rightarrow> 's message_handler \<Rightarrow> 's consumer
    \<Rightarrow> goerr option \<times> 's consumer" where
  "consume N cfg handler c =
    (case consume_step N cfg handler c of
       (Return r, c') \<Rightarrow> (r, c')
     | (Continue, c') \<Rightarrow> consume N cfg handler c')"
  by pat_completeness auto
termination
  by (relation "measure (\<lambda>(N, cfg, handler, c). length (cs_log c) - cs_pos c)")
    (auto dest!: consume_step_continues [OF sym])

declare consume.simps [simp del]

text \<open>A run: a new reader of the group starts at the committed offset.\<close>

definition RunPullConsumer :: "'s consumer_env \<Rightarrow> pull_consumer_config \<Rightarrow> 's message_handler
    \<Rightarrow> 's consumer \<Rightarrow> goerr option \<times> 's consumer" where
  "RunPullConsumer N cfg handler c =
     consume N cfg handler (c\<lparr>cs_pos := cs_committed c\<rparr>)"

definition Subscribe :: "'s consumer_env \<Rightarrow> string \<Rightarrow> 's message_handler
    \<Rightarrow> 's consumer \<Rightarrow> goerr option \<times> 's consumer" where
  "Subscribe N subject handler c = RunPullConsumer N (zero_pull_consumer\<lparr>pc_Subject := subject\<rparr>) handler c"

text \<open>What every handled message keeps, whatever its number and position, a run keeps.\<close>

lemma consume_invariant:
  assumes "I c"
    and "\<And>c i p. I c \<Longrightarrow> I (c\<lparr>cs_iter := i\<rparr>) \<and> I (c\<lparr>cs_pos := p\<rparr>)"
    and "\<And>msg offset c x c'. I c \<Longrightarrow> handle_message N cfg handler msg offset c = (x, c') \<Longrightarrow> I c'"
  shows "I (snd (consume N cfg handler c))"
  using assms
proof (induction N cfg handler c rule: consume.induct)
  case (1 N cfg handler c)
  obtain x c' where s: "consume_step N cfg handler c = (x, c')" by fastforce
  have d: "I (c\<lparr>cs_iter := Suc (cs_iter c)\<rparr>)"
    "I (c\<lparr>cs_iter := Suc (cs_iter c)\<rparr>\<lparr>cs_pos := Suc (cs_pos c)\<rparr>)"
    using 1(3) 1(2) by blast+
  have "I c'"
    using s d 1(4) by (fastforce simp: consume_step_def Let_def split: option.splits fault.splits if_splits)
  with 1(1) [OF s [symmetric]] 1(3,4) s show ?case
    by (cases x) (simp_all add: consume.simps [of N cfg handler c])
qed

lemma run_invariant:
  assumes "I c"
    and "\<And>c i p. I c \<Longrightarrow> I (c\<lparr>cs_iter := i\<rparr>) \<and> I (c\<lparr>cs_pos := p\<rparr>)"
    and "\<And>msg offset c x c'. I c \<Longrightarrow>
      handle_message N cfg handler msg offset c = (x, c') \<Longrightarrow> I c'"
  shows "I (snd (RunPullConsumer N cfg handler c))"
  unfolding RunPullConsumer_def
  by (rule consume_invariant [where I = I, OF _ assms(2,3)]) (use assms(1,2) in blast)+

section \<open>No message is passed over\<close>

definition settled :: "consumed list \<Rightarrow> nat \<Rightarrow> bool" where
  "settled tr k \<longleftrightarrow> list_ex (\<lambda>e. case e of
      Skipped j _ \<Rightarrow> j = k | Handled j _ ok \<Rightarrow> j = k \<and> ok | Requeued j _ \<Rightarrow> j = k | _ \<Rightarrow> False) tr"

definition commits_settled :: "'s consumer \<Rightarrow> bool" where
  "commits_settled c \<longleftrightarrow> (\<forall>k<cs_committed c. settled (cs_trace c) k)"

lemma settled_append [simp]: "settled (a @ b) k \<longleftrightarrow> settled a k \<or> settled b k"
  by (simp add: settled_def)

lemma settled_simps [simp]:
  "\<not> settled [] k" "settled (Skipped j e # tr) k \<longleftrightarrow> j = k \<or> settled tr k"
  "settled (Handled j e b # tr) k \<longleftrightarrow> (j = k \<and> b) \<or> settled tr k"
  "settled (Requeued j n # tr) k \<longleftrightarrow> j = k \<or> settled tr k"
  "settled (Unreadable j # tr) k \<longleftrightarrow> settled tr k"
  "settled (DeadLettered j n # tr) k \<longleftrightarrow> settled tr k" "settled (Committed j # tr) k \<longleftrightarrow> settled tr k"
  by (simp_all add: settled_def)

lemmas consumer_splits = prod.splits sum.splits bool.splits option.splits fault.splits if_splits

lemmas handle_defs = handle_message_def handler_failed_def deadLetterMessage_def commit_message_def
  request_def note_trace_def

text \<open>What is settled stays so; a message the loop continues after, or commits, is settled.\<close>

lemma handle_message_settles:
  assumes "handle_message N cfg handler msg offset c = (x, c')"
  shows "settled (cs_trace c) k \<Longrightarrow> settled (cs_trace c') k"
    and "x = Continue \<Longrightarrow> settled (cs_trace c') offset"
    and "cs_committed c' = cs_committed c \<or> (cs_committed c' = Suc offset \<and> settled (cs_trace c') offset)"
  using assms by (auto simp: handle_defs Let_def split: consumer_splits)

lemma consume_step_settles:
  assumes "consume_step N cfg handler c = (x, c')" and "commits_settled c"
    and "\<forall>k<cs_pos c. settled (cs_trace c) k"
  shows "commits_settled c' \<and> (x = Continue \<longrightarrow> (\<forall>k<cs_pos c'. settled (cs_trace c') k))"
proof -
  let ?c = "c\<lparr>cs_iter := Suc (cs_iter c)\<rparr>" and ?d = "c\<lparr>cs_iter := Suc (cs_iter c), cs_pos := Suc (cs_pos c)\<rparr>"
  consider (stop) "x \<noteq> Continue" "cs_trace c' = cs_trace c" "cs_committed c' = cs_committed c"
    | (msg) "handle_message N cfg handler (cs_log c ! cs_pos c) (cs_pos c) ?d = (x, c')"
    using assms(1) by (auto simp: consume_step_def Let_def split: option.splits fault.splits if_splits)
  then show ?thesis
  proof cases
    case stop
    with assms(2) show ?thesis by (simp add: commits_settled_def)
  next
    case msg
    note s = handle_message_settles [OF msg] and l = handle_message_log [OF msg]
    have old: "settled (cs_trace c') k" if "k < cs_pos c" for k
      using s(1) [of k] assms(3) that by simp
    have "commits_settled c'"
      using s(3)
    proof
      assume "cs_committed c' = cs_committed ?d"
      with assms(2) s(1) show ?thesis by (simp add: commits_settled_def)
    next
      assume "cs_committed c' = Suc (cs_pos c) \<and> settled (cs_trace c') (cs_pos c)"
      with old show ?thesis by (auto simp: commits_settled_def less_Suc_eq)
    qed
    moreover have "x = Continue \<longrightarrow> (\<forall>k<cs_pos c'. settled (cs_trace c') k)"
      using s(2) old l by (auto simp: less_Suc_eq)
    ultimately show ?thesis by simp
  qed
qed

lemma consume_settles:
  assumes "commits_settled c" and "\<forall>k<cs_pos c. settled (cs_trace c) k"
  shows "commits_settled (snd (consume N cfg handler c))"
  using assms
proof (induction N cfg handler c rule: consume.induct)
  case (1 N cfg handler c)
  obtain x c' where s: "consume_step N cfg handler c = (x, c')" by fastforce
  note st = consume_step_settles [OF s 1(2,3)]
  show ?case
  proof (cases x)
    case Continue
    have "commits_settled (snd (consume N cfg handler c'))"
      by (rule 1(1) [OF s [symmetric] Continue]) (use st Continue in auto)
    with s Continue show ?thesis by (simp add: consume.simps [of N cfg handler c])
  next
    case (Return r)
    with s st show ?thesis by (simp add: consume.simps [of N cfg handler c])
  qed
qed

lemma run_settles: "commits_settled c \<Longrightarrow> commits_settled (snd (RunPullConsumer N cfg handler c))"
  unfolding RunPullConsumer_def by (rule consume_settles) (auto simp: commits_settled_def)

section \<open>At most one success per event\<close>

definition claim_contract :: "'s claim_store \<Rightarrow> ('s \<Rightarrow> string set) \<Rightarrow> bool" where
  "claim_contract D claimed \<longleftrightarrow>
     (\<forall>ev s. case cl_ClaimDB D ev s of
        (Inr True, s') \<Rightarrow> ev \<notin> claimed s \<and> claimed s' = insert ev (claimed s)
      | (Inr False, s') \<Rightarrow> ev \<in> claimed s \<and> claimed s' = claimed s
      | (Inl _, s') \<Rightarrow> claimed s \<subseteq> claimed s') \<and>
     (\<forall>ev s. claimed s - {ev} \<subseteq> claimed (snd (cl_Release D ev s)))"

definition keeps_claims :: "'s message_handler \<Rightarrow> ('s \<Rightarrow> string set) \<Rightarrow> bool" where
  "keeps_claims handler claimed \<longleftrightarrow>
     (\<forall>subject payload s. claimed (snd (handler subject payload s)) = claimed s)"

definition successes :: "string \<Rightarrow> consumed list \<Rightarrow> nat" where
  "successes ev tr = length (filter (\<lambda>e. case e of Handled _ v ok \<Rightarrow> v = ev \<and> ok | _ \<Rightarrow> False) tr)"

definition once :: "('s \<Rightarrow> string set) \<Rightarrow> 's consumer \<Rightarrow> bool" where
  "once claimed c \<longleftrightarrow> (\<forall>ev. successes ev (cs_trace c) = 0 \<or>
     (successes ev (cs_trace c) = 1 \<and> ev \<in> claimed (cs_state c)))"

lemma successes_append [simp]: "successes ev (a @ b) = successes ev a + successes ev b"
  by (simp add: successes_def)

lemma successes_simps [simp]:
  "successes ev [] = 0" "successes ev (Skipped j e # tr) = successes ev tr"
  "successes ev (Handled j v b # tr) = (if v = ev \<and> b then 1 else 0) + successes ev tr"
  "successes ev (Requeued j n # tr) = successes ev tr"
  "successes ev (Unreadable j # tr) = successes ev tr"
  "successes ev (DeadLettered j n # tr) = successes ev tr"
  "successes ev (Committed j # tr) = successes ev tr"
  by (simp_all add: successes_def)

lemma claim_contract_cases:
  assumes "claim_contract D claimed" "cl_ClaimDB D ev s = (r, s1)"
  obtains (failed) e where "r = Inl e" "claimed s \<subseteq> claimed s1"
    | (taken) "r = Inr False" "ev \<in> claimed s" "claimed s1 = claimed s"
    | (claimed) "r = Inr True" "ev \<notin> claimed s" "claimed s1 = insert ev (claimed s)"
  using assms unfolding claim_contract_def
  by (cases r) (auto split: bool.splits dest!: spec [of _ ev] spec [of _ s])

text \<open>
  What one message does to the claims and to the count of successes: claims are kept, and an event
  succeeds only when it was not claimed before, and is claimed afterwards.
\<close>

lemma handle_message_claims:
  assumes D: "ce_db N = Some D" "claim_contract D claimed" and h: "keeps_claims handler claimed"
    and m: "handle_message N cfg handler msg offset c = (x, c')"
  shows "claimed (cs_state c) \<subseteq> claimed (cs_state c') \<and>
    (\<forall>v. successes v (cs_trace c') = successes v (cs_trace c) \<or>
       (successes v (cs_trace c') = Suc (successes v (cs_trace c)) \<and> v \<notin> claimed (cs_state c) \<and>
        v \<in> claimed (cs_state c')))"
proof -
  define ev where "ev = ce_event N (pc_Subject cfg) (km_Value msg)"
  obtain r s1 where cl: "cl_ClaimDB D ev (cs_state c) = (r, s1)" by fastforce
  have claim: "claim_message N (ce_event N (pc_Subject cfg) (km_Value msg)) (cs_state c) = (r, s1)"
    using D(1) cl by (simp add: claim_message_def ev_def)
  show ?thesis
  proof (rule claim_contract_cases [OF D(2) cl], goal_cases)
    case (1 e)
    with m claim show ?case by (auto simp: handle_message_def Let_def)
  next
    case 2
    with m claim show ?case by (auto simp: handle_message_def Let_def note_trace_def)
  next
    case 3
    have rel: "claimed (cs_state c) \<subseteq> claimed (release_event N ev s)"
      if "claimed s = insert ev (claimed (cs_state c))" for s
    proof -
      have "claimed s - {ev} = claimed (cs_state c)" using 3 that by auto
      moreover have "claimed s - {ev} \<subseteq> claimed (snd (cl_Release D ev s))"
        using D(2) by (simp add: claim_contract_def)
      ultimately show ?thesis using D(1) by (simp add: release_event_def)
    qed
    show ?case
    proof (cases "ce_unwrap N (km_Value msg)")
      case (Inl e)
      with 3 m claim show ?thesis
        by (auto simp: handle_defs Let_def split: option.splits fault.splits)
    next
      case (Inr u)
      define p where "p = (if HasPrefix (pc_Subject cfg) recovery_prefix then km_Value msg else u)"
      obtain hr s2 where hd: "handler (pc_Subject cfg) p s1 = (hr, s2)" by fastforce
      have "claimed (snd (handler (pc_Subject cfg) p s1)) = claimed s1" using h by (simp add: keeps_claims_def)
      with hd 3 have s2: "claimed s2 = insert ev (claimed (cs_state c))" by simp
      with 3 m claim Inr hd rel [OF s2] show ?thesis
        by (cases hr) (auto simp: handle_defs Let_def p_def ev_def split: option.splits fault.splits if_splits)
    qed
  qed
qed

lemma handle_message_once:
  assumes "ce_db N = Some D" "claim_contract D claimed" "keeps_claims handler claimed" "once claimed c"
    and "handle_message N cfg handler msg offset c = (x, c')"
  shows "once claimed c'"
  unfolding once_def
proof
  fix ev
  from handle_message_claims [OF assms(1-3,5)] assms(4)
  show "successes ev (cs_trace c') = 0 \<or> successes ev (cs_trace c') = 1 \<and> ev \<in> claimed (cs_state c')"
    unfolding once_def by (elim conjE allE [of _ ev]) auto
qed

lemma run_once:
  assumes "ce_db N = Some D" "claim_contract D claimed" "keeps_claims handler claimed" "once claimed c"
  shows "once claimed (snd (RunPullConsumer N cfg handler c))"
  by (rule run_invariant [where I = "once claimed", OF assms(4) _ handle_message_once [OF assms(1-3)]])
    (simp_all add: once_def)

section \<open>A claimed event is not handled again\<close>

definition unhandled :: "('s \<Rightarrow> string set) \<Rightarrow> string \<Rightarrow> 's consumer \<Rightarrow> bool" where
  "unhandled claimed ev c \<longleftrightarrow> ev \<in> claimed (cs_state c) \<and>
     \<not> list_ex (\<lambda>e. case e of Handled _ v _ \<Rightarrow> v = ev | _ \<Rightarrow> False) (cs_trace c)"

lemma handle_message_unhandled:
  assumes D: "ce_db N = Some D" "claim_contract D claimed" and h: "keeps_claims handler claimed"
    and c: "unhandled claimed ev c" and m: "handle_message N cfg handler msg offset c = (x, c')"
  shows "unhandled claimed ev c'"
proof -
  define v where "v = ce_event N (pc_Subject cfg) (km_Value msg)"
  obtain r s1 where cl: "cl_ClaimDB D v (cs_state c) = (r, s1)" by fastforce
  have claim: "claim_message N v (cs_state c) = (r, s1)"
    using D(1) cl by (simp add: claim_message_def)
  show ?thesis
  proof (rule claim_contract_cases [OF D(2) cl], goal_cases)
    case (1 e)
    with m claim c show ?case by (auto simp: handle_message_def Let_def unhandled_def v_def)
  next
    case 2
    with m claim c show ?case by (auto simp: handle_message_def Let_def unhandled_def v_def note_trace_def)
  next
    case 3
    with c have ne: "v \<noteq> ev" and in1: "ev \<in> claimed s1" by (auto simp: unhandled_def)
    have in2: "ev \<in> claimed (snd (handler (pc_Subject cfg) p s1))" for p
      using h in1 by (simp add: keeps_claims_def)
    have "claimed s - {v} \<subseteq> claimed (snd (cl_Release D v s))" for s
      using D(2) by (simp add: claim_contract_def)
    with ne have in3: "ev \<in> claimed (release_event N v s)" if "ev \<in> claimed s" for s
      using that D(1) by (auto simp: release_event_def)
    show ?case
    proof (cases "ce_unwrap N (km_Value msg)")
      case (Inl e)
      with 3 m claim c in1 show ?thesis
        by (auto simp: handle_defs Let_def unhandled_def v_def split: option.splits fault.splits)
    next
      case (Inr u)
      define p where "p = (if HasPrefix (pc_Subject cfg) recovery_prefix then km_Value msg else u)"
      obtain hr s2 where hd: "handler (pc_Subject cfg) p s1 = (hr, s2)" by fastforce
      with in2 [of p] have s2: "ev \<in> claimed s2" by simp
      with 3 m claim c Inr hd ne in3 [OF s2] show ?thesis
        by (cases hr) (auto simp: handle_defs Let_def unhandled_def p_def v_def split: option.splits fault.splits if_splits)
    qed
  qed
qed

lemma run_unhandled:
  assumes "ce_db N = Some D" "claim_contract D claimed" "keeps_claims handler claimed" "unhandled claimed ev c"
  shows "unhandled claimed ev (snd (RunPullConsumer N cfg handler c))"
  by (rule run_invariant [where I = "unhandled claimed ev", OF assms(4) _ handle_message_unhandled [OF assms(1-3)]])
    (simp_all add: unhandled_def)

section \<open>Attempts\<close>

lemma retryAttempt_pos: "1 \<le> retryAttempt hs"
  by (induction hs rule: retryAttempt.induct) (auto split: option.splits fault.splits)

definition retries_bounded :: "int \<Rightarrow> 's consumer \<Rightarrow> bool" where
  "retries_bounded m c \<longleftrightarrow> list_all (\<lambda>e. 2 \<le> re_Attempt e \<and> re_Attempt e \<le> m) (cs_retry c)"

lemma handle_message_bounded:
  assumes "handle_message N cfg handler msg offset c = (x, c')" "retries_bounded (ce_max_attempts N) c"
  shows "retries_bounded (ce_max_attempts N) c'"
  using assms retryAttempt_pos [of "km_Headers msg"]
  by (auto simp: handle_defs retries_bounded_def Let_def split: consumer_splits)

lemma run_bounded:
  assumes "retries_bounded (ce_max_attempts N) c"
  shows "retries_bounded (ce_max_attempts N) (snd (RunPullConsumer N cfg handler c))"
  by (rule run_invariant [where I = "retries_bounded (ce_max_attempts N)", OF assms _ handle_message_bounded])
    (simp_all add: retries_bounded_def)

section \<open>A message that fails for good\<close>

text \<open>
  No request fails, and in the states \<open>Q\<close> the event of the message at the committed offset can
  be claimed, its handler fails without a further attempt, and releasing the claim leads to such
  a state again.
\<close>

definition no_faults :: "'s consumer_env \<Rightarrow> bool" where
  "no_faults N \<longleftrightarrow> (\<forall>n. ce_fetch_err N n = None \<and> ce_queue_fault N n = NoFault \<and>
     ce_dlq_fault N n = NoFault \<and> ce_commit_fault N n = NoFault)"

definition fails_for_good :: "'s consumer_env \<Rightarrow> pull_consumer_config \<Rightarrow> 's message_handler \<Rightarrow> ('s \<Rightarrow> bool)
    \<Rightarrow> kafka_message \<Rightarrow> bool" where
  "fails_for_good N cfg handler Q msg \<longleftrightarrow>
     (\<forall>s. Q s \<longrightarrow>
       (let event = ce_event N (pc_Subject cfg) (km_Value msg) in
        case claim_message N event s of
          (Inr True, s1) \<Rightarrow>
            (case ce_unwrap N (km_Value msg) of
               Inl _ \<Rightarrow> False
             | Inr unwrapped \<Rightarrow>
                 (case handler (pc_Subject cfg)
                        (if HasPrefix (pc_Subject cfg) recovery_prefix then km_Value msg else unwrapped) s1 of
                    (Inl err, s2) \<Rightarrow>
                      (is_permanent err \<or> ce_max_attempts N \<le> retryAttempt (km_Headers msg)) \<and>
                      Q (release_event N event s2)
                  | (Inr _, _) \<Rightarrow> False))
        | _ \<Rightarrow> False))"

lemma poison_run:
  assumes "no_faults N" and "cs_committed c < length (cs_log c)" and "Q (cs_state c)"
    and "fails_for_good N cfg handler Q (cs_log c ! cs_committed c)"
  shows "\<exists>c' d. RunPullConsumer N cfg handler c = (None, c') \<and> cs_committed c' = cs_committed c \<and>
    cs_log c' = cs_log c \<and> Q (cs_state c') \<and> cs_dlq c' = cs_dlq c @ [d] \<and>
    dl_OriginalOffset (snd d) = cs_committed c"
proof -
  let ?msg = "cs_log c ! cs_committed c" and ?subject = "pc_Subject cfg"
  let ?ev = "ce_event N ?subject (km_Value ?msg)"
  let ?c = "c\<lparr>cs_pos := cs_committed c\<rparr>"
  note f = assms(4) [unfolded fails_for_good_def, THEN spec, THEN mp, OF assms(3), unfolded Let_def]
  obtain r s1 where c1: "claim_message N ?ev (cs_state c) = (r, s1)" by fastforce
  from f c1 have r: "r = Inr True" by (cases r) (auto split: bool.splits)
  with f c1 obtain u where u: "ce_unwrap N (km_Value ?msg) = Inr u"
    by (cases "ce_unwrap N (km_Value ?msg)") auto
  define p where "p = (if HasPrefix ?subject recovery_prefix then km_Value ?msg else u)"
  obtain hr s2 where hd: "handler ?subject p s1 = (hr, s2)" by fastforce
  from f c1 r u hd obtain err where "hr = Inl err"
    "is_permanent err \<or> ce_max_attempts N \<le> retryAttempt (km_Headers ?msg)" "Q (release_event N ?ev s2)"
    by (cases hr) (auto simp: p_def)
  note h = this c1 r u hd
  obtain x c' where step: "consume_step N cfg handler ?c = (x, c')" by fastforce
  have "x = Return None \<and> cs_committed c' = cs_committed c \<and> cs_log c' = cs_log c \<and>
      Q (cs_state c') \<and> (\<exists>d. cs_dlq c' = cs_dlq c @ [d] \<and> dl_OriginalOffset (snd d) = cs_committed c)"
    using step h assms(1,2)
    by (auto simp: consume_step_def handle_defs no_faults_def Let_def p_def)
  with step show ?thesis
    by (auto simp: RunPullConsumer_def consume.simps [of N cfg handler ?c])
qed

fun rerun :: "nat \<Rightarrow> 's consumer_env \<Rightarrow> pull_consumer_config \<Rightarrow> 's message_handler
    \<Rightarrow> 's consumer \<Rightarrow> 's consumer" where
  "rerun 0 N cfg handler c = c"
| "rerun (Suc n) N cfg handler c = rerun n N cfg handler (snd (RunPullConsumer N cfg handler c))"

section \<open>Bounded runs\<close>

lemma consume_step_iter:
  assumes "consume_step N cfg handler c = (x, c')"
  shows "cs_iter c' = Suc (cs_iter c)"
  using assms
  by (auto simp: consume_step_def Let_def split: option.splits if_splits dest: handle_message_log)

lemma consume_iter:
  "cs_iter (snd (consume N cfg handler c)) \<le> cs_iter c + (length (cs_log c) - cs_pos c) + 1"
proof (induction N cfg handler c rule: consume.induct)
  case (1 N cfg handler c)
  obtain x c' where s: "consume_step N cfg handler c = (x, c')" by fastforce
  show ?case
  proof (cases x)
    case Continue
    with 1 [OF s [symmetric]] consume_step_continues [OF s [unfolded Continue]] consume_step_iter [OF s] s
    show ?thesis by (auto simp: consume.simps [of N cfg handler c])
  next
    case (Return r)
    with s consume_step_iter [OF s] show ?thesis by (simp add: consume.simps [of N cfg handler c])
  qed
qed

section \<open>A topic whose messages all succeed\<close>

definition succeeds :: "'s consumer_env \<Rightarrow> pull_consumer_config \<Rightarrow> 's message_handler \<Rightarrow> ('s \<Rightarrow> bool)
    \<Rightarrow> kafka_message \<Rightarrow> bool" where
  "succeeds N cfg handler Q msg \<longleftrightarrow>
     (\<forall>s. Q s \<longrightarrow>
       (case claim_message N (ce_event N (pc_Subject cfg) (km_Value msg)) s of
          (Inr True, s1) \<Rightarrow>
            (case ce_unwrap N (km_Value msg) of
               Inl _ \<Rightarrow> False
             | Inr unwrapped \<Rightarrow>
                 (case handler (pc_Subject cfg)
                        (if HasPrefix (pc_Subject cfg) recovery_prefix then km_Value msg else unwrapped) s1 of
                    (Inl _, _) \<Rightarrow> False
                  | (Inr _, s2) \<Rightarrow> Q s2))
        | _ \<Rightarrow> False))"

definition handled_run :: "'s consumer_env \<Rightarrow> pull_consumer_config \<Rightarrow> kafka_message list \<Rightarrow> nat \<Rightarrow> nat \<Rightarrow> consumed list" where
  "handled_run N cfg log i n =
     concat (map (\<lambda>k. [Handled k (ce_event N (pc_Subject cfg) (km_Value (log ! k))) True, Committed k]) [i..<n])"

lemma succeeds_step:
  assumes "no_faults N" "cs_pos c < length (cs_log c)" "Q (cs_state c)"
    and "succeeds N cfg handler Q (cs_log c ! cs_pos c)"
  obtains s2 where "consume_step N cfg handler c = (Continue, c\<lparr>cs_iter := Suc (cs_iter c),
      cs_pos := Suc (cs_pos c), cs_state := s2, cs_committed := Suc (cs_pos c),
      cs_trace := cs_trace c @ [Handled (cs_pos c) (ce_event N (pc_Subject cfg) (km_Value (cs_log c ! cs_pos c))) True,
        Committed (cs_pos c)]\<rparr>)" "Q s2"
proof -
  let ?msg = "cs_log c ! cs_pos c"
  let ?ev = "ce_event N (pc_Subject cfg) (km_Value ?msg)"
  note f = assms(4) [unfolded succeeds_def, THEN spec, THEN mp, OF assms(3)]
  obtain r s1 where c1: "claim_message N ?ev (cs_state c) = (r, s1)" by fastforce
  from f c1 have r: "r = Inr True" by (cases r) (auto split: bool.splits)
  with f c1 obtain u where u: "ce_unwrap N (km_Value ?msg) = Inr u"
    by (cases "ce_unwrap N (km_Value ?msg)") auto
  define p where "p = (if HasPrefix (pc_Subject cfg) recovery_prefix then km_Value ?msg else u)"
  obtain hr s2 where hd: "handler (pc_Subject cfg) p s1 = (hr, s2)" by fastforce
  from f c1 r u hd obtain y where y: "hr = Inr y" "Q s2" by (cases hr) (auto simp: p_def)
  show thesis
    by (rule that [of s2])
      (use assms(1,2) c1 r u hd y in \<open>auto simp: consume_step_def handle_defs no_faults_def Let_def p_def\<close>)
qed

lemma consume_all:
  assumes "no_faults N" "Q (cs_state c)" "cs_pos c \<le> length (cs_log c)" "cs_committed c = cs_pos c"
    and "\<forall>k. cs_pos c \<le> k \<and> k < length (cs_log c) \<longrightarrow> succeeds N cfg handler Q (cs_log c ! k)"
  shows "\<exists>c'. consume N cfg handler c = (Some (ce_end_err N), c') \<and>
    cs_committed c' = length (cs_log c) \<and> cs_retry c' = cs_retry c \<and> cs_dlq c' = cs_dlq c \<and>
    cs_trace c' = cs_trace c @ handled_run N cfg (cs_log c) (cs_pos c) (length (cs_log c)) \<and> Q (cs_state c')"
  using assms
proof (induction "length (cs_log c) - cs_pos c" arbitrary: c)
  case 0
  then have "\<not> cs_pos c < length (cs_log c)" "cs_pos c = length (cs_log c)" by auto
  with 0(2,3,5) show ?case
    by (simp add: consume.simps [of N cfg handler c] consume_step_def no_faults_def handled_run_def Let_def)
next
  case (Suc n)
  then have lt: "cs_pos c < length (cs_log c)" by simp
  with Suc.prems have "succeeds N cfg handler Q (cs_log c ! cs_pos c)" by blast
  then obtain s2 where step: "consume_step N cfg handler c = (Continue, c\<lparr>cs_iter := Suc (cs_iter c),
      cs_pos := Suc (cs_pos c), cs_state := s2, cs_committed := Suc (cs_pos c),
      cs_trace := cs_trace c @ [Handled (cs_pos c) (ce_event N (pc_Subject cfg) (km_Value (cs_log c ! cs_pos c))) True,
        Committed (cs_pos c)]\<rparr>)" (is "_ = (Continue, ?d)") and Q: "Q s2"
    by (rule succeeds_step [where Q = Q, OF Suc.prems(1) lt Suc.prems(2)])
  have "\<exists>c'. consume N cfg handler ?d = (Some (ce_end_err N), c') \<and>
    cs_committed c' = length (cs_log ?d) \<and> cs_retry c' = cs_retry ?d \<and> cs_dlq c' = cs_dlq ?d \<and>
    cs_trace c' = cs_trace ?d @ handled_run N cfg (cs_log ?d) (cs_pos ?d) (length (cs_log ?d)) \<and> Q (cs_state c')"
    by (rule Suc.hyps(1)) (use Suc Q in auto)
  moreover have "[cs_pos c..<length (cs_log c)] = cs_pos c # [Suc (cs_pos c)..<length (cs_log c)]"
    using lt by (rule upt_conv_Cons)
  ultimately show ?case
    using step by (auto simp: consume.simps [of N cfg handler c] handled_run_def)
qed

section \<open>A consumer from its start\<close>

text \<open>A consumer that has not run yet, on a topic and a state.\<close>

definition fresh_consumer :: "kafka_message list \<Rightarrow> 's \<Rightarrow> 's consumer" where
  "fresh_consumer log s = \<lparr>cs_state = s, cs_log = log, cs_pos = 0, cs_committed = 0, cs_retry = [],
     cs_dlq = [], cs_trace = [], cs_iter = 0\<rparr>"

lemma rerun_invariant:
  assumes "I c" and "\<And>c. I c \<Longrightarrow> I (snd (RunPullConsumer N cfg handler c))"
  shows "I (rerun n N cfg handler c)"
  using assms(1) by (induction n arbitrary: c) (auto intro: assms(2))

text \<open>
  C11. Over any number of runs from the start of a topic, with any faults, every message below the
  committed offset has been handled successfully, queued for another attempt, or skipped because
  its event was claimed.
\<close>

theorem commits_only_settled_messages:
  "let c = rerun n N cfg handler (fresh_consumer log s) in
     list_all (settled (cs_trace c)) [0..<cs_committed c]"
  using rerun_invariant [where I = commits_settled, OF _ run_settles, of "fresh_consumer log s" n N cfg handler]
  by (simp add: commits_settled_def fresh_consumer_def list_all_iff)

theorem event_succeeds_at_most_once:
  assumes "ce_db N = Some D" and "claim_contract D claimed" and "keeps_claims handler claimed"
  shows "successes event (cs_trace (rerun n N cfg handler (fresh_consumer log s))) \<le> 1"
proof -
  have "once claimed (rerun n N cfg handler (fresh_consumer log s))"
    by (rule rerun_invariant [where I = "once claimed", OF _ run_once [OF assms]])
      (simp_all add: once_def fresh_consumer_def)
  then show ?thesis by (auto simp: once_def elim: allE [of _ event])
qed

text \<open>A claim table beside the state a handler works on, for the witnesses.\<close>

definition memory_claims :: "(string list) claim_store" where
  "memory_claims = \<lparr>cl_ClaimDB = (\<lambda>e s. if e \<in> set s then (Inr False, s) else (Inr True, e # s)),
     cl_Release = (\<lambda>e s. (Inr (), filter (\<lambda>x. x \<noteq> e) s))\<rparr>"

definition sample_consumer_env :: "(string list) consumer_env" where
  "sample_consumer_env = \<lparr>ce_broker = projr (newBroker default_Kafka), ce_db = Some memory_claims, ce_event = (\<lambda>_ v. v), ce_unwrap = Inr,
     ce_max_attempts = 5, ce_fetch_err = (\<lambda>_. None), ce_end_err = Foreign ''context canceled'',
     ce_queue_fault = (\<lambda>_. NoFault), ce_dlq_fault = (\<lambda>_. NoFault), ce_commit_fault = (\<lambda>_. NoFault)\<rparr>"

lemma memory_claims_contract: "claim_contract memory_claims set"
  by (auto simp: claim_contract_def memory_claims_def)

theorem event_succeeds_at_most_once_witness:
  "successes ''a'' (cs_trace (rerun 2 sample_consumer_env zero_pull_consumer
     (\<lambda>_ p s. (if p = ''b'' then Inl (Foreign ''down'') else Inr (), s))
     (fresh_consumer [\<lparr>km_Key = [], km_Value = ''a'', km_Headers = []\<rparr>,
        \<lparr>km_Key = [], km_Value = ''b'', km_Headers = []\<rparr>,
        \<lparr>km_Key = [], km_Value = ''a'', km_Headers = []\<rparr>] []))) \<le> 1"
  by (rule event_succeeds_at_most_once [OF _ memory_claims_contract])
    (simp_all add: sample_consumer_env_def keeps_claims_def)

theorem retries_within_the_policy:
  "let c = rerun n N cfg handler (fresh_consumer log s) in
     list_all (\<lambda>entry. 2 \<le> re_Attempt entry \<and> re_Attempt entry \<le> ce_max_attempts N) (cs_retry c)"
  using rerun_invariant [where I = "retries_bounded (ce_max_attempts N)", OF _ run_bounded,
      of "fresh_consumer log s" n cfg handler]
  by (auto simp: retries_bounded_def fresh_consumer_def list_all_iff Let_def)

theorem run_fetches_each_message_at_most_once:
  "let c = fresh_consumer log s in
     cs_iter (snd (RunPullConsumer N cfg handler c)) \<le> length log + 1"
  using consume_iter [of N cfg handler "fresh_consumer log s"]
  by (simp add: RunPullConsumer_def fresh_consumer_def)

text \<open>
  C34. Without faults, and when every message can be claimed, read and handled, one run handles
  the messages of the topic once each in their order, commits each after it, queues and
  dead-letters none, and ends with the error of the closed reader.
\<close>

theorem healthy_topic_is_handled_in_order:
  assumes "no_faults N" and "Q s"
    and "\<forall>msg\<in>set log. succeeds N cfg handler Q msg"
  shows "case RunPullConsumer N cfg handler (fresh_consumer log s) of (r, c) \<Rightarrow>
    r = Some (ce_end_err N) \<and> cs_committed c = length log \<and> cs_retry c = [] \<and> cs_dlq c = [] \<and>
    cs_trace c = handled_run N cfg log 0 (length log)"
proof -
  let ?c = "fresh_consumer log s"
  have "\<exists>c'. consume N cfg handler ?c = (Some (ce_end_err N), c') \<and>
    cs_committed c' = length (cs_log ?c) \<and> cs_retry c' = cs_retry ?c \<and> cs_dlq c' = cs_dlq ?c \<and>
    cs_trace c' = cs_trace ?c @ handled_run N cfg (cs_log ?c) (cs_pos ?c) (length (cs_log ?c)) \<and>
    Q (cs_state c')"
    by (rule consume_all [OF assms(1)]) (use assms(2,3) in \<open>simp_all add: fresh_consumer_def\<close>)
  then show ?thesis by (auto simp: RunPullConsumer_def fresh_consumer_def)
qed

theorem healthy_topic_is_handled_in_order_witness:
  "case RunPullConsumer (sample_consumer_env\<lparr>ce_db := None\<rparr>) zero_pull_consumer
      (\<lambda>_ p s. (Inr (), s @ [p]))
      (fresh_consumer [\<lparr>km_Key = [], km_Value = ''a'', km_Headers = []\<rparr>,
        \<lparr>km_Key = [], km_Value = ''b'', km_Headers = []\<rparr>] []) of (r, c) \<Rightarrow>
    r = Some (ce_end_err (sample_consumer_env\<lparr>ce_db := None\<rparr>)) \<and> cs_committed c = length
      [\<lparr>km_Key = [], km_Value = ''a'', km_Headers = []\<rparr>, \<lparr>km_Key = [], km_Value = ''b'', km_Headers = []\<rparr>] \<and>
    cs_retry c = [] \<and> cs_dlq c = [] \<and>
    cs_trace c = handled_run (sample_consumer_env\<lparr>ce_db := None\<rparr>) zero_pull_consumer
      [\<lparr>km_Key = [], km_Value = ''a'', km_Headers = []\<rparr>, \<lparr>km_Key = [], km_Value = ''b'', km_Headers = []\<rparr>] 0
      (length [\<lparr>km_Key = [], km_Value = ''a'', km_Headers = []\<rparr>, \<lparr>km_Key = [], km_Value = ''b'', km_Headers = []\<rparr>])"
  by (rule healthy_topic_is_handled_in_order [where Q = "\<lambda>_. True"])
    (simp_all add: no_faults_def sample_consumer_env_def succeeds_def claim_message_def)

theorem claimed_message_is_never_handled:
  assumes "ce_db N = Some D" and "claim_contract D claimed" and "keeps_claims handler claimed"
    and "event \<in> claimed s"
  shows "Handled k event ok \<notin> set (cs_trace (rerun n N cfg handler (fresh_consumer log s)))"
proof -
  have "unhandled claimed event (rerun n N cfg handler (fresh_consumer log s))"
    by (rule rerun_invariant [where I = "unhandled claimed event", OF _ run_unhandled [OF assms(1-3)]])
      (use assms(4) in \<open>simp_all add: unhandled_def fresh_consumer_def\<close>)
  then show ?thesis by (auto simp: unhandled_def list_ex_iff)
qed

theorem claimed_message_is_never_handled_witness:
  "Handled 0 ''a'' True \<notin> set (cs_trace (rerun 2 sample_consumer_env zero_pull_consumer
     (\<lambda>_ p s. (Inr (), s)) (fresh_consumer [\<lparr>km_Key = [], km_Value = ''a'', km_Headers = []\<rparr>] [''a''])))"
  by (rule claimed_message_is_never_handled [OF _ memory_claims_contract])
    (simp_all add: sample_consumer_env_def keeps_claims_def)

end
