(* ===== verification/KafkaSaga.thy ===== *)
theory KafkaSaga
  imports EventBroker Application GoJson
begin

text \<open>
  The registration saga over Kafka (saga.go, error_reason.go): the create and delete commands,
  the results published for them, and the reasons failures are reported with.

  A command is decoded, the application service is called, and one result is published; a failure
  of the service is reported in the result, and only an undecodable command or a failed
  publication is an error of the handler, which makes the broker deliver the command again.
\<close>

section \<open>Messages\<close>

record create_user_command =
  cc_SessionID :: string
  cc_UserID :: string
  cc_Username :: string
  cc_FirstName :: string
  cc_LastName :: string
  cc_SagaID :: string

record delete_user_command =
  dc_SessionID :: string
  dc_UserID :: string
  dc_SagaID :: string

record saga_result =
  sr_SessionID :: string
  sr_UserID :: string
  sr_SagaID :: string
  sr_Status :: string
  sr_Error :: string
  sr_Timestamp :: string

definition create_command_strings :: "string list" where
  "create_command_strings = [''session_id'', ''user_id'', ''username'', ''first_name'', ''last_name'', ''saga_id'']"

definition unmarshal_create_command :: "string \<Rightarrow> goerr + create_user_command" where
  "unmarshal_create_command raw =
    (case unmarshal create_command_strings [] raw of
       Inl err \<Rightarrow> Inl err
     | Inr ms \<Rightarrow> Inr \<lparr>cc_SessionID = str_field ''session_id'' ms, cc_UserID = str_field ''user_id'' ms,
         cc_Username = str_field ''username'' ms, cc_FirstName = str_field ''first_name'' ms,
         cc_LastName = str_field ''last_name'' ms, cc_SagaID = str_field ''saga_id'' ms\<rparr>)"

definition delete_command_strings :: "string list" where
  "delete_command_strings = [''session_id'', ''user_id'', ''saga_id'']"

definition unmarshal_delete_command :: "string \<Rightarrow> goerr + delete_user_command" where
  "unmarshal_delete_command raw =
    (case unmarshal delete_command_strings [] raw of
       Inl err \<Rightarrow> Inl err
     | Inr ms \<Rightarrow> Inr \<lparr>dc_SessionID = str_field ''session_id'' ms, dc_UserID = str_field ''user_id'' ms,
         dc_SagaID = str_field ''saga_id'' ms\<rparr>)"

text \<open>A member tagged omitempty is left out when it is the empty string.\<close>

definition omitempty :: "string \<Rightarrow> string \<Rightarrow> members" where
  "omitempty k v = (if v = [] then [] else [(k, JStr v)])"

definition result_members :: "saga_result \<Rightarrow> members" where
  "result_members r =
     omitempty ''session_id'' (sr_SessionID r) @ [(''user_id'', JStr (sr_UserID r))] @
     omitempty ''saga_id'' (sr_SagaID r) @ [(''status'', JStr (sr_Status r))] @
     omitempty ''error'' (sr_Error r) @ [(''timestamp'', JStr (sr_Timestamp r))]"

definition marshal_result :: "saga_result \<Rightarrow> string" where
  "marshal_result r = enc (JObj (result_members r))"

section \<open>Failure reasons\<close>

record failure_reason_resolver =
  fr_CreateUserFailureReason :: "goerr \<Rightarrow> string"
  fr_DeleteUserFailureReason :: "goerr \<Rightarrow> string"

definition CreateUserFailureReason :: "goerr \<Rightarrow> string" where
  "CreateUserFailureReason err =
    (if errors_is err ErrInvalidUserID then ''invalid user_id''
     else if errors_is err ErrUserIDAlreadyTaken then ''user_id already taken''
     else if errors_is err ErrUsernameAlreadyTaken then ''username already taken''
     else ''failed to create user'')"

definition DeleteUserFailureReason :: "goerr \<Rightarrow> string" where
  "DeleteUserFailureReason err =
    (if errors_is err ErrInvalidUserID then ''invalid user_id''
     else if errors_is err ErrUserNotFound then ''user not found''
     else ''failed to delete user'')"

definition NewDomainFailureReasonResolver :: failure_reason_resolver where
  "NewDomainFailureReasonResolver =
    \<lparr>fr_CreateUserFailureReason = CreateUserFailureReason,
     fr_DeleteUserFailureReason = DeleteUserFailureReason\<rparr>"

section \<open>Handlers\<close>

text \<open>The subscriber, with the clock it reads.\<close>

record 's registration_saga_subscriber =
  sg_broker :: "'s event_broker"
  sg_service :: "'s user_service_methods"
  sg_resolver :: failure_reason_resolver
  sg_cfg :: kafka_config
  sg_now :: "'s \<Rightarrow> time"

definition errInvalidDependency :: goerr where
  "errInvalidDependency = Foreign ''invalid Kafka registration subscriber dependency''"

definition errEmptyRegistrationTopic :: goerr where
  "errEmptyRegistrationTopic = Foreign ''Kafka registration topic is empty''"

definition NewRegistrationSagaSubscriber :: "'s event_broker option \<Rightarrow> 's user_service_methods option
    \<Rightarrow> kafka_config \<Rightarrow> failure_reason_resolver option \<Rightarrow> unit option \<Rightarrow> ('s \<Rightarrow> time)
    \<Rightarrow> goerr + 's registration_saga_subscriber" where
  "NewRegistrationSagaSubscriber b service cfg resolver log now =
    (case (b, service, resolver, log) of
       (Some b, Some service, Some resolver, Some _) \<Rightarrow>
         if TrimSpace (k_SagaCreateUserTopic cfg) = [] \<or> TrimSpace (k_SagaDeleteUserTopic cfg) = [] \<or>
            TrimSpace (k_SagaCreateResultTopic cfg) = [] \<or> TrimSpace (k_SagaDeleteResultTopic cfg) = []
         then Inl errEmptyRegistrationTopic
         else Inr \<lparr>sg_broker = b, sg_service = service, sg_resolver = resolver, sg_cfg = cfg, sg_now = now\<rparr>
     | _ \<Rightarrow> Inl errInvalidDependency)"

definition publish_result :: "'s registration_saga_subscriber \<Rightarrow> string \<Rightarrow> saga_result
    \<Rightarrow> (goerr, unit, 's) io" where
  "publish_result S topic result s =
     eb_Publish (sg_broker S) topic (marshal_result (result\<lparr>sr_Timestamp := format_time (sg_now S s)\<rparr>)) s"

text \<open>The result of a command, before its time is set.\<close>

definition saga_failed :: "string \<Rightarrow> string \<Rightarrow> string \<Rightarrow> string \<Rightarrow> saga_result" where
  "saga_failed sessionID userID sagaID reason =
    \<lparr>sr_SessionID = sessionID, sr_UserID = userID, sr_SagaID = sagaID, sr_Status = ''failed'',
     sr_Error = reason, sr_Timestamp = []\<rparr>"

definition saga_success :: "string \<Rightarrow> string \<Rightarrow> string \<Rightarrow> saga_result" where
  "saga_success sessionID userID sagaID =
    \<lparr>sr_SessionID = sessionID, sr_UserID = userID, sr_SagaID = sagaID, sr_Status = ''success'',
     sr_Error = [], sr_Timestamp = []\<rparr>"

definition handleCreate :: "'s registration_saga_subscriber \<Rightarrow> 's message_handler" where
  "handleCreate S subject raw s =
    (case unmarshal_create_command raw of
       Inl err \<Rightarrow> (Inl err, s)
     | Inr cmd \<Rightarrow>
         (case us_CreateUser (sg_service S) (cc_UserID cmd) (cc_Username cmd) (cc_FirstName cmd)
                 (cc_LastName cmd) s of
            (Inl err, s1) \<Rightarrow>
              publish_result S (k_SagaCreateResultTopic (sg_cfg S))
                (saga_failed (cc_SessionID cmd) (cc_UserID cmd) (cc_SagaID cmd)
                  (fr_CreateUserFailureReason (sg_resolver S) err)) s1
          | (Inr _, s1) \<Rightarrow>
              publish_result S (k_SagaCreateResultTopic (sg_cfg S))
                (saga_success (cc_SessionID cmd) (cc_UserID cmd) (cc_SagaID cmd)) s1))"

definition handleDelete :: "'s registration_saga_subscriber \<Rightarrow> 's message_handler" where
  "handleDelete S subject raw s =
    (case unmarshal_delete_command raw of
       Inl err \<Rightarrow> (Inl err, s)
     | Inr cmd \<Rightarrow>
         (case us_DeleteUser (sg_service S) (dc_UserID cmd) s of
            (Inl err, s1) \<Rightarrow>
              publish_result S (k_SagaDeleteResultTopic (sg_cfg S))
                (saga_failed (dc_SessionID cmd) (dc_UserID cmd) (dc_SagaID cmd)
                  (fr_DeleteUserFailureReason (sg_resolver S) err)) s1
          | (Inr _, s1) \<Rightarrow>
              publish_result S (k_SagaDeleteResultTopic (sg_cfg S))
                (saga_success (dc_SessionID cmd) (dc_UserID cmd) (dc_SagaID cmd)) s1))"

text \<open>The two subscriptions that Subscribe starts, each in a goroutine of its own.\<close>

definition saga_subscriptions :: "'s registration_saga_subscriber \<Rightarrow> (string \<times> 's message_handler) list" where
  "saga_subscriptions S =
    [(k_SagaCreateUserTopic (sg_cfg S), handleCreate S), (k_SagaDeleteUserTopic (sg_cfg S), handleDelete S)]"

section \<open>Lemmas\<close>

lemma reason_of_domain [simp]:
  "CreateUserFailureReason ErrInvalidUserID = ''invalid user_id''"
  "DeleteUserFailureReason ErrInvalidUserID = ''invalid user_id''"
  "DeleteUserFailureReason ErrUserNotFound = ''user not found''"
  by (simp_all add: CreateUserFailureReason_def DeleteUserFailureReason_def)

text \<open>The consumer of a result reads back the members that were written.\<close>

definition result_ok :: "saga_result \<Rightarrow> bool" where
  "result_ok r \<longleftrightarrow> list_all utf8_valid [sr_SessionID r, sr_UserID r, sr_SagaID r, sr_Status r,
     sr_Error r, sr_Timestamp r]"

definition result_strings :: "string list" where
  "result_strings = [''session_id'', ''user_id'', ''saga_id'', ''status'', ''error'', ''timestamp'']"

lemma str_field_absent:
  assumes "plain_members kvs" and "plain_key f" and "f \<notin> fst ` set kvs"
  shows "str_field f kvs = []"
proof -
  have "\<forall>kv\<in>set kvs. \<not> key_matches f (fst kv)"
    using assms by (force simp: plain_members_def list_all_iff key_matches_plain)
  then show ?thesis by (simp add: str_field_def foldl_set_str_other)
qed

lemma result_members_plain: "plain_members (result_members r)"
  by (simp add: result_members_def omitempty_def plain_members_def plain_key_def)

lemma str_field_omitempty:
  assumes "plain_members kvs" and "plain_key f" and "v \<noteq> [] \<longrightarrow> (f, JStr v) \<in> set kvs"
    and "v = [] \<longrightarrow> f \<notin> fst ` set kvs"
  shows "str_field f kvs = v"
  using assms str_field_member str_field_absent by (cases "v = []") auto

lemma unmarshal_marshal_result:
  assumes "result_ok r"
  shows "\<exists>ms. unmarshal result_strings [] (marshal_result r) = Inr ms \<and>
    str_field ''session_id'' ms = sr_SessionID r \<and> str_field ''user_id'' ms = sr_UserID r \<and>
    str_field ''saga_id'' ms = sr_SagaID r \<and> str_field ''status'' ms = sr_Status r \<and>
    str_field ''error'' ms = sr_Error r \<and> str_field ''timestamp'' ms = sr_Timestamp r"
proof -
  have "unmarshal result_strings [] (enc (JObj (result_members r))) = Inr (result_members r)"
    by (rule unmarshal_enc [OF result_members_plain])
      (use assms in \<open>simp_all add: result_members_def omitempty_def result_strings_def plain_key_def
        typed_members_def is_str_def result_ok_def\<close>)
  moreover have "str_field ''session_id'' (result_members r) = sr_SessionID r"
    "str_field ''saga_id'' (result_members r) = sr_SagaID r"
    "str_field ''error'' (result_members r) = sr_Error r"
    by (rule str_field_omitempty [OF result_members_plain];
        simp add: result_members_def omitempty_def plain_key_def)+
  moreover have "str_field ''user_id'' (result_members r) = sr_UserID r"
    "str_field ''status'' (result_members r) = sr_Status r"
    "str_field ''timestamp'' (result_members r) = sr_Timestamp r"
    by (rule str_field_member [OF result_members_plain]; simp add: result_members_def)+
  ultimately show ?thesis by (auto simp: marshal_result_def)
qed

end
