(* ===== verification/KafkaRecovery.thy ===== *)
theory KafkaRecovery
  imports EventBroker Application GoJson
begin

text \<open>
  The recovery subscriber (recovery_subscriber.go), which replays user operations of the former
  monolith. The envelope type belongs to the shared library: its JSON form is a parameter, the
  record has the fields the subscriber reads and sets. The user in the payload of a completion is
  encoded with the names of the Go fields.
\<close>

section \<open>Messages\<close>

record envelope =
  en_EventID :: string
  en_CommandID :: string
  en_CorrelationID :: string
  en_CausationID :: string
  en_IdempotencyKey :: string
  en_TestRunID :: string
  en_EventType :: string
  en_Operation :: string
  en_SchemaVersion :: int
  en_AggregateType :: string
  en_AggregateID :: string
  en_SourceService :: string
  en_RecoveryPrincipalID :: string
  en_OccurredAt :: time
  en_Payload :: string

record create_payload =
  cp_UserID :: string
  cp_Username :: string
  cp_FirstName :: string
  cp_LastName :: string

definition create_payload_strings :: "string list" where
  "create_payload_strings = [''user_id'', ''username'', ''first_name'', ''last_name'']"

definition unmarshal_create_payload :: "string \<Rightarrow> goerr + create_payload" where
  "unmarshal_create_payload raw =
    (case unmarshal create_payload_strings [] raw of
       Inl err \<Rightarrow> Inl err
     | Inr ms \<Rightarrow> Inr \<lparr>cp_UserID = str_field ''user_id'' ms, cp_Username = str_field ''username'' ms,
         cp_FirstName = str_field ''first_name'' ms, cp_LastName = str_field ''last_name'' ms\<rparr>)"

definition mustJSON :: "user option \<Rightarrow> string" where
  "mustJSON v =
    (case v of
       None \<Rightarrow> ''null''
     | Some u \<Rightarrow> enc (JObj
         [(''ID'', JStr (u_ID u)), (''Username'', JStr (u_Username u)),
          (''DisplayName'', JStr (u_DisplayName u)), (''FirstName'', JStr (u_FirstName u)),
          (''LastName'', JStr (u_LastName u)), (''AvatarID'', JStr (u_AvatarID u)),
          (''AvatarURL'', JStr (u_AvatarURL u)), (''About'', JStr (u_About u)),
          (''IsActive'', JBool (u_IsActive u)), (''Status'', JStr (u_Status u)),
          (''CreatedAt'', JStr (format_time (u_CreatedAt u))),
          (''UpdatedAt'', JStr (format_time (u_UpdatedAt u)))]))"

section \<open>Subscriber\<close>

record 's user_recovery_subscriber =
  rs_broker :: "'s event_broker"
  rs_service :: "'s user_service_methods"
  rs_cfg :: kafka_config
  rs_now :: "'s \<Rightarrow> time"
  rs_decode :: "string \<Rightarrow> goerr + envelope"
  rs_encode :: "envelope \<Rightarrow> goerr + string"

definition errInvalidRecoveryDependency :: goerr where
  "errInvalidRecoveryDependency = Foreign ''invalid user recovery subscriber dependency''"

definition NewUserRecoverySubscriber :: "'s event_broker option \<Rightarrow> 's user_service_methods option
    \<Rightarrow> kafka_config \<Rightarrow> unit option \<Rightarrow> ('s \<Rightarrow> time) \<Rightarrow> (string \<Rightarrow> goerr + envelope)
    \<Rightarrow> (envelope \<Rightarrow> goerr + string) \<Rightarrow> goerr + 's user_recovery_subscriber" where
  "NewUserRecoverySubscriber b service cfg log now decode encode =
    (case (b, service, log) of
       (Some b, Some service, Some _) \<Rightarrow>
         Inr \<lparr>rs_broker = b, rs_service = service, rs_cfg = cfg, rs_now = now, rs_decode = decode,
              rs_encode = encode\<rparr>
     | _ \<Rightarrow> Inl errInvalidRecoveryDependency)"

text \<open>The user a create command is about: its payload names it, or its envelope.\<close>

definition recovery_user_id :: "envelope \<Rightarrow> create_payload \<Rightarrow> string" where
  "recovery_user_id command p =
    (let userID = cp_UserID p;
         userID = (if userID = [] then en_AggregateID command else userID)
     in if userID = [] then en_RecoveryPrincipalID command else userID)"

text \<open>The operation: the result for the completion and the user it was about, or the error.\<close>

definition recovery_operation :: "'s user_recovery_subscriber \<Rightarrow> envelope
    \<Rightarrow> (goerr, user option \<times> string, 's) io" where
  "recovery_operation R command s =
    (let userID = en_AggregateID command;
         operation = ToLower (en_Operation command)
     in if operation = ''post'' \<or> operation = ''create'' then
          (case unmarshal_create_payload (en_Payload command) of
             Inl err \<Rightarrow> (Inl err, s)
           | Inr p \<Rightarrow>
               (let userID = recovery_user_id command p in
                if TrimSpace userID = [] then
                  (Inl (Permanent (Foreign (''user recovery command '' @ en_CommandID command @
                     '' is missing user_id''))), s)
                else
                  (case us_CreateUser (rs_service R) userID (cp_Username p) (cp_FirstName p) (cp_LastName p) s of
                     (Inl err, s1) \<Rightarrow> (Inl err, s1)
                   | (Inr u, s1) \<Rightarrow> (Inr (Some u, userID), s1))))
        else if operation = ''delete'' then
          (case us_DeleteUser (rs_service R) userID s of
             (Inl err, s1) \<Rightarrow> (Inl err, s1) | (Inr _, s1) \<Rightarrow> (Inr (None, userID), s1))
        else if operation = ''activate'' then
          (case us_ActivateUser (rs_service R) userID s of
             (Inl err, s1) \<Rightarrow> (Inl err, s1) | (Inr u, s1) \<Rightarrow> (Inr (Some u, userID), s1))
        else if operation = ''deactivate'' then
          (case us_DeactivateUser (rs_service R) userID s of
             (Inl err, s1) \<Rightarrow> (Inl err, s1) | (Inr _, s1) \<Rightarrow> (Inr (None, userID), s1))
        else (Inl (Foreign (''unsupported user recovery operation='' @ en_Operation command)), s))"

definition recovery_completed :: "envelope \<Rightarrow> user option \<Rightarrow> string \<Rightarrow> time \<Rightarrow> envelope" where
  "recovery_completed command result userID now =
    \<lparr>en_EventID = en_EventID command @ ''.completed'', en_CommandID = en_CommandID command,
     en_CorrelationID = en_CorrelationID command, en_CausationID = en_EventID command,
     en_IdempotencyKey = en_IdempotencyKey command, en_TestRunID = en_TestRunID command,
     en_EventType = ''migration.recovery.completed'', en_Operation = en_Operation command,
     en_SchemaVersion = 1, en_AggregateType = ''user'', en_AggregateID = userID,
     en_SourceService = ''user-service-recovery'', en_RecoveryPrincipalID = [],
     en_OccurredAt = now, en_Payload = mustJSON result\<rparr>"

definition recovery_handle :: "'s user_recovery_subscriber \<Rightarrow> 's message_handler" where
  "recovery_handle R subject raw s =
    (case rs_decode R raw of
       Inl err \<Rightarrow> (Inl (wrap_msg ''decode user recovery command'' err), s)
     | Inr command \<Rightarrow>
         if en_AggregateType command \<noteq> ''user'' \<and> en_AggregateType command \<noteq> ''users'' then
           (Inl (Foreign (''unsupported user recovery aggregate_type='' @ go_quote (en_AggregateType command))), s)
         else
           (case recovery_operation R command s of
              (Inl err, s1) \<Rightarrow> (Inl err, s1)
            | (Inr (result, userID), s1) \<Rightarrow>
                (case rs_encode R (recovery_completed command result userID (rs_now R s1)) of
                   Inl err \<Rightarrow> (Inl err, s1)
                 | Inr body \<Rightarrow> eb_Publish (rs_broker R) (k_RecoveryCompletedTopic (rs_cfg R)) body s1)))"

definition recovery_Subscribe :: "'s user_recovery_subscriber \<Rightarrow> (goerr, unit, 's) io" where
  "recovery_Subscribe R s =
     eb_RunPullConsumer (rs_broker R)
       (zero_pull_consumer\<lparr>pc_Subject := k_RecoveryTopic (rs_cfg R), pc_GroupID := k_RecoveryGroup (rs_cfg R)\<rparr>)
       (recovery_handle R) s"

text \<open>What a successful operation of each kind is: the call of the service that succeeded.\<close>

definition recovered :: "'s user_recovery_subscriber \<Rightarrow> envelope \<Rightarrow> user option \<Rightarrow> string \<Rightarrow> 's \<Rightarrow> 's \<Rightarrow> bool" where
  "recovered R command result userID s s1 \<longleftrightarrow>
    (case ToLower (en_Operation command) of op \<Rightarrow>
      if op = ''post'' \<or> op = ''create'' then
        TrimSpace userID \<noteq> [] \<and>
        (\<exists>p u. unmarshal_create_payload (en_Payload command) = Inr p \<and> userID = recovery_user_id command p \<and>
           result = Some u \<and>
           us_CreateUser (rs_service R) userID (cp_Username p) (cp_FirstName p) (cp_LastName p) s = (Inr u, s1))
      else if op = ''delete'' then result = None \<and> userID = en_AggregateID command \<and>
        us_DeleteUser (rs_service R) userID s = (Inr (), s1)
      else if op = ''activate'' then userID = en_AggregateID command \<and>
        (\<exists>u. result = Some u \<and> us_ActivateUser (rs_service R) userID s = (Inr u, s1))
      else op = ''deactivate'' \<and> result = None \<and> userID = en_AggregateID command \<and>
        us_DeactivateUser (rs_service R) userID s = (Inr (), s1))"

lemma recovery_operation_ok:
  "recovery_operation R command s = (Inr (result, userID), s1) \<Longrightarrow> recovered R command result userID s s1"
  by (auto simp: recovery_operation_def recovered_def Let_def split: sum.splits prod.splits if_splits)

end
