(* ===== verification/SagaFlow.thy ===== *)
theory SagaFlow
  imports Samples KafkaSaga KafkaRecovery
begin

text \<open>
  The command consumers as internal/fx wires them: the registration saga and the recovery
  subscriber over the wired application service and the Kafka broker. The theorems say what a
  handled command did to the stored users and what was published about it.
\<close>

section \<open>Wiring\<close>

text \<open>The Kafka broker; of its methods the handlers call \<open>Publish\<close> only.\<close>

definition kafka_backed :: "env \<Rightarrow> world event_broker \<Rightarrow> world event_broker" where
  "kafka_backed E B = B\<lparr>eb_Publish := KafkaBroker.Publish E\<rparr>"

definition clock_of :: "env \<Rightarrow> world \<Rightarrow> time" where
  "clock_of E w = e_clock E (w_calls w)"

definition ProvideRegistrationSagaSubscriber :: "env \<Rightarrow> world event_broker \<Rightarrow> string \<Rightarrow> kafka_config
    \<Rightarrow> goerr + world registration_saga_subscriber" where
  "ProvideRegistrationSagaSubscriber E B topic cfg =
     NewRegistrationSagaSubscriber (Some (kafka_backed E B)) (Some (UserService (wired_service E topic)))
       cfg (Some NewDomainFailureReasonResolver) (Some ()) (clock_of E)"

definition ProvideUserRecoverySubscriber :: "env \<Rightarrow> world event_broker \<Rightarrow> string \<Rightarrow> kafka_config
    \<Rightarrow> (string \<Rightarrow> goerr + envelope) \<Rightarrow> (envelope \<Rightarrow> goerr + string)
    \<Rightarrow> goerr + world user_recovery_subscriber" where
  "ProvideUserRecoverySubscriber E B topic cfg decode encode =
     NewUserRecoverySubscriber (Some (kafka_backed E B)) (Some (UserService (wired_service E topic)))
       cfg (Some ()) (clock_of E) decode encode"

lemma provided_saga:
  assumes "ProvideRegistrationSagaSubscriber E B topic cfg = Inr S"
  shows "eb_Publish (sg_broker S) = KafkaBroker.Publish E \<and> sg_service S = UserService (wired_service E topic) \<and>
    sg_resolver S = NewDomainFailureReasonResolver \<and> sg_cfg S = cfg \<and> sg_now S = clock_of E"
  using assms
  by (auto simp: ProvideRegistrationSagaSubscriber_def NewRegistrationSagaSubscriber_def kafka_backed_def
      split: if_splits)

lemma provided_recovery:
  assumes "ProvideUserRecoverySubscriber E B topic cfg decode encode = Inr R"
  shows "eb_Publish (rs_broker R) = KafkaBroker.Publish E \<and> rs_service R = UserService (wired_service E topic) \<and>
    rs_cfg R = cfg \<and> rs_decode R = decode \<and> rs_encode R = encode \<and> rs_now R = clock_of E"
  using assms
  by (auto simp: ProvideUserRecoverySubscriber_def NewUserRecoverySubscriber_def kafka_backed_def)

section \<open>Commands leave the topics alone\<close>

lemma pg_kept_bus: "pg_kept w' = pg_kept w \<Longrightarrow> w_bus w' = w_bus w"
  by (simp add: pg_kept_def)

lemma redis_kept_bus: "redis_kept w' = redis_kept w \<Longrightarrow> w_bus w' = w_bus w"
  by (simp add: redis_kept_def)

lemma create_bus:
  assumes "pg_inv E w" "CreateUser (wired_service E topic) i n f l w = (r, w')"
  shows "w_bus w' = w_bus w"
proof -
  obtain x w1 where c: "ur_Create (pg_repo E NewPgErrorTranslator) \<lparr>p_ID = i, p_Username = n, p_FirstName = f, p_LastName = l, p_AvatarID = []\<rparr> w = (x, w1)" by fastforce
  obtain y w2 where d: "rr_Upsert (redis_repo E) (Some (projr x)) w1 = (y, w2)" by fastforce
  note k = pg.create_frame [OF assms(1) c]
  then have "w_bus w1 = w_bus w" "pg_inv E w1" by (simp_all add: pg_kept_def)
  moreover have "w_bus w2 = w_bus w1"
    using redis.upsert_frame [OF redis_inv_pg d] \<open>pg_inv E w1\<close> redis_kept_bus by blast
  ultimately show ?thesis
    using c d assms(2) by (cases x; cases y) (auto simp: CreateUser_def split: if_splits)
qed

lemma activate_bus:
  assumes "pg_inv E w" "ActivateUser (wired_service E topic) i w = (r, w')"
  shows "w_bus w' = w_bus w"
proof -
  obtain x w1 where c: "ur_ActivateByID (pg_repo E NewPgErrorTranslator) i w = (x, w1)" by fastforce
  obtain y w2 where d: "rr_Upsert (redis_repo E) (Some (projr x)) w1 = (y, w2)" by fastforce
  note k = pg.activate_frame [OF assms(1) c]
  then have "w_bus w1 = w_bus w" "pg_inv E w1" by (simp_all add: pg_kept_def)
  moreover have "w_bus w2 = w_bus w1"
    using redis.upsert_frame [OF redis_inv_pg d] \<open>pg_inv E w1\<close> redis_kept_bus by blast
  ultimately show ?thesis
    using c d assms(2) by (cases x; cases y) (auto simp: ActivateUser_def split: if_splits)
qed

lemma deactivate_bus:
  assumes "pg_inv E w" "DeactivateUser (wired_service E topic) i w = (r, w')"
  shows "w_bus w' = w_bus w"
proof -
  obtain x w1 where c: "ur_DeactivateByID (pg_repo E NewPgErrorTranslator) i w = (x, w1)" by fastforce
  obtain y w2 where d: "rr_DeleteByID (redis_repo E) i w1 = (y, w2)" by fastforce
  note k = pg.deactivate_frame [OF assms(1) c]
  then have "w_bus w1 = w_bus w" "pg_inv E w1" by (simp_all add: pg_kept_def)
  moreover have "w_bus w2 = w_bus w1"
    using redis.rdelete_frame [OF redis_inv_pg d] \<open>pg_inv E w1\<close> redis_kept_bus by blast
  ultimately show ?thesis
    using c d assms(2) by (cases x; cases y) (auto simp: DeactivateUser_def split: if_splits)
qed

lemma delete_bus:
  assumes "pg_inv E w" "DeleteUser (wired_service E topic) i w = (r, w')"
  shows "w_bus w' = w_bus w"
proof -
  obtain x w1 where c: "ur_DeleteByID (pg_repo E NewPgErrorTranslator) i w = (x, w1)" by fastforce
  obtain y w2 where d: "rr_DeleteByID (redis_repo E) i w1 = (y, w2)" by fastforce
  note k = pg.delete_frame [OF assms(1) c]
  then have "w_bus w1 = w_bus w" "pg_inv E w1" by (simp_all add: pg_kept_def)
  moreover have "w_bus w2 = w_bus w1"
    using redis.rdelete_frame [OF redis_inv_pg d] \<open>pg_inv E w1\<close> redis_kept_bus by blast
  ultimately show ?thesis
    using c d assms(2) by (cases x; cases y) (auto simp: DeleteUser_def split: if_splits)
qed

section \<open>Published messages\<close>

text \<open>The message \<open>payload\<close> was appended to the topic, in its envelope.\<close>

definition published :: "env \<Rightarrow> string \<Rightarrow> string \<Rightarrow> world \<Rightarrow> world \<Rightarrow> bool" where
  "published E topic payload w w' \<longleftrightarrow>
     (\<exists>body. enveloped E topic payload body \<and> w_bus w' = w_bus w @ [(topic, body)])"

lemma Publish_outcome:
  assumes "KafkaBroker.Publish E topic payload w = (r, w')"
  shows "users_view w' = users_view w \<and> preview w' = preview w \<and> detailed w' = detailed w \<and>
    pg_inv E w' = pg_inv E w \<and> (r = Inr () \<longrightarrow> published E topic payload w w') \<and>
    (w_bus w' = w_bus w \<or> published E topic payload w w')"
  using Publish_effect [OF assms] bus_kept_views [of w' w E]
  by (cases r) (auto simp: published_def)

text \<open>The result of a saga command with a status and an error text, at some time.\<close>

definition saga_reports :: "env \<Rightarrow> string \<Rightarrow> saga_result \<Rightarrow> world \<Rightarrow> world \<Rightarrow> bool" where
  "saga_reports E topic result w w' \<longleftrightarrow>
     (\<exists>t. published E topic (marshal_result (result\<lparr>sr_Timestamp := format_time t\<rparr>)) w w')"

lemma publish_result_outcome:
  assumes "ProvideRegistrationSagaSubscriber E B topic cfg = Inr S"
    and "publish_result S out result w = (r, w')"
  shows "users_view w' = users_view w \<and> preview w' = preview w \<and> detailed w' = detailed w \<and>
    pg_inv E w' = pg_inv E w \<and> (r = Inr () \<longrightarrow> saga_reports E out result w w') \<and>
    (w_bus w' = w_bus w \<or> saga_reports E out result w w')"
  using Publish_outcome [of E out _ w r w'] provided_saga [OF assms(1)] assms(2)
  unfolding publish_result_def saga_reports_def by metis

lemma saga_reports_bus: "w_bus w1 = w_bus w \<Longrightarrow> saga_reports E out result w1 w' = saga_reports E out result w w'"
  by (simp add: saga_reports_def published_def)

section \<open>What a create command does\<close>

definition create_success :: "create_user_command \<Rightarrow> saga_result" where
  "create_success cmd = saga_success (cc_SessionID cmd) (cc_UserID cmd) (cc_SagaID cmd)"

definition create_failure :: "create_user_command \<Rightarrow> string \<Rightarrow> saga_result" where
  "create_failure cmd = saga_failed (cc_SessionID cmd) (cc_UserID cmd) (cc_SagaID cmd)"

definition command_params :: "create_user_command \<Rightarrow> create_user_params" where
  "command_params cmd = \<lparr>p_ID = cc_UserID cmd, p_Username = cc_Username cmd, p_FirstName = cc_FirstName cmd,
     p_LastName = cc_LastName cmd, p_AvatarID = []\<rparr>"

text \<open>
  A creation that fails although the user is stored: the reply of the database was lost after the
  insertion, or the insertion was answered and the write of the cache entry failed.
\<close>

definition create_cut_short :: "env \<Rightarrow> world \<Rightarrow> bool" where
  "create_cut_short E w \<longleftrightarrow> (\<exists>err. e_pg_fault E (w_calls w) = Late err) \<or>
     (e_pg_fault E (w_calls w) = NoFault \<and> e_redis_fault E (Suc (w_calls w)) \<noteq> NoFault)"

lemma create_half_done:
  assumes "CreateUser (wired_service E topic) i n f l w = (Inl e, w')" and "users_view w' \<noteq> users_view w"
  shows "create_cut_short E w"
proof (cases "e_pg_fault E (w_calls w)")
  case NoFault
  have "e_redis_fault E (Suc (w_calls w)) \<noteq> NoFault"
  proof
    assume redis: "e_redis_fault E (Suc (w_calls w)) = NoFault"
    with NoFault assms show False
      by (auto simp: CreateUser_def WriteRepo.Create_def Upsert_def ext_call_def createUserQuery_def redis_set_def
          db_metric_def redis_metric_def observe_def users_view_def Let_def split: option.splits if_splits)
  qed
  with NoFault show ?thesis by (simp add: create_cut_short_def)
next
  case (Lost err)
  with assms have False
    by (auto simp: CreateUser_def WriteRepo.Create_def ext_call_def db_metric_def observe_def users_view_def split: if_splits)
  then show ?thesis ..
qed (simp add: create_cut_short_def)

lemma handleCreate_outcome:
  assumes "pg_inv E w" and S: "ProvideRegistrationSagaSubscriber E B topic cfg = Inr S"
    and "unmarshal_create_command raw = Inr cmd" and "handleCreate S subject raw w = (r, w')"
  obtains (created) u where "fst (CreateUser (wired_service E topic) (cc_UserID cmd) (cc_Username cmd) (cc_FirstName cmd)
      (cc_LastName cmd) w) = Inr u"
      "inserts (command_params cmd) (e_uuid E (cc_UserID cmd)) (users_view w) (users_view w') u"
      "preview w' = (preview w)(u_ID u \<mapsto> as_preview u)"
      "r = Inr () \<Longrightarrow> saga_reports E (k_SagaCreateResultTopic cfg) (create_success cmd) w w'"
      "w_bus w' = w_bus w \<or> saga_reports E (k_SagaCreateResultTopic cfg) (create_success cmd) w w'"
      "pg_inv E w'"
    | (failed) err where
      "fst (CreateUser (wired_service E topic) (cc_UserID cmd) (cc_Username cmd) (cc_FirstName cmd)
      (cc_LastName cmd) w) = Inl err"
      "users_view w' = users_view w \<or>
        (\<exists>u. inserts (command_params cmd) (e_uuid E (cc_UserID cmd)) (users_view w) (users_view w') u) \<and>
        create_cut_short E w"
      "r = Inr () \<Longrightarrow> saga_reports E (k_SagaCreateResultTopic cfg)
        (create_failure cmd (CreateUserFailureReason err)) w w'"
      "w_bus w' = w_bus w \<or> saga_reports E (k_SagaCreateResultTopic cfg)
        (create_failure cmd (CreateUserFailureReason err)) w w'"
      "pg_inv E w'"
proof -
  note p = provided_saga [OF S]
  obtain x w1 where c: "CreateUser (wired_service E topic) (cc_UserID cmd) (cc_Username cmd) (cc_FirstName cmd)
      (cc_LastName cmd) w = (x, w1)" by fastforce
  note e = wired.create_effect [OF assms(1) redis_inv_pg [OF assms(1)] c]
  note b = create_bus [OF assms(1) c]
  show thesis
  proof (cases x)
    case (Inl err)
    with p c assms(3,4) have q: "publish_result S (k_SagaCreateResultTopic cfg)
        (create_failure cmd (CreateUserFailureReason err)) w1 = (r, w')"
      by (simp add: handleCreate_def create_failure_def NewDomainFailureReasonResolver_def)
    have cut: "users_view w1 \<noteq> users_view w \<Longrightarrow> create_cut_short E w" using create_half_done c Inl by blast
    from publish_result_outcome [OF S q] e Inl b c cut show thesis
      by (intro failed [of err]) (auto simp: command_params_def saga_reports_bus [OF b])
  next
    case (Inr u)
    with p c assms(3,4) have q: "publish_result S (k_SagaCreateResultTopic cfg) (create_success cmd) w1 = (r, w')"
      by (simp add: handleCreate_def create_success_def)
    from publish_result_outcome [OF S q] e Inr b c show thesis
      by (intro created [of u]) (auto simp: command_params_def saga_reports_bus [OF b])
  qed
qed

section \<open>What a delete command does\<close>

definition delete_success :: "delete_user_command \<Rightarrow> saga_result" where
  "delete_success cmd = saga_success (dc_SessionID cmd) (dc_UserID cmd) (dc_SagaID cmd)"

definition delete_failure :: "delete_user_command \<Rightarrow> string \<Rightarrow> saga_result" where
  "delete_failure cmd = saga_failed (dc_SessionID cmd) (dc_UserID cmd) (dc_SagaID cmd)"

text \<open>
  A deletion that fails although the user is gone: the reply of the database was lost after the
  deletion, or the number of rows could not be read, or the removal of the cache entry failed.
\<close>

definition delete_cut_short :: "env \<Rightarrow> world \<Rightarrow> bool" where
  "delete_cut_short E w \<longleftrightarrow> (\<exists>err. e_pg_fault E (w_calls w) = Late err) \<or>
     (e_pg_fault E (w_calls w) = NoFault \<and>
      (e_rows_fault E (Suc (w_calls w)) \<noteq> None \<or> e_redis_fault E (Suc (w_calls w)) \<noteq> NoFault))"

lemma delete_half_done:
  assumes "DeleteUser (wired_service E topic) i w = (Inl e, w')" and "users_view w' \<noteq> users_view w"
  shows "delete_cut_short E w"
proof (cases "e_pg_fault E (w_calls w)")
  case NoFault
  have none_gone: "filter (\<lambda>r. row_ID r = k) rows = [] \<Longrightarrow> filter (\<lambda>r. row_ID r \<noteq> k) rows = rows" for k rows
    by (auto simp: filter_empty_conv filter_id_conv)
  have "e_rows_fault E (Suc (w_calls w)) \<noteq> None \<or> e_redis_fault E (Suc (w_calls w)) \<noteq> NoFault"
  proof (rule ccontr)
    assume "\<not> (e_rows_fault E (Suc (w_calls w)) \<noteq> None \<or> e_redis_fault E (Suc (w_calls w)) \<noteq> NoFault)"
    with NoFault assms show False
      by (auto simp: DeleteUser_def WriteRepo.DeleteByID_def ReadRepo.DeleteByID_def ext_call_def deleteUserByID_def redis_del_def
          none_gone db_metric_def redis_metric_def observe_def users_view_def Let_def fun_eq_iff split: option.splits if_splits)
  qed
  with NoFault show ?thesis by (simp add: delete_cut_short_def)
next
  case (Lost err)
  with assms have False
    by (auto simp: DeleteUser_def WriteRepo.DeleteByID_def ext_call_def db_metric_def observe_def users_view_def split: if_splits)
  then show ?thesis ..
qed (simp add: delete_cut_short_def)

lemma handleDelete_outcome:
  assumes "pg_inv E w" and S: "ProvideRegistrationSagaSubscriber E B topic cfg = Inr S"
    and "unmarshal_delete_command raw = Inr cmd" and "handleDelete S subject raw w = (r, w')"
  obtains (deleted) "fst (DeleteUser (wired_service E topic) (dc_UserID cmd) w) = Inr ()"
      "removes (e_uuid E (dc_UserID cmd)) (users_view w) (users_view w')"
      "preview w' = (preview w)(dc_UserID cmd := None)"
      "r = Inr () \<Longrightarrow> saga_reports E (k_SagaDeleteResultTopic cfg) (delete_success cmd) w w'"
      "w_bus w' = w_bus w \<or> saga_reports E (k_SagaDeleteResultTopic cfg) (delete_success cmd) w w'"
      "pg_inv E w'"
    | (failed) err where
      "fst (DeleteUser (wired_service E topic) (dc_UserID cmd) w) = Inl err"
      "users_view w' = users_view w \<or>
        removes (e_uuid E (dc_UserID cmd)) (users_view w) (users_view w') \<and> delete_cut_short E w"
      "r = Inr () \<Longrightarrow> saga_reports E (k_SagaDeleteResultTopic cfg)
        (delete_failure cmd (DeleteUserFailureReason err)) w w'"
      "w_bus w' = w_bus w \<or> saga_reports E (k_SagaDeleteResultTopic cfg)
        (delete_failure cmd (DeleteUserFailureReason err)) w w'"
      "pg_inv E w'"
proof -
  note p = provided_saga [OF S]
  obtain x w1 where c: "DeleteUser (wired_service E topic) (dc_UserID cmd) w = (x, w1)" by fastforce
  note e = wired.delete_effect [OF assms(1) redis_inv_pg [OF assms(1)] c]
  note b = delete_bus [OF assms(1) c]
  show thesis
  proof (cases x)
    case (Inl err)
    with p c assms(3,4) have q: "publish_result S (k_SagaDeleteResultTopic cfg)
        (delete_failure cmd (DeleteUserFailureReason err)) w1 = (r, w')"
      by (simp add: handleDelete_def delete_failure_def NewDomainFailureReasonResolver_def)
    have cut: "users_view w1 \<noteq> users_view w \<Longrightarrow> delete_cut_short E w" using delete_half_done c Inl by blast
    from publish_result_outcome [OF S q] e Inl b c cut show thesis
      by (intro failed [of err]) (auto simp: saga_reports_bus [OF b])
  next
    case (Inr u)
    with p c assms(3,4) have q: "publish_result S (k_SagaDeleteResultTopic cfg) (delete_success cmd) w1 = (r, w')"
      by (simp add: handleDelete_def delete_success_def)
    from publish_result_outcome [OF S q] e Inr b c show thesis
      by (intro deleted) (auto simp: saga_reports_bus [OF b])
  qed
qed

section \<open>Commands on the wire\<close>

definition create_command_members :: "create_user_command \<Rightarrow> members" where
  "create_command_members c =
     [(''session_id'', JStr (cc_SessionID c)), (''user_id'', JStr (cc_UserID c)),
      (''username'', JStr (cc_Username c)), (''first_name'', JStr (cc_FirstName c)),
      (''last_name'', JStr (cc_LastName c))] @ omitempty ''saga_id'' (cc_SagaID c)"

definition create_command_ok :: "create_user_command \<Rightarrow> bool" where
  "create_command_ok c \<longleftrightarrow> list_all utf8_valid [cc_SessionID c, cc_UserID c, cc_Username c, cc_FirstName c,
     cc_LastName c, cc_SagaID c]"

lemma unmarshal_create_command_enc:
  assumes "create_command_ok c"
  shows "unmarshal_create_command (enc (JObj (create_command_members c))) = Inr c"
proof -
  have plain: "plain_members (create_command_members c)"
    by (simp add: create_command_members_def omitempty_def plain_members_def plain_key_def)
  have "unmarshal create_command_strings [] (enc (JObj (create_command_members c))) = Inr (create_command_members c)"
    by (rule unmarshal_enc [OF plain])
      (use assms in \<open>simp_all add: create_command_members_def omitempty_def create_command_strings_def
        plain_key_def typed_members_def is_str_def create_command_ok_def\<close>)
  moreover have "str_field ''saga_id'' (create_command_members c) = cc_SagaID c"
    by (rule str_field_omitempty [OF plain]; simp add: create_command_members_def omitempty_def plain_key_def)
  moreover have "str_field ''session_id'' (create_command_members c) = cc_SessionID c"
    "str_field ''user_id'' (create_command_members c) = cc_UserID c"
    "str_field ''username'' (create_command_members c) = cc_Username c"
    "str_field ''first_name'' (create_command_members c) = cc_FirstName c"
    "str_field ''last_name'' (create_command_members c) = cc_LastName c"
    by (rule str_field_member [OF plain]; simp add: create_command_members_def)+
  ultimately show ?thesis by (simp add: unmarshal_create_command_def)
qed

definition delete_command_members :: "delete_user_command \<Rightarrow> members" where
  "delete_command_members c =
     omitempty ''session_id'' (dc_SessionID c) @ [(''user_id'', JStr (dc_UserID c))] @
     omitempty ''saga_id'' (dc_SagaID c)"

definition delete_command_ok :: "delete_user_command \<Rightarrow> bool" where
  "delete_command_ok c \<longleftrightarrow> list_all utf8_valid [dc_SessionID c, dc_UserID c, dc_SagaID c]"

lemma unmarshal_delete_command_enc:
  assumes "delete_command_ok c"
  shows "unmarshal_delete_command (enc (JObj (delete_command_members c))) = Inr c"
proof -
  have plain: "plain_members (delete_command_members c)"
    by (simp add: delete_command_members_def omitempty_def plain_members_def plain_key_def)
  have "unmarshal delete_command_strings [] (enc (JObj (delete_command_members c))) = Inr (delete_command_members c)"
    by (rule unmarshal_enc [OF plain])
      (use assms in \<open>simp_all add: delete_command_members_def omitempty_def delete_command_strings_def
        plain_key_def typed_members_def is_str_def delete_command_ok_def\<close>)
  moreover have "str_field ''saga_id'' (delete_command_members c) = dc_SagaID c"
    "str_field ''session_id'' (delete_command_members c) = dc_SessionID c"
    by (rule str_field_omitempty [OF plain]; simp add: delete_command_members_def omitempty_def plain_key_def)+
  moreover have "str_field ''user_id'' (delete_command_members c) = dc_UserID c"
    by (rule str_field_member [OF plain]; simp add: delete_command_members_def)
  ultimately show ?thesis by (simp add: unmarshal_delete_command_def)
qed

section \<open>What a recovery command does\<close>

lemma recovered_effect:
  assumes "pg_inv E w" and R: "ProvideUserRecoverySubscriber E B topic cfg decode encode = Inr R"
    and "recovered R command result userID w w1"
  shows "pg_inv E w1 \<and> w_bus w1 = w_bus w \<and> user_moves (users_view w) (users_view w1) \<and>
    (\<forall>u. result = Some u \<longrightarrow> e_uuid E userID = Some (u_ID u) \<and> users_view w1 (u_ID u) = Some u)"
proof -
  note r = redis_inv_pg [OF assms(1)]
  have svc: "rs_service R = UserService (wired_service E topic)" using provided_recovery [OF R] by simp
  from assms(3) consider
      (create) n f l u where "result = Some u" "CreateUser (wired_service E topic) userID n f l w = (Inr u, w1)"
    | (delete) "result = None" "DeleteUser (wired_service E topic) userID w = (Inr (), w1)"
    | (activate) u where "result = Some u" "ActivateUser (wired_service E topic) userID w = (Inr u, w1)"
    | (deactivate) "result = None" "DeactivateUser (wired_service E topic) userID w = (Inr (), w1)"
    by (auto simp: recovered_def svc split: if_splits)
  then show ?thesis
  proof cases
    case create
    with wired.create_effect [OF assms(1) r create(2)] create_bus [OF assms(1) create(2)] show ?thesis
      by (auto simp: inserts_def intro: inserts_moves)
  next
    case delete
    with wired.delete_effect [OF assms(1) r delete(2)] delete_bus [OF assms(1) delete(2)] show ?thesis
      by (auto intro: removes_moves)
  next
    case activate
    with wired.activate_effect [OF assms(1) r activate(2)]
    have st: "stores activated_from (e_uuid E userID) (users_view w) (users_view w1) u" and "pg_inv E w1" by auto
    with activate activate_bus [OF assms(1) activate(2)] activates_moves [OF st] show ?thesis
      by (auto simp: stores_def)
  next
    case deactivate
    with wired.deactivate_effect [OF assms(1) r deactivate(2)] deactivate_bus [OF assms(1) deactivate(2)] show ?thesis
      by (auto intro: deactivates_moves)
  qed
qed
section \<open>Properties\<close>

text \<open>A broker and a subscriber for the witnesses.\<close>

definition sample_broker :: "world event_broker" where
  "sample_broker = \<lparr>eb_Publish = (\<lambda>_ _ w. (Inr (), w)), eb_Subscribe = (\<lambda>_ _ w. (Inr (), w)),
     eb_RunPullConsumer = (\<lambda>_ _ w. (Inr (), w)), eb_Close = id\<rparr>"

definition sample_saga :: "env \<Rightarrow> world registration_saga_subscriber" where
  "sample_saga E = \<lparr>sg_broker = kafka_backed E sample_broker,
     sg_service = UserService (wired_service E ''user.detailed.requested''),
     sg_resolver = NewDomainFailureReasonResolver, sg_cfg = default_Kafka, sg_now = clock_of E\<rparr>"

lemma sample_saga_provided:
  "ProvideRegistrationSagaSubscriber E sample_broker ''user.detailed.requested'' default_Kafka = Inr (sample_saga E)"
  by (simp add: ProvideRegistrationSagaSubscriber_def NewRegistrationSagaSubscriber_def default_Kafka_def
      sample_saga_def TrimSpace_visible)

definition sample_create :: create_user_command where
  "sample_create = \<lparr>cc_SessionID = ''s1'', cc_UserID = ''U1'', cc_Username = ''alex'', cc_FirstName = ''Alex'',
     cc_LastName = ''Doe'', cc_SagaID = []\<rparr>"

definition sample_create_raw :: string where
  "sample_create_raw = enc (JObj (create_command_members sample_create))"

lemma sample_create_read: "unmarshal_create_command sample_create_raw = Inr sample_create"
  unfolding sample_create_raw_def
  by (rule unmarshal_create_command_enc) (simp add: create_command_ok_def sample_create_def utf8_valid_ascii)

definition sample_delete :: delete_user_command where
  "sample_delete = \<lparr>dc_SessionID = [], dc_UserID = ''u1'', dc_SagaID = ''g7''\<rparr>"

definition sample_delete_raw :: string where
  "sample_delete_raw = enc (JObj (delete_command_members sample_delete))"

lemma sample_delete_read: "unmarshal_delete_command sample_delete_raw = Inr sample_delete"
  unfolding sample_delete_raw_def
  by (rule unmarshal_delete_command_enc) (simp add: delete_command_ok_def sample_delete_def utf8_valid_ascii)

lemma sample_delete_handled:
  "fst (handleDelete (sample_saga sample_env) ''saga.user.delete'' sample_delete_raw sample_world) = Inr ()"
  by (simp add: handleDelete_def sample_delete_read sample_saga_def sample_delete_def run_eval env_eval
      sample_world_users sample_row_def publish_result_def kafka_backed_def KafkaBroker.Publish_def bus_write_def)

lemma sample_create_handled: 
  "fst (handleCreate (sample_saga sample_env) ''saga.user.create'' sample_create_raw empty_world) = Inr ()"
  by (simp add: handleCreate_def sample_create_read sample_saga_def sample_create_def run_eval env_eval
      publish_result_def kafka_backed_def KafkaBroker.Publish_def bus_write_def)

definition bus_down :: "nat set \<Rightarrow> env" where
  "bus_down ns = sample_env\<lparr>e_bus_fault :=
     (\<lambda>n. if n \<in> ns then Lost (Foreign ''kafka: leader not available'') else NoFault)\<rparr>"

lemma bus_down_ok: "env_ok utf8_valid (bus_down ns)"
  using sample_env_ok by (simp add: env_ok_def bus_down_def)

lemma sample_create_unpublished: 
  "fst (handleCreate (sample_saga (bus_down {2})) ''saga.user.create'' sample_create_raw empty_world) = Inl (Foreign ''kafka: leader not available'')"
  by (simp add: handleCreate_def sample_create_read sample_saga_def sample_create_def run_eval env_eval bus_down_def
      publish_result_def kafka_backed_def KafkaBroker.Publish_def bus_write_def)

abbreviation "create_topic cfg \<equiv> k_SagaCreateResultTopic cfg"

text \<open>
  C7. A create command that its handler accepts has exactly one result published, on the result
  topic, and it is that of the service: success when CreateUser succeeds, and then the user is
  stored under the canonical identifier with the names of the command and cached; failed, with the
  reason of its error, when CreateUser fails, and then the stored users are unchanged, unless
  PostgreSQL inserted the user and its reply was lost or the cache write that follows failed.
\<close>

theorem create_command_reported_once:
  assumes "pg_inv E w" and "ProvideRegistrationSagaSubscriber E B topic cfg = Inr S"
    and "unmarshal_create_command raw = Inr cmd" and "handleCreate S subject raw w = (Inr (), w')"
  shows "case fst (CreateUser (wired_service E topic) (cc_UserID cmd) (cc_Username cmd) (cc_FirstName cmd)
        (cc_LastName cmd) w) of
      Inr u \<Rightarrow> saga_reports E (create_topic cfg) (create_success cmd) w w' \<and>
        inserts (command_params cmd) (e_uuid E (cc_UserID cmd)) (users_view w) (users_view w') u \<and>
        preview w' = (preview w)(u_ID u \<mapsto> as_preview u)
    | Inl err \<Rightarrow> saga_reports E (create_topic cfg) (create_failure cmd (CreateUserFailureReason err)) w w' \<and>
        (users_view w' = users_view w \<or>
         (\<exists>u. inserts (command_params cmd) (e_uuid E (cc_UserID cmd)) (users_view w) (users_view w') u) \<and>
         create_cut_short E w)"
  by (rule handleCreate_outcome [OF assms]) auto

theorem create_command_reported_once_witness:
  "let w' = snd (handleCreate (sample_saga sample_env) ''saga.user.create'' sample_create_raw empty_world) in
   case fst (CreateUser (wired_service sample_env ''user.detailed.requested'') ''U1'' ''alex'' ''Alex'' ''Doe'' empty_world) of
     Inr u \<Rightarrow> saga_reports sample_env (create_topic default_Kafka) (create_success sample_create) empty_world w' \<and>
       inserts (command_params sample_create) (e_uuid sample_env (cc_UserID sample_create))
         (users_view empty_world) (users_view w') u \<and>
       preview w' = (preview empty_world)(u_ID u \<mapsto> as_preview u)
   | Inl err \<Rightarrow> saga_reports sample_env (create_topic default_Kafka)
         (create_failure sample_create (CreateUserFailureReason err)) empty_world w' \<and>
       (users_view w' = users_view empty_world \<or>
        (\<exists>u. inserts (command_params sample_create) (e_uuid sample_env (cc_UserID sample_create))
           (users_view empty_world) (users_view w') u) \<and> create_cut_short sample_env empty_world)"
proof -
  let ?w' = "snd (handleCreate (sample_saga sample_env) ''saga.user.create'' sample_create_raw empty_world)"
  have h: "handleCreate (sample_saga sample_env) ''saga.user.create'' sample_create_raw empty_world = (Inr (), ?w')"
    using sample_create_handled by (simp add: prod_eq_iff)
  have inv: "pg_inv sample_env empty_world" using empty_world_ok [OF sample_env_ok] by simp
  have c: "cc_UserID sample_create = ''U1''" "cc_Username sample_create = ''alex''" "cc_FirstName sample_create = ''Alex''"
    "cc_LastName sample_create = ''Doe''" by (simp_all add: sample_create_def)
  from create_command_reported_once [OF inv sample_saga_provided sample_create_read h] show ?thesis
    unfolding c Let_def .
qed

theorem redelivered_create_reports_failure:
  assumes "pg_inv E w" and "ProvideRegistrationSagaSubscriber E B topic cfg = Inr S"
    and "unmarshal_create_command raw = Inr cmd" and "handleCreate S subject raw w = (Inl e, w1)"
    and "users_view w1 \<noteq> users_view w"
  shows "case handleCreate S subject raw w1 of (r, w2) \<Rightarrow>
    users_view w2 = users_view w1 \<and>
    (r = Inr () \<longrightarrow> (\<exists>err. saga_reports E (create_topic cfg)
       (create_failure cmd (CreateUserFailureReason err)) w1 w2))"
proof -
  obtain r w2 where h: "handleCreate S subject raw w1 = (r, w2)" by fastforce
  from handleCreate_outcome [OF assms(1-4)] assms(5)
  obtain k where k: "e_uuid E (cc_UserID cmd) = Some k" "users_view w1 k \<noteq> None" and inv: "pg_inv E w1"
    by (metis (no_types, lifting) inserts_def fun_upd_same option.distinct(1))
  show ?thesis
    by (rule handleCreate_outcome [OF inv assms(2,3) h]) (use k h in \<open>auto simp: inserts_def\<close>)
qed

theorem redelivered_create_reports_failure_witness:
  "let E = bus_down {2}; w1 = snd (handleCreate (sample_saga E) ''saga.user.create'' sample_create_raw empty_world) in
   case handleCreate (sample_saga E) ''saga.user.create'' sample_create_raw w1 of (r, w2) \<Rightarrow>
    users_view w2 = users_view w1 \<and>
    (r = Inr () \<longrightarrow> (\<exists>err. saga_reports E (create_topic default_Kafka)
       (create_failure sample_create (CreateUserFailureReason err)) w1 w2))"
  unfolding Let_def
proof (rule redelivered_create_reports_failure [OF _ sample_saga_provided sample_create_read])
  show "pg_inv (bus_down {2}) empty_world" using empty_world_ok [OF bus_down_ok] by simp
  show "handleCreate (sample_saga (bus_down {2})) ''saga.user.create'' sample_create_raw empty_world =
      (Inl (Foreign ''kafka: leader not available''),
       snd (handleCreate (sample_saga (bus_down {2})) ''saga.user.create'' sample_create_raw empty_world))"
    using sample_create_unpublished by (simp add: prod_eq_iff)
  show "users_view (snd (handleCreate (sample_saga (bus_down {2})) ''saga.user.create'' sample_create_raw empty_world))
      \<noteq> users_view empty_world"
    by (rule notI, drule fun_cong [of _ _ "''u1''"])
      (simp add: handleCreate_def sample_create_read sample_saga_def sample_create_def run_eval env_eval bus_down_def
        publish_result_def kafka_backed_def KafkaBroker.Publish_def bus_write_def users_view_def)
qed

text \<open>
  C10. A delete command that its handler accepts has exactly one result published, on the result
  topic, and it is that of the service: success when DeleteUser succeeds, and then the user is
  gone from the table and its preview from the cache; failed, with the reason of its error, when
  DeleteUser fails, and then the stored users are unchanged, unless PostgreSQL removed the user
  and its reply was lost, its row count could not be read, or the removal of the cache entry
  failed.
\<close>

theorem delete_command_reported_once:
  assumes "pg_inv E w" and "ProvideRegistrationSagaSubscriber E B topic cfg = Inr S"
    and "unmarshal_delete_command raw = Inr cmd" and "handleDelete S subject raw w = (Inr (), w')"
  shows "case fst (DeleteUser (wired_service E topic) (dc_UserID cmd) w) of
      Inr _ \<Rightarrow> saga_reports E (k_SagaDeleteResultTopic cfg) (delete_success cmd) w w' \<and>
        removes (e_uuid E (dc_UserID cmd)) (users_view w) (users_view w') \<and>
        preview w' = (preview w)(dc_UserID cmd := None)
    | Inl err \<Rightarrow> saga_reports E (k_SagaDeleteResultTopic cfg) (delete_failure cmd (DeleteUserFailureReason err)) w w' \<and>
        (users_view w' = users_view w \<or>
         removes (e_uuid E (dc_UserID cmd)) (users_view w) (users_view w') \<and> delete_cut_short E w)"
  by (rule handleDelete_outcome [OF assms]) auto

theorem delete_command_reported_once_witness:
  "let w' = snd (handleDelete (sample_saga sample_env) ''saga.user.delete'' sample_delete_raw sample_world) in
   case fst (DeleteUser (wired_service sample_env ''user.detailed.requested'') (dc_UserID sample_delete) sample_world) of
     Inr _ \<Rightarrow> saga_reports sample_env (k_SagaDeleteResultTopic default_Kafka) (delete_success sample_delete) sample_world w' \<and>
       removes (e_uuid sample_env (dc_UserID sample_delete)) (users_view sample_world) (users_view w') \<and>
       preview w' = (preview sample_world)(dc_UserID sample_delete := None)
   | Inl err \<Rightarrow> saga_reports sample_env (k_SagaDeleteResultTopic default_Kafka)
         (delete_failure sample_delete (DeleteUserFailureReason err)) sample_world w' \<and>
       (users_view w' = users_view sample_world \<or>
        removes (e_uuid sample_env (dc_UserID sample_delete)) (users_view sample_world) (users_view w') \<and>
        delete_cut_short sample_env sample_world)"
  unfolding Let_def
  by (rule delete_command_reported_once [OF sample_inv sample_saga_provided sample_delete_read])
    (use sample_delete_handled in \<open>auto simp: prod_eq_iff\<close>)

lemma recovery_operation_effect:
  assumes "pg_inv E w" and R: "ProvideUserRecoverySubscriber E B topic cfg decode encode = Inr R"
    and "recovery_operation R command w = (x, w1)"
  shows "pg_inv E w1 \<and> w_bus w1 = w_bus w \<and> user_moves (users_view w) (users_view w1)"
proof -
  let ?svc = "wired_service E topic"
  have svc: "rs_service R = UserService ?svc" using provided_recovery [OF R] by simp
  have served: "pg_inv E (serve ?svc c w) \<and> user_moves (users_view w) (users_view (serve ?svc c w))" for c
    using wired.serve_effect [OF assms(1) redis_inv_pg [OF assms(1)], of topic c] by simp
  from assms(3) consider (none) "w1 = w"
    | (create) i n f l y where "CreateUser ?svc i n f l w = (y, w1)"
    | (delete) i z where "DeleteUser ?svc i w = (z, w1)"
    | (activate) i y where "ActivateUser ?svc i w = (y, w1)"
    | (deactivate) i z where "DeactivateUser ?svc i w = (z, w1)"
    unfolding recovery_operation_def Let_def svc
    by (auto split: sum.splits prod.splits if_splits)
  then show ?thesis
  proof cases
    case none
    with assms(1) show ?thesis by simp
  next
    case create
    with served [of "CallCreateUser i n f l"] create_bus [OF assms(1) create] show ?thesis by simp
  next
    case delete
    with served [of "CallDeleteUser i"] delete_bus [OF assms(1) delete] show ?thesis by simp
  next
    case activate
    with served [of "CallActivateUser i"] activate_bus [OF assms(1) activate] show ?thesis by simp
  next
    case deactivate
    with served [of "CallDeactivateUser i"] deactivate_bus [OF assms(1) deactivate] show ?thesis by simp
  qed
qed

text \<open>The completion of a command was published after its operation had succeeded.\<close>

definition completion_published :: "env \<Rightarrow> world user_recovery_subscriber \<Rightarrow> string \<Rightarrow> world \<Rightarrow> world \<Rightarrow> bool" where
  "completion_published E R raw w w' \<longleftrightarrow>
    (\<exists>command result userID t payload w1.
       rs_decode R raw = Inr command \<and> en_AggregateType command \<in> {''user'', ''users''} \<and>
       recovered R command result userID w w1 \<and> users_view w' = users_view w1 \<and>
       rs_encode R (recovery_completed command result userID t) = Inr payload \<and>
       published E (k_RecoveryCompletedTopic (rs_cfg R)) payload w w')"

text \<open>
  C12. A recovery command moves the stored users by at most one step of the life cycle, publishes
  nothing or one completion, and a completion only after the operation of the command has
  succeeded; a handler that returns no error has published it.
\<close>

theorem recovery_completed_only_after_success:
  assumes "pg_inv E w" and "ProvideUserRecoverySubscriber E B topic cfg decode encode = Inr R"
    and "recovery_handle R subject raw w = (r, w')"
  shows "user_moves (users_view w) (users_view w') \<and> pg_inv E w' \<and>
    (w_bus w' = w_bus w \<or> completion_published E R raw w w') \<and>
    (r = Inr () \<longrightarrow> completion_published E R raw w w')"
proof (cases "decode raw")
  case (Inl err)
  with assms provided_recovery [OF assms(2)] show ?thesis
    by (auto simp: recovery_handle_def)
next
  case (Inr command)
  note p = provided_recovery [OF assms(2)]
  obtain x w1 where op: "recovery_operation R command w = (x, w1)" by fastforce
  note eff = recovery_operation_effect [OF assms(1,2) op]
  show ?thesis
  proof (cases "en_AggregateType command \<in> {''user'', ''users''} \<and> (\<exists>res id payload. x = Inr (res, id) \<and>
      rs_encode R (recovery_completed command res id (rs_now R w1)) = Inr payload)")
    case False
    with Inr assms(1,3) p op eff show ?thesis
      by (cases x) (auto simp: recovery_handle_def split: sum.splits if_splits)
  next
    case True
    then obtain res id payload where x: "x = Inr (res, id)" "en_AggregateType command \<in> {''user'', ''users''}"
      and enc: "rs_encode R (recovery_completed command res id (rs_now R w1)) = Inr payload" by auto
    have q: "KafkaBroker.Publish E (k_RecoveryCompletedTopic (rs_cfg R)) payload w1 = (r, w')"
      using Inr assms(3) p op x enc by (auto simp: recovery_handle_def)
    have "published E (k_RecoveryCompletedTopic (rs_cfg R)) payload w1 w' \<Longrightarrow> completion_published E R raw w w'"
      using Publish_outcome [OF q] recovery_operation_ok [of R command w res id w1] op x enc Inr p eff
      unfolding completion_published_def published_def by metis
    with Publish_outcome [OF q] eff show ?thesis by auto
  qed
qed

definition sample_envelope :: envelope where
  "sample_envelope = \<lparr>en_EventID = ''e1'', en_CommandID = ''c1'', en_CorrelationID = [], en_CausationID = [],
     en_IdempotencyKey = ''k1'', en_TestRunID = [], en_EventType = ''migration.recovery'',
     en_Operation = ''Delete'', en_SchemaVersion = 1, en_AggregateType = ''user'', en_AggregateID = ''u1'',
     en_SourceService = ''monolith'', en_RecoveryPrincipalID = [], en_OccurredAt = 0, en_Payload = []\<rparr>"

definition sample_recovery :: "world user_recovery_subscriber" where
  "sample_recovery = \<lparr>rs_broker = kafka_backed sample_env sample_broker, rs_service = UserService sample_service,
     rs_cfg = default_Kafka, rs_now = clock_of sample_env, rs_decode = (\<lambda>_. Inr sample_envelope),
     rs_encode = (\<lambda>e. Inr (en_EventID e))\<rparr>"

theorem recovery_completed_only_after_success_witness:
  "let (r, w') = recovery_handle sample_recovery ''migration.recovery.commands.user'' [] sample_world in
   user_moves (users_view sample_world) (users_view w') \<and> pg_inv sample_env w' \<and>
    (w_bus w' = w_bus sample_world \<or> completion_published sample_env sample_recovery [] sample_world w') \<and>
    (r = Inr () \<longrightarrow> completion_published sample_env sample_recovery [] sample_world w')"
proof -
  have "ProvideUserRecoverySubscriber sample_env sample_broker ''user.detailed.requested'' default_Kafka
      (\<lambda>_. Inr sample_envelope) (\<lambda>e. Inr (en_EventID e)) = Inr sample_recovery"
    by (simp add: ProvideUserRecoverySubscriber_def NewUserRecoverySubscriber_def sample_recovery_def)
  from recovery_completed_only_after_success [OF sample_inv this surjective_pairing] show ?thesis
    by (simp add: case_prod_unfold)
qed

end
