(* ===== verification/NatsPull.thy ===== *)
theory NatsPull
  imports Config
begin

text \<open>
  Pull-consumer settings of the NATS transport: the package's errors (error.go), the validator
  (pull_consumer_validator.go), the adaptive plans (ResolvePullPlan in broker.go) and the two
  places that build a configuration from NATSConfig.
\<close>

section \<open>Errors\<close>

definition ErrEmptyNATSURL :: goerr where
  "ErrEmptyNATSURL = Sentinel ''nats'' ''nats url is empty''"

definition ErrNilLogger :: goerr where
  "ErrNilLogger = Sentinel ''nats'' ''logger is nil''"

definition ErrNilBroker :: goerr where
  "ErrNilBroker = Sentinel ''nats'' ''event broker is nil''"

definition ErrNilUserService :: goerr where
  "ErrNilUserService = Sentinel ''nats'' ''user service is nil''"

definition ErrNilUserReadRepository :: goerr where
  "ErrNilUserReadRepository = Sentinel ''nats'' ''user read repository is nil''"

definition ErrNilFailureReasonResolver :: goerr where
  "ErrNilFailureReasonResolver = Sentinel ''nats'' ''failure reason resolver is nil''"

definition ErrEmptyStreamName :: goerr where
  "ErrEmptyStreamName = Sentinel ''nats'' ''stream name is empty''"

definition ErrEmptySubject :: goerr where
  "ErrEmptySubject = Sentinel ''nats'' ''subject is empty''"

definition ErrEmptyDurableName :: goerr where
  "ErrEmptyDurableName = Sentinel ''nats'' ''durable name is empty''"

definition ErrInvalidBatchSize :: goerr where
  "ErrInvalidBatchSize = Sentinel ''nats'' ''batch size must be greater than zero''"

definition ErrInvalidMaxWait :: goerr where
  "ErrInvalidMaxWait = Sentinel ''nats'' ''max wait must be greater than zero''"

definition ErrInvalidWorkerCount :: goerr where
  "ErrInvalidWorkerCount = Sentinel ''nats'' ''worker count must be greater than zero''"

definition ErrInvalidQueueSize :: goerr where
  "ErrInvalidQueueSize = Sentinel ''nats'' ''queue size must be greater than zero''"

definition ErrInvalidAckWait :: goerr where
  "ErrInvalidAckWait = Sentinel ''nats'' ''ack wait must be greater than zero''"

definition ErrInvalidMaxDeliver :: goerr where
  "ErrInvalidMaxDeliver = Sentinel ''nats'' ''max deliver must be greater than zero''"

definition ErrInvalidAdaptiveCheckInterval :: goerr where
  "ErrInvalidAdaptiveCheckInterval =
     Sentinel ''nats'' ''adaptive check interval must be greater than zero''"

definition ErrInvalidAdaptiveThresholds :: goerr where
  "ErrInvalidAdaptiveThresholds =
     Sentinel ''nats'' ''adaptive thresholds must satisfy: high > medium >= 0''"

definition ErrInvalidAdaptivePlan :: goerr where
  "ErrInvalidAdaptivePlan =
     Sentinel ''nats'' ''adaptive plan batch size and max wait must be greater than zero''"

definition ErrInvalidDetailedUserPayload :: goerr where
  "ErrInvalidDetailedUserPayload = Sentinel ''nats'' ''invalid detailed user payload''"

definition WrapConnectToNATSError :: "goerr \<Rightarrow> goerr" where
  "WrapConnectToNATSError err = wrap_msg ''connect to nats'' err"

definition WrapPublishToNATSError :: "string \<Rightarrow> goerr \<Rightarrow> goerr" where
  "WrapPublishToNATSError subject err = wrap_msg (''publish to nats ('' @ subject @ '')'') err"

definition WrapSubscribeToNATSError :: "string \<Rightarrow> goerr \<Rightarrow> goerr" where
  "WrapSubscribeToNATSError subject err = wrap_msg (''subscribe to nats ('' @ subject @ '')'') err"

definition WrapFlushNATSPublisherError :: "goerr \<Rightarrow> goerr" where
  "WrapFlushNATSPublisherError err = wrap_msg ''flush nats publisher'' err"

definition WrapInitJetStreamContextError :: "goerr \<Rightarrow> goerr" where
  "WrapInitJetStreamContextError err = wrap_msg ''init jetstream context'' err"

definition WrapEnsureConsumerError :: "string \<Rightarrow> string \<Rightarrow> goerr \<Rightarrow> goerr \<Rightarrow> goerr" where
  "WrapEnsureConsumerError streamName durableName addErr updateErr =
     Wrapped (''ensure consumer '' @ go_quote durableName @ '' in stream '' @ go_quote streamName @
       '': add err='' @ error_text addErr @ '', update err='' @ error_text updateErr) updateErr"

definition WrapCreatePullSubscriberError :: "string \<Rightarrow> string \<Rightarrow> goerr \<Rightarrow> goerr" where
  "WrapCreatePullSubscriberError subject durable err =
     wrap_msg (''create pull subscriber subject='' @ go_quote subject @ '' durable='' @ go_quote durable) err"

definition WrapUnmarshalCreateUserCommandError :: "goerr \<Rightarrow> goerr" where
  "WrapUnmarshalCreateUserCommandError err = wrap_msg ''unmarshal create user command'' err"

definition WrapUnmarshalDeleteUserCommandError :: "goerr \<Rightarrow> goerr" where
  "WrapUnmarshalDeleteUserCommandError err = wrap_msg ''unmarshal delete user command'' err"

definition WrapMarshalDetailedUserRequestedError :: "goerr \<Rightarrow> goerr" where
  "WrapMarshalDetailedUserRequestedError err = wrap_msg ''marshal detailed user requested event'' err"

definition WrapUnmarshalDetailedUserRequestedError :: "goerr \<Rightarrow> goerr" where
  "WrapUnmarshalDetailedUserRequestedError err = wrap_msg ''unmarshal detailed user requested event'' err"

definition WrapMarshalDetailedUserProjectionError :: "goerr \<Rightarrow> goerr" where
  "WrapMarshalDetailedUserProjectionError err = wrap_msg ''marshal detailed user projection event'' err"

definition WrapUnmarshalDetailedUserProjectionError :: "goerr \<Rightarrow> goerr" where
  "WrapUnmarshalDetailedUserProjectionError err = wrap_msg ''unmarshal detailed user projection event'' err"

section \<open>Validation\<close>

text \<open>The error of the first check that fails, in the order of the code.\<close>

definition Validate :: "pull_consumer_config \<Rightarrow> goerr option" where
  "Validate cfg =
    (if pc_Stream cfg = [] then Some ErrEmptyStreamName
     else if pc_Subject cfg = [] then Some ErrEmptySubject
     else if pc_Durable cfg = [] then Some ErrEmptyDurableName
     else if pc_BatchSize cfg \<le> 0 then Some ErrInvalidBatchSize
     else if pc_MaxWait cfg \<le> 0 then Some ErrInvalidMaxWait
     else if pc_Workers cfg \<le> 0 then Some ErrInvalidWorkerCount
     else if pc_QueueSize cfg \<le> 0 then Some ErrInvalidQueueSize
     else if pc_AckWait cfg \<le> 0 then Some ErrInvalidAckWait
     else if pc_MaxDeliver cfg \<le> 0 then Some ErrInvalidMaxDeliver
     else if \<not> a_Enabled (pc_Adaptive cfg) then None
     else if a_CheckInterval (pc_Adaptive cfg) \<le> 0 then Some ErrInvalidAdaptiveCheckInterval
     else if a_MediumPending (pc_Adaptive cfg) < 0 \<or>
             a_HighPending (pc_Adaptive cfg) \<le> a_MediumPending (pc_Adaptive cfg)
       then Some ErrInvalidAdaptiveThresholds
     else if a_LowBatchSize (pc_Adaptive cfg) \<le> 0 \<or> a_LowMaxWait (pc_Adaptive cfg) \<le> 0 \<or>
             a_MediumBatchSize (pc_Adaptive cfg) \<le> 0 \<or> a_MediumMaxWait (pc_Adaptive cfg) \<le> 0 \<or>
             a_HighBatchSize (pc_Adaptive cfg) \<le> 0 \<or> a_HighMaxWait (pc_Adaptive cfg) \<le> 0
       then Some ErrInvalidAdaptivePlan
     else None)"

text \<open>What a configuration has to satisfy, independent of the order of the checks.\<close>

definition adaptive_ok :: "pull_adaptive_config \<Rightarrow> bool" where
  "adaptive_ok a \<longleftrightarrow>
     0 < a_CheckInterval a \<and> 0 \<le> a_MediumPending a \<and> a_MediumPending a < a_HighPending a \<and>
     (\<forall>n\<in>{a_LowBatchSize a, a_MediumBatchSize a, a_HighBatchSize a}. 0 < n) \<and>
     (\<forall>t\<in>{a_LowMaxWait a, a_MediumMaxWait a, a_HighMaxWait a}. 0 < t)"

definition consumer_ok :: "pull_consumer_config \<Rightarrow> bool" where
  "consumer_ok cfg \<longleftrightarrow>
     [] \<notin> {pc_Stream cfg, pc_Subject cfg, pc_Durable cfg} \<and>
     (\<forall>n\<in>{pc_BatchSize cfg, pc_MaxWait cfg, pc_Workers cfg, pc_QueueSize cfg, pc_AckWait cfg,
            pc_MaxDeliver cfg}. 0 < n) \<and>
     (a_Enabled (pc_Adaptive cfg) \<longrightarrow> adaptive_ok (pc_Adaptive cfg))"

lemma Validate_ok: "Validate cfg = None \<longleftrightarrow> consumer_ok cfg"
  by (auto simp: Validate_def consumer_ok_def adaptive_ok_def)

section \<open>Plans\<close>

type_synonym plan = "string \<times> int \<times> time"

definition ResolvePullPlan :: "pull_consumer_config \<Rightarrow> int \<Rightarrow> plan" where
  "ResolvePullPlan cfg pending =
    (let a = pc_Adaptive cfg in
     if \<not> a_Enabled a then (''base'', pc_BatchSize cfg, pc_MaxWait cfg)
     else if pending \<ge> a_HighPending a then (''high'', a_HighBatchSize a, a_HighMaxWait a)
     else if pending \<ge> a_MediumPending a then (''medium'', a_MediumBatchSize a, a_MediumMaxWait a)
     else (''low'', a_LowBatchSize a, a_LowMaxWait a))"

definition plans :: "pull_consumer_config \<Rightarrow> plan set" where
  "plans cfg =
    (let a = pc_Adaptive cfg in
     {(''base'', pc_BatchSize cfg, pc_MaxWait cfg), (''low'', a_LowBatchSize a, a_LowMaxWait a),
      (''medium'', a_MediumBatchSize a, a_MediumMaxWait a), (''high'', a_HighBatchSize a, a_HighMaxWait a)})"

lemma ResolvePullPlan_in: "ResolvePullPlan cfg pending \<in> plans cfg"
  by (simp add: ResolvePullPlan_def plans_def Let_def)

definition sound_plan :: "plan \<Rightarrow> bool" where
  "sound_plan p \<longleftrightarrow> (case p of (tier, batch, wait) \<Rightarrow> 0 < batch \<and> 0 < wait)"

lemma ResolvePullPlan_sound: "consumer_ok cfg \<Longrightarrow> sound_plan (ResolvePullPlan cfg pending)"
  by (auto simp: ResolvePullPlan_def consumer_ok_def adaptive_ok_def sound_plan_def Let_def)

text \<open>The tiers in the order of the backlog they are for.\<close>

definition tier_rank :: "plan \<Rightarrow> nat" where
  "tier_rank p = (if fst p = ''high'' then 2 else if fst p = ''medium'' then 1 else 0)"

lemma tier_rank_plans:
  assumes "consumer_ok cfg" and "a_Enabled (pc_Adaptive cfg)"
  shows "tier_rank (ResolvePullPlan cfg pending) =
    (if a_HighPending (pc_Adaptive cfg) \<le> pending then 1 else 0) +
    (if a_MediumPending (pc_Adaptive cfg) \<le> pending then 1 else 0)"
  using assms by (auto simp: tier_rank_def ResolvePullPlan_def consumer_ok_def adaptive_ok_def Let_def)

section \<open>Configurations\<close>

definition BuildAdaptiveConfig :: "nats_config \<Rightarrow> pull_adaptive_config" where
  "BuildAdaptiveConfig cfg =
    \<lparr>a_Enabled = n_SagaAdaptiveEnabled cfg, a_CheckInterval = n_SagaAdaptiveCheckInterval cfg,
     a_MediumPending = n_SagaAdaptiveMediumPending cfg, a_HighPending = n_SagaAdaptiveHighPending cfg,
     a_LowBatchSize = n_SagaAdaptiveLowBatchSize cfg, a_LowMaxWait = n_SagaAdaptiveLowMaxWait cfg,
     a_MediumBatchSize = n_SagaAdaptiveMediumBatchSize cfg,
     a_MediumMaxWait = n_SagaAdaptiveMediumMaxWait cfg,
     a_HighBatchSize = n_SagaAdaptiveHighBatchSize cfg, a_HighMaxWait = n_SagaAdaptiveHighMaxWait cfg\<rparr>"

definition buildPullConsumerConfig :: "nats_config \<Rightarrow> string \<Rightarrow> string \<Rightarrow> pull_consumer_config" where
  "buildPullConsumerConfig cfg subject durable =
    \<lparr>pc_GroupID = [], pc_Stream = n_SagaCommandsStream cfg, pc_Subject = subject, pc_Durable = durable,
     pc_BatchSize = n_SagaBatchSize cfg, pc_MaxWait = n_SagaMaxWait cfg, pc_Workers = n_SagaWorkers cfg,
     pc_QueueSize = n_SagaQueueSize cfg, pc_AckWait = n_SagaAckWait cfg,
     pc_MaxDeliver = n_SagaMaxDeliver cfg, pc_Adaptive = BuildAdaptiveConfig cfg\<rparr>"

definition projection_consumer_config :: "nats_config \<Rightarrow> pull_consumer_config" where
  "projection_consumer_config cfg =
    \<lparr>pc_GroupID = [], pc_Stream = n_UserDetailedStream cfg,
     pc_Subject = n_UserDetailedProjectionSubject cfg, pc_Durable = n_UserDetailedProjectionDurable cfg,
     pc_BatchSize = n_UserDetailedProjectionBatchSize cfg, pc_MaxWait = n_UserDetailedProjectionMaxWait cfg,
     pc_Workers = n_UserDetailedProjectionWorkers cfg, pc_QueueSize = n_UserDetailedProjectionQueueSize cfg,
     pc_AckWait = n_UserDetailedProjectionAckWait cfg,
     pc_MaxDeliver = n_UserDetailedProjectionMaxDeliver cfg, pc_Adaptive = zero_adaptive\<rparr>"

text \<open>The configuration the defaults give, with adaptive plans on or off, passes the validator.\<close>

lemma default_consumers_ok:
  "consumer_ok (projection_consumer_config default_NATS)"
  "subject \<noteq> [] \<Longrightarrow> durable \<noteq> [] \<Longrightarrow>
     consumer_ok (buildPullConsumerConfig (default_NATS\<lparr>n_SagaAdaptiveEnabled := b\<rparr>) subject durable)"
  by (simp_all add: consumer_ok_def adaptive_ok_def projection_consumer_config_def default_NATS_def
      zero_adaptive_def buildPullConsumerConfig_def BuildAdaptiveConfig_def second_def millisecond_def)

theorem default_consumers_are_accepted:
  "Validate (projection_consumer_config default_NATS) = None \<and>
   Validate (buildPullConsumerConfig (default_NATS\<lparr>n_SagaAdaptiveEnabled := b\<rparr>)
     (n_SagaCreateUserSubject default_NATS) (n_SagaCreateUserDurable default_NATS)) = None \<and>
   Validate (buildPullConsumerConfig (default_NATS\<lparr>n_SagaAdaptiveEnabled := b\<rparr>)
     (n_SagaDeleteUserSubject default_NATS) (n_SagaDeleteUserDurable default_NATS)) = None"
  unfolding Validate_ok
  by (intro conjI default_consumers_ok) (simp_all add: default_NATS_def)

text \<open>
  C28. For accepted settings every plan has a positive batch size and wait, and a larger backlog
  never gives a lower tier.
\<close>

theorem accepted_plans_are_sound_and_monotone:
  assumes "Validate cfg = None" and "pending \<le> pending'"
  shows "sound_plan (ResolvePullPlan cfg pending) \<and>
    tier_rank (ResolvePullPlan cfg pending) \<le> tier_rank (ResolvePullPlan cfg pending')"
proof (cases "a_Enabled (pc_Adaptive cfg)")
  case True
  with assms tier_rank_plans ResolvePullPlan_sound show ?thesis by (simp add: Validate_ok)
next
  case False
  with assms show ?thesis
    using ResolvePullPlan_sound [of cfg pending] by (simp add: Validate_ok ResolvePullPlan_def Let_def)
qed

definition adaptive_consumer :: pull_consumer_config where
  "adaptive_consumer =
     buildPullConsumerConfig (default_NATS\<lparr>n_SagaAdaptiveEnabled := True\<rparr>) ''saga.user.create'' ''d''"

theorem accepted_plans_are_sound_and_monotone_witness:
  "sound_plan (ResolvePullPlan adaptive_consumer 3) \<and>
    tier_rank (ResolvePullPlan adaptive_consumer 3) \<le> tier_rank (ResolvePullPlan adaptive_consumer 2000)"
  unfolding adaptive_consumer_def
  by (rule accepted_plans_are_sound_and_monotone) (simp_all add: Validate_ok default_consumers_ok)

text \<open>
  C23. The validator, a chain of checks with one error each, accepts exactly the settings that
  satisfy the declarative specification: names present, numbers positive, and thresholds ordered
  and plans positive when adaptive pulling is on.
\<close>

theorem validator_accepts_exactly_the_sound_settings:
  "Validate cfg = None \<longleftrightarrow> consumer_ok cfg"
  by (rule Validate_ok)

end
