(* ===== verification/NatsBroker.thy ===== *)
theory NatsBroker
  imports KafkaBroker NatsPull
begin

text \<open>
  The NATS broker (broker.go) over a connection of the NATS client library, which is a parameter:
  a record of the methods of natsConn the code calls. A publication is a send that the client
  buffers and a flush that waits for the server, with the caller's deadline or five seconds. A
  push subscription hands every message to the handler once; what the handler returns is logged
  and dropped.

  The contract of the broker interface is interpreted on this broker over a connection that
  appends to the messages of the world, with the faults of the environment.
\<close>

section \<open>Connection\<close>

type_synonym 's msg_callback = "string \<Rightarrow> string \<Rightarrow> 's \<Rightarrow> 's"

record 's nats_conn =
  nc_PublishMsg :: "string \<Rightarrow> string \<Rightarrow> (goerr, unit, 's) io"
  nc_Subscribe :: "string \<Rightarrow> 's msg_callback \<Rightarrow> (goerr, unit, 's) io"
  nc_FlushWithContext :: "time \<Rightarrow> (goerr, unit, 's) io"
  nc_Close :: "'s \<Rightarrow> 's"

record connect_options =
  co_Name :: string
  co_MaxReconnects :: int
  co_UserInfo :: "(string \<times> string) option"

text \<open>The broker: its connection, absent in the zero value, and the clock the flush reads.\<close>

record 's nats_broker =
  nb_nc :: "'s nats_conn option"
  nb_now :: "'s \<Rightarrow> time"

definition connect_options_of :: "nats_config \<Rightarrow> connect_options" where
  "connect_options_of cfg =
    \<lparr>co_Name = ''user-service'', co_MaxReconnects = -1,
     co_UserInfo = (if n_User cfg \<noteq> [] then Some (n_User cfg, n_Password cfg) else None)\<rparr>"

definition NewBroker :: "(string \<Rightarrow> connect_options \<Rightarrow> goerr + 's nats_conn) \<Rightarrow> ('s \<Rightarrow> time)
    \<Rightarrow> nats_config \<Rightarrow> unit option \<Rightarrow> goerr + 's nats_broker" where
  "NewBroker connect now cfg log =
    (if n_URL cfg = [] then Inl ErrEmptyNATSURL
     else if log = None then Inl ErrNilLogger
     else case connect (n_URL cfg) (connect_options_of cfg) of
            Inl err \<Rightarrow> Inl (WrapConnectToNATSError err)
          | Inr nc \<Rightarrow> Inr \<lparr>nb_nc = Some nc, nb_now = now\<rparr>)"

section \<open>Operations\<close>

definition flush_deadline :: "time option \<Rightarrow> time \<Rightarrow> time" where
  "flush_deadline deadline now = (case deadline of Some t \<Rightarrow> t | None \<Rightarrow> now + 5 * second)"

definition Flush :: "time option \<Rightarrow> ('s \<Rightarrow> time) \<Rightarrow> 's nats_conn \<Rightarrow> (goerr, unit, 's) io" where
  "Flush deadline now nc s = nc_FlushWithContext nc (flush_deadline deadline (now s)) s"

definition Publish :: "'s nats_conn \<Rightarrow> ('s \<Rightarrow> time) \<Rightarrow> time option \<Rightarrow> string \<Rightarrow> string
    \<Rightarrow> (goerr, unit, 's) io" where
  "Publish nc now deadline subject payload s =
    (case nc_PublishMsg nc subject payload s of
       (Inl err, s1) \<Rightarrow> (Inl (WrapPublishToNATSError subject err), s1)
     | (Inr _, s1) \<Rightarrow>
         (case Flush deadline now nc s1 of
            (Inl err, s2) \<Rightarrow> (Inl (WrapFlushNATSPublisherError err), s2)
          | (Inr _, s2) \<Rightarrow> (Inr (), s2)))"

definition push_callback :: "'s message_handler \<Rightarrow> 's msg_callback" where
  "push_callback handler subject data s =
    (case handler subject data s of (Inl err, s1) \<Rightarrow> s1 | (Inr _, s1) \<Rightarrow> s1)"

definition Subscribe :: "'s nats_conn \<Rightarrow> ('s \<Rightarrow> time) \<Rightarrow> time option \<Rightarrow> string \<Rightarrow> 's message_handler
    \<Rightarrow> (goerr, unit, 's) io" where
  "Subscribe nc now deadline subject handler s =
    (case nc_Subscribe nc subject (push_callback handler) s of
       (Inl err, s1) \<Rightarrow> (Inl (WrapSubscribeToNATSError subject err), s1)
     | (Inr _, s1) \<Rightarrow>
         (case Flush deadline now nc s1 of
            (Inl err, s2) \<Rightarrow> (Inl (WrapFlushNATSPublisherError err), s2)
          | (Inr _, s2) \<Rightarrow> (Inr (), s2)))"

definition Close :: "'s nats_broker \<Rightarrow> 's \<Rightarrow> 's" where
  "Close b s = (case nb_nc b of None \<Rightarrow> s | Some nc \<Rightarrow> nc_Close nc s)"

section \<open>A connection to the world's topics\<close>

definition world_conn :: "env \<Rightarrow> world nats_conn" where
  "world_conn E =
    \<lparr>nc_PublishMsg = (\<lambda>subject data. ext_call (e_bus_fault E) (bus_write subject data)),
     nc_Subscribe = (\<lambda>subject cb. ext_call (e_bus_fault E) (\<lambda>w. (Inr (), w))),
     nc_FlushWithContext = (\<lambda>deadline. ext_call (e_bus_fault E) (\<lambda>w. (Inr (), w))),
     nc_Close = id\<rparr>"

definition verbatim :: "string \<Rightarrow> string \<Rightarrow> string \<Rightarrow> bool" where
  "verbatim subject payload body \<longleftrightarrow> body = payload"

lemma world_conn_flush:
  assumes "Flush deadline now (world_conn E) w = (r, w')"
  shows "bus_kept w' = bus_kept w \<and> w_bus w' = w_bus w"
  using assms
  by (auto simp: Flush_def world_conn_def ext_call_def bus_kept_def Let_def split: fault.splits)

lemma world_conn_publish:
  assumes "nc_PublishMsg (world_conn E) subject payload w = (r, w')"
  shows "bus_kept w' = bus_kept w \<and>
    (case r of Inr _ \<Rightarrow> w_bus w' = w_bus w @ [(subject, payload)]
     | Inl e \<Rightarrow> w_bus w' = w_bus w \<or> w_bus w' = w_bus w @ [(subject, payload)])"
  using assms
  by (auto simp: world_conn_def ext_call_def bus_write_def bus_kept_def Let_def split: fault.splits)

lemma nats_Publish_effect:
  assumes "Publish (world_conn E) now deadline subject payload w = (r, w')"
  shows "bus_kept w' = bus_kept w \<and>
    (case r of Inr _ \<Rightarrow> w_bus w' = w_bus w @ [(subject, payload)]
     | Inl e \<Rightarrow> w_bus w' = w_bus w \<or> w_bus w' = w_bus w @ [(subject, payload)])"
proof -
  obtain x w1 where p: "nc_PublishMsg (world_conn E) subject payload w = (x, w1)" by fastforce
  obtain y w2 where f: "Flush deadline now (world_conn E) w1 = (y, w2)" by fastforce
  from p f world_conn_publish [OF p] world_conn_flush [OF f] assms show ?thesis
    by (cases x; cases y) (auto simp: Publish_def)
qed

interpretation nats: publisher_contract "Publish (world_conn E) now deadline" w_bus verbatim bus_kept
  for E now deadline
  by unfold_locales (drule nats_Publish_effect; auto simp: verbatim_def)+

end
