(* ===== verification/NatsRuntime.thy ===== *)
theory NatsRuntime
  imports EventBroker NatsPull "HOL-Library.Word" "HOL-Library.Multiset"
begin

text \<open>
  The pull-consumer runtime of the NATS transport (pull_consumer_runtime.go) and the broker's
  RunPullConsumer, which validates the settings, creates the runtime and starts it.

  A running consumer is a set of goroutines: one fetcher and a number of workers, around a channel
  of bounded capacity. It is modelled as a state machine whose steps are the atomic actions of
  these goroutines in any order; an action that a goroutine may choose or not, as a select with
  two ready cases, is a step that may happen. A handler runs to its end in one step, on the state
  \<open>'s\<close> the handlers share. Whatever the library returns (a batch, an error, the consumer's
  backlog) is an argument of a step. Messages carry the number the server gave the delivery, so
  two deliveries are different messages.
\<close>

section \<open>Creating a consumer\<close>

record consumer_settings =
  jc_Durable :: string
  jc_FilterSubject :: string
  jc_AckExplicit :: bool
  jc_AckWait :: time
  jc_MaxDeliver :: int

record 's jetstream =
  js_AddConsumer :: "string \<Rightarrow> consumer_settings \<Rightarrow> (goerr, unit, 's) io"
  js_UpdateConsumer :: "string \<Rightarrow> consumer_settings \<Rightarrow> (goerr, unit, 's) io"
  js_PullSubscribe :: "string \<Rightarrow> string \<Rightarrow> string \<Rightarrow> (goerr, unit, 's) io"

record 's pull_runtime =
  rt_cfg :: pull_consumer_config
  rt_handler :: "'s message_handler"
  rt_capacity :: int

text \<open>The runtime of a configuration: the channel has the configured capacity.\<close>

abbreviation runtime_of :: "pull_consumer_config \<Rightarrow> 's message_handler \<Rightarrow> 's pull_runtime" where
  "runtime_of cfg handler \<equiv> \<lparr>rt_cfg = cfg, rt_handler = handler, rt_capacity = pc_QueueSize cfg\<rparr>"

definition consumer_settings_of :: "pull_consumer_config \<Rightarrow> consumer_settings" where
  "consumer_settings_of cfg =
    \<lparr>jc_Durable = pc_Durable cfg, jc_FilterSubject = pc_Subject cfg, jc_AckExplicit = True,
     jc_AckWait = pc_AckWait cfg, jc_MaxDeliver = pc_MaxDeliver cfg\<rparr>"

text \<open>A consumer that cannot be added is updated, and only a failed update is an error.\<close>

definition ensure_consumer :: "'s jetstream \<Rightarrow> pull_consumer_config \<Rightarrow> (goerr, unit, 's) io" where
  "ensure_consumer js cfg s =
    (case js_AddConsumer js (pc_Stream cfg) (consumer_settings_of cfg) s of
       (Inr _, s1) \<Rightarrow> (Inr (), s1)
     | (Inl err, s1) \<Rightarrow>
         (case js_UpdateConsumer js (pc_Stream cfg) (consumer_settings_of cfg) s1 of
            (Inr _, s2) \<Rightarrow> (Inr (), s2)
          | (Inl updateErr, s2) \<Rightarrow>
              (Inl (WrapEnsureConsumerError (pc_Stream cfg) (pc_Durable cfg) err updateErr), s2)))"

definition Create :: "(goerr + 's jetstream) \<Rightarrow> pull_consumer_config \<Rightarrow> 's message_handler
    \<Rightarrow> (goerr, 's pull_runtime, 's) io" where
  "Create jetStream cfg handler s =
    (case jetStream of
       Inl err \<Rightarrow> (Inl (WrapInitJetStreamContextError err), s)
     | Inr js \<Rightarrow>
         (case ensure_consumer js cfg s of
            (Inl err, s1) \<Rightarrow> (Inl err, s1)
          | (Inr _, s1) \<Rightarrow>
              (case js_PullSubscribe js (pc_Subject cfg) (pc_Durable cfg) (pc_Stream cfg) s1 of
                 (Inl err, s2) \<Rightarrow> (Inl (WrapCreatePullSubscriberError (pc_Subject cfg) (pc_Durable cfg) err), s2)
               | (Inr _, s2) \<Rightarrow>
                   (Inr (runtime_of cfg handler), s2))))"

section \<open>State\<close>

record pull_message =
  pm_Delivery :: nat
  pm_Subject :: string
  pm_Data :: string

datatype worker = Idle | Busy pull_message | Exited

datatype fetcher = Checking | Fetching | Dispatching "pull_message list" | Draining | Closed

record fetch_state =
  f_batch :: int
  f_wait :: time
  f_tier :: string
  f_lastAdaptiveCheck :: time

text \<open>How the library answered the broker about a message, or that the answer was lost.\<close>

datatype settlement = Acked pull_message | AckLost pull_message | Naked pull_message

record 's pull_state =
  p_world :: 's
  p_done :: bool
  p_jobs :: "pull_message list"
  p_fetcher :: fetcher
  p_plan :: fetch_state
  p_workers :: "worker list"
  p_settled :: "settlement list"
  p_dropped :: "pull_message list"
  p_fetched :: "pull_message list"

definition started :: "'s pull_runtime \<Rightarrow> time \<Rightarrow> 's \<Rightarrow> 's pull_state" where
  "started R now s =
    \<lparr>p_world = s, p_done = False, p_jobs = [], p_fetcher = Checking,
     p_plan = \<lparr>f_batch = pc_BatchSize (rt_cfg R), f_wait = pc_MaxWait (rt_cfg R), f_tier = ''base'',
       f_lastAdaptiveCheck = now\<rparr>,
     p_workers = replicate (nat (pc_Workers (rt_cfg R))) Idle, p_settled = [], p_dropped = [],
     p_fetched = []\<rparr>"

definition RunPullConsumer :: "(goerr + 's jetstream) \<Rightarrow> time \<Rightarrow> pull_consumer_config \<Rightarrow> 's message_handler
    \<Rightarrow> (goerr, 's pull_state, 's) io" where
  "RunPullConsumer jetStream now cfg handler s =
    (case Validate cfg of
       Some err \<Rightarrow> (Inl err, s)
     | None \<Rightarrow>
         (case Create jetStream cfg handler s of
            (Inl err, s1) \<Rightarrow> (Inl err, s1)
          | (Inr R, s1) \<Rightarrow> (Inr (started R now s1), s1)))"

section \<open>Plans\<close>

text \<open>
  The adaptive check: \<open>seen\<close> and \<open>now\<close> are the two readings of the clock, \<open>info\<close> the answer about the
  consumer, whose backlog is an unsigned 64-bit number that the code converts to an int.
\<close>

definition maybeUpdateAdaptivePlan :: "pull_consumer_config \<Rightarrow> time \<Rightarrow> time \<Rightarrow> goerr + 64 word \<Rightarrow> fetch_state
    \<Rightarrow> fetch_state" where
  "maybeUpdateAdaptivePlan cfg seen now info st =
    (if \<not> a_Enabled (pc_Adaptive cfg) \<or> seen - f_lastAdaptiveCheck st < a_CheckInterval (pc_Adaptive cfg) then st
     else
       (let st = st\<lparr>f_lastAdaptiveCheck := now\<rparr> in
        case info of
          Inl err \<Rightarrow> st
        | Inr numPending \<Rightarrow>
            (case ResolvePullPlan cfg (sint numPending) of
               (nextTier, nextBatch, nextWait) \<Rightarrow>
                 if nextTier = f_tier st \<and> nextBatch = f_batch st \<and> nextWait = f_wait st then st
                 else st\<lparr>f_tier := nextTier, f_batch := nextBatch, f_wait := nextWait\<rparr>)))"

definition plan_of :: "fetch_state \<Rightarrow> plan" where
  "plan_of st = (f_tier st, f_batch st, f_wait st)"

lemma maybeUpdate_plan:
  "plan_of (maybeUpdateAdaptivePlan cfg seen now info st) = plan_of st \<or>
   (\<exists>n. plan_of (maybeUpdateAdaptivePlan cfg seen now info st) = ResolvePullPlan cfg n)"
  by (auto simp: maybeUpdateAdaptivePlan_def plan_of_def Let_def split: sum.splits prod.splits)
    (metis fst_conv snd_conv prod.collapse)+

section \<open>Steps\<close>

definition nats_ErrTimeout :: goerr where
  "nats_ErrTimeout = Sentinel ''nats.go'' ''nats: timeout''"

definition context_DeadlineExceeded :: goerr where
  "context_DeadlineExceeded = Sentinel ''context'' ''context deadline exceeded''"

text \<open>Whether a fetch failed, and how long the fetcher sleeps before it goes on.\<close>

definition handleFetchError :: "goerr option \<Rightarrow> bool \<times> time" where
  "handleFetchError err =
    (case err of
       None \<Rightarrow> (False, 0)
     | Some e \<Rightarrow>
         if errors_is e nats_ErrTimeout \<or> errors_is e context_DeadlineExceeded then (True, 0)
         else (True, 250 * millisecond))"

text \<open>A worker with a message: the handler runs, and its outcome decides how the message is settled.\<close>

definition work :: "'s pull_runtime \<Rightarrow> pull_message \<Rightarrow> goerr option \<Rightarrow> 's \<Rightarrow> settlement \<times> 's" where
  "work R msg ack_err s =
    (case rt_handler R (pm_Subject msg) (pm_Data msg) s of
       (Inl err, s1) \<Rightarrow> (Naked msg, s1)
     | (Inr _, s1) \<Rightarrow> (case ack_err of None \<Rightarrow> (Acked msg, s1) | Some err \<Rightarrow> (AckLost msg, s1)))"

definition set_worker :: "nat \<Rightarrow> worker \<Rightarrow> 's pull_state \<Rightarrow> 's pull_state" where
  "set_worker i v st = st\<lparr>p_workers := (p_workers st)[i := v]\<rparr>"

abbreviation worker_is :: "'s pull_state \<Rightarrow> nat \<Rightarrow> worker \<Rightarrow> bool" where
  "worker_is st i v \<equiv> i < length (p_workers st) \<and> p_workers st ! i = v"

inductive pull_step :: "'s pull_runtime \<Rightarrow> 's pull_state \<Rightarrow> 's pull_state \<Rightarrow> bool" for R where
  cancelled: "pull_step R st (st\<lparr>p_done := True\<rparr>)"
| worker_stops: "worker_is st i Idle \<Longrightarrow> p_done st \<Longrightarrow> pull_step R st (set_worker i Exited st)"
| worker_closes: "worker_is st i Idle \<Longrightarrow> p_jobs st = [] \<Longrightarrow> p_fetcher st = Closed \<Longrightarrow>
    pull_step R st (set_worker i Exited st)"
| worker_takes: "worker_is st i Idle \<Longrightarrow> p_jobs st = msg # jobs \<Longrightarrow>
    pull_step R st (set_worker i (Busy msg) (st\<lparr>p_jobs := jobs\<rparr>))"
| worker_settles: "worker_is st i (Busy msg) \<Longrightarrow> work R msg ack_err (p_world st) = (x, s1) \<Longrightarrow>
    pull_step R st (set_worker i Idle (st\<lparr>p_world := s1, p_settled := p_settled st @ [x]\<rparr>))"
| fetcher_stops: "p_fetcher st = Checking \<Longrightarrow> p_done st \<Longrightarrow> pull_step R st (st\<lparr>p_fetcher := Draining\<rparr>)"
| fetcher_plans: "p_fetcher st = Checking \<Longrightarrow> \<not> p_done st \<Longrightarrow>
    pull_step R st (st\<lparr>p_plan := maybeUpdateAdaptivePlan (rt_cfg R) seen now info (p_plan st), p_fetcher := Fetching\<rparr>)"
| fetch_fails: "p_fetcher st = Fetching \<Longrightarrow> fst (handleFetchError err) \<Longrightarrow>
    pull_step R st (st\<lparr>p_fetcher := Checking\<rparr>)"
| fetch_gets: "p_fetcher st = Fetching \<Longrightarrow> int (length msgs) \<le> f_batch (p_plan st) \<Longrightarrow>
    distinct msgs \<Longrightarrow> set msgs \<inter> set (p_fetched st) = {} \<Longrightarrow>
    pull_step R st (st\<lparr>p_fetcher := Dispatching msgs, p_fetched := p_fetched st @ msgs\<rparr>)"
| dispatch_sends: "p_fetcher st = Dispatching (msg # msgs) \<Longrightarrow> int (length (p_jobs st)) < rt_capacity R \<Longrightarrow>
    pull_step R st (st\<lparr>p_jobs := p_jobs st @ [msg], p_fetcher := Dispatching msgs\<rparr>)"
| dispatch_stops: "p_fetcher st = Dispatching (msg # msgs) \<Longrightarrow> p_done st \<Longrightarrow>
    pull_step R st (st\<lparr>p_dropped := p_dropped st @ msg # msgs, p_fetcher := Draining\<rparr>)"
| dispatch_ends: "p_fetcher st = Dispatching [] \<Longrightarrow> pull_step R st (st\<lparr>p_fetcher := Checking\<rparr>)"
| drained: "p_fetcher st = Draining \<Longrightarrow> list_all (\<lambda>v. v = Exited) (p_workers st) \<Longrightarrow>
    pull_step R st (st\<lparr>p_fetcher := Closed\<rparr>)"

inductive_cases pull_stepE: "pull_step R st st'"

section \<open>Invariant\<close>

fun in_hand :: "worker \<Rightarrow> pull_message list" where
  "in_hand (Busy msg) = [msg]"
| "in_hand _ = []"

fun undispatched :: "fetcher \<Rightarrow> pull_message list" where
  "undispatched (Dispatching msgs) = msgs"
| "undispatched _ = []"

fun settled_message :: "settlement \<Rightarrow> pull_message" where
  "settled_message (Acked msg) = msg"
| "settled_message (AckLost msg) = msg"
| "settled_message (Naked msg) = msg"

definition held :: "'s pull_state \<Rightarrow> pull_message multiset" where
  "held st = (\<Sum>v\<in>#mset (p_workers st). mset (in_hand v))"

definition accounted :: "'s pull_state \<Rightarrow> pull_message multiset" where
  "accounted st = mset (undispatched (p_fetcher st)) + mset (p_jobs st) + held st +
     mset (map settled_message (p_settled st)) + mset (p_dropped st)"

definition pull_inv :: "'s pull_runtime \<Rightarrow> 's pull_state \<Rightarrow> bool" where
  "pull_inv R st \<longleftrightarrow>
     int (length (p_jobs st)) \<le> rt_capacity R \<and>
     length (p_workers st) = nat (pc_Workers (rt_cfg R)) \<and>
     plan_of (p_plan st) \<in> plans (rt_cfg R) \<and> sound_plan (plan_of (p_plan st)) \<and>
     distinct (p_fetched st) \<and> mset (p_fetched st) = accounted st \<and>
     (p_dropped st \<noteq> [] \<or> Exited \<in> set (p_workers st) \<or> p_fetcher st \<in> {Draining, Closed} \<longrightarrow> p_done st) \<and>
     (p_fetcher st = Closed \<longrightarrow> set (p_workers st) \<subseteq> {Exited})"

text \<open>Replacing a worker moves what it holds.\<close>

lemma held_update:
  assumes "i < length (p_workers st)"
  shows "held (set_worker i v st) + mset (in_hand (p_workers st ! i)) = held st + mset (in_hand v)"
proof -
  let ?ws = "p_workers st"
  have "mset (?ws[i := v]) + {#?ws ! i#} = mset ?ws + {#v#}"
    using assms by (simp add: mset_update)
  then have "(\<Sum>v\<in>#mset (?ws[i := v]) + {#?ws ! i#}. mset (in_hand v)) = (\<Sum>v\<in>#mset ?ws + {#v#}. mset (in_hand v))"
    by (rule arg_cong)
  then show ?thesis by (simp add: held_def set_worker_def ac_simps)
qed


lemma set_worker_simps [simp]:
  "p_workers (set_worker i v st) = (p_workers st)[i := v]" "p_jobs (set_worker i v st) = p_jobs st"
  "p_fetcher (set_worker i v st) = p_fetcher st" "p_plan (set_worker i v st) = p_plan st"
  "p_done (set_worker i v st) = p_done st" "p_settled (set_worker i v st) = p_settled st"
  "p_dropped (set_worker i v st) = p_dropped st" "p_fetched (set_worker i v st) = p_fetched st"
  "p_world (set_worker i v st) = p_world st"
  by (simp_all add: set_worker_def)

lemma held_frame [simp]:
  "held (st\<lparr>p_jobs := js\<rparr>) = held st" "held (st\<lparr>p_world := s\<rparr>) = held st"
  "held (st\<lparr>p_settled := xs\<rparr>) = held st" "held (st\<lparr>p_done := d\<rparr>) = held st"
  "held (st\<lparr>p_fetcher := f\<rparr>) = held st" "held (st\<lparr>p_plan := q\<rparr>) = held st"
  "held (st\<lparr>p_fetched := ms\<rparr>) = held st" "held (st\<lparr>p_dropped := ds\<rparr>) = held st"
  by (simp_all add: held_def)

lemma work_message: "work R msg ack_err s = (x, s1) \<Longrightarrow> settled_message x = msg"
  by (auto simp: work_def split: prod.splits sum.splits option.splits)

text \<open>The steps of a worker move a message on; those of the fetcher do so up to the queue.\<close>

lemma accounted_step:
  assumes "pull_step R st st'"
  shows "accounted st' + mset (p_fetched st) = accounted st + mset (p_fetched st')"
  using assms
proof cases
  case (worker_stops i)
  with held_update [of i st Exited] show ?thesis by (simp add: accounted_def)
next
  case (worker_closes i)
  with held_update [of i st Exited] show ?thesis by (simp add: accounted_def)
next
  case (worker_takes i msg jobs)
  with held_update [of i "st\<lparr>p_jobs := jobs\<rparr>" "Busy msg"] show ?thesis by (simp add: accounted_def)
next
  case (worker_settles i msg ack_err x s1)
  with held_update [of i "st\<lparr>p_world := s1, p_settled := p_settled st @ [x]\<rparr>" Idle]
    work_message [of R msg ack_err "p_world st" x s1] show ?thesis
    by (simp add: accounted_def)
qed (auto simp: accounted_def ac_simps)

lemma plan_step:
  assumes "pull_step R st st'" and "consumer_ok (rt_cfg R)"
    and "plan_of (p_plan st) \<in> plans (rt_cfg R) \<and> sound_plan (plan_of (p_plan st))"
  shows "plan_of (p_plan st') \<in> plans (rt_cfg R) \<and> sound_plan (plan_of (p_plan st'))"
  using assms(1)
proof cases
  case (fetcher_plans seen now info)
  with maybeUpdate_plan [of "rt_cfg R" seen now info "p_plan st"] assms(2,3) show ?thesis
    by (auto simp: ResolvePullPlan_in ResolvePullPlan_sound)
qed (use assms(3) in auto)

lemma fetched_step: "pull_step R st st' \<Longrightarrow> distinct (p_fetched st) \<Longrightarrow> distinct (p_fetched st')"
  by (erule pull_stepE) auto

lemma closing_step:
  assumes "pull_step R st st'"
    and "p_dropped st \<noteq> [] \<or> Exited \<in> set (p_workers st) \<or> p_fetcher st \<in> {Draining, Closed} \<longrightarrow> p_done st"
    and "p_fetcher st = Closed \<longrightarrow> set (p_workers st) \<subseteq> {Exited}"
  shows "(p_dropped st' \<noteq> [] \<or> Exited \<in> set (p_workers st') \<or> p_fetcher st' \<in> {Draining, Closed} \<longrightarrow> p_done st') \<and>
    (p_fetcher st' = Closed \<longrightarrow> set (p_workers st') \<subseteq> {Exited})"
  using assms(1)
proof cases
  case (worker_takes i msg jobs)
  with assms(2,3) show ?thesis using nth_mem [of i "p_workers st"] by (auto dest!: set_update_subset_insert [THEN subsetD])
next
  case (worker_settles i msg ack_err x s1)
  with assms(2,3) show ?thesis using nth_mem [of i "p_workers st"] by (auto dest!: set_update_subset_insert [THEN subsetD])
next
  case (worker_stops i)
  with assms(2,3) show ?thesis by (auto dest!: set_update_subset_insert [THEN subsetD])
next
  case (worker_closes i)
  with assms(2,3) show ?thesis by (auto dest!: set_update_subset_insert [THEN subsetD])
qed (use assms(2,3) in \<open>auto simp: list_all_iff\<close>)

lemma pull_inv_step:
  assumes "pull_step R st st'" and "consumer_ok (rt_cfg R)" and "pull_inv R st"
  shows "pull_inv R st'"
proof -
  have "length (p_workers st') = length (p_workers st)"
    using assms(1) by cases auto
  moreover have "int (length (p_jobs st')) \<le> rt_capacity R"
    using assms(1,3) by cases (auto simp: pull_inv_def)
  moreover have "mset (p_fetched st') = accounted st'"
    using accounted_step [OF assms(1)] assms(3) by (simp add: pull_inv_def)
  moreover note plan_step [OF assms(1,2)] fetched_step [OF assms(1)] closing_step [OF assms(1)]
  ultimately show ?thesis
    using assms(3) unfolding pull_inv_def by metis
qed


text \<open>A consumer that RunPullConsumer has started satisfies the invariant, and keeps it.\<close>

lemma held_replicate: "(\<Sum>v\<in>#mset (replicate n Idle). mset (in_hand v)) = {#}"
  by (induction n) auto

lemma run_started:
  assumes "RunPullConsumer jetStream now cfg handler s = (Inr st, s1)"
  shows "st = started (runtime_of cfg handler) now s1 \<and> consumer_ok cfg"
proof -
  have v: "Validate cfg = None" using assms by (cases "Validate cfg") (auto simp: RunPullConsumer_def)
  then obtain R where "Create jetStream cfg handler s = (Inr R, s1)" "st = started R now s1"
    using assms by (auto simp: RunPullConsumer_def split: prod.splits sum.splits)
  moreover from this(1) have "R = runtime_of cfg handler"
    by (auto simp: Create_def split: prod.splits sum.splits)
  ultimately show ?thesis using v by (simp add: Validate_ok)
qed

lemma started_inv:
  assumes "consumer_ok (rt_cfg R)" and "rt_capacity R = pc_QueueSize (rt_cfg R)"
  shows "pull_inv R (started R now s)"
  using assms held_replicate
  by (auto simp: pull_inv_def started_def accounted_def held_def plan_of_def plans_def sound_plan_def
      consumer_ok_def Let_def)

lemma reachable_inv:
  assumes "(pull_step R)\<^sup>*\<^sup>* st st'" and "consumer_ok (rt_cfg R)" and "pull_inv R st"
  shows "pull_inv R st'"
  using assms by (induction rule: rtranclp_induct) (auto intro: pull_inv_step)

section \<open>Progress and shutdown\<close>

text \<open>No goroutine blocks for good: while the channel is open some step changes the state.\<close>

lemma worker_progress:
  assumes "i < length (p_workers st)" and "p_workers st ! i \<noteq> Exited" and "p_jobs st \<noteq> [] \<or> p_done st \<or> p_workers st ! i \<noteq> Idle"
  shows "\<exists>st'. pull_step R st st' \<and> p_workers st' \<noteq> p_workers st"
proof (cases "p_workers st ! i")
  case Idle
  then have ne: "(p_workers st)[i := Busy m] \<noteq> p_workers st" "(p_workers st)[i := Exited] \<noteq> p_workers st" for m
    using assms(1) by (metis nth_list_update_eq worker.distinct(1), metis nth_list_update_eq worker.distinct(3))
  show ?thesis
  proof (cases "p_jobs st")
    case Nil
    with Idle assms have "pull_step R st (set_worker i Exited st)" by (intro pull_step.worker_stops) auto
    with ne show ?thesis by fastforce
  next
    case (Cons m js)
    with Idle assms have "pull_step R st (set_worker i (Busy m) (st\<lparr>p_jobs := js\<rparr>))"
      by (intro pull_step.worker_takes) auto
    with ne show ?thesis by fastforce
  qed
next
  case (Busy m)
  obtain x s1 where w: "work R m None (p_world st) = (x, s1)" by fastforce
  have "pull_step R st (set_worker i Idle (st\<lparr>p_world := s1, p_settled := p_settled st @ [x]\<rparr>))"
    using assms(1) Busy w by (intro pull_step.worker_settles) auto
  moreover have "(p_workers st)[i := Idle] \<noteq> p_workers st"
    using assms(1) Busy by (metis nth_list_update_eq worker.distinct(1))
  ultimately show ?thesis by fastforce
qed (use assms(2) in simp)


lemma fetcher_progress:
  assumes "p_fetcher st \<noteq> Closed" and "p_fetcher st = Draining \<longrightarrow> set (p_workers st) \<subseteq> {Exited}"
    and "p_fetcher st \<noteq> Dispatching (m # ms) \<or> p_done st \<or> int (length (p_jobs st)) < rt_capacity R"
    and "undispatched (p_fetcher st) = m # ms \<or> undispatched (p_fetcher st) = []"
  shows "\<exists>st'. pull_step R st st' \<and> p_fetcher st' \<noteq> p_fetcher st"
proof (cases "p_fetcher st")
  case Checking
  then show ?thesis
    using pull_step.fetcher_stops [of st R] pull_step.fetcher_plans [of st R] by (cases "p_done st") fastforce+
next
  case Fetching
  have "fst (handleFetchError (Some nats_ErrTimeout))" by (simp add: handleFetchError_def)
  with Fetching show ?thesis using pull_step.fetch_fails [of st _ R] by fastforce
next
  case (Dispatching msgs)
  show ?thesis
  proof (cases msgs)
    case Nil
    with Dispatching show ?thesis using pull_step.dispatch_ends [of st R] by fastforce
  next
    case (Cons m' ms')
    with Dispatching assms(3,4) show ?thesis
      using pull_step.dispatch_stops [of st m' ms' R] pull_step.dispatch_sends [of st m' ms' R] by fastforce
  qed
next
  case Draining
  with assms(2) show ?thesis using pull_step.drained [of st R] by (fastforce simp: list_all_iff)
qed (use assms(1) in simp)

lemma pull_progress:
  assumes "pull_inv R st" and "consumer_ok (rt_cfg R)" and "rt_capacity R = pc_QueueSize (rt_cfg R)"
    and "p_fetcher st \<noteq> Closed"
  shows "\<exists>st'. pull_step R st st' \<and> st' \<noteq> st"
proof -
  have cap: "0 < rt_capacity R" using assms(2,3) by (simp add: consumer_ok_def)
  have ws: "p_workers st \<noteq> []"
    using assms(1,2) by (auto simp: pull_inv_def consumer_ok_def)
  have by_worker: ?thesis if "\<exists>i<length (p_workers st). p_workers st ! i \<noteq> Exited \<and>
      (p_jobs st \<noteq> [] \<or> p_done st \<or> p_workers st ! i \<noteq> Idle)"
    using worker_progress that by (metis (no_types))
  have by_fetcher: ?thesis if "\<exists>st'. pull_step R st st' \<and> p_fetcher st' \<noteq> p_fetcher st"
    using that by metis
  show ?thesis
  proof (cases "p_fetcher st")
    case (Dispatching msgs)
    show ?thesis
    proof (cases "msgs = [] \<or> p_done st \<or> int (length (p_jobs st)) < rt_capacity R")
      case True
      with Dispatching show ?thesis
        by (intro by_fetcher fetcher_progress [of _ "hd msgs" "tl msgs"]) (auto simp: neq_Nil_conv)
    next
      case False
      then have "p_jobs st \<noteq> []" "\<not> p_done st" using cap by auto
      moreover have "Exited \<notin> set (p_workers st)"
        using \<open>\<not> p_done st\<close> assms(1) by (auto simp: pull_inv_def)
      moreover from this have "p_workers st ! 0 \<noteq> Exited" using ws nth_mem [of 0 "p_workers st"] by force
      ultimately show ?thesis using ws by (intro by_worker exI [of _ 0]) auto
    qed
  next
    case Draining
    then have "p_done st" using assms(1) by (simp add: pull_inv_def)
    show ?thesis
    proof (cases "set (p_workers st) \<subseteq> {Exited}")
      case True
      with Draining show ?thesis by (intro by_fetcher fetcher_progress) auto
    next
      case False
      with \<open>p_done st\<close> show ?thesis by (intro by_worker) (auto simp: in_set_conv_nth subset_iff)
    qed
  qed (use assms(4) in \<open>auto intro!: by_fetcher fetcher_progress\<close>)
qed


text \<open>
  Once the context is cancelled, every step that changes the state brings the consumer closer to
  the end: the bound counts what each goroutine and each message can still do.
\<close>

fun worker_bound :: "worker \<Rightarrow> nat" where
  "worker_bound Idle = 1"
| "worker_bound (Busy msg) = 3"
| "worker_bound Exited = 0"

fun fetcher_bound :: "int \<Rightarrow> fetcher \<Rightarrow> nat" where
  "fetcher_bound batch Checking = 2"
| "fetcher_bound batch Fetching = 4 + 4 * nat batch"
| "fetcher_bound batch (Dispatching msgs) = 3 + 4 * length msgs"
| "fetcher_bound batch Draining = 1"
| "fetcher_bound batch Closed = 0"

definition shutdown_bound :: "'s pull_state \<Rightarrow> nat" where
  "shutdown_bound st = fetcher_bound (f_batch (p_plan st)) (p_fetcher st) + 3 * length (p_jobs st) +
     sum_list (map worker_bound (p_workers st))"

lemma worker_bound_update:
  assumes "i < length ws"
  shows "sum_list (map worker_bound (ws[i := v])) + worker_bound (ws ! i) =
    sum_list (map worker_bound ws) + worker_bound v"
  using assms by (induction ws arbitrary: i) (auto split: nat.splits simp: nth_Cons)

lemma shutdown_step:
  assumes "pull_step R st st'" and "p_done st"
  shows "p_done st' \<and> (st' \<noteq> st \<longrightarrow> shutdown_bound st' < shutdown_bound st)"
  using assms(1)
proof cases
  case (worker_stops i)
  with assms(2) worker_bound_update [of i "p_workers st" Exited] show ?thesis by (simp add: shutdown_bound_def)
next
  case (worker_closes i)
  with assms(2) worker_bound_update [of i "p_workers st" Exited] show ?thesis by (simp add: shutdown_bound_def)
next
  case (worker_takes i msg jobs)
  with assms(2) worker_bound_update [of i "p_workers st" "Busy msg"] show ?thesis by (simp add: shutdown_bound_def)
next
  case (worker_settles i msg ack_err x s1)
  with assms(2) worker_bound_update [of i "p_workers st" Idle] show ?thesis by (simp add: shutdown_bound_def)
qed (use assms(2) in \<open>auto simp: shutdown_bound_def\<close>)

lemma shutdown_reaches:
  assumes "pull_inv R st" and "consumer_ok (rt_cfg R)" and "rt_capacity R = pc_QueueSize (rt_cfg R)"
    and "p_done st"
  shows "\<exists>st'. (pull_step R)\<^sup>*\<^sup>* st st' \<and> p_fetcher st' = Closed \<and> set (p_workers st') \<subseteq> {Exited}"
  using assms
proof (induction "shutdown_bound st" arbitrary: st rule: less_induct)
  case less
  show ?case
  proof (cases "p_fetcher st = Closed")
    case True
    with less.prems(1) show ?thesis by (intro exI [of _ st]) (auto simp: pull_inv_def)
  next
    case False
    then obtain st1 where st1: "pull_step R st st1" "st1 \<noteq> st" using pull_progress less.prems by metis
    with shutdown_step [OF st1(1) less.prems(4)] pull_inv_step [OF st1(1) less.prems(2,1)]
    have "\<exists>st'. (pull_step R)\<^sup>*\<^sup>* st1 st' \<and> p_fetcher st' = Closed \<and> set (p_workers st') \<subseteq> {Exited}"
      by (intro less.hyps) (use less.prems in auto)
    with st1(1) show ?thesis by (meson converse_rtranclp_into_rtranclp)
  qed
qed

lemma shutdown_bounded:
  assumes "p_done st" and "((\<lambda>a b. pull_step R a b \<and> b \<noteq> a) ^^ n) st st'"
  shows "n \<le> shutdown_bound st"
proof -
  have "p_done st' \<and> n + shutdown_bound st' \<le> shutdown_bound st"
    using assms(2)
  proof (induction n arbitrary: st')
    case 0
    with assms(1) show ?case by simp
  next
    case (Suc n)
    then obtain st1 where "((\<lambda>a b. pull_step R a b \<and> b \<noteq> a) ^^ n) st st1" "pull_step R st1 st'" "st' \<noteq> st1"
      by auto
    with Suc.IH shutdown_step show ?case by fastforce
  qed
  then show ?thesis by simp
qed

section \<open>Service\<close>

text \<open>
  A step of a goroutine or the library while the context is live; the cancellation is the one step of
  the environment.
\<close>

definition serve_step :: "'s pull_runtime \<Rightarrow> 's pull_state \<Rightarrow> 's pull_state \<Rightarrow> bool" where
  "serve_step R st st' \<longleftrightarrow> pull_step R st st' \<and> \<not> p_done st'"

text \<open>How many moves the messages in flight still have to make.\<close>

fun pending_work :: "worker \<Rightarrow> nat" where
  "pending_work (Busy msg) = 1"
| "pending_work _ = 0"

definition pending :: "'s pull_state \<Rightarrow> nat" where
  "pending st = 3 * length (undispatched (p_fetcher st)) + 2 * length (p_jobs st) +
     sum_list (map pending_work (p_workers st))"

lemma pending_work_update:
  assumes "i < length ws"
  shows "sum_list (map pending_work (ws[i := v])) + pending_work (ws ! i) = sum_list (map pending_work ws) + pending_work v"
  using assms by (induction ws arbitrary: i) (auto split: nat.splits simp: nth_Cons)

lemma pending_none:
  "pending st = 0 \<longleftrightarrow> undispatched (p_fetcher st) = [] \<and> p_jobs st = [] \<and> (\<forall>v\<in>set (p_workers st). in_hand v = [])"
proof -
  have "pending_work v = 0 \<longleftrightarrow> in_hand v = []" for v by (cases v) simp_all
  then show ?thesis by (auto simp: pending_def)
qed

text \<open>While no cancellation comes, every message in flight is brought on by some goroutine.\<close>

lemma message_progress:
  assumes inv: "pull_inv R st" "consumer_ok (rt_cfg R)" "rt_capacity R = pc_QueueSize (rt_cfg R)"
    and "\<not> p_done st" and "pending st \<noteq> 0"
  shows "\<exists>st'. serve_step R st st' \<and> pending st' < pending st \<and> p_fetched st' = p_fetched st \<and> p_plan st' = p_plan st"
proof -
  have alive: "Exited \<notin> set (p_workers st)" using assms(1,4) by (auto simp: pull_inv_def)
  have ws: "0 < length (p_workers st)" using inv(1,2) by (auto simp: pull_inv_def consumer_ok_def)
  consider (busy) i msg where "i < length (p_workers st)" "p_workers st ! i = Busy msg"
    | (queued) msg jobs where "worker_is st 0 Idle" "p_jobs st = msg # jobs"
    | (fetched) msg msgs where "p_fetcher st = Dispatching (msg # msgs)" "p_jobs st = []"
  proof (cases "\<exists>v\<in>set (p_workers st). in_hand v \<noteq> []")
    case True
    then obtain i where "i < length (p_workers st)" "in_hand (p_workers st ! i) \<noteq> []" by (auto simp: in_set_conv_nth)
    then show thesis using busy by (cases "p_workers st ! i") auto
  next
    case False
    then have "in_hand (p_workers st ! 0) = []" "p_workers st ! 0 \<noteq> Exited" using ws alive nth_mem by metis+
    then have "worker_is st 0 Idle" using ws by (cases "p_workers st ! 0") simp_all
    with False assms(5) queued fetched show thesis
      by (cases "p_jobs st"; cases "p_fetcher st") (auto simp: pending_none neq_Nil_conv)
  qed
  then show ?thesis
  proof cases
    case busy
    obtain x s1 where w: "work R msg None (p_world st) = (x, s1)" by fastforce
    let ?st = "set_worker i Idle (st\<lparr>p_world := s1, p_settled := p_settled st @ [x]\<rparr>)"
    have "pull_step R st ?st" using busy w by (intro pull_step.worker_settles) auto
    moreover have "pending ?st < pending st" using pending_work_update [OF busy(1), of Idle] busy by (simp add: pending_def)
    ultimately show ?thesis using assms(4) by (intro exI [of _ ?st]) (simp add: serve_step_def)
  next
    case queued
    let ?st = "set_worker 0 (Busy msg) (st\<lparr>p_jobs := jobs\<rparr>)"
    have "pull_step R st ?st" using queued by (intro pull_step.worker_takes) auto
    moreover have "pending ?st < pending st" using pending_work_update [of 0 "p_workers st" "Busy msg"] queued by (simp add: pending_def)
    ultimately show ?thesis using assms(4) by (intro exI [of _ ?st]) (simp add: serve_step_def)
  next
    case fetched
    let ?st = "st\<lparr>p_jobs := p_jobs st @ [msg], p_fetcher := Dispatching msgs\<rparr>"
    have "0 < rt_capacity R" using inv(2,3) by (simp add: consumer_ok_def)
    then have "pull_step R st ?st" using fetched by (intro pull_step.dispatch_sends) auto
    moreover have "pending ?st < pending st" using fetched by (simp add: pending_def)
    ultimately show ?thesis using assms(4) by (intro exI [of _ ?st]) (simp add: serve_step_def)
  qed
qed

lemma serve_step_inv: "serve_step R st st' \<Longrightarrow> consumer_ok (rt_cfg R) \<Longrightarrow> pull_inv R st \<Longrightarrow> pull_inv R st' \<and> \<not> p_done st'"
  by (auto simp: serve_step_def intro: pull_inv_step)

lemma all_settled:
  assumes "pull_inv R st" "consumer_ok (rt_cfg R)" "rt_capacity R = pc_QueueSize (rt_cfg R)" "\<not> p_done st"
  shows "\<exists>st'. (serve_step R)\<^sup>*\<^sup>* st st' \<and> pull_inv R st' \<and> \<not> p_done st' \<and> pending st' = 0 \<and>
    p_fetched st' = p_fetched st \<and> p_plan st' = p_plan st"
  using assms
proof (induction "pending st" arbitrary: st rule: less_induct)
  case less
  show ?case
  proof (cases "pending st = 0")
    case False
    then obtain st1 where st1: "serve_step R st st1" "pending st1 < pending st" "p_fetched st1 = p_fetched st" "p_plan st1 = p_plan st"
      using message_progress less.prems by metis
    with serve_step_inv [OF st1(1)] less.prems less.hyps [of st1] show ?thesis
      by (metis converse_rtranclp_into_rtranclp)
  qed (use less.prems in auto)
qed

text \<open>A fetcher with nothing to hand over comes back to its next fetch with the plan it had.\<close>

lemma next_fetch:
  assumes "pull_inv R st" "\<not> p_done st" "pending st = 0"
  shows "\<exists>st'. (serve_step R)\<^sup>*\<^sup>* st st' \<and> p_fetcher st' = Fetching \<and> f_batch (p_plan st') = f_batch (p_plan st) \<and>
    p_fetched st' = p_fetched st \<and> p_settled st' = p_settled st \<and> pending st' = 0"
proof -
  have plan: "f_batch (maybeUpdateAdaptivePlan cfg seen now (Inl e) q) = f_batch q" for cfg seen now e q
    by (simp add: maybeUpdateAdaptivePlan_def Let_def)
  have resume: ?thesis if c: "(serve_step R)\<^sup>*\<^sup>* st c" "p_fetcher c = Checking" "\<not> p_done c" "p_plan c = p_plan st"
    "p_fetched c = p_fetched st" "p_settled c = p_settled st" "p_jobs c = p_jobs st" "p_workers c = p_workers st" for c
  proof -
    let ?st = "c\<lparr>p_plan := maybeUpdateAdaptivePlan (rt_cfg R) 0 0 (Inl nats_ErrTimeout) (p_plan c), p_fetcher := Fetching\<rparr>"
    have "serve_step R c ?st"
      unfolding serve_step_def using c(2,3) pull_step.fetcher_plans [of c R 0 0 "Inl nats_ErrTimeout"] by simp
    with c assms(3) plan show ?thesis
      by (intro exI [of _ ?st]) (auto simp: pending_none intro: rtranclp.rtrancl_into_rtrancl)
  qed
  show ?thesis
  proof (cases "p_fetcher st")
    case Checking
    then show ?thesis using assms by (intro resume [of st]) auto
  next
    case Fetching
    then show ?thesis using assms by (intro exI [of _ st]) simp
  next
    case (Dispatching msgs)
    then have "serve_step R st (st\<lparr>p_fetcher := Checking\<rparr>)"
      using assms(2,3) unfolding serve_step_def by (auto simp: pending_none intro: pull_step.dispatch_ends)
    then show ?thesis using assms by (intro resume [of "st\<lparr>p_fetcher := Checking\<rparr>"]) auto
  qed (use assms(1,2) in \<open>auto simp: pull_inv_def\<close>)
qed

lemma idle_settled:
  assumes "pull_inv R st" "\<not> p_done st" "pending st = 0"
  shows "mset (map settled_message (p_settled st)) = mset (p_fetched st)"
proof -
  have "held st = {#}" using assms(3) by (simp add: pending_none held_def)
  moreover have "p_dropped st = []" using assms(1,2) by (auto simp: pull_inv_def)
  ultimately show ?thesis using assms(1,3) by (simp add: pull_inv_def accounted_def pending_none)
qed


section \<open>Properties\<close>

text \<open>The states a started consumer can reach.\<close>

definition pull_reaches :: "(goerr + 's jetstream) \<Rightarrow> time \<Rightarrow> pull_consumer_config \<Rightarrow> 's message_handler \<Rightarrow> 's
    \<Rightarrow> 's pull_state \<Rightarrow> bool" where
  "pull_reaches jetStream now cfg handler s st \<longleftrightarrow>
     (\<exists>st0. fst (RunPullConsumer jetStream now cfg handler s) = Inr st0 \<and>
        (pull_step (runtime_of cfg handler))\<^sup>*\<^sup>* st0 st)"

lemma pull_reaches_inv:
  assumes "pull_reaches jetStream now cfg handler s st"
  shows "pull_inv (runtime_of cfg handler) st \<and> consumer_ok cfg"
proof -
  let ?R = "runtime_of cfg handler"
  obtain st0 s1 where r: "RunPullConsumer jetStream now cfg handler s = (Inr st0, s1)" "(pull_step ?R)\<^sup>*\<^sup>* st0 st"
    using assms unfolding pull_reaches_def by (metis eq_fst_iff)
  note st = run_started [OF r(1)]
  with started_inv [of ?R now s1] reachable_inv [OF r(2)] show ?thesis by simp
qed

text \<open>
  C8. In every reachable state of the NATS pull consumer the queue is within its capacity, the
  number of workers is the configured one, and every fetched message is in exactly one place: not
  yet dispatched, queued, with a worker, settled, or dropped; it is settled at most once, and
  dropped only after cancellation.
\<close>

theorem every_fetched_message_is_accounted_for:
  assumes "pull_reaches jetStream now cfg handler s st"
  shows "int (length (p_jobs st)) \<le> pc_QueueSize cfg \<and> length (p_workers st) = nat (pc_Workers cfg) \<and>
    mset (p_fetched st) = accounted st \<and> distinct (map settled_message (p_settled st)) \<and>
    (\<not> p_done st \<longrightarrow> p_dropped st = [])"
proof -
  let ?R = "runtime_of cfg handler"
  have inv: "pull_inv ?R st" using pull_reaches_inv [OF assms] by simp
  obtain zs where "mset zs = mset (undispatched (p_fetcher st)) + mset (p_jobs st) + held st + mset (p_dropped st)"
    by (metis ex_mset)
  with inv have "mset (p_fetched st) = mset (zs @ map settled_message (p_settled st))"
    by (simp add: pull_inv_def accounted_def)
  then have "distinct (map settled_message (p_settled st))"
    using inv mset_eq_imp_distinct_iff by (fastforce simp: pull_inv_def)
  with inv show ?thesis by (auto simp: pull_inv_def)
qed

text \<open>
  C27. The fetcher always pulls with the base plan or one of the configured tiers, with a positive
  batch and wait, and the channel is closed only after cancellation and when every worker has
  returned, so that no worker reads a closed channel and none is sent to.
\<close>

theorem pulling_follows_a_configured_plan:
  assumes "pull_reaches jetStream now cfg handler s st"
  shows "plan_of (p_plan st) \<in> plans cfg \<and> sound_plan (plan_of (p_plan st)) \<and>
    (p_fetcher st = Closed \<longrightarrow> p_done st \<and> set (p_workers st) \<subseteq> {Exited})"
  using pull_reaches_inv [OF assms] by (auto simp: pull_inv_def)

text \<open>
  C25. From every reachable state of the NATS pull consumer that is not cancelled, and without
  being cancelled, the fetcher and the workers can settle every message fetched so far, fetch
  again, and settle whatever new messages, up to the batch of the current plan, arrive then: each
  exactly once, with the queue empty and every worker idle.
\<close>

theorem pull_consumer_serves_what_arrives:
  assumes "pull_reaches jetStream now cfg handler s st" and "\<not> p_done st"
    and "distinct msgs" and "set msgs \<inter> set (p_fetched st) = {}" and "int (length msgs) \<le> f_batch (p_plan st)"
  shows "\<exists>st'. (\<lambda>a b. pull_step (runtime_of cfg handler) a b \<and> \<not> p_done b)\<^sup>*\<^sup>* st st' \<and>
    p_fetched st' = p_fetched st @ msgs \<and> mset (map settled_message (p_settled st')) = mset (p_fetched st @ msgs) \<and>
    p_jobs st' = [] \<and> set (p_workers st') \<subseteq> {Idle}"
proof -
  let ?R = "runtime_of cfg handler"
  have inv: "pull_inv ?R st" and cfg: "consumer_ok (rt_cfg ?R)" "rt_capacity ?R = pc_QueueSize (rt_cfg ?R)"
    using pull_reaches_inv [OF assms(1)] by simp_all
  obtain st1 where st1: "(serve_step ?R)\<^sup>*\<^sup>* st st1" "pull_inv ?R st1" "\<not> p_done st1" "pending st1 = 0"
    "p_fetched st1 = p_fetched st" "p_plan st1 = p_plan st"
    using all_settled [OF inv cfg assms(2)] by blast
  obtain st2 where st2: "(serve_step ?R)\<^sup>*\<^sup>* st1 st2" "p_fetcher st2 = Fetching" "f_batch (p_plan st2) = f_batch (p_plan st)"
    "p_fetched st2 = p_fetched st"
    using next_fetch [OF st1(2-4)] st1(5,6) by auto
  have inv2: "pull_inv ?R st2 \<and> \<not> p_done st2"
    using st2(1) st1(2,3) by (induction rule: rtranclp_induct) (auto dest: serve_step_inv [OF _ cfg(1)])
  let ?st3 = "st2\<lparr>p_fetcher := Dispatching msgs, p_fetched := p_fetched st2 @ msgs\<rparr>"
  have st3: "serve_step ?R st2 ?st3"
    unfolding serve_step_def using pull_step.fetch_gets [of st2 msgs ?R] st2(2-4) inv2 assms(3-5) by simp
  obtain st4 where st4: "(serve_step ?R)\<^sup>*\<^sup>* ?st3 st4" "pull_inv ?R st4" "\<not> p_done st4" "pending st4 = 0"
    "p_fetched st4 = p_fetched st @ msgs"
    using all_settled [of ?R ?st3] serve_step_inv [OF st3 cfg(1)] inv2 cfg st2(4) by auto
  have "(serve_step ?R)\<^sup>*\<^sup>* st st4" using st1(1) st2(1) st3 st4(1) by (metis (no_types, lifting) rtranclp.rtrancl_into_rtrancl rtranclp_trans)
  moreover have "v = Idle" if "v \<in> set (p_workers st4)" for v
  proof -
    have "in_hand v = []" "v \<noteq> Exited" using that st4(2-4) by (auto simp: pull_inv_def pending_none)
    then show ?thesis by (cases v) simp_all
  qed
  ultimately show ?thesis
    using idle_settled [OF st4(2-4)] st4(4,5) unfolding serve_step_def [abs_def] by (intro exI [of _ st4]) (auto simp: pending_none)
qed

text \<open>
  C24. From every reachable state in which the context is cancelled the fetcher and all workers
  can end and the channel be closed, and no run makes more than a computed number of
  state-changing steps before that.
\<close>

theorem cancellation_ends_the_consumer:
  assumes "pull_reaches jetStream now cfg handler s st" and "p_done st"
  shows "(\<exists>st'. (pull_step (runtime_of cfg handler))\<^sup>*\<^sup>* st st' \<and> p_fetcher st' = Closed \<and>
      set (p_workers st') \<subseteq> {Exited}) \<and>
    \<not> (\<exists>n st'. shutdown_bound st < n \<and> ((\<lambda>a b. pull_step (runtime_of cfg handler) a b \<and> b \<noteq> a) ^^ n) st st')"
  using pull_reaches_inv [OF assms(1)] assms(2) shutdown_bounded [OF assms(2), of _ "runtime_of cfg handler"]
  by (intro conjI shutdown_reaches) (auto simp: not_less)

text \<open>A consumer that has fetched and handled one message when it is cancelled, for the witnesses.\<close>

definition sample_js :: "(string list) jetstream" where
  "sample_js = \<lparr>js_AddConsumer = (\<lambda>_ _ s. (Inl (Foreign ''consumer already exists''), s)),
     js_UpdateConsumer = (\<lambda>_ _ s. (Inr (), s)), js_PullSubscribe = (\<lambda>_ _ _ s. (Inr (), s))\<rparr>"

definition sample_log_handler :: "(string list) message_handler" where
  "sample_log_handler subject data s = (Inr (), s @ [data])"

abbreviation sample_runtime :: "(string list) pull_runtime" where
  "sample_runtime \<equiv> runtime_of adaptive_consumer sample_log_handler"

definition sample_delivery :: pull_message where
  "sample_delivery = \<lparr>pm_Delivery = 1, pm_Subject = ''saga.user.create'', pm_Data = ''x''\<rparr>"

definition sample_pull :: "(string list) pull_state" where
  "sample_pull =
    (let st0 = started sample_runtime 0 [];
         st1 = st0\<lparr>p_plan := maybeUpdateAdaptivePlan (rt_cfg sample_runtime) (3 * second) (3 * second) (Inr 1500) (p_plan st0),
           p_fetcher := Fetching\<rparr>;
         st2 = st1\<lparr>p_fetcher := Dispatching [sample_delivery], p_fetched := p_fetched st1 @ [sample_delivery]\<rparr>;
         st3 = st2\<lparr>p_jobs := p_jobs st2 @ [sample_delivery], p_fetcher := Dispatching []\<rparr>;
         st4 = set_worker 0 (Busy sample_delivery) (st3\<lparr>p_jobs := []\<rparr>);
         st5 = set_worker 0 Idle (st4\<lparr>p_world := [''x''], p_settled := p_settled st4 @ [Acked sample_delivery]\<rparr>)
     in st5\<lparr>p_done := True\<rparr>)"

lemma sample_settings:
  "pc_Workers adaptive_consumer = 8" "pc_QueueSize adaptive_consumer = 500" "pc_BatchSize adaptive_consumer = 100"
  "consumer_ok adaptive_consumer"
  using default_consumers_ok(2) [of "''saga.user.create''" "''d''" True]
  by (simp_all add: adaptive_consumer_def) (simp_all add: buildPullConsumerConfig_def default_NATS_def)

lemma sample_run_started:
  "fst (RunPullConsumer (Inr sample_js) 0 adaptive_consumer sample_log_handler []) = Inr (started sample_runtime 0 [])"
  using sample_settings(4)
  by (simp add: RunPullConsumer_def Validate_ok [THEN iffD2] Create_def ensure_consumer_def sample_js_def)

lemma sample_pull_reached:
  "pull_reaches (Inr sample_js) 0 adaptive_consumer sample_log_handler [] sample_pull"
proof -
  let ?R = sample_runtime and ?m = sample_delivery
  define st0 where "st0 = started ?R 0 []"
  define st1 where "st1 = st0\<lparr>p_plan := maybeUpdateAdaptivePlan (rt_cfg ?R) (3 * second) (3 * second) (Inr 1500) (p_plan st0),
           p_fetcher := Fetching\<rparr>"
  define st2 where "st2 = st1\<lparr>p_fetcher := Dispatching [?m], p_fetched := p_fetched st1 @ [?m]\<rparr>"
  define st3 where "st3 = st2\<lparr>p_jobs := p_jobs st2 @ [?m], p_fetcher := Dispatching []\<rparr>"
  define st4 where "st4 = set_worker 0 (Busy ?m) (st3\<lparr>p_jobs := []\<rparr>)"
  define st5 where "st5 = set_worker 0 Idle (st4\<lparr>p_world := [''x''], p_settled := p_settled st4 @ [Acked ?m]\<rparr>)"
  note defs = st0_def st1_def st2_def st3_def st4_def st5_def started_def
  note cfg = sample_settings
  have run: "fst (RunPullConsumer (Inr sample_js) 0 adaptive_consumer sample_log_handler []) = Inr st0"
    unfolding st0_def by (rule sample_run_started)
  have "plan_of (p_plan st1) = plan_of (p_plan st0) \<or> (\<exists>n. plan_of (p_plan st1) = ResolvePullPlan adaptive_consumer n)"
    using maybeUpdate_plan [of adaptive_consumer "3 * second" "3 * second" "Inr 1500" "p_plan st0"] by (simp add: st1_def)
  moreover have "sound_plan (plan_of (p_plan st0))"
    using started_inv [of ?R 0 "[]"] cfg by (simp add: pull_inv_def st0_def)
  ultimately have "sound_plan (plan_of (p_plan st1))" using ResolvePullPlan_sound [OF cfg(4)] by metis
  then have batch: "0 < f_batch (p_plan st1)" by (simp add: sound_plan_def plan_of_def)
  have "pull_step ?R st0 st1"
    unfolding st1_def by (rule pull_step.fetcher_plans) (simp_all add: st0_def started_def)
  moreover have "pull_step ?R st1 st2"
    unfolding st2_def by (rule pull_step.fetch_gets) (use batch in \<open>simp_all add: st1_def st0_def started_def\<close>)
  moreover have "pull_step ?R st2 st3"
    unfolding st3_def by (rule pull_step.dispatch_sends) (simp_all add: st2_def st1_def st0_def started_def cfg)
  moreover have "pull_step ?R st3 st4"
    unfolding st4_def by (rule pull_step.worker_takes) (simp_all add: st3_def st2_def st1_def st0_def started_def cfg)
  moreover have "pull_step ?R st4 st5"
    unfolding st5_def
    by (rule pull_step.worker_settles [where msg = ?m and ack_err = None])
      (simp_all add: st4_def st3_def st2_def st1_def st0_def started_def cfg work_def sample_log_handler_def sample_delivery_def)
  moreover have "pull_step ?R st5 sample_pull"
    unfolding sample_pull_def Let_def by (fold st0_def, fold st1_def, fold st2_def, fold st3_def, fold st4_def, fold st5_def)
      (rule pull_step.cancelled)
  ultimately have "(pull_step ?R)\<^sup>*\<^sup>* st0 sample_pull" by simp
  with run show ?thesis by (auto simp: pull_reaches_def)
qed


theorem every_fetched_message_is_accounted_for_witness:
  "int (length (p_jobs sample_pull)) \<le> pc_QueueSize adaptive_consumer \<and>
    length (p_workers sample_pull) = nat (pc_Workers adaptive_consumer) \<and>
    mset (p_fetched sample_pull) = accounted sample_pull \<and>
    distinct (map settled_message (p_settled sample_pull))"
  using every_fetched_message_is_accounted_for [OF sample_pull_reached] by simp

theorem pulling_follows_a_configured_plan_witness:
  "plan_of (p_plan sample_pull) \<in> plans adaptive_consumer \<and> sound_plan (plan_of (p_plan sample_pull))"
  using pulling_follows_a_configured_plan [OF sample_pull_reached] by simp

theorem pull_consumer_serves_what_arrives_witness:
  "\<exists>st'. (\<lambda>a b. pull_step sample_runtime a b \<and> \<not> p_done b)\<^sup>*\<^sup>* (started sample_runtime 0 []) st' \<and>
    p_fetched st' = [sample_delivery] \<and> mset (map settled_message (p_settled st')) = {#sample_delivery#} \<and>
    p_jobs st' = [] \<and> set (p_workers st') \<subseteq> {Idle}"
proof -
  let ?st = "started sample_runtime 0 []"
  have r: "pull_reaches (Inr sample_js) 0 adaptive_consumer sample_log_handler [] ?st"
    using sample_run_started by (auto simp: pull_reaches_def)
  have f: "\<not> p_done ?st" "p_fetched ?st = []" "f_batch (p_plan ?st) = 100"
    by (simp_all add: started_def sample_settings)
  from pull_consumer_serves_what_arrives [OF r f(1), of "[sample_delivery]"] f(2,3) show ?thesis by simp
qed

theorem cancellation_ends_the_consumer_witness:
  "(\<exists>st'. (pull_step sample_runtime)\<^sup>*\<^sup>* sample_pull st' \<and> p_fetcher st' = Closed \<and>
      set (p_workers st') \<subseteq> {Exited}) \<and>
    \<not> (\<exists>n st'. shutdown_bound sample_pull < n \<and>
      ((\<lambda>a b. pull_step sample_runtime a b \<and> b \<noteq> a) ^^ n) sample_pull st')"
  using cancellation_ends_the_consumer [OF sample_pull_reached] by (simp add: sample_pull_def Let_def)

end
