(* ===== verification/NatsEvents.thy ===== *)
theory NatsEvents
  imports NatsPull SagaFlow
begin

text \<open>
  The event adapters of the NATS transport: the detailed-user projection (detailed_user.go) and
  the registration saga (commands.go, mapper.go, error_reason.go, saga_registration_handler.go,
  saga_registration_subscriber.go). The structs on the wire have the fields and tags of the Kafka
  adapters, but for the session of a create result, which is always written here; the last lemmas
  compare the two transports.
\<close>

section \<open>Detailed-user projection\<close>

type_synonym detailed_user_requested_event = detailed_user_event

definition requested_event :: "user \<Rightarrow> detailed_user_requested_event" where
  "requested_event u =
    \<lparr>ev_UserID = TrimSpace (u_ID u), ev_Username = TrimSpace (u_Username u),
     ev_DisplayName = TrimSpace (u_DisplayName u), ev_AvatarID = TrimSpace (u_AvatarID u),
     ev_AvatarURL = TrimSpace (u_AvatarURL u), ev_About = TrimSpace (u_About u)\<rparr>"

definition nats_PublishDetailedUserRequested :: "(string \<Rightarrow> string \<Rightarrow> (goerr, unit, 's) io) \<Rightarrow> nats_config
    \<Rightarrow> user option \<Rightarrow> (goerr, unit, 's) io" where
  "nats_PublishDetailedUserRequested publish cfg user s =
    (case user of
       None \<Rightarrow> (Inl ErrInvalidDetailedUserPayload, s)
     | Some u \<Rightarrow> publish (n_UserDetailedRequestedSubject cfg) (marshal_event (requested_event u)) s)"

definition nats_NewDetailedUserPublisher :: "'s event_broker option \<Rightarrow> nats_config \<Rightarrow> unit option
    \<Rightarrow> goerr + 's detailed_user_publisher" where
  "nats_NewDetailedUserPublisher b cfg log =
    (case b of
       None \<Rightarrow> Inl ErrNilBroker
     | Some b \<Rightarrow>
         if TrimSpace (n_UserDetailedRequestedSubject cfg) = [] then Inl ErrEmptySubject
         else if log = None then Inl NatsPull.ErrNilLogger
         else Inr \<lparr>pb_PublishDetailedUserRequested = nats_PublishDetailedUserRequested (eb_Publish b) cfg\<rparr>)"

definition nats_relay_handler :: "'s event_broker \<Rightarrow> nats_config \<Rightarrow> 's message_handler" where
  "nats_relay_handler b cfg subject payload s =
    (if payload = [] then (Inl ErrInvalidDetailedUserPayload, s)
     else eb_Publish b (n_UserDetailedProjectionSubject cfg) payload s)"

definition nats_relay_Start :: "'s event_broker \<Rightarrow> nats_config \<Rightarrow> (goerr, unit, 's) io" where
  "nats_relay_Start b cfg s =
    (if TrimSpace (n_UserDetailedRequestedSubject cfg) = [] then (Inl ErrEmptySubject, s)
     else if TrimSpace (n_UserDetailedProjectionSubject cfg) = [] then (Inl ErrEmptySubject, s)
     else eb_Subscribe b (n_UserDetailedRequestedSubject cfg) (nats_relay_handler b cfg) s)"

definition nats_NewDetailedUserProjectionRelay :: "'s event_broker option \<Rightarrow> nats_config \<Rightarrow> unit option
    \<Rightarrow> goerr + (goerr, unit, 's) io" where
  "nats_NewDetailedUserProjectionRelay b cfg log =
    (case b of
       None \<Rightarrow> Inl ErrNilBroker
     | Some b \<Rightarrow>
         if TrimSpace (n_UserDetailedRequestedSubject cfg) = [] then Inl ErrEmptySubject
         else if TrimSpace (n_UserDetailedProjectionSubject cfg) = [] then Inl ErrEmptySubject
         else if log = None then Inl NatsPull.ErrNilLogger
         else Inr (nats_relay_Start b cfg))"

definition nats_projection_handler :: "'s user_read_repository \<Rightarrow> 's message_handler" where
  "nats_projection_handler read subject payload s =
    (case unmarshal_event payload of
       Inl err \<Rightarrow> (Inl (WrapUnmarshalDetailedUserProjectionError err), s)
     | Inr event \<Rightarrow>
         (let user = zero_user
            \<lparr>u_ID := TrimSpace (ev_UserID event), u_Username := TrimSpace (ev_Username event),
             u_DisplayName := TrimSpace (ev_DisplayName event), u_AvatarID := TrimSpace (ev_AvatarID event),
             u_AvatarURL := TrimSpace (ev_AvatarURL event), u_About := TrimSpace (ev_About event)\<rparr>
          in if TrimSpace (u_Username user) = [] then (Inl ErrInvalidDetailedUserPayload, s)
             else rr_UpsertByUsername read (Some user) s))"

definition nats_projection_Start :: "'s event_broker \<Rightarrow> 's user_read_repository \<Rightarrow> nats_config
    \<Rightarrow> (goerr, unit, 's) io" where
  "nats_projection_Start b read cfg s =
     eb_RunPullConsumer b (projection_consumer_config cfg) (nats_projection_handler read) s"

definition nats_NewDetailedUserProjectionSubscriber :: "'s event_broker option
    \<Rightarrow> 's user_read_repository option \<Rightarrow> nats_config \<Rightarrow> unit option \<Rightarrow> goerr + (goerr, unit, 's) io" where
  "nats_NewDetailedUserProjectionSubscriber b read cfg log =
    (case b of
       None \<Rightarrow> Inl ErrNilBroker
     | Some b \<Rightarrow>
         (case read of
            None \<Rightarrow> Inl NatsPull.ErrNilUserReadRepository
          | Some read \<Rightarrow>
              if TrimSpace (n_UserDetailedStream cfg) = [] then Inl ErrEmptyStreamName
              else if TrimSpace (n_UserDetailedProjectionSubject cfg) = [] then Inl ErrEmptySubject
              else if TrimSpace (n_UserDetailedProjectionDurable cfg) = [] then Inl ErrEmptyDurableName
              else if log = None then Inl NatsPull.ErrNilLogger
              else Inr (nats_projection_Start b read cfg)))"

section \<open>Saga results\<close>

text \<open>
  A result struct is the list of the members the encoder writes. The package variable jsonMarshal
  is an argument; it is json.Marshal, which does not fail on structs of strings.
\<close>

type_synonym json_marshal = "members \<Rightarrow> goerr + string"

definition jsonMarshal :: json_marshal where
  "jsonMarshal ms = Inr (enc (JObj ms))"

definition create_result_members :: "saga_result \<Rightarrow> members" where
  "create_result_members r =
     [(''session_id'', JStr (sr_SessionID r)), (''user_id'', JStr (sr_UserID r))] @
     omitempty ''saga_id'' (sr_SagaID r) @ [(''status'', JStr (sr_Status r))] @
     omitempty ''error'' (sr_Error r) @ [(''timestamp'', JStr (sr_Timestamp r))]"

definition delete_result_members :: "saga_result \<Rightarrow> members" where
  "delete_result_members r =
     omitempty ''session_id'' (sr_SessionID r) @ [(''user_id'', JStr (sr_UserID r))] @
     omitempty ''saga_id'' (sr_SagaID r) @ [(''status'', JStr (sr_Status r))] @
     omitempty ''error'' (sr_Error r) @ [(''timestamp'', JStr (sr_Timestamp r))]"

definition WrapMarshalCreateUserResultError :: "goerr \<Rightarrow> goerr" where
  "WrapMarshalCreateUserResultError err = wrap_msg ''marshal create user result'' err"

definition WrapMarshalDeleteUserResultError :: "goerr \<Rightarrow> goerr" where
  "WrapMarshalDeleteUserResultError err = wrap_msg ''marshal delete user result'' err"

definition ToCreateFailureResultPayload :: "json_marshal \<Rightarrow> time \<Rightarrow> create_user_command \<Rightarrow> string
    \<Rightarrow> goerr + string" where
  "ToCreateFailureResultPayload marshal now cmd reason =
    (case marshal (create_result_members
       \<lparr>sr_SessionID = cc_SessionID cmd, sr_UserID = cc_UserID cmd, sr_SagaID = cc_SagaID cmd,
        sr_Status = ''failed'', sr_Error = reason, sr_Timestamp = format_time now\<rparr>) of
       Inl err \<Rightarrow> Inl (WrapMarshalCreateUserResultError err) | Inr payload \<Rightarrow> Inr payload)"

definition ToCreateSuccessResultPayload :: "json_marshal \<Rightarrow> time \<Rightarrow> create_user_command \<Rightarrow> goerr + string" where
  "ToCreateSuccessResultPayload marshal now cmd =
    (case marshal (create_result_members
       \<lparr>sr_SessionID = cc_SessionID cmd, sr_UserID = cc_UserID cmd, sr_SagaID = cc_SagaID cmd,
        sr_Status = ''success'', sr_Error = [], sr_Timestamp = format_time now\<rparr>) of
       Inl err \<Rightarrow> Inl (WrapMarshalCreateUserResultError err) | Inr payload \<Rightarrow> Inr payload)"

definition ToDeleteFailureResultPayload :: "json_marshal \<Rightarrow> time \<Rightarrow> delete_user_command \<Rightarrow> string
    \<Rightarrow> goerr + string" where
  "ToDeleteFailureResultPayload marshal now cmd reason =
    (case marshal (delete_result_members
       \<lparr>sr_SessionID = dc_SessionID cmd, sr_UserID = dc_UserID cmd, sr_SagaID = dc_SagaID cmd,
        sr_Status = ''failed'', sr_Error = reason, sr_Timestamp = format_time now\<rparr>) of
       Inl err \<Rightarrow> Inl (WrapMarshalDeleteUserResultError err) | Inr payload \<Rightarrow> Inr payload)"

definition ToDeleteSuccessResultPayload :: "json_marshal \<Rightarrow> time \<Rightarrow> delete_user_command \<Rightarrow> goerr + string" where
  "ToDeleteSuccessResultPayload marshal now cmd =
    (case marshal (delete_result_members
       \<lparr>sr_SessionID = dc_SessionID cmd, sr_UserID = dc_UserID cmd, sr_SagaID = dc_SagaID cmd,
        sr_Status = ''success'', sr_Error = [], sr_Timestamp = format_time now\<rparr>) of
       Inl err \<Rightarrow> Inl (WrapMarshalDeleteUserResultError err) | Inr payload \<Rightarrow> Inr payload)"

section \<open>Saga handlers\<close>

record 's nats_saga_subscriber =
  ns_broker :: "'s event_broker"
  ns_service :: "'s user_service_methods"
  ns_cfg :: nats_config
  ns_resolver :: failure_reason_resolver
  ns_marshal :: json_marshal
  ns_now :: "'s \<Rightarrow> time"

definition nats_NewRegistrationSagaSubscriber :: "'s event_broker option \<Rightarrow> 's user_service_methods option
    \<Rightarrow> nats_config \<Rightarrow> failure_reason_resolver option \<Rightarrow> unit option \<Rightarrow> json_marshal \<Rightarrow> ('s \<Rightarrow> time)
    \<Rightarrow> goerr + 's nats_saga_subscriber" where
  "nats_NewRegistrationSagaSubscriber b service cfg resolver log marshal now =
    (case b of
       None \<Rightarrow> Inl ErrNilBroker
     | Some b \<Rightarrow>
         (case service of
            None \<Rightarrow> Inl ErrNilUserService
          | Some service \<Rightarrow>
              (case resolver of
                 None \<Rightarrow> Inl ErrNilFailureReasonResolver
               | Some resolver \<Rightarrow>
                   if log = None then Inl NatsPull.ErrNilLogger
                   else Inr \<lparr>ns_broker = b, ns_service = service, ns_cfg = cfg, ns_resolver = resolver,
                             ns_marshal = marshal, ns_now = now\<rparr>)))"

definition publish_payload :: "'s nats_saga_subscriber \<Rightarrow> string \<Rightarrow> goerr + string \<Rightarrow> (goerr, unit, 's) io" where
  "publish_payload S subject payload s =
    (case payload of Inl mapErr \<Rightarrow> (Inl mapErr, s) | Inr payload \<Rightarrow> eb_Publish (ns_broker S) subject payload s)"

definition handleCreateUserCommand :: "'s nats_saga_subscriber \<Rightarrow> 's message_handler" where
  "handleCreateUserCommand S subject payload s =
    (case unmarshal_create_command payload of
       Inl err \<Rightarrow> (Inl (WrapUnmarshalCreateUserCommandError err), s)
     | Inr cmd \<Rightarrow>
         (case us_CreateUser (ns_service S) (cc_UserID cmd) (cc_Username cmd) (cc_FirstName cmd)
                 (cc_LastName cmd) s of
            (Inl err, s1) \<Rightarrow>
              publish_payload S (n_SagaCreateUserResultSubject (ns_cfg S))
                (ToCreateFailureResultPayload (ns_marshal S) (ns_now S s1) cmd
                  (fr_CreateUserFailureReason (ns_resolver S) err)) s1
          | (Inr _, s1) \<Rightarrow>
              publish_payload S (n_SagaCreateUserResultSubject (ns_cfg S))
                (ToCreateSuccessResultPayload (ns_marshal S) (ns_now S s1) cmd) s1))"

definition handleDeleteUserCommand :: "'s nats_saga_subscriber \<Rightarrow> 's message_handler" where
  "handleDeleteUserCommand S subject payload s =
    (case unmarshal_delete_command payload of
       Inl err \<Rightarrow> (Inl (WrapUnmarshalDeleteUserCommandError err), s)
     | Inr cmd \<Rightarrow>
         (case us_DeleteUser (ns_service S) (dc_UserID cmd) s of
            (Inl err, s1) \<Rightarrow>
              publish_payload S (n_SagaDeleteUserResultSubject (ns_cfg S))
                (ToDeleteFailureResultPayload (ns_marshal S) (ns_now S s1) cmd
                  (fr_DeleteUserFailureReason (ns_resolver S) err)) s1
          | (Inr _, s1) \<Rightarrow>
              publish_payload S (n_SagaDeleteUserResultSubject (ns_cfg S))
                (ToDeleteSuccessResultPayload (ns_marshal S) (ns_now S s1) cmd) s1))"

definition saga_Subscribe :: "'s nats_saga_subscriber \<Rightarrow> (goerr, unit, 's) io" where
  "saga_Subscribe S s =
    (case eb_RunPullConsumer (ns_broker S)
            (buildPullConsumerConfig (ns_cfg S) (n_SagaCreateUserSubject (ns_cfg S))
              (n_SagaCreateUserDurable (ns_cfg S))) (handleCreateUserCommand S) s of
       (Inl err, s1) \<Rightarrow> (Inl err, s1)
     | (Inr _, s1) \<Rightarrow>
         (case eb_RunPullConsumer (ns_broker S)
                 (buildPullConsumerConfig (ns_cfg S) (n_SagaDeleteUserSubject (ns_cfg S))
                   (n_SagaDeleteUserDurable (ns_cfg S))) (handleDeleteUserCommand S) s1 of
            (Inl err, s2) \<Rightarrow> (Inl err, s2)
          | (Inr _, s2) \<Rightarrow> (Inr (), s2)))"

definition nats_CreateUserFailureReason :: "goerr \<Rightarrow> string" where
  "nats_CreateUserFailureReason err =
    (if errors_is err ErrInvalidUserID then ''invalid user_id''
     else if errors_is err ErrUserIDAlreadyTaken then ''user_id already taken''
     else if errors_is err ErrUsernameAlreadyTaken then ''username already taken''
     else ''failed to create user'')"

definition nats_DeleteUserFailureReason :: "goerr \<Rightarrow> string" where
  "nats_DeleteUserFailureReason err =
    (if errors_is err ErrInvalidUserID then ''invalid user_id''
     else if errors_is err ErrUserNotFound then ''user not found''
     else ''failed to delete user'')"

definition nats_NewDomainFailureReasonResolver :: failure_reason_resolver where
  "nats_NewDomainFailureReasonResolver =
    \<lparr>fr_CreateUserFailureReason = nats_CreateUserFailureReason,
     fr_DeleteUserFailureReason = nats_DeleteUserFailureReason\<rparr>"

section \<open>The two transports agree\<close>

lemma resolvers_agree: "nats_NewDomainFailureReasonResolver = NewDomainFailureReasonResolver"
  by (simp add: nats_NewDomainFailureReasonResolver_def NewDomainFailureReasonResolver_def fun_eq_iff
      nats_CreateUserFailureReason_def nats_DeleteUserFailureReason_def CreateUserFailureReason_def
      DeleteUserFailureReason_def)

lemma delete_members_agree: "delete_result_members r = result_members r"
  by (simp add: delete_result_members_def result_members_def)

lemma create_members_agree: "sr_SessionID r \<noteq> [] \<Longrightarrow> create_result_members r = result_members r"
  by (simp add: create_result_members_def result_members_def omitempty_def)

text \<open>Subscribers of the two transports with the same collaborators and the same topics.\<close>

definition same_saga :: "'s nats_saga_subscriber \<Rightarrow> 's registration_saga_subscriber \<Rightarrow> bool" where
  "same_saga S K \<longleftrightarrow>
     eb_Publish (ns_broker S) = eb_Publish (sg_broker K) \<and> ns_service S = sg_service K \<and>
     ns_resolver S = sg_resolver K \<and> ns_now S = sg_now K \<and> ns_marshal S = jsonMarshal \<and>
     n_SagaCreateUserResultSubject (ns_cfg S) = k_SagaCreateResultTopic (sg_cfg K) \<and>
     n_SagaDeleteUserResultSubject (ns_cfg S) = k_SagaDeleteResultTopic (sg_cfg K)"

lemma creation_agrees:
  assumes "same_saga S K"
  shows "case unmarshal_create_command raw of
      Inl err \<Rightarrow> handleCreateUserCommand S subject raw s = (Inl (WrapUnmarshalCreateUserCommandError err), s) \<and>
        handleCreate K subject raw s = (Inl err, s)
    | Inr cmd \<Rightarrow> cc_SessionID cmd \<noteq> [] \<longrightarrow>
        handleCreateUserCommand S subject raw s = handleCreate K subject raw s"
  using assms create_members_agree
  by (auto simp: same_saga_def handleCreateUserCommand_def handleCreate_def publish_payload_def
      publish_result_def ToCreateFailureResultPayload_def ToCreateSuccessResultPayload_def jsonMarshal_def
      marshal_result_def saga_failed_def saga_success_def split: sum.splits prod.splits)

lemma deletion_agrees:
  assumes "same_saga S K"
  shows "case unmarshal_delete_command raw of
      Inl err \<Rightarrow> handleDeleteUserCommand S subject raw s = (Inl (WrapUnmarshalDeleteUserCommandError err), s) \<and>
        handleDelete K subject raw s = (Inl err, s)
    | Inr cmd \<Rightarrow> handleDeleteUserCommand S subject raw s = handleDelete K subject raw s"
  using assms delete_members_agree
  by (auto simp: same_saga_def handleDeleteUserCommand_def handleDelete_def publish_payload_def
      publish_result_def ToDeleteFailureResultPayload_def ToDeleteSuccessResultPayload_def jsonMarshal_def
      marshal_result_def saga_failed_def saga_success_def split: sum.splits prod.splits)

end
