(* ===== verification/Transports.thy ===== *)
theory Transports
  imports NatsEvents
begin

text \<open>
  The asynchronous refresh of the detailed view: what the query publishes, forwarded by the relay
  and written by the projection subscriber, against what the query itself wrote. The last theorems
  compare the subscribers of the two transports.
\<close>

section \<open>The projected user\<close>

definition trimmed :: "user \<Rightarrow> bool" where
  "trimmed u \<longleftrightarrow> TrimSpace (u_ID u) = u_ID u \<and> TrimSpace (u_Username u) = u_Username u \<and>
     TrimSpace (u_AvatarID u) = u_AvatarID u \<and> TrimSpace (u_AvatarURL u) = u_AvatarURL u \<and>
     TrimSpace (u_About u) = u_About u"

lemma event_of_ok: "storable u \<Longrightarrow> event_ok (event_of u)"
  by (simp add: event_ok_def event_of_def storable_def)

lemma projected_view:
  assumes "trimmed u" and "u_DisplayName u = DisplayName (u_FirstName u) (u_LastName u)"
  shows "as_detailed (user_of_event (event_of u)) = public_view u"
  using assms
  by (simp add: as_detailed_def public_view_def user_of_event_def event_of_def trimmed_def shown_name_def
      zero_user_def) (simp add: DisplayName_def)

lemma projected_storable: "storable u \<Longrightarrow> storable (user_of_event (event_of u))"
  by (simp add: storable_def user_of_event_def event_of_def zero_user_def utf8_valid_ascii)

lemma projection_outcome:
  assumes "redis_inv E w" "storable u" "TrimSpace (u_Username u) \<noteq> []"
    and "projection_handler (redis_repo E) topic (marshal_event (event_of u)) w = (r, w')"
  shows "preview w' = preview w \<and> users_view w' = users_view w \<and>
    (r = Inr () \<longrightarrow> detailed w' = (detailed w)(TrimSpace (u_Username u) \<mapsto> as_detailed (user_of_event (event_of u)))) \<and>
    (detailed w' = detailed w \<or>
     detailed w' = (detailed w)(TrimSpace (u_Username u) \<mapsto> as_detailed (user_of_event (event_of u))))"
proof -
  let ?v = "user_of_event (event_of u)"
  have n: "u_Username ?v = TrimSpace (u_Username u)" by (simp add: user_of_event_def event_of_def)
  have q: "rr_UpsertByUsername (redis_repo E) (Some ?v) w = (r, w')"
    using assms(3,4) n unmarshal_marshal_event [OF event_of_ok [OF assms(2)]]
    by (simp add: projection_handler_def)
  have st: "storable ?v" by (rule projected_storable [OF assms(2)])
  have "preview w' = preview w \<and> users_view w' = users_view w"
    using redis.dupsert_frame [OF assms(1) q] redis_kept_views [of w' w] by simp
  moreover have "detailed w' = (detailed w)(u_Username ?v \<mapsto> as_detailed ?v)" if "r = Inr ()"
    using redis.dupsert_ok [OF assms(1) q [unfolded that] st] .
  moreover have "detailed w' = detailed w \<or> detailed w' = (detailed w)(u_Username ?v \<mapsto> as_detailed ?v)" if "r = Inl e" for e
    using redis.dupsert_err [OF assms(1) q [unfolded that] st] .
  ultimately show ?thesis using n by (cases r) auto
qed

text \<open>
  C30. The event published for a detailed query, written by the projection subscriber in any later
  state, stores under the user name the same public view of the user as the query itself did, when
  the fields of the user have no surrounding space.
\<close>

theorem projection_agrees_with_the_query:
  assumes "pg_inv E w" and "GetDetailedUserByUsername (wired_service E topic) name w = (Inr v, w1)"
    and "detailed w (TrimSpace name) = None" and "trimmed v" and "redis_inv E w2"
  shows "case projection_handler (redis_repo E) t (marshal_event (event_of v)) w2 of (r, w3) \<Rightarrow>
    detailed w1 (TrimSpace name) = Some (public_view v) \<and> users_view w3 = users_view w2 \<and>
    (r = Inr () \<longrightarrow> detailed w3 = (detailed w2)(TrimSpace name \<mapsto> public_view v)) \<and>
    (isl r \<longrightarrow> detailed w3 \<in> {detailed w2, (detailed w2)(TrimSpace name \<mapsto> public_view v)})"
proof -
  have "TrimSpace name \<noteq> []" using assms(2) by (auto simp: GetDetailedUserByUsername_def Let_def)
  moreover obtain u where u: "u_Username u = TrimSpace name" "v = u\<lparr>u_AvatarURL := u_AvatarURL v,
      u_DisplayName := DisplayName (u_FirstName u) (u_LastName u)\<rparr>" "storable v"
      "detailed w1 = (detailed w)(TrimSpace name \<mapsto> public_view v)"
    using wired.detailed_query_effect [OF assms(1) redis_inv_pg [OF assms(1)] assms(2)] assms(3) by auto
  from u(1) arg_cong [OF u(2), of u_Username] have n: "u_Username v = TrimSpace name" by simp
  have "u_DisplayName v = DisplayName (u_FirstName v) (u_LastName v)"
    using arg_cong [OF u(2), of u_DisplayName] arg_cong [OF u(2), of u_FirstName]
      arg_cong [OF u(2), of u_LastName] by simp
  note pv = projected_view [OF assms(4) this]
  obtain r w3 where p: "projection_handler (redis_repo E) t (marshal_event (event_of v)) w2 = (r, w3)" by fastforce
  from projection_outcome [OF assms(5) u(3) _ p] n pv \<open>TrimSpace name \<noteq> []\<close> u(4) p show ?thesis by auto
qed


definition sample_detailed_user :: user where
  "sample_detailed_user = (MapUserRowToDomain sample_row)\<lparr>u_DisplayName := DisplayName ''Alex'' ''Doe''\<rparr>"

lemma sample_detailed_query:
  "GetDetailedUserByUsername sample_service ''alex'' sample_world = (Inr sample_detailed_user, detailed_world)"
  by (simp add: detailed_eval run_eval sample_detailed_user_def sample_row_def MapUserRowToDomain_def
      zero_user_def prod_eq_iff env_eval)

theorem projection_agrees_with_the_query_witness:
  "case projection_handler (redis_repo sample_env) ''t'' (marshal_event (event_of sample_detailed_user)) sample_world of
     (r, w3) \<Rightarrow>
    detailed detailed_world (TrimSpace ''alex'') = Some (public_view sample_detailed_user) \<and>
    users_view w3 = users_view sample_world \<and>
    (r = Inr () \<longrightarrow> detailed w3 = (detailed sample_world)(TrimSpace ''alex'' \<mapsto> public_view sample_detailed_user)) \<and>
    (isl r \<longrightarrow> detailed w3 \<in> {detailed sample_world,
       (detailed sample_world)(TrimSpace ''alex'' \<mapsto> public_view sample_detailed_user)})"
  by (rule projection_agrees_with_the_query [OF sample_inv sample_detailed_query])
    (simp_all add: sample_detailed sample_inv trimmed_def sample_detailed_user_def sample_row_def
      MapUserRowToDomain_def zero_user_def TrimSpace_visible)

theorem projection_transports_agree:
  "snd (nats_projection_handler read subject payload s) = snd (projection_handler read subject payload s) \<and>
   (isl (fst (nats_projection_handler read subject payload s)) \<longleftrightarrow> isl (fst (projection_handler read subject payload s)))"
  by (auto simp: nats_projection_handler_def projection_handler_def user_of_event_def Let_def split: sum.splits)

definition sample_nats_saga :: "env \<Rightarrow> world nats_saga_subscriber" where
  "sample_nats_saga E = \<lparr>ns_broker = kafka_backed E sample_broker,
     ns_service = UserService (wired_service E ''user.detailed.requested''), ns_cfg = default_NATS,
     ns_resolver = NewDomainFailureReasonResolver, ns_marshal = jsonMarshal, ns_now = clock_of E\<rparr>"

lemma sample_same_saga: "same_saga (sample_nats_saga E) (sample_saga E)"
  by (simp add: same_saga_def sample_nats_saga_def sample_saga_def default_NATS_def default_Kafka_def)

text \<open>
  C29. With the same collaborators and topics the NATS and the Kafka saga handlers do the same:
  the same calls, the same published bytes, the same result, for deletions and for creations with
  a session; they differ in the text of the error for an undecodable command.
\<close>

theorem saga_transports_agree:
  assumes "same_saga S K"
  shows "(case unmarshal_create_command raw of
      Inl err \<Rightarrow> handleCreateUserCommand S subject raw s = (Inl (WrapUnmarshalCreateUserCommandError err), s) \<and>
        handleCreate K subject raw s = (Inl err, s)
    | Inr cmd \<Rightarrow> cc_SessionID cmd \<noteq> [] \<longrightarrow>
        handleCreateUserCommand S subject raw s = handleCreate K subject raw s) \<and>
   (case unmarshal_delete_command raw of
      Inl err \<Rightarrow> handleDeleteUserCommand S subject raw s = (Inl (WrapUnmarshalDeleteUserCommandError err), s) \<and>
        handleDelete K subject raw s = (Inl err, s)
    | Inr cmd \<Rightarrow> handleDeleteUserCommand S subject raw s = handleDelete K subject raw s)"
  by (intro conjI creation_agrees [OF assms] deletion_agrees [OF assms])

theorem saga_transports_agree_witness:
  "(case unmarshal_create_command sample_create_raw of
      Inl err \<Rightarrow> handleCreateUserCommand (sample_nats_saga sample_env) ''s'' sample_create_raw empty_world =
          (Inl (WrapUnmarshalCreateUserCommandError err), empty_world) \<and>
        handleCreate (sample_saga sample_env) ''s'' sample_create_raw empty_world = (Inl err, empty_world)
    | Inr cmd \<Rightarrow> cc_SessionID cmd \<noteq> [] \<longrightarrow>
        handleCreateUserCommand (sample_nats_saga sample_env) ''s'' sample_create_raw empty_world =
        handleCreate (sample_saga sample_env) ''s'' sample_create_raw empty_world) \<and>
   (case unmarshal_delete_command sample_create_raw of
      Inl err \<Rightarrow> handleDeleteUserCommand (sample_nats_saga sample_env) ''s'' sample_create_raw empty_world =
          (Inl (WrapUnmarshalDeleteUserCommandError err), empty_world) \<and>
        handleDelete (sample_saga sample_env) ''s'' sample_create_raw empty_world = (Inl err, empty_world)
    | Inr cmd \<Rightarrow> handleDeleteUserCommand (sample_nats_saga sample_env) ''s'' sample_create_raw empty_world =
        handleDelete (sample_saga sample_env) ''s'' sample_create_raw empty_world)"
  by (rule saga_transports_agree [OF sample_same_saga])

end
