(* ===== verification/Storage.thy ===== *)
theory Storage
  imports NatsBroker NatsRuntime
begin

text \<open>
  Start-up of the stores: the PostgreSQL pool and the schema migrations (pkg/storage/postgres), the
  Redis client (pkg/storage/redis) and the JetStream streams (pkg/messaging/nats/bootstrap.go). The
  libraries that connect, migrate and ping are parameters; what is modelled is what the code hands
  to them and what it makes of their answers. The circuit-breaker hook of the Redis client is in
  \<open>RedisHook\<close>.
\<close>

section \<open>PostgreSQL\<close>

definition WrapResolveMigrationsPathError :: "goerr \<Rightarrow> goerr" where
  "WrapResolveMigrationsPathError err = wrap_msg ''resolve migrations path'' err"

definition WrapCreateMigratorError :: "goerr \<Rightarrow> goerr" where
  "WrapCreateMigratorError err = wrap_msg ''create migrator'' err"

definition WrapRunMigrationsError :: "goerr \<Rightarrow> goerr" where
  "WrapRunMigrationsError err = wrap_msg ''run migrations'' err"

definition WrapOpenDBError :: "goerr \<Rightarrow> goerr" where
  "WrapOpenDBError err = wrap_msg ''open db'' err"

text \<open>url.QueryEscape.\<close>

definition unreserved :: "char \<Rightarrow> bool" where
  "unreserved c \<longleftrightarrow> (let n = code c in
     48 \<le> n \<and> n \<le> 57 \<or> 65 \<le> n \<and> n \<le> 90 \<or> 97 \<le> n \<and> n \<le> 122 \<or> c \<in> set ''-_.~'')"

definition upper_hex :: "nat \<Rightarrow> char" where
  "upper_hex n = ''0123456789ABCDEF'' ! n"

definition escape_char :: "char \<Rightarrow> string" where
  "escape_char c =
    (if unreserved c then [c] else if c = CHR '' '' then ''+''
     else [CHR ''%'', upper_hex (code c div 16), upper_hex (code c mod 16)])"

definition QueryEscape :: "string \<Rightarrow> string" where
  "QueryEscape s = concat (map escape_char s)"

definition dsn :: "string \<Rightarrow> string \<Rightarrow> db_config \<Rightarrow> string" where
  "dsn user password cfg =
     ''postgres://'' @ user @ '':'' @ password @ ''@'' @ db_Host cfg @ '':'' @ itoa (db_Port cfg) @
     ''/'' @ db_Name cfg @ ''?sslmode='' @ db_SSLMode cfg"

definition open_dsn :: "db_config \<Rightarrow> string" where
  "open_dsn cfg = dsn (db_User cfg) (db_Password cfg) cfg"

definition migrations_dsn :: "db_config \<Rightarrow> string" where
  "migrations_dsn cfg = dsn (QueryEscape (db_User cfg)) (QueryEscape (db_Password cfg)) cfg @
     ''&x-migrations-table='' @ QueryEscape (db_MigrationsTable cfg)"

text \<open>The pool: what was connected to, and its limits.\<close>

record pool =
  pl_dsn :: string
  pl_MaxOpenConns :: int
  pl_MaxIdleConns :: int
  pl_ConnMaxLifetime :: time
  pl_ConnMaxIdleTime :: time

definition Open :: "(string \<Rightarrow> goerr + string) \<Rightarrow> (string \<Rightarrow> string \<Rightarrow> goerr option) \<Rightarrow> db_config
    \<Rightarrow> goerr + pool" where
  "Open register connectDB cfg =
    (case register (db_Name cfg) of
       Inl err \<Rightarrow> Inl (WrapOpenDBError err)
     | Inr driverName \<Rightarrow>
         (case connectDB driverName (open_dsn cfg) of
            Some err \<Rightarrow> Inl (WrapOpenDBError err)
          | None \<Rightarrow> Inr \<lparr>pl_dsn = open_dsn cfg, pl_MaxOpenConns = db_MaxOpenConns cfg,
                         pl_MaxIdleConns = db_MaxIdleConns cfg,
                         pl_ConnMaxLifetime = db_ConnMaxLifetime cfg, pl_ConnMaxIdleTime = 2 * minute\<rparr>))"

definition migrate_ErrNoChange :: goerr where
  "migrate_ErrNoChange = Sentinel ''migrate'' ''no change''"

text \<open>The source URL of the migrations; \<open>absPath\<close> is filepath.Abs.\<close>

definition migration_source :: "(string \<Rightarrow> goerr + string) \<Rightarrow> string \<Rightarrow> goerr + string" where
  "migration_source absPath path =
    (case CutPrefix path ''file://'' of
       (raw, ok) \<Rightarrow>
         if ok \<and> \<not> HasPrefix raw ''/'' then
           (case absPath raw of Inl err \<Rightarrow> Inl (WrapResolveMigrationsPathError err)
            | Inr a \<Rightarrow> Inr (''file://'' @ a))
         else Inr path)"

definition RunMigrations :: "(string \<Rightarrow> goerr + string)
    \<Rightarrow> (string \<Rightarrow> string \<Rightarrow> goerr + ('s \<Rightarrow> goerr option \<times> 's)) \<Rightarrow> db_config \<Rightarrow> (goerr, unit, 's) io" where
  "RunMigrations absPath newMigrator cfg s =
    (case migration_source absPath (db_MigrationsPath cfg) of
       Inl err \<Rightarrow> (Inl err, s)
     | Inr migrationPath \<Rightarrow>
         (case newMigrator migrationPath (migrations_dsn cfg) of
            Inl err \<Rightarrow> (Inl (WrapCreateMigratorError err), s)
          | Inr up \<Rightarrow>
              (case up s of
                 (None, s1) \<Rightarrow> (Inr (), s1)
               | (Some err, s1) \<Rightarrow>
                   if errors_is err migrate_ErrNoChange then (Inr (), s1)
                   else (Inl (WrapRunMigrationsError err), s1))))"

text \<open>
  A transaction works on a copy of the database: rolling back drops it, and committing makes it
  the database, unless the commit fails before it took effect.
\<close>

definition WithTx :: "goerr option \<Rightarrow> fault \<Rightarrow> ('d \<Rightarrow> (goerr + unit) \<times> 'd) \<Rightarrow> (goerr, unit, 'd) io" where
  "WithTx begin_err commit_fault body db =
    (case begin_err of
       Some err \<Rightarrow> (Inl err, db)
     | None \<Rightarrow>
         (case body db of
            (Inl err, tx) \<Rightarrow> (Inl err, db)
          | (Inr _, tx) \<Rightarrow>
              (case commit_fault of
                 NoFault \<Rightarrow> (Inr (), tx) | Lost err \<Rightarrow> (Inl err, db) | Late err \<Rightarrow> (Inl err, tx))))"

section \<open>Redis\<close>

definition WrapRedisPingError :: "goerr \<Rightarrow> goerr" where
  "WrapRedisPingError err = wrap_msg ''ping redis'' err"

record redis_options =
  ro_Addr :: string
  ro_Password :: string
  ro_DB :: int

definition redis_options_of :: "redis_config \<Rightarrow> redis_options" where
  "redis_options_of cfg =
    \<lparr>ro_Addr = rd_Host cfg @ '':'' @ itoa (rd_Port cfg), ro_Password = rd_Password cfg, ro_DB = rd_DB cfg\<rparr>"

text \<open>\<open>ping\<close> is the library's retried ping, \<open>instrument\<close> the tracing hook.\<close>

definition redis_Open :: "(redis_options \<Rightarrow> goerr option) \<Rightarrow> (redis_options \<Rightarrow> goerr option) \<Rightarrow> redis_config
    \<Rightarrow> goerr + redis_options" where
  "redis_Open instrument ping cfg =
    (let rdb = redis_options_of cfg in
     case instrument rdb of
       Some err \<Rightarrow> Inl err
     | None \<Rightarrow> (case ping rdb of Some err \<Rightarrow> Inl (WrapRedisPingError err) | None \<Rightarrow> Inr rdb))"

section \<open>JetStream\<close>

definition ErrNilLogger :: goerr where
  "ErrNilLogger = Sentinel ''pkg/nats'' ''logger is nil''"

definition WrapInitJetStreamContextError :: "goerr \<Rightarrow> goerr" where
  "WrapInitJetStreamContextError err = wrap_msg ''init jetstream context'' err"

definition WrapEnsureStreamError :: "string \<Rightarrow> goerr \<Rightarrow> goerr \<Rightarrow> goerr" where
  "WrapEnsureStreamError streamName addErr updateErr =
     Wrapped (''ensure stream '' @ go_quote streamName @ '': add err='' @ error_text addErr @
       '', update err='' @ error_text updateErr) updateErr"

definition WrapConnectToNATSError :: "goerr \<Rightarrow> goerr" where
  "WrapConnectToNATSError err = wrap_msg ''connect to nats'' err"

text \<open>A stream with the settings the code varies; storage, retention and replicas are the same for all.\<close>

record stream_config =
  sc_Name :: string
  sc_Subjects :: "string list"
  sc_MaxAge :: time

record 's stream_manager =
  sm_AddStream :: "stream_config \<Rightarrow> (goerr, unit, 's) io"
  sm_UpdateStream :: "stream_config \<Rightarrow> (goerr, unit, 's) io"

record 's bootstrap_conn =
  bc_JetStream :: "goerr + 's stream_manager"
  bc_Close :: "'s \<Rightarrow> 's"

definition Connect :: "(string \<Rightarrow> connect_options \<Rightarrow> goerr + 's bootstrap_conn) \<Rightarrow> nats_config
    \<Rightarrow> goerr + 's bootstrap_conn" where
  "Connect dial cfg =
    (case dial (n_URL cfg) \<lparr>co_Name = ''user-service'', co_MaxReconnects = -1,
            co_UserInfo = (if n_User cfg \<noteq> [] then Some (n_User cfg, n_Password cfg) else None)\<rparr> of
       Inl err \<Rightarrow> Inl (WrapConnectToNATSError err) | Inr nc \<Rightarrow> Inr nc)"

definition user_events_stream :: "nats_config \<Rightarrow> stream_config" where
  "user_events_stream cfg =
    \<lparr>sc_Name = n_UserEventsStream cfg,
     sc_Subjects = [n_UserCreatedSubject cfg, n_SagaCreateUserResultSubject cfg, n_SagaDeleteUserResultSubject cfg],
     sc_MaxAge = 7 * 24 * hour\<rparr>"

definition saga_commands_stream :: "nats_config \<Rightarrow> stream_config" where
  "saga_commands_stream cfg =
    \<lparr>sc_Name = n_SagaCommandsStream cfg, sc_Subjects = [n_SagaCreateUserSubject cfg, n_SagaDeleteUserSubject cfg],
     sc_MaxAge = 7 * 24 * hour\<rparr>"

definition user_detailed_stream :: "nats_config \<Rightarrow> stream_config" where
  "user_detailed_stream cfg =
    \<lparr>sc_Name = n_UserDetailedStream cfg, sc_Subjects = [n_UserDetailedProjectionSubject cfg],
     sc_MaxAge = 7 * 24 * hour\<rparr>"

definition add_or_update :: "'s stream_manager \<Rightarrow> stream_config \<Rightarrow> (goerr, unit, 's) io" where
  "add_or_update js cfg s =
    (case sm_AddStream js cfg s of
       (Inr _, s1) \<Rightarrow> (Inr (), s1)
     | (Inl err, s1) \<Rightarrow>
         (case sm_UpdateStream js cfg s1 of
            (Inr _, s2) \<Rightarrow> (Inr (), s2)
          | (Inl updateErr, s2) \<Rightarrow> (Inl (WrapEnsureStreamError (sc_Name cfg) err updateErr), s2)))"

fun ensure_all :: "'s stream_manager \<Rightarrow> stream_config list \<Rightarrow> (goerr, unit, 's) io" where
  "ensure_all js [] s = (Inr (), s)"
| "ensure_all js (c # cs) s =
    (case add_or_update js c s of (Inl err, s1) \<Rightarrow> (Inl err, s1) | (Inr _, s1) \<Rightarrow> ensure_all js cs s1)"

definition EnsureStream :: "(string \<Rightarrow> connect_options \<Rightarrow> goerr + 's bootstrap_conn) \<Rightarrow> nats_config \<Rightarrow> unit option
    \<Rightarrow> (goerr, unit, 's) io" where
  "EnsureStream dial cfg log s =
    (if log = None then (Inl ErrNilLogger, s)
     else case Connect dial cfg of
            Inl err \<Rightarrow> (Inl err, s)
          | Inr nc \<Rightarrow>
              (case bc_JetStream nc of
                 Inl err \<Rightarrow> (Inl (WrapInitJetStreamContextError err), bc_Close nc s)
               | Inr js \<Rightarrow>
                   (case ensure_all js [user_events_stream cfg, saga_commands_stream cfg, user_detailed_stream cfg] s of
                      (r, s1) \<Rightarrow> (r, bc_Close nc s1))))"

section \<open>Lemmas\<close>

lemma length_escape_char: "1 \<le> length (escape_char c) \<and> (length (escape_char c) = 1 \<and> c \<noteq> CHR '' '' \<longrightarrow> unreserved c)"
  by (simp add: escape_char_def)

lemma length_QueryEscape: "length s \<le> length (QueryEscape s)"
  by (induction s) (use length_escape_char in \<open>auto simp: QueryEscape_def add_le_mono [of 1, simplified]\<close>)

lemma QueryEscape_id: "list_all unreserved s \<Longrightarrow> QueryEscape s = s"
  by (induction s) (simp_all add: QueryEscape_def escape_char_def)

lemma QueryEscape_same:
  assumes "length (QueryEscape s) = length s" and "QueryEscape s = s"
  shows "list_all unreserved s"
  using assms
proof (induction s)
  case (Cons c s)
  have l: "length s \<le> length (QueryEscape s)" by (rule length_QueryEscape)
  with Cons.prems(1) length_escape_char [of c] have "length (escape_char c) = 1" "length (QueryEscape s) = length s"
    by (auto simp: QueryEscape_def)
  moreover from this Cons.prems(2) have "escape_char c = [c]" "QueryEscape s = s"
    by (auto simp: QueryEscape_def length_Suc_conv)
  moreover from this(1) have "unreserved c" by (auto simp: escape_char_def unreserved_def split: if_splits)
  ultimately show ?case using Cons.IH by simp
qed simp


text \<open>Both data source names are the same up to the migrations table when nothing needs escaping.\<close>

theorem dsns_agree_when_nothing_is_escaped:
  "migrations_dsn cfg = open_dsn cfg @ ''&x-migrations-table='' @ QueryEscape (db_MigrationsTable cfg) \<longleftrightarrow>
     list_all unreserved (db_User cfg) \<and> list_all unreserved (db_Password cfg)"
proof
  let ?u = "db_User cfg" and ?p = "db_Password cfg"
  assume "migrations_dsn cfg = open_dsn cfg @ ''&x-migrations-table='' @ QueryEscape (db_MigrationsTable cfg)"
  then have eq: "QueryEscape ?u @ '':'' @ QueryEscape ?p = ?u @ '':'' @ ?p"
    by (simp add: migrations_dsn_def open_dsn_def dsn_def)
  from arg_cong [OF this, of length] have "length (QueryEscape ?u) = length ?u"
    using length_QueryEscape [of ?u] length_QueryEscape [of ?p] by simp
  with eq have u: "QueryEscape ?u = ?u" and p: "QueryEscape ?p = ?p" by simp_all
  then show "list_all unreserved ?u \<and> list_all unreserved ?p" by (auto intro: QueryEscape_same)
qed (simp add: migrations_dsn_def open_dsn_def dsn_def QueryEscape_id)

lemma WithTx_atomic:
  assumes "WithTx begin_err commit_fault body db = (r, db')"
  shows "(db' = db \<or> (begin_err = None \<and> (\<exists>x. body db = (Inr x, db')))) \<and>
    (r = Inr () \<longrightarrow> body db = (Inr (), db'))"
  using assms
  by (auto simp: WithTx_def split: option.splits prod.splits sum.splits fault.splits)

text \<open>
  What the server promises of one request: a stream that was added or updated has the settings
  asked for, and a failed request leaves the streams as they were or has taken effect.
\<close>

definition stream_contract :: "'s stream_manager \<Rightarrow> ('s \<Rightarrow> string \<rightharpoonup> stream_config) \<Rightarrow> bool" where
  "stream_contract js streams \<longleftrightarrow>
     (\<forall>op\<in>{sm_AddStream js, sm_UpdateStream js}. \<forall>c s.
        (case op c s of
           (Inr _, s') \<Rightarrow> streams s' = (streams s)(sc_Name c \<mapsto> c)
         | (Inl _, s') \<Rightarrow> streams s' \<in> {streams s, (streams s)(sc_Name c \<mapsto> c)}))"

lemma add_or_update_outcome:
  assumes "stream_contract js streams" "add_or_update js c s = (r, s')"
  shows "(r = Inr () \<longrightarrow> streams s' = (streams s)(sc_Name c \<mapsto> c)) \<and>
    streams s' \<in> {streams s, (streams s)(sc_Name c \<mapsto> c)}"
proof -
  obtain x s1 where a: "sm_AddStream js c s = (x, s1)" by fastforce
  obtain y s2 where u: "sm_UpdateStream js c s1 = (y, s2)" by fastforce
  have "case x of Inr _ \<Rightarrow> streams s1 = (streams s)(sc_Name c \<mapsto> c)
      | Inl _ \<Rightarrow> streams s1 \<in> {streams s, (streams s)(sc_Name c \<mapsto> c)}"
    using assms(1) a unfolding stream_contract_def by (auto dest!: spec [of _ c] spec [of _ s] split: sum.splits)
  moreover have "case y of Inr _ \<Rightarrow> streams s2 = (streams s1)(sc_Name c \<mapsto> c)
      | Inl _ \<Rightarrow> streams s2 \<in> {streams s1, (streams s1)(sc_Name c \<mapsto> c)}"
    using assms(1) u unfolding stream_contract_def by (auto dest!: spec [of _ c] spec [of _ s1] split: sum.splits)
  ultimately show ?thesis
    using a u assms(2) by (cases x; cases y) (auto simp: add_or_update_def)
qed

lemma ensure_all_outcome:
  assumes "stream_contract js streams" "ensure_all js cs s = (Inr (), s')" "distinct (map sc_Name cs)"
  shows "(\<forall>c\<in>set cs. streams s' (sc_Name c) = Some c) \<and>
    (\<forall>n. n \<notin> sc_Name ` set cs \<longrightarrow> streams s' n = streams s n)"
  using assms(2,3)
proof (induction cs arbitrary: s)
  case (Cons c cs)
  then obtain s1 where a: "add_or_update js c s = (Inr (), s1)" and e: "ensure_all js cs s1 = (Inr (), s')"
    by (auto split: prod.splits sum.splits)
  have "streams s1 = (streams s)(sc_Name c \<mapsto> c)" using add_or_update_outcome [OF assms(1) a] by simp
  with Cons.IH [OF e] Cons.prems(2) show ?case by auto
qed simp

theorem ensured_streams_have_the_configured_subjects:
  assumes "EnsureStream dial cfg (Some ()) s = (Inr (), s')"
    and "Connect dial cfg = Inr nc" and "bc_JetStream nc = Inr js"
    and "stream_contract js streams" and "\<forall>s. streams (bc_Close nc s) = streams s"
    and "distinct [n_UserEventsStream cfg, n_SagaCommandsStream cfg, n_UserDetailedStream cfg]"
  shows "streams s' (n_UserEventsStream cfg) = Some (user_events_stream cfg) \<and>
    streams s' (n_SagaCommandsStream cfg) = Some (saga_commands_stream cfg) \<and>
    streams s' (n_UserDetailedStream cfg) = Some (user_detailed_stream cfg)"
proof -
  let ?cs = "[user_events_stream cfg, saga_commands_stream cfg, user_detailed_stream cfg]"
  obtain s1 where s1: "ensure_all js ?cs s = (Inr (), s1)" "s' = bc_Close nc s1"
    using assms(1-3) by (auto simp: EnsureStream_def simp del: ensure_all.simps split: prod.splits)
  have "distinct (map sc_Name ?cs)"
    using assms(6) by (simp add: user_events_stream_def saga_commands_stream_def user_detailed_stream_def)
  from ensure_all_outcome [OF assms(4) s1(1) this] assms(5) s1(2) show ?thesis
    by (simp add: user_events_stream_def saga_commands_stream_def user_detailed_stream_def)
qed


text \<open>A server that refuses to add a stream it has, for the witness.\<close>

definition sample_streams :: "(string \<rightharpoonup> stream_config) stream_manager" where
  "sample_streams =
    \<lparr>sm_AddStream = (\<lambda>c s. if s (sc_Name c) = None then (Inr (), s(sc_Name c \<mapsto> c))
       else (Inl (Foreign ''stream name already in use''), s)),
     sm_UpdateStream = (\<lambda>c s. (Inr (), s(sc_Name c \<mapsto> c)))\<rparr>"

definition sample_dial :: "string \<Rightarrow> connect_options \<Rightarrow> goerr + (string \<rightharpoonup> stream_config) bootstrap_conn" where
  "sample_dial url opts = Inr \<lparr>bc_JetStream = Inr sample_streams, bc_Close = id\<rparr>"

theorem ensured_streams_have_the_configured_subjects_witness:
  "snd (EnsureStream sample_dial default_NATS (Some ()) [''USER_EVENTS'' \<mapsto> saga_commands_stream default_NATS])
     (n_UserEventsStream default_NATS) = Some (user_events_stream default_NATS)"
proof (rule ensured_streams_have_the_configured_subjects [where streams = "\<lambda>s. s", THEN conjunct1])
  let ?s = "[''USER_EVENTS'' \<mapsto> saga_commands_stream default_NATS]"
  show "EnsureStream sample_dial default_NATS (Some ()) ?s =
      (Inr (), snd (EnsureStream sample_dial default_NATS (Some ()) ?s))"
    by (simp add: EnsureStream_def Connect_def sample_dial_def add_or_update_def sample_streams_def
        user_events_stream_def saga_commands_stream_def user_detailed_stream_def default_NATS_def)
  show "Connect sample_dial default_NATS = Inr \<lparr>bc_JetStream = Inr sample_streams, bc_Close = id\<rparr>"
    by (simp add: Connect_def sample_dial_def)
  show "stream_contract sample_streams (\<lambda>s. s)"
    by (auto simp: stream_contract_def sample_streams_def)
qed (simp_all add: default_NATS_def)

end
