(* ===== verification/Supervision.thy ===== *)
theory Supervision
  imports KafkaConsumer SagaFlow
begin

text \<open>
  The background loops of internal/fx/presentation.go and of the saga subscriber, which start a
  consumer again whenever it returns.

  A consumer is a function that runs until it returns, with an error or without one. \<open>n\<close> is the
  number of rounds a loop makes before its context is cancelled; the result is the list of waits
  between the rounds, and the state. A round in progress at the cancellation is not counted.
\<close>

section \<open>Loops\<close>

text \<open>
  The relay, the projection subscriber and both saga consumers: a wait of two seconds after an
  error, none after a return without one.
\<close>

fun supervise :: "nat \<Rightarrow> ('s \<Rightarrow> goerr option \<times> 's) \<Rightarrow> 's \<Rightarrow> time list \<times> 's" where
  "supervise 0 start s = ([], s)"
| "supervise (Suc n) start s =
    (case start s of
       (err, s1) \<Rightarrow>
         (case supervise n start s1 of
            (waits, s2) \<Rightarrow> (if err = None then waits else 2 * second # waits, s2)))"

text \<open>The recovery consumer: a wait after every round, doubled up to half a minute.\<close>

definition next_backoff :: "time \<Rightarrow> time" where
  "next_backoff backoff =
    (if backoff < 30 * second then
       (let backoff = backoff * 2 in if backoff > 30 * second then 30 * second else backoff)
     else backoff)"

fun supervise_recovery :: "nat \<Rightarrow> ('s \<Rightarrow> goerr option \<times> 's) \<Rightarrow> time \<Rightarrow> 's \<Rightarrow> time list \<times> 's" where
  "supervise_recovery 0 start backoff s = ([], s)"
| "supervise_recovery (Suc n) start backoff s =
    (case start s of
       (err, s1) \<Rightarrow>
         (case supervise_recovery n start (next_backoff backoff) s1 of
            (waits, s2) \<Rightarrow> (backoff # waits, s2)))"

definition InvokeSubscribeUserRecovery :: "nat \<Rightarrow> ('s \<Rightarrow> goerr option \<times> 's) \<Rightarrow> 's \<Rightarrow> time list \<times> 's" where
  "InvokeSubscribeUserRecovery n start s = supervise_recovery n start second s"

lemma next_backoff_power: "next_backoff (min (2 ^ k * second) (30 * second)) = min (2 ^ Suc k * second) (30 * second)"
  by (auto simp: next_backoff_def second_def min_def Let_def)

lemma supervise_recovery_waits:
  "fst (supervise_recovery n start (min (2 ^ k * second) (30 * second)) s) =
     map (\<lambda>i. min (2 ^ i * second) (30 * second)) [k..<k + n]"
proof (induction n arbitrary: k s)
  case (Suc n)
  obtain err s1 where "start s = (err, s1)" by fastforce
  with Suc.IH [of "Suc k" s1] show ?case
    by (simp add: next_backoff_power [unfolded power_Suc] upt_conv_Cons case_prod_unfold del: upt_Suc)
qed simp

theorem recovery_waits_double_up_to_half_a_minute:
  "fst (InvokeSubscribeUserRecovery n start s) = map (\<lambda>i. min (2 ^ i * second) (30 * second)) [0..<n]"
  using supervise_recovery_waits [of n start 0 s] by (simp add: InvokeSubscribeUserRecovery_def second_def)

text \<open>The loop around a consumer whose first message fails for good does not wait.\<close>

lemma supervise_poison:
  assumes "no_faults N" and "cs_committed c < length (cs_log c)" and "Q (cs_state c)"
    and "fails_for_good N cfg handler Q (cs_log c ! cs_committed c)"
  shows "case supervise n (KafkaConsumer.RunPullConsumer N cfg handler) c of (waits, c') \<Rightarrow>
    waits = [] \<and> cs_committed c' = cs_committed c \<and> length (cs_dlq c') = length (cs_dlq c) + n"
  using assms
proof (induction n arbitrary: c)
  case (Suc n)
  from poison_run [OF Suc.prems] obtain c' d where
    "KafkaConsumer.RunPullConsumer N cfg handler c = (None, c')" "cs_committed c' = cs_committed c"
    "cs_log c' = cs_log c" "Q (cs_state c')" "cs_dlq c' = cs_dlq c @ [d]" by auto
  with Suc.IH [of c'] Suc.prems show ?case by (simp add: case_prod_unfold)
qed simp

theorem supervised_dead_letter_spins:
  assumes "no_faults N" and "Q s" and "log \<noteq> []" and "fails_for_good N cfg handler Q (hd log)"
  shows "case supervise n (KafkaConsumer.RunPullConsumer N cfg handler) (fresh_consumer log s) of (waits, c) \<Rightarrow>
    waits = [] \<and> cs_committed c = 0 \<and> length (cs_dlq c) = n"
  using supervise_poison [of N "fresh_consumer log s" Q cfg handler n] assms
  by (simp add: fresh_consumer_def hd_conv_nth)

theorem supervised_dead_letter_spins_witness:
  "case supervise 3 (KafkaConsumer.RunPullConsumer sample_consumer_env zero_pull_consumer
        (\<lambda>_ p s. (Inl (Permanent (Foreign ''bad'')), s)))
      (fresh_consumer [\<lparr>km_Key = [], km_Value = ''a'', km_Headers = []\<rparr>] []) of (waits, c) \<Rightarrow>
    waits = [] \<and> cs_committed c = 0 \<and> length (cs_dlq c) = 3"
  by (rule supervised_dead_letter_spins [where Q = "\<lambda>s. ''a'' \<notin> set s"])
    (simp_all add: no_faults_def sample_consumer_env_def fails_for_good_def claim_message_def
      release_event_def memory_claims_def)

end
