(* ===== verification/Startup.thy ===== *)
theory Startup
  imports Transports Storage GrpcServer KafkaConsumer
begin

text \<open>
  How internal/fx puts the service together: one definition per provider, and the order in which
  the providers run when the application starts. The first error stops the start-up. The
  hooks the providers append and the order in which the container runs them are in \<open>Lifecycle\<close>,
  the logger, the meter and the tracer in \<open>Observability\<close>.
\<close>

section \<open>Providers\<close>

text \<open>What the libraries do when the stores and clients are opened.\<close>

record startup_env =
  su_absPath :: "string \<Rightarrow> goerr + string"
  su_newMigrator :: "string \<Rightarrow> string \<Rightarrow> goerr + (unit \<Rightarrow> goerr option \<times> unit)"
  su_register :: "string \<Rightarrow> goerr + string"
  su_connectDB :: "string \<Rightarrow> string \<Rightarrow> goerr option"
  su_instrument :: "redis_options \<Rightarrow> goerr option"
  su_ping :: "redis_options \<Rightarrow> goerr option"
  su_dial :: "string \<Rightarrow> goerr option"
  su_world :: env
  su_broker :: "world event_broker"
  su_decode :: "string \<Rightarrow> goerr + envelope"
  su_encode :: "envelope \<Rightarrow> goerr + string"

definition and_then :: "'e + 'a \<Rightarrow> ('a \<Rightarrow> 'e + 'b) \<Rightarrow> 'e + 'b" where
  "and_then x f = (case x of Inl e \<Rightarrow> Inl e | Inr y \<Rightarrow> f y)"

definition InvokeRunMigrations :: "startup_env \<Rightarrow> service_config \<Rightarrow> goerr + unit" where
  "InvokeRunMigrations P cfg = fst (RunMigrations (su_absPath P) (su_newMigrator P) (cfg_DB cfg) ())"

text \<open>An opened pool or client gives the repositories the world behind it.\<close>

definition ProvidePostgresDB :: "startup_env \<Rightarrow> service_config \<Rightarrow> goerr + env" where
  "ProvidePostgresDB P cfg =
    (case Open (su_register P) (su_connectDB P) (cfg_DB cfg) of Inl err \<Rightarrow> Inl err | Inr pool \<Rightarrow> Inr (su_world P))"

definition ProvideRedisClient :: "startup_env \<Rightarrow> service_config \<Rightarrow> goerr + env" where
  "ProvideRedisClient P cfg =
    (case redis_Open (su_instrument P) (su_ping P) (cfg_Redis cfg) of
       Inl err \<Rightarrow> Inl err | Inr client \<Rightarrow> Inr (su_world P))"

definition ProvideFileURLClient :: "startup_env \<Rightarrow> service_config \<Rightarrow> goerr + world file_url_client" where
  "ProvideFileURLClient P cfg = FileClient.New (su_dial P) (su_world P) (cfg_File cfg) (Some ())"

definition ProvideEventBrokerWithDB :: "startup_env \<Rightarrow> service_config \<Rightarrow> goerr + world event_broker" where
  "ProvideEventBrokerWithDB P cfg =
    (case newBroker (cfg_Kafka cfg) of Inl err \<Rightarrow> Inl err | Inr b \<Rightarrow> Inr (kafka_backed (su_world P) (su_broker P)))"

definition ProvideDetailedUserPublisher :: "world event_broker \<Rightarrow> service_config
    \<Rightarrow> goerr + world detailed_user_publisher" where
  "ProvideDetailedUserPublisher broker cfg = NewDetailedUserPublisher (Some broker) (cfg_Kafka cfg) (Some ())"

definition ProvideWriteRepo :: "env \<Rightarrow> goerr + world user_repository" where
  "ProvideWriteRepo db = WriteRepo.New (Some db) (Some NewPgErrorTranslator) (Some ())"

definition ProvideReadRepo :: "env \<Rightarrow> goerr + world user_read_repository" where
  "ProvideReadRepo rdb = ReadRepo.New (Some rdb) (Some ())"

definition ProvideUserService :: "world user_repository \<Rightarrow> world user_read_repository \<Rightarrow> world file_url_client
    \<Rightarrow> world detailed_user_publisher \<Rightarrow> goerr + world user_service_methods" where
  "ProvideUserService repo readRepo files pub =
    (case NewDetailed (Some repo) (Some readRepo) (Some files) (Some pub) (Some ()) of
       Inl err \<Rightarrow> Inl err | Inr svc \<Rightarrow> Inr (UserService svc))"

definition ProvideDetailedUserProjectionRelay :: "world event_broker \<Rightarrow> service_config
    \<Rightarrow> goerr + (goerr, unit, world) io" where
  "ProvideDetailedUserProjectionRelay broker cfg =
     NewDetailedUserProjectionRelay (Some broker) (cfg_Kafka cfg) (Some ())"

definition ProvideDetailedUserProjectionSubscriber :: "world event_broker \<Rightarrow> world user_read_repository
    \<Rightarrow> service_config \<Rightarrow> goerr + (goerr, unit, world) io" where
  "ProvideDetailedUserProjectionSubscriber broker read cfg =
     NewDetailedUserProjectionSubscriber (Some broker) (Some read) (cfg_Kafka cfg) (Some ())"

definition ProvideGRPCServer :: "world user_service_methods \<Rightarrow> service_config \<Rightarrow> goerr + world user_service_methods" where
  "ProvideGRPCServer service cfg = NewServer (Some service) (cfg_GRPC cfg) (Some ())"

section \<open>Start-up\<close>

record running_service =
  rn_saga :: "world registration_saga_subscriber"
  rn_relay :: "(goerr, unit, world) io"
  rn_projection :: "(goerr, unit, world) io"
  rn_recovery :: "world user_recovery_subscriber"
  rn_server :: "world user_service_methods"

definition provide_service :: "startup_env \<Rightarrow> service_config \<Rightarrow> env \<Rightarrow> world event_broker \<Rightarrow> world user_read_repository
    \<Rightarrow> goerr + world user_service_methods" where
  "provide_service P cfg db broker readRepo =
     and_then (ProvideWriteRepo db) (\<lambda>repo.
     and_then (ProvideFileURLClient P cfg) (\<lambda>files.
     and_then (ProvideDetailedUserPublisher broker cfg) (\<lambda>pub.
       ProvideUserService repo readRepo files pub)))"

definition provide_presentation :: "startup_env \<Rightarrow> service_config \<Rightarrow> world event_broker \<Rightarrow> world user_read_repository
    \<Rightarrow> world user_service_methods \<Rightarrow> goerr + running_service" where
  "provide_presentation P cfg broker readRepo service =
     and_then (NewRegistrationSagaSubscriber (Some broker) (Some service) (cfg_Kafka cfg)
       (Some NewDomainFailureReasonResolver) (Some ()) (clock_of (su_world P))) (\<lambda>saga.
     and_then (ProvideDetailedUserProjectionRelay broker cfg) (\<lambda>relay.
     and_then (ProvideDetailedUserProjectionSubscriber broker readRepo cfg) (\<lambda>projection.
     and_then (NewUserRecoverySubscriber (Some broker) (Some service) (cfg_Kafka cfg) (Some ())
       (clock_of (su_world P)) (su_decode P) (su_encode P)) (\<lambda>recovery.
     and_then (ProvideGRPCServer service cfg) (\<lambda>server.
       Inr \<lparr>rn_saga = saga, rn_relay = relay, rn_projection = projection, rn_recovery = recovery,
            rn_server = server\<rparr>)))))"

definition start_service :: "startup_env \<Rightarrow> service_config \<Rightarrow> goerr + running_service" where
  "start_service P cfg =
     and_then (InvokeRunMigrations P cfg) (\<lambda>_.
     and_then (ProvidePostgresDB P cfg) (\<lambda>db.
     and_then (ProvideEventBrokerWithDB P cfg) (\<lambda>broker.
     and_then (ProvideRedisClient P cfg) (\<lambda>rdb.
     and_then (ProvideReadRepo rdb) (\<lambda>readRepo.
     and_then (provide_service P cfg db broker readRepo) (\<lambda>service.
       provide_presentation P cfg broker readRepo service))))))"

lemma and_then_Inr: "and_then x f = Inr z \<longleftrightarrow> (\<exists>y. x = Inr y \<and> f y = Inr z)"
  by (cases x) (auto simp: and_then_def)

lemma sum_case_Inr: "(case x of Inl e \<Rightarrow> Inl e | Inr y \<Rightarrow> Inr (f y)) = Inr z \<longleftrightarrow> (\<exists>y. x = Inr y \<and> z = f y)"
  by (cases x) auto

lemma provided_service:
  assumes "provide_service P cfg (su_world P) (kafka_backed (su_world P) (su_broker P)) (redis_repo (su_world P)) = Inr svc"
  shows "svc = UserService (wired_service (su_world P) (k_DetailedUserRequestedTopic (cfg_Kafka cfg)))"
  using assms
  by (auto simp: provide_service_def and_then_Inr ProvideWriteRepo_def WriteRepo.New_def ProvideFileURLClient_def
      FileClient.New_def ProvideDetailedUserPublisher_def NewDetailedUserPublisher_def ProvideUserService_def
      NewDetailed_def wired_service_def detailed_publisher_def kafka_backed_def split: if_splits option.splits)

text \<open>What the parts of a started service are.\<close>

lemma started_wiring:
  assumes "start_service P cfg = Inr app"
  defines "svc \<equiv> UserService (wired_service (su_world P) (k_DetailedUserRequestedTopic (cfg_Kafka cfg)))"
  shows "rn_server app = svc \<and>
    ProvideRegistrationSagaSubscriber (su_world P) (su_broker P) (k_DetailedUserRequestedTopic (cfg_Kafka cfg))
      (cfg_Kafka cfg) = Inr (rn_saga app) \<and>
    ProvideUserRecoverySubscriber (su_world P) (su_broker P) (k_DetailedUserRequestedTopic (cfg_Kafka cfg))
      (cfg_Kafka cfg) (su_decode P) (su_encode P) = Inr (rn_recovery app) \<and>
    rn_projection app = projection_Start (kafka_backed (su_world P) (su_broker P)) (redis_repo (su_world P))
      (k_DetailedUserProjectionTopic (cfg_Kafka cfg)) \<and>
    [] \<notin> set (map TrimSpace [fs_Address (cfg_File cfg), k_DetailedUserRequestedTopic (cfg_Kafka cfg),
      k_DetailedUserProjectionTopic (cfg_Kafka cfg)])"
proof -
  let ?b = "kafka_backed (su_world P) (su_broker P)" and ?r = "redis_repo (su_world P)"
  obtain service where s: "provide_service P cfg (su_world P) ?b ?r = Inr service"
    and p: "provide_presentation P cfg ?b ?r service = Inr app"
    using assms(1)
    by (auto simp: start_service_def and_then_Inr ProvidePostgresDB_def ProvideEventBrokerWithDB_def
        ProvideRedisClient_def ProvideReadRepo_def ReadRepo.New_def split: sum.splits)
  note w = provided_service [OF s]
  have "TrimSpace (fs_Address (cfg_File cfg)) \<noteq> []"
    using s by (auto simp: provide_service_def and_then_Inr ProvideFileURLClient_def FileClient.New_def split: if_splits)
  with w p show ?thesis
    unfolding provide_presentation_def and_then_Inr
    by (auto simp: svc_def ProvideGRPCServer_def NewServer_def ProvideRegistrationSagaSubscriber_def
        ProvideUserRecoverySubscriber_def ProvideDetailedUserProjectionSubscriber_def
        NewDetailedUserProjectionSubscriber_def ProvideDetailedUserProjectionRelay_def
        NewDetailedUserProjectionRelay_def split: if_splits)
qed

text \<open>
  A service that has started serves its clients with the wired application service, and its
  consumers are the ones the other theories are about.
\<close>

theorem started_service_is_wired:
  assumes "start_service P cfg = Inr app"
  defines "svc \<equiv> UserService (wired_service (su_world P) (k_DetailedUserRequestedTopic (cfg_Kafka cfg)))"
  shows "rn_server app = svc \<and>
    ProvideRegistrationSagaSubscriber (su_world P) (su_broker P) (k_DetailedUserRequestedTopic (cfg_Kafka cfg))
      (cfg_Kafka cfg) = Inr (rn_saga app) \<and>
    ProvideUserRecoverySubscriber (su_world P) (su_broker P) (k_DetailedUserRequestedTopic (cfg_Kafka cfg))
      (cfg_Kafka cfg) (su_decode P) (su_encode P) = Inr (rn_recovery app) \<and>
    rn_projection app = projection_Start (kafka_backed (su_world P) (su_broker P)) (redis_repo (su_world P))
      (k_DetailedUserProjectionTopic (cfg_Kafka cfg)) \<and>
    [] \<notin> set (map TrimSpace [fs_Address (cfg_File cfg), k_DetailedUserRequestedTopic (cfg_Kafka cfg),
      k_DetailedUserProjectionTopic (cfg_Kafka cfg)])"
  unfolding svc_def by (rule started_wiring [OF assms(1)])

section \<open>When it starts\<close>

lemma isl_and_then [simp]: "isl (and_then x f) \<longleftrightarrow> isl x \<or> isl (f (projr x))"
  by (cases x) (simp_all add: and_then_def)

lemma isl_providers [simp]:
  "isl (ProvidePostgresDB P cfg) \<longleftrightarrow> isl (Open (su_register P) (su_connectDB P) (cfg_DB cfg))"
  "isl (ProvideRedisClient P cfg) \<longleftrightarrow> isl (redis_Open (su_instrument P) (su_ping P) (cfg_Redis cfg))"
  "isl (ProvideEventBrokerWithDB P cfg) \<longleftrightarrow> k_Brokers (cfg_Kafka cfg) = []"
  "\<not> isl (ProvideReadRepo db)" "\<not> isl (ProvideWriteRepo db)"
  "isl (ProvideFileURLClient P cfg) \<longleftrightarrow>
     TrimSpace (fs_Address (cfg_File cfg)) = [] \<or> su_dial P (fs_Address (cfg_File cfg)) \<noteq> None"
  "isl (ProvideDetailedUserPublisher b cfg) \<longleftrightarrow> TrimSpace (k_DetailedUserRequestedTopic (cfg_Kafka cfg)) = []"
  "\<not> isl (ProvideUserService wr rr fl pb)"
  "isl (NewRegistrationSagaSubscriber (Some b) (Some svc) k (Some res) (Some ()) now) \<longleftrightarrow>
     list_ex (\<lambda>n. TrimSpace n = []) [k_SagaCreateUserTopic k, k_SagaDeleteUserTopic k,
       k_SagaCreateResultTopic k, k_SagaDeleteResultTopic k]"
  "isl (ProvideDetailedUserProjectionRelay b cfg) \<longleftrightarrow> list_ex (\<lambda>n. TrimSpace n = [])
     [k_DetailedUserRequestedTopic (cfg_Kafka cfg), k_DetailedUserProjectionTopic (cfg_Kafka cfg)]"
  "isl (ProvideDetailedUserProjectionSubscriber b r cfg) \<longleftrightarrow> TrimSpace (k_DetailedUserProjectionTopic (cfg_Kafka cfg)) = []"
  "\<not> isl (NewUserRecoverySubscriber (Some b) (Some svc) k (Some ()) now dcd ecd)"
  "\<not> isl (ProvideGRPCServer svc cfg)"
  by (simp_all add: ProvidePostgresDB_def ProvideEventBrokerWithDB_def ProvideRedisClient_def ProvideReadRepo_def
      ReadRepo.New_def ProvideWriteRepo_def WriteRepo.New_def ProvideFileURLClient_def FileClient.New_def
      ProvideDetailedUserPublisher_def NewDetailedUserPublisher_def ProvideUserService_def NewDetailed_def
      NewRegistrationSagaSubscriber_def ProvideDetailedUserProjectionRelay_def NewDetailedUserProjectionRelay_def
      ProvideDetailedUserProjectionSubscriber_def NewDetailedUserProjectionSubscriber_def
      NewUserRecoverySubscriber_def ProvideGRPCServer_def NewServer_def newBroker_def
      split: sum.splits option.splits)

definition required_names :: "service_config \<Rightarrow> string list" where
  "required_names cfg = (let k = cfg_Kafka cfg in
     [fs_Address (cfg_File cfg), k_DetailedUserRequestedTopic k, k_DetailedUserProjectionTopic k,
      k_SagaCreateUserTopic k, k_SagaDeleteUserTopic k, k_SagaCreateResultTopic k, k_SagaDeleteResultTopic k])"

text \<open>What the start-up of a configuration that is loaded depends on.\<close>

lemma starts_when_configured:
  "\<not> isl (start_service P cfg) \<longleftrightarrow>
     \<not> isl (InvokeRunMigrations P cfg) \<and> \<not> isl (Open (su_register P) (su_connectDB P) (cfg_DB cfg)) \<and>
     \<not> isl (redis_Open (su_instrument P) (su_ping P) (cfg_Redis cfg)) \<and> su_dial P (fs_Address (cfg_File cfg)) = None \<and>
     k_Brokers (cfg_Kafka cfg) \<noteq> [] \<and> list_all (\<lambda>n. TrimSpace n \<noteq> []) (required_names cfg)"
  by (auto simp: start_service_def provide_service_def provide_presentation_def required_names_def Let_def)

section \<open>A start-up in which every library answers\<close>

definition sample_startup :: startup_env where
  "sample_startup =
    \<lparr>su_absPath = Inr, su_newMigrator = (\<lambda>_ _. Inr (\<lambda>s. (Some migrate_ErrNoChange, s))), su_register = Inr,
     su_connectDB = (\<lambda>_ _. None), su_instrument = (\<lambda>_. None), su_ping = (\<lambda>_. None), su_dial = (\<lambda>_. None),
     su_world = sample_env, su_broker = sample_broker, su_decode = (\<lambda>_. Inr sample_envelope),
     su_encode = (\<lambda>e. Inr (en_EventID e))\<rparr>"

lemma default_configuration_starts: "\<not> isl (start_service sample_startup (default_Config db redis))"
  unfolding starts_when_configured
  by (simp add: sample_startup_def InvokeRunMigrations_def RunMigrations_def migration_source_def Open_def
      redis_Open_def required_names_def Let_def default_Config_def default_Kafka_def default_File_def TrimSpace_visible
      migrate_ErrNoChange_def split: sum.splits prod.splits)


theorem started_service_is_wired_witness:
  "case start_service sample_startup (default_Config (default_DB ''db'' 5432 ''u'' ''p'' ''users'') (default_Redis ''r'' 6379)) of
     Inl err \<Rightarrow> False
   | Inr app \<Rightarrow> rn_server app = UserService (wired_service sample_env (k_DetailedUserRequestedTopic default_Kafka))"
proof (cases "start_service sample_startup (default_Config (default_DB ''db'' 5432 ''u'' ''p'' ''users'') (default_Redis ''r'' 6379))")
  case (Inl err)
  with default_configuration_starts [of "default_DB ''db'' 5432 ''u'' ''p'' ''users''" "default_Redis ''r'' 6379"]
  show ?thesis by simp
next
  case (Inr app)
  from started_service_is_wired [OF this] Inr show ?thesis by (simp add: sample_startup_def default_Config_def)
qed

end
