(* ===== verification/Lifecycle.thy ===== *)
theory Lifecycle
  imports Prelude GoErrors
begin

text \<open>
  The application internal/fx hands to the fx container: which constructors and invocations its
  modules list, which parameters each of them takes, and the hooks each appends to the lifecycle.

  The container is a library. Its documented behaviour is the hypothesis \<open>builds\<close> on the order in which it
  calls the functions (each constructor at most once, after the constructors of its parameters,
  and only when the next invocation needs it; the invocations in the order of the modules), and the
  hypothesis \<open>stops_in_reverse\<close> on how it stops.
\<close>

section \<open>Hooks\<close>

datatype loop = MetricsServer | SagaConsumers | RelayConsumer | ProjectionConsumer | RecoveryConsumer

datatype resource = Database | RedisClient | FileServiceClient | EventBroker | GRPCListener | Tracer | LogBuffer

datatype stop_event = Cancelled loop | Closed resource

text \<open>The loops with a cancel function, those still running, and what the stop hooks did.\<close>

record app_state =
  as_cancel :: "loop set"
  as_running :: "loop set"
  as_trace :: "stop_event list"

record hook =
  hk_OnStart :: "app_state \<Rightarrow> goerr option \<times> app_state"
  hk_OnStop :: "app_state \<Rightarrow> goerr option \<times> app_state"

definition no_start :: "app_state \<Rightarrow> goerr option \<times> app_state" where
  "no_start s = (None, s)"

text \<open>A hook that starts a loop and cancels its context.\<close>

definition loop_hook :: "loop \<Rightarrow> hook" where
  "loop_hook l =
    \<lparr>hk_OnStart = (\<lambda>s. (None, s\<lparr>as_cancel := insert l (as_cancel s), as_running := insert l (as_running s)\<rparr>)),
     hk_OnStop = (\<lambda>s. if l \<in> as_cancel s
       then (None, s\<lparr>as_running := as_running s - {l}, as_trace := as_trace s @ [Cancelled l]\<rparr>) else (None, s))\<rparr>"

text \<open>A hook that closes something and returns what closing it returned, or drops that.\<close>

definition close_hook :: "resource \<Rightarrow> goerr option \<Rightarrow> hook" where
  "close_hook r err =
    \<lparr>hk_OnStart = no_start, hk_OnStop = (\<lambda>s. (err, s\<lparr>as_trace := as_trace s @ [Closed r]\<rparr>))\<rparr>"

text \<open>What the libraries answer when they are closed, and whether the tracer could be made.\<close>

record fx_libs =
  fl_sync :: "goerr option"
  fl_tracer :: "goerr option"
  fl_tracer_shutdown :: "goerr option"
  fl_close_db :: "goerr option"
  fl_close_redis :: "goerr option"
  fl_close_file :: "goerr option"
  fl_shutdown_grpc :: "goerr option"

section \<open>Constructors and invocations\<close>

datatype part =
    PConfig | PLogger | PTracingConfig | PMeter | PPostgres | PRedis | PFileURLClient | PDetailedUserPublisher
  | PEventBroker | PErrorTranslator | PWriteRepo | PReadRepo | PUserService | PFailureReasonResolver
  | PRegistrationSaga | PProjectionRelay | PProjectionSubscriber | PUserRecovery | PGRPCServer
  | InstallTracing | RunMetricsServer | StartLog | RunMigrations | SubscribeRegistrationSaga
  | StartProjectionRelay | StartProjectionSubscriber | SubscribeUserRecovery | RunGRPCServer

record part_def =
  pt_needs :: "part list"
  pt_hooks :: "fx_libs \<Rightarrow> hook list"

definition ProvideConfig_part :: part_def where
  "ProvideConfig_part = \<lparr>pt_needs = [], pt_hooks = (\<lambda>_. [])\<rparr>"

definition ProvideLogger_part :: part_def where
  "ProvideLogger_part = \<lparr>pt_needs = [PConfig], pt_hooks = (\<lambda>L. [close_hook LogBuffer (fl_sync L)])\<rparr>"

definition ProvideTracingConfig_part :: part_def where
  "ProvideTracingConfig_part = \<lparr>pt_needs = [PConfig], pt_hooks = (\<lambda>_. [])\<rparr>"

definition InvokeInstallTracing_part :: part_def where
  "InvokeInstallTracing_part = \<lparr>pt_needs = [PTracingConfig, PLogger],
     pt_hooks = (\<lambda>L. if fl_tracer L = None then [close_hook Tracer (fl_tracer_shutdown L)] else [])\<rparr>"

definition ProvideMetrics_part :: part_def where
  "ProvideMetrics_part = \<lparr>pt_needs = [PConfig], pt_hooks = (\<lambda>_. [])\<rparr>"

definition InvokeRunMetricsServer_part :: part_def where
  "InvokeRunMetricsServer_part = \<lparr>pt_needs = [PConfig, PMeter, PLogger], pt_hooks = (\<lambda>_. [loop_hook MetricsServer])\<rparr>"

definition InvokeStartLog_part :: part_def where
  "InvokeStartLog_part = \<lparr>pt_needs = [PLogger], pt_hooks = (\<lambda>_. [])\<rparr>"

definition InvokeRunMigrations_part :: part_def where
  "InvokeRunMigrations_part = \<lparr>pt_needs = [PConfig, PLogger], pt_hooks = (\<lambda>_. [])\<rparr>"

text \<open>The error of closing the database is dropped.\<close>

definition ProvidePostgresDB_part :: part_def where
  "ProvidePostgresDB_part = \<lparr>pt_needs = [PConfig, PLogger], pt_hooks = (\<lambda>_. [close_hook Database None])\<rparr>"

definition ProvideRedisClient_part :: part_def where
  "ProvideRedisClient_part = \<lparr>pt_needs = [PConfig, PLogger], pt_hooks = (\<lambda>L. [close_hook RedisClient (fl_close_redis L)])\<rparr>"

definition ProvideFileURLClient_part :: part_def where
  "ProvideFileURLClient_part = \<lparr>pt_needs = [PConfig, PLogger],
     pt_hooks = (\<lambda>L. [close_hook FileServiceClient (fl_close_file L)])\<rparr>"

definition ProvideDetailedUserPublisher_part :: part_def where
  "ProvideDetailedUserPublisher_part = \<lparr>pt_needs = [PEventBroker, PConfig, PLogger], pt_hooks = (\<lambda>_. [])\<rparr>"

definition provideEventBroker_part :: part_def where
  "provideEventBroker_part = \<lparr>pt_needs = [PConfig, PPostgres, PLogger], pt_hooks = (\<lambda>_. [close_hook EventBroker None])\<rparr>"

definition NewPgErrorTranslator_part :: part_def where
  "NewPgErrorTranslator_part = \<lparr>pt_needs = [], pt_hooks = (\<lambda>_. [])\<rparr>"

definition ProvideWriteRepo_part :: part_def where
  "ProvideWriteRepo_part = \<lparr>pt_needs = [PPostgres, PErrorTranslator, PLogger], pt_hooks = (\<lambda>_. [])\<rparr>"

definition ProvideReadRepo_part :: part_def where
  "ProvideReadRepo_part = \<lparr>pt_needs = [PRedis, PLogger], pt_hooks = (\<lambda>_. [])\<rparr>"

definition ProvideUserService_part :: part_def where
  "ProvideUserService_part = \<lparr>pt_needs = [PWriteRepo, PReadRepo, PFileURLClient, PDetailedUserPublisher, PLogger],
     pt_hooks = (\<lambda>_. [])\<rparr>"

definition NewDomainFailureReasonResolver_part :: part_def where
  "NewDomainFailureReasonResolver_part = \<lparr>pt_needs = [], pt_hooks = (\<lambda>_. [])\<rparr>"

definition ProvideRegistrationSagaSubscriber_part :: part_def where
  "ProvideRegistrationSagaSubscriber_part =
    \<lparr>pt_needs = [PEventBroker, PUserService, PConfig, PFailureReasonResolver, PLogger], pt_hooks = (\<lambda>_. [])\<rparr>"

definition ProvideDetailedUserProjectionRelay_part :: part_def where
  "ProvideDetailedUserProjectionRelay_part = \<lparr>pt_needs = [PEventBroker, PConfig, PLogger], pt_hooks = (\<lambda>_. [])\<rparr>"

definition ProvideDetailedUserProjectionSubscriber_part :: part_def where
  "ProvideDetailedUserProjectionSubscriber_part =
    \<lparr>pt_needs = [PEventBroker, PReadRepo, PConfig, PLogger], pt_hooks = (\<lambda>_. [])\<rparr>"

definition ProvideUserRecoverySubscriber_part :: part_def where
  "ProvideUserRecoverySubscriber_part =
    \<lparr>pt_needs = [PEventBroker, PUserService, PConfig, PLogger], pt_hooks = (\<lambda>_. [])\<rparr>"

definition ProvideGRPCServer_part :: part_def where
  "ProvideGRPCServer_part = \<lparr>pt_needs = [PUserService, PConfig, PLogger], pt_hooks = (\<lambda>_. [])\<rparr>"

definition InvokeSubscribeRegistrationSaga_part :: part_def where
  "InvokeSubscribeRegistrationSaga_part = \<lparr>pt_needs = [PRegistrationSaga, PConfig, PLogger],
     pt_hooks = (\<lambda>_. [loop_hook SagaConsumers])\<rparr>"

definition InvokeStartDetailedUserProjectionRelay_part :: part_def where
  "InvokeStartDetailedUserProjectionRelay_part = \<lparr>pt_needs = [PProjectionRelay],
     pt_hooks = (\<lambda>_. [loop_hook RelayConsumer])\<rparr>"

definition InvokeStartDetailedUserProjectionSubscriber_part :: part_def where
  "InvokeStartDetailedUserProjectionSubscriber_part = \<lparr>pt_needs = [PProjectionSubscriber],
     pt_hooks = (\<lambda>_. [loop_hook ProjectionConsumer])\<rparr>"

definition InvokeSubscribeUserRecovery_part :: part_def where
  "InvokeSubscribeUserRecovery_part = \<lparr>pt_needs = [PUserRecovery, PLogger],
     pt_hooks = (\<lambda>_. [loop_hook RecoveryConsumer])\<rparr>"

definition InvokeRunGRPCServer_part :: part_def where
  "InvokeRunGRPCServer_part = \<lparr>pt_needs = [PGRPCServer],
     pt_hooks = (\<lambda>L. [close_hook GRPCListener (fl_shutdown_grpc L)])\<rparr>"

fun part_def_of :: "part \<Rightarrow> part_def" where
  "part_def_of PConfig = ProvideConfig_part"
| "part_def_of PLogger = ProvideLogger_part"
| "part_def_of PTracingConfig = ProvideTracingConfig_part"
| "part_def_of PMeter = ProvideMetrics_part"
| "part_def_of PPostgres = ProvidePostgresDB_part"
| "part_def_of PRedis = ProvideRedisClient_part"
| "part_def_of PFileURLClient = ProvideFileURLClient_part"
| "part_def_of PDetailedUserPublisher = ProvideDetailedUserPublisher_part"
| "part_def_of PEventBroker = provideEventBroker_part"
| "part_def_of PErrorTranslator = NewPgErrorTranslator_part"
| "part_def_of PWriteRepo = ProvideWriteRepo_part"
| "part_def_of PReadRepo = ProvideReadRepo_part"
| "part_def_of PUserService = ProvideUserService_part"
| "part_def_of PFailureReasonResolver = NewDomainFailureReasonResolver_part"
| "part_def_of PRegistrationSaga = ProvideRegistrationSagaSubscriber_part"
| "part_def_of PProjectionRelay = ProvideDetailedUserProjectionRelay_part"
| "part_def_of PProjectionSubscriber = ProvideDetailedUserProjectionSubscriber_part"
| "part_def_of PUserRecovery = ProvideUserRecoverySubscriber_part"
| "part_def_of PGRPCServer = ProvideGRPCServer_part"
| "part_def_of InstallTracing = InvokeInstallTracing_part"
| "part_def_of RunMetricsServer = InvokeRunMetricsServer_part"
| "part_def_of StartLog = InvokeStartLog_part"
| "part_def_of RunMigrations = InvokeRunMigrations_part"
| "part_def_of SubscribeRegistrationSaga = InvokeSubscribeRegistrationSaga_part"
| "part_def_of StartProjectionRelay = InvokeStartDetailedUserProjectionRelay_part"
| "part_def_of StartProjectionSubscriber = InvokeStartDetailedUserProjectionSubscriber_part"
| "part_def_of SubscribeUserRecovery = InvokeSubscribeUserRecovery_part"
| "part_def_of RunGRPCServer = InvokeRunGRPCServer_part"

definition needs :: "part \<Rightarrow> part list" where
  "needs p = pt_needs (part_def_of p)"

definition hooks :: "fx_libs \<Rightarrow> part \<Rightarrow> hook list" where
  "hooks L p = pt_hooks (part_def_of p) L"

section \<open>Modules\<close>

record fx_module =
  md_provides :: "part list"
  md_invokes :: "part list"

definition ConfigModule :: fx_module where
  "ConfigModule = \<lparr>md_provides = [PConfig], md_invokes = []\<rparr>"

definition LoggerModule :: fx_module where
  "LoggerModule = \<lparr>md_provides = [PLogger], md_invokes = []\<rparr>"

definition TracingModule :: fx_module where
  "TracingModule = \<lparr>md_provides = [PTracingConfig], md_invokes = [InstallTracing]\<rparr>"

definition MetricsModule :: fx_module where
  "MetricsModule = \<lparr>md_provides = [PMeter], md_invokes = [RunMetricsServer]\<rparr>"

definition AppModule :: fx_module where
  "AppModule = \<lparr>md_provides = [], md_invokes = [StartLog]\<rparr>"

definition StorageModule :: fx_module where
  "StorageModule = \<lparr>md_provides = [PPostgres, PRedis], md_invokes = [RunMigrations]\<rparr>"

definition OutboundModule :: fx_module where
  "OutboundModule = \<lparr>md_provides = [PFileURLClient, PDetailedUserPublisher], md_invokes = []\<rparr>"

definition MessagingModule :: fx_module where
  "MessagingModule = \<lparr>md_provides = [PEventBroker], md_invokes = []\<rparr>"

definition RepoModule :: fx_module where
  "RepoModule = \<lparr>md_provides = [PErrorTranslator, PWriteRepo, PReadRepo], md_invokes = []\<rparr>"

definition ServiceModule :: fx_module where
  "ServiceModule = \<lparr>md_provides = [PUserService], md_invokes = []\<rparr>"

definition PresentationModule :: fx_module where
  "PresentationModule =
    \<lparr>md_provides = [PFailureReasonResolver, PRegistrationSaga, PProjectionRelay, PProjectionSubscriber,
       PUserRecovery, PGRPCServer],
     md_invokes = [SubscribeRegistrationSaga, StartProjectionRelay, StartProjectionSubscriber,
       SubscribeUserRecovery, RunGRPCServer]\<rparr>"

definition newApp :: "fx_module list" where
  "newApp = [ConfigModule, LoggerModule, TracingModule, MetricsModule, AppModule, StorageModule, OutboundModule,
     MessagingModule, RepoModule, ServiceModule, PresentationModule]"

definition provided :: "fx_module list \<Rightarrow> part list" where
  "provided app = concat (map md_provides app)"

definition invoked :: "fx_module list \<Rightarrow> part list" where
  "invoked app = concat (map md_invokes app)"

lemmas module_defs = ConfigModule_def LoggerModule_def TracingModule_def MetricsModule_def AppModule_def
  StorageModule_def OutboundModule_def MessagingModule_def RepoModule_def ServiceModule_def PresentationModule_def

lemmas part_defs = ProvideConfig_part_def ProvideLogger_part_def ProvideTracingConfig_part_def
  InvokeInstallTracing_part_def ProvideMetrics_part_def InvokeRunMetricsServer_part_def InvokeStartLog_part_def
  InvokeRunMigrations_part_def ProvidePostgresDB_part_def ProvideRedisClient_part_def ProvideFileURLClient_part_def
  ProvideDetailedUserPublisher_part_def provideEventBroker_part_def NewPgErrorTranslator_part_def
  ProvideWriteRepo_part_def ProvideReadRepo_part_def ProvideUserService_part_def
  NewDomainFailureReasonResolver_part_def ProvideRegistrationSagaSubscriber_part_def
  ProvideDetailedUserProjectionRelay_part_def ProvideDetailedUserProjectionSubscriber_part_def
  ProvideUserRecoverySubscriber_part_def ProvideGRPCServer_part_def InvokeSubscribeRegistrationSaga_part_def
  InvokeStartDetailedUserProjectionRelay_part_def InvokeStartDetailedUserProjectionSubscriber_part_def
  InvokeSubscribeUserRecovery_part_def InvokeRunGRPCServer_part_def

lemma needs_simps [simp]:
  "needs PConfig = []" "needs PLogger = [PConfig]" "needs PTracingConfig = [PConfig]" "needs PMeter = [PConfig]"
  "needs PPostgres = [PConfig, PLogger]" "needs PRedis = [PConfig, PLogger]" "needs PFileURLClient = [PConfig, PLogger]"
  "needs PDetailedUserPublisher = [PEventBroker, PConfig, PLogger]" "needs PEventBroker = [PConfig, PPostgres, PLogger]"
  "needs PErrorTranslator = []" "needs PWriteRepo = [PPostgres, PErrorTranslator, PLogger]"
  "needs PReadRepo = [PRedis, PLogger]"
  "needs PUserService = [PWriteRepo, PReadRepo, PFileURLClient, PDetailedUserPublisher, PLogger]"
  "needs PFailureReasonResolver = []"
  "needs PRegistrationSaga = [PEventBroker, PUserService, PConfig, PFailureReasonResolver, PLogger]"
  "needs PProjectionRelay = [PEventBroker, PConfig, PLogger]"
  "needs PProjectionSubscriber = [PEventBroker, PReadRepo, PConfig, PLogger]"
  "needs PUserRecovery = [PEventBroker, PUserService, PConfig, PLogger]"
  "needs PGRPCServer = [PUserService, PConfig, PLogger]" "needs InstallTracing = [PTracingConfig, PLogger]"
  "needs RunMetricsServer = [PConfig, PMeter, PLogger]" "needs StartLog = [PLogger]"
  "needs RunMigrations = [PConfig, PLogger]" "needs SubscribeRegistrationSaga = [PRegistrationSaga, PConfig, PLogger]"
  "needs StartProjectionRelay = [PProjectionRelay]" "needs StartProjectionSubscriber = [PProjectionSubscriber]"
  "needs SubscribeUserRecovery = [PUserRecovery, PLogger]" "needs RunGRPCServer = [PGRPCServer]"
  by (simp_all add: needs_def part_defs)

lemma provided_newApp: "provided newApp = [PConfig, PLogger, PTracingConfig, PMeter, PPostgres, PRedis, PFileURLClient,
    PDetailedUserPublisher, PEventBroker, PErrorTranslator, PWriteRepo, PReadRepo, PUserService, PFailureReasonResolver,
    PRegistrationSaga, PProjectionRelay, PProjectionSubscriber, PUserRecovery, PGRPCServer]"
  by (simp add: provided_def newApp_def module_defs)

lemma invoked_newApp: "invoked newApp = [InstallTracing, RunMetricsServer, StartLog, RunMigrations,
    SubscribeRegistrationSaga, StartProjectionRelay, StartProjectionSubscriber, SubscribeUserRecovery, RunGRPCServer]"
  by (simp add: invoked_def newApp_def module_defs)

definition Module :: "fx_module list" where
  "Module = [ConfigModule, LoggerModule, TracingModule, MetricsModule, AppModule, StorageModule, OutboundModule,
     MessagingModule, RepoModule, ServiceModule, PresentationModule]"

section \<open>The container\<close>

text \<open>What a part needs, directly or through others; no chain is longer than there are parts.\<close>

fun reach :: "nat \<Rightarrow> part \<Rightarrow> part list" where
  "reach 0 p = []"
| "reach (Suc n) p = needs p @ concat (map (reach n) (needs p))"

definition requires :: "part \<Rightarrow> part \<Rightarrow> bool" where
  "requires p q \<longleftrightarrow> q \<in> set (reach 8 p)"

fun needs_met :: "part list \<Rightarrow> part list \<Rightarrow> bool" where
  "needs_met built [] \<longleftrightarrow> True"
| "needs_met built (p # ps) \<longleftrightarrow> list_all (\<lambda>q. q \<in> set built) (needs p) \<and> needs_met (p # built) ps"

fun on_demand :: "part list \<Rightarrow> part list \<Rightarrow> bool" where
  "on_demand invokes [] \<longleftrightarrow> True"
| "on_demand invokes (p # ps) \<longleftrightarrow>
     (p \<in> set invokes \<or> (case filter (\<lambda>q. q \<in> set invokes) ps of [] \<Rightarrow> False | q # _ \<Rightarrow> requires q p)) \<and>
     on_demand invokes ps"

definition builds :: "fx_module list \<Rightarrow> part list \<Rightarrow> bool" where
  "builds app b \<longleftrightarrow> distinct b \<and> list_all (\<lambda>p. p \<in> set (provided app) \<or> p \<in> set (invoked app)) b \<and>
     filter (\<lambda>p. p \<in> set (invoked app)) b = invoked app \<and> needs_met [] b \<and> on_demand (invoked app) b"

definition app_hooks :: "fx_libs \<Rightarrow> part list \<Rightarrow> hook list" where
  "app_hooks L b = concat (map (hooks L) b)"

text \<open>Starting ends at the first error; all hooks are stopped, even if some fail.\<close>

fun run_starts :: "hook list \<Rightarrow> app_state \<Rightarrow> goerr option \<times> app_state" where
  "run_starts [] s = (None, s)"
| "run_starts (h # hs) s =
    (case hk_OnStart h s of (Some err, s1) \<Rightarrow> (Some err, s1) | (None, s1) \<Rightarrow> run_starts hs s1)"

fun run_stops :: "hook list \<Rightarrow> app_state \<Rightarrow> goerr list \<times> app_state" where
  "run_stops [] s = ([], s)"
| "run_stops (h # hs) s =
    (case hk_OnStop h s of (err, s1) \<Rightarrow>
       (case run_stops hs s1 of (errs, s2) \<Rightarrow> ((case err of None \<Rightarrow> errs | Some e \<Rightarrow> e # errs), s2)))"

definition stops_in_reverse :: "(hook list \<Rightarrow> app_state \<Rightarrow> goerr list \<times> app_state) \<Rightarrow> bool" where
  "stops_in_reverse fx \<longleftrightarrow> (\<forall>hs s. fx hs s = run_stops (rev hs) s)"

definition fresh_app :: app_state where
  "fresh_app = \<lparr>as_cancel = {}, as_running = {}, as_trace = []\<rparr>"

section \<open>Order\<close>

definition before :: "'a list \<Rightarrow> 'a \<Rightarrow> 'a \<Rightarrow> bool" where
  "before xs a b \<longleftrightarrow> (\<exists>us vs ws. xs = us @ a # vs @ b # ws)"

lemma before_iff: "before (x # xs) a b \<longleftrightarrow> (x = a \<and> b \<in> set xs) \<or> before xs a b"
proof
  assume "before (x # xs) a b"
  then obtain us vs ws where e: "x # xs = us @ a # vs @ b # ws" by (auto simp: before_def)
  then show "(x = a \<and> b \<in> set xs) \<or> before xs a b" by (cases us) (auto simp: before_def)
next
  assume "(x = a \<and> b \<in> set xs) \<or> before xs a b"
  then show "before (x # xs) a b"
  proof
    assume "x = a \<and> b \<in> set xs"
    then show ?thesis by (metis append_Nil before_def in_set_conv_decomp)
  next
    assume "before xs a b"
    then show ?thesis unfolding before_def by (metis append_Cons)
  qed
qed

lemma before_Nil [simp]: "\<not> before [] a b"
  by (simp add: before_def)

lemma before_rev: "before xs a b \<Longrightarrow> before (rev xs) b a"
proof -
  assume "before xs a b"
  then obtain us vs ws where "xs = us @ a # vs @ b # ws" by (auto simp: before_def)
  then have "rev xs = rev ws @ b # rev vs @ a # rev us" by simp
  then show ?thesis unfolding before_def by blast
qed

lemma before_append: "before xs a b \<Longrightarrow> before (us @ xs) a b" "before xs a b \<Longrightarrow> before (xs @ us) a b"
  by (metis append.assoc before_def, metis append.assoc append_Cons before_def)

lemma before_in: "before xs a b \<Longrightarrow> a \<in> set xs \<and> b \<in> set xs"
  by (auto simp: before_def)

lemma before_concat:
  assumes "before xs a b" and "e \<in> set (f a)" and "g \<in> set (f b)"
  shows "before (concat (map f xs)) e g"
proof -
  obtain us vs ws where x: "xs = us @ a # vs @ b # ws" using assms(1) by (auto simp: before_def)
  obtain p q where p: "f a = p @ e # q" using assms(2) by (meson split_list)
  obtain r t where r: "f b = r @ g # t" using assms(3) by (meson split_list)
  have "concat (map f xs) = (concat (map f us) @ p) @ e # (q @ concat (map f vs) @ r) @ g # (t @ concat (map f ws))"
    by (simp add: x p r)
  then show ?thesis unfolding before_def by blast
qed

lemma needs_met_before:
  "needs_met built b \<Longrightarrow> p \<in> set b \<Longrightarrow> q \<in> set (needs p) \<Longrightarrow> q \<in> set built \<or> before b q p"
proof (induction b arbitrary: built)
  case (Cons x b)
  show ?case
  proof (cases "p = x")
    case True
    with Cons.prems show ?thesis by (auto simp: list_all_iff)
  next
    case False
    with Cons.prems have "q \<in> set (x # built) \<or> before b q p" by (intro Cons.IH) simp_all
    with False Cons.prems(2) show ?thesis by (auto simp: before_iff)
  qed
qed simp

lemma before_trans:
  assumes "before xs a b" "before xs b c" "distinct xs"
  shows "before xs a c"
  using assms
proof (induction xs)
  case (Cons x xs)
  then show ?case by (auto simp: before_iff dest: before_in)
qed simp

lemma reach_before:
  assumes "builds app b" and "p \<in> set b" and "q \<in> set (reach n p)"
  shows "before b q p"
  using assms(2,3)
proof (induction n arbitrary: p)
  case (Suc n)
  have d: "distinct b" and m: "needs_met [] b" using assms(1) by (simp_all add: builds_def)
  from Suc.prems(2) consider "q \<in> set (needs p)" | r where "r \<in> set (needs p)" "q \<in> set (reach n r)" by auto
  then show ?case
  proof cases
    case 1
    with needs_met_before [OF m Suc.prems(1)] show ?thesis by simp
  next
    case 2
    have r: "before b r p" using needs_met_before [OF m Suc.prems(1) 2(1)] by simp
    then have "before b q r" using Suc.IH [OF _ 2(2)] before_in [OF r] by blast
    then show ?thesis using r d by (rule before_trans)
  qed
qed simp

lemma requires_before: "builds app b \<Longrightarrow> p \<in> set b \<Longrightarrow> requires p q \<Longrightarrow> before b q p"
  unfolding requires_def by (rule reach_before)

lemma invoked_built: "builds app b \<Longrightarrow> p \<in> set (invoked app) \<Longrightarrow> p \<in> set b"
  unfolding builds_def by (metis filter_is_subset subsetD)

text \<open>Something an invocation does not require is not built before it, unless an earlier one does.\<close>

lemma on_demand_after:
  assumes "on_demand invokes b" and "p \<in> set b" and "p \<notin> set invokes" and "q \<in> set b" and "q \<in> set invokes"
    and "filter (\<lambda>r. r \<in> set invokes) b = us @ q # ws" and "list_all (\<lambda>r. \<not> requires r p) (us @ [q])"
  shows "before b q p"
  using assms
proof (induction b arbitrary: us)
  case (Cons x b)
  show ?case
  proof (cases "x = q")
    case True
    with Cons.prems show ?thesis by (auto simp: before_iff)
  next
    case False
    show ?thesis
    proof (cases "x \<in> set invokes")
      case True
      with Cons.prems(6) False obtain vs where us: "us = x # vs" "filter (\<lambda>r. r \<in> set invokes) b = vs @ q # ws"
        by (cases us) auto
      with Cons.IH [of vs] Cons.prems True False show ?thesis by (auto simp: before_iff)
    next
      case out: False
      with Cons.prems(6) have f: "filter (\<lambda>r. r \<in> set invokes) b = us @ q # ws" by simp
      have "x \<noteq> p"
      proof
        assume "x = p"
        with Cons.prems(1,7) f out show False by (cases us) auto
      qed
      with Cons.IH [OF _ _ _ _ _ f] Cons.prems False show ?thesis by (auto simp: before_iff)
    qed
  qed
qed simp

section \<open>Starting and stopping\<close>

text \<open>The loop a part starts, and what stopping it does.\<close>

fun loops_of :: "part \<Rightarrow> loop set" where
  "loops_of RunMetricsServer = {MetricsServer}"
| "loops_of SubscribeRegistrationSaga = {SagaConsumers}"
| "loops_of StartProjectionRelay = {RelayConsumer}"
| "loops_of StartProjectionSubscriber = {ProjectionConsumer}"
| "loops_of SubscribeUserRecovery = {RecoveryConsumer}"
| "loops_of _ = {}"

fun stop_events :: "fx_libs \<Rightarrow> part \<Rightarrow> stop_event list" where
  "stop_events L PLogger = [Closed LogBuffer]"
| "stop_events L InstallTracing = (if fl_tracer L = None then [Closed Tracer] else [])"
| "stop_events L RunMetricsServer = [Cancelled MetricsServer]"
| "stop_events L PPostgres = [Closed Database]"
| "stop_events L PRedis = [Closed RedisClient]"
| "stop_events L PFileURLClient = [Closed FileServiceClient]"
| "stop_events L PEventBroker = [Closed EventBroker]"
| "stop_events L SubscribeRegistrationSaga = [Cancelled SagaConsumers]"
| "stop_events L StartProjectionRelay = [Cancelled RelayConsumer]"
| "stop_events L StartProjectionSubscriber = [Cancelled ProjectionConsumer]"
| "stop_events L SubscribeUserRecovery = [Cancelled RecoveryConsumer]"
| "stop_events L RunGRPCServer = [Closed GRPCListener]"
| "stop_events L _ = []"

lemma run_stops_append:
  "run_stops (hs @ ks) s = (case run_stops hs s of (e1, s1) \<Rightarrow> case run_stops ks s1 of (e2, s2) \<Rightarrow> (e1 @ e2, s2))"
  by (induction hs arbitrary: s) (auto split: prod.splits option.splits)

lemma run_starts_append:
  "run_starts (hs @ ks) s = (case run_starts hs s of (None, s1) \<Rightarrow> run_starts ks s1 | (Some e, s1) \<Rightarrow> (Some e, s1))"
  by (induction hs arbitrary: s) (auto split: prod.splits option.splits)

lemma part_hooks:
  "rev (hooks L p) = hooks L p"
  "run_starts (hooks L p) s = (None, s\<lparr>as_cancel := loops_of p \<union> as_cancel s, as_running := loops_of p \<union> as_running s\<rparr>)"
  "loops_of p \<subseteq> as_cancel s \<Longrightarrow> snd (run_stops (hooks L p) s) =
     s\<lparr>as_running := as_running s - loops_of p, as_trace := as_trace s @ stop_events L p\<rparr>"
  by (cases p; simp add: hooks_def part_defs loop_hook_def close_hook_def no_start_def)+

lemma starts_parts:
  "run_starts (app_hooks L b) s = (None, s\<lparr>as_cancel := \<Union> (loops_of ` set b) \<union> as_cancel s,
     as_running := \<Union> (loops_of ` set b) \<union> as_running s\<rparr>)"
  by (induction b arbitrary: s) (simp_all add: app_hooks_def run_starts_append part_hooks(2) Un_ac)

lemma stops_parts:
  "\<Union> (loops_of ` set b) \<subseteq> as_cancel s \<Longrightarrow> snd (run_stops (app_hooks L b) s) =
     s\<lparr>as_running := as_running s - \<Union> (loops_of ` set b), as_trace := as_trace s @ concat (map (stop_events L) b)\<rparr>"
proof (induction b arbitrary: s)
  case (Cons p b)
  obtain e1 s1 where 1: "run_stops (hooks L p) s = (e1, s1)" by (meson surj_pair)
  obtain e2 s2 where 2: "run_stops (app_hooks L b) s1 = (e2, s2)" by (meson surj_pair)
  have s1: "s1 = s\<lparr>as_running := as_running s - loops_of p, as_trace := as_trace s @ stop_events L p\<rparr>"
    using part_hooks(3) [of p s L] 1 Cons.prems by simp
  have "s2 = s1\<lparr>as_running := as_running s1 - \<Union> (loops_of ` set b), as_trace := as_trace s1 @ concat (map (stop_events L) b)\<rparr>"
    using Cons.IH [of s1] 2 s1 Cons.prems by simp
  with 1 2 s1 show ?case by (simp add: app_hooks_def run_stops_append Diff_eq Int_assoc)
qed (simp add: app_hooks_def)

lemma rev_app_hooks: "rev (app_hooks L b) = app_hooks L (rev b)"
  by (induction b) (simp_all add: app_hooks_def part_hooks(1))

lemma stopped_app:
  assumes "stops_in_reverse fx" and "run_starts (app_hooks L b) fresh_app = (r, s)" and "fx (app_hooks L b) s = (errs, s')"
  shows "r = None \<and> as_running s' = {} \<and> as_trace s' = concat (map (stop_events L) (rev b))"
proof -
  have s: "r = None" "s = fresh_app\<lparr>as_cancel := \<Union> (loops_of ` set b), as_running := \<Union> (loops_of ` set b)\<rparr>"
    using assms(2) by (simp_all add: starts_parts fresh_app_def)
  have "s' = snd (run_stops (app_hooks L (rev b)) s)"
    using assms(1,3) rev_app_hooks by (simp add: stops_in_reverse_def)
  with s stops_parts [of "rev b" s L] show ?thesis by (simp add: fresh_app_def)
qed

lemma stop_before:
  assumes "builds app b" and "p \<in> set b" and "requires p q" and "e \<in> set (stop_events L p)" and "g \<in> set (stop_events L q)"
  shows "before (concat (map (stop_events L) (rev b))) e g"
  by (rule before_concat [OF before_rev [OF requires_before [OF assms(1-3)]] assms(4,5)])

lemma requires_facts:
  "requires SubscribeRegistrationSaga PEventBroker" "requires StartProjectionRelay PEventBroker"
  "requires StartProjectionSubscriber PEventBroker" "requires SubscribeUserRecovery PEventBroker"
  "requires SubscribeRegistrationSaga PPostgres" "requires SubscribeRegistrationSaga PRedis"
  "requires SubscribeRegistrationSaga PFileURLClient"
  "requires SubscribeUserRecovery PRedis" "requires SubscribeUserRecovery PFileURLClient"
  "requires StartProjectionSubscriber PRedis" "requires RunGRPCServer PEventBroker"
  "requires RunGRPCServer PRedis" "requires RunGRPCServer PFileURLClient" "requires RunGRPCServer PPostgres"
  "requires PEventBroker PPostgres" "requires PEventBroker PLogger" "requires PPostgres PLogger" "requires PRedis PLogger"
  "requires PFileURLClient PLogger"
  by (simp_all add: requires_def eval_nat_numeral)

lemma nothing_before_migrations:
  "\<not> requires InstallTracing p \<and> \<not> requires RunMetricsServer p \<and> \<not> requires StartLog p \<and> \<not> requires RunMigrations p"
  if "p \<in> {PPostgres, PRedis, PEventBroker}"
  using that by (auto simp: requires_def eval_nat_numeral)

section \<open>Properties\<close>

definition sample_build :: "part list" where
  "sample_build = [PConfig, PTracingConfig, PLogger, InstallTracing, PMeter, RunMetricsServer, StartLog, RunMigrations,
     PPostgres, PEventBroker, PErrorTranslator, PWriteRepo, PRedis, PReadRepo, PFileURLClient, PDetailedUserPublisher,
     PUserService, PFailureReasonResolver, PRegistrationSaga, SubscribeRegistrationSaga, PProjectionRelay,
     StartProjectionRelay, PProjectionSubscriber, StartProjectionSubscriber, PUserRecovery, SubscribeUserRecovery,
     PGRPCServer, RunGRPCServer]"

lemma sample_builds: "builds newApp sample_build"
proof -
  have "on_demand (invoked newApp) sample_build"
    unfolding invoked_newApp by (simp add: sample_build_def requires_def eval_nat_numeral)
  then show ?thesis
    unfolding builds_def provided_newApp invoked_newApp by (simp add: sample_build_def)
qed

theorem application_graph_is_complete:
  "distinct (provided newApp) \<and>
   list_all (\<lambda>p. list_all (\<lambda>q. q \<in> set (provided newApp)) (needs p)) (provided newApp @ invoked newApp) \<and>
   (\<exists>b. builds newApp b) \<and> Module = newApp"
proof (intro conjI)
  show "\<exists>b. builds newApp b" using sample_builds by blast
  show "Module = newApp" by (simp add: Module_def newApp_def)
  show "distinct (provided newApp)" unfolding provided_newApp by simp
  have "list_all (\<lambda>q. q \<in> set (provided newApp)) (needs p)" for p
    unfolding provided_newApp by (cases p) simp_all
  then show "list_all (\<lambda>p. list_all (\<lambda>q. q \<in> set (provided newApp)) (needs p)) (provided newApp @ invoked newApp)"
    unfolding list_all_iff by blast
qed

theorem stores_open_after_migrations:
  assumes "builds newApp b"
  shows "list_all (before b RunMigrations) [PPostgres, PRedis, PEventBroker]"
proof -
  have b: "on_demand (invoked newApp) b" "filter (\<lambda>p. p \<in> set (invoked newApp)) b = invoked newApp"
    using assms by (simp_all add: builds_def)
  have inv: "RunGRPCServer \<in> set b" using invoked_built [OF assms] by (simp add: invoked_newApp)
  have "before b RunMigrations p" if p: "p \<in> {PPostgres, PRedis, PEventBroker}" for p
  proof -
    have "requires RunGRPCServer p" using p requires_facts by auto
    from before_in [OF requires_before [OF assms inv this]] have "p \<in> set b" by simp
    moreover have "p \<notin> set (invoked newApp)" using p by (auto simp: invoked_newApp)
    moreover have "filter (\<lambda>r. r \<in> set (invoked newApp)) b = [InstallTracing, RunMetricsServer, StartLog] @ RunMigrations #
        [SubscribeRegistrationSaga, StartProjectionRelay, StartProjectionSubscriber, SubscribeUserRecovery, RunGRPCServer]"
      using b(2) by (simp add: invoked_newApp)
    moreover have "RunMigrations \<in> set b" "RunMigrations \<in> set (invoked newApp)"
      using invoked_built [OF assms] by (simp_all add: invoked_newApp)
    moreover have "list_all (\<lambda>r. \<not> requires r p) ([InstallTracing, RunMetricsServer, StartLog] @ [RunMigrations])"
      using nothing_before_migrations [OF p] by simp
    ultimately show ?thesis by (intro on_demand_after [OF b(1)])
  qed
  then show ?thesis by simp
qed

text \<open>
  C26. Whatever order the container builds the application in, when its stop hooks run in reverse
  every background loop is cancelled and the gRPC server is shut down before what they use is
  closed: the broker, the database, Redis and the file client; the broker is closed before the
  database, and the log is flushed after all of them.
\<close>

theorem stop_closes_after_users:
  assumes "builds newApp b" and "stops_in_reverse fx"
    and "run_starts (app_hooks L b) fresh_app = (r, s)" and "fx (app_hooks L b) s = (errs, s')"
  shows "r = None \<and> as_running s' = {} \<and>
    list_all (\<lambda>l. before (as_trace s') (Cancelled l) (Closed EventBroker))
      [SagaConsumers, RelayConsumer, ProjectionConsumer, RecoveryConsumer] \<and>
    before (as_trace s') (Cancelled SagaConsumers) (Closed RedisClient) \<and>
    before (as_trace s') (Cancelled SagaConsumers) (Closed FileServiceClient) \<and>
    before (as_trace s') (Cancelled RecoveryConsumer) (Closed RedisClient) \<and>
    before (as_trace s') (Cancelled RecoveryConsumer) (Closed FileServiceClient) \<and>
    before (as_trace s') (Cancelled ProjectionConsumer) (Closed RedisClient) \<and>
    list_all (before (as_trace s') (Closed GRPCListener))
      [Closed EventBroker, Closed Database, Closed RedisClient, Closed FileServiceClient] \<and>
    before (as_trace s') (Closed EventBroker) (Closed Database) \<and>
    list_all (\<lambda>r. before (as_trace s') (Closed r) (Closed LogBuffer)) [EventBroker, Database, RedisClient, FileServiceClient]"
proof -
  note st = stopped_app [OF assms(2-4)]
  have i: "p \<in> set b" if "p \<in> {SubscribeRegistrationSaga, StartProjectionRelay, StartProjectionSubscriber,
      SubscribeUserRecovery, RunGRPCServer}" for p
    using invoked_built [OF assms(1)] that by (auto simp: invoked_newApp)
  have c: "p \<in> set b" if "p \<in> {PEventBroker, PPostgres, PRedis, PFileURLClient}" for p
  proof -
    have "requires RunGRPCServer p" using that requires_facts by auto
    have "RunGRPCServer \<in> set b" by (rule i) simp
    from before_in [OF requires_before [OF assms(1) this \<open>requires RunGRPCServer p\<close>]] show ?thesis by simp
  qed
  have ord: "before (as_trace s') e g"
    if "p \<in> set b" "requires p q" "e \<in> set (stop_events L p)" "g \<in> set (stop_events L q)" for p q e g
    using stop_before [OF assms(1) that] st by simp
  note saga = ord [OF i [of SubscribeRegistrationSaga]] and relay = ord [OF i [of StartProjectionRelay]]
    and projection = ord [OF i [of StartProjectionSubscriber]] and recovery = ord [OF i [of SubscribeUserRecovery]]
    and server = ord [OF i [of RunGRPCServer]] and broker = ord [OF c [of PEventBroker]]
    and db = ord [OF c [of PPostgres]] and redis = ord [OF c [of PRedis]] and files = ord [OF c [of PFileURLClient]]
  show ?thesis
    using st saga [OF _ requires_facts(1)] relay [OF _ requires_facts(2)] projection [OF _ requires_facts(3)]
      recovery [OF _ requires_facts(4)] saga [OF _ requires_facts(6)] saga [OF _ requires_facts(7)]
      recovery [OF _ requires_facts(8)] recovery [OF _ requires_facts(9)] projection [OF _ requires_facts(10)]
      server [OF _ requires_facts(11)] server [OF _ requires_facts(12)] server [OF _ requires_facts(13)]
      server [OF _ requires_facts(14)] broker [OF _ requires_facts(15)] broker [OF _ requires_facts(16)]
      db [OF _ requires_facts(17)] redis [OF _ requires_facts(18)] files [OF _ requires_facts(19)]
    by simp
qed

definition sample_libs :: fx_libs where
  "sample_libs = \<lparr>fl_sync = None, fl_tracer = None, fl_tracer_shutdown = None, fl_close_db = None,
     fl_close_redis = None, fl_close_file = None, fl_shutdown_grpc = None\<rparr>"

theorem stores_open_after_migrations_witness:
  "before sample_build RunMigrations PPostgres"
  using stores_open_after_migrations [OF sample_builds] by simp

theorem stop_closes_after_users_witness:
  "before (as_trace (snd (run_stops (rev (app_hooks sample_libs sample_build))
      (snd (run_starts (app_hooks sample_libs sample_build) fresh_app))))) (Closed EventBroker) (Closed Database)"
proof -
  have fx: "stops_in_reverse (\<lambda>hs s. run_stops (rev hs) s)" by (simp add: stops_in_reverse_def)
  show ?thesis
    using stop_closes_after_users [OF sample_builds fx prod.collapse [symmetric] prod.collapse [symmetric], of sample_libs]
    by (elim conjE)
qed

end
