(* ===== verification/Observability.thy ===== *)
theory Observability
  imports Lifecycle Config
begin

text \<open>
  The logger, the meter and the tracer (internal/fx/logger.go, metrics.go, tracing.go): how they are
  made from the configuration, what becomes the global instance, and how the hooks of the
  application follow from it. The libraries that make them are parameters.
\<close>

section \<open>Logger\<close>

definition ProvideLogger :: "(string \<Rightarrow> string \<Rightarrow> string \<Rightarrow> string \<Rightarrow> goerr + 'l) \<Rightarrow> ('l \<Rightarrow> goerr option)
    \<Rightarrow> service_config \<Rightarrow> hook list \<Rightarrow> (goerr + 'l) \<times> hook list" where
  "ProvideLogger new_with_mode sync cfg lc =
    (case new_with_mode ''user-service'' (app_Env (cfg_App cfg)) (app_ObservabilityMode (cfg_App cfg))
            (app_LogLevel (cfg_App cfg)) of
       Inl err \<Rightarrow> (Inl err, lc)
     | Inr lg \<Rightarrow> (Inr lg, lc @ [close_hook LogBuffer (sync lg)]))"

section \<open>Meter\<close>

record 'm metrics_library =
  ml_NewNoop :: 'm
  ml_New :: "string \<Rightarrow> string \<Rightarrow> 'm"

text \<open>The state is the process-wide meter.\<close>

definition ProvideMetrics :: "'m metrics_library \<Rightarrow> service_config \<Rightarrow> 'm option \<Rightarrow> 'm \<times> 'm option" where
  "ProvideMetrics L cfg global =
    (if \<not> m_Enabled (cfg_Metrics cfg) then (let meter = ml_NewNoop L in (meter, Some meter))
     else (let meter = ml_New L ''user-service'' (app_Env (cfg_App cfg)) in (meter, Some meter)))"

text \<open>The arguments the metrics listener is started with; its error is only logged.\<close>

definition InvokeRunMetricsServer :: "service_config \<Rightarrow> 'm \<Rightarrow> hook list \<Rightarrow> (metrics_config \<times> 'm) \<times> hook list" where
  "InvokeRunMetricsServer cfg meter lc = ((cfg_Metrics cfg, meter), lc @ [loop_hook MetricsServer])"

lemma meter_is_global: "ProvideMetrics L cfg global = (meter, global') \<Longrightarrow> global' = Some meter"
  by (auto simp: ProvideMetrics_def Let_def split: if_splits)

section \<open>Tracer\<close>

record shared_tracing_config =
  tc_Service :: string
  tc_Env :: string
  tc_Enabled :: bool
  tc_Endpoint :: string
  tc_Protocol :: string
  tc_SampleRatio :: string
  tc_ServiceVersion :: string

definition ProvideTracingConfig :: "(string \<Rightarrow> string \<Rightarrow> shared_tracing_config) \<Rightarrow> service_config
    \<Rightarrow> shared_tracing_config" where
  "ProvideTracingConfig default_config cfg =
    (default_config ''user-service'' (app_Env (cfg_App cfg)))
      \<lparr>tc_Enabled := t_Enabled (cfg_Tracing cfg), tc_Endpoint := t_Endpoint (cfg_Tracing cfg),
       tc_Protocol := t_Protocol (cfg_Tracing cfg), tc_SampleRatio := t_SampleRatio (cfg_Tracing cfg),
       tc_ServiceVersion := t_ServiceVersion (cfg_Tracing cfg)\<rparr>"

text \<open>The process-wide provider, the lines logged, and the hooks appended so far.\<close>

record 'p tracing_state =
  ts_global :: "'p option"
  ts_log :: "(string \<times> goerr option) list"
  ts_hooks :: "hook list"

definition InvokeInstallTracing :: "(shared_tracing_config \<Rightarrow> goerr + 'p) \<Rightarrow> ('p \<Rightarrow> goerr option)
    \<Rightarrow> shared_tracing_config option \<Rightarrow> 'p tracing_state \<Rightarrow> 'p tracing_state" where
  "InvokeInstallTracing new_provider shutdown cfg s =
    (case cfg of
       None \<Rightarrow> s
     | Some cfg \<Rightarrow>
         (case new_provider cfg of
            Inl err \<Rightarrow> s\<lparr>ts_log := ts_log s @ [(''tracing initialization failed'', Some err)]\<rparr>
          | Inr tp \<Rightarrow> s\<lparr>ts_global := Some tp, ts_hooks := ts_hooks s @ [close_hook Tracer (shutdown tp)],
                        ts_log := ts_log s @ [(''tracing initialized'', None)]\<rparr>))"

section \<open>The hooks of the application\<close>

text \<open>The answers of the libraries, as the hooks of the application see them.\<close>

definition tracer_error :: "goerr + 'p \<Rightarrow> goerr option" where
  "tracer_error r = (case r of Inl err \<Rightarrow> Some err | Inr _ \<Rightarrow> None)"

lemma logger_hooks:
  assumes "ProvideLogger new_with_mode sync cfg lc = (Inr lg, lc')" and "fl_sync L = sync lg"
  shows "lc' = lc @ hooks L PLogger"
  using assms by (simp add: ProvideLogger_def hooks_def ProvideLogger_part_def split: sum.splits)

lemma metrics_hooks: "snd (InvokeRunMetricsServer cfg meter lc) = lc @ hooks L RunMetricsServer"
  by (simp add: InvokeRunMetricsServer_def hooks_def InvokeRunMetricsServer_part_def)

lemma tracing_hooks:
  assumes "fl_tracer L = tracer_error (new_provider cfg)"
    and "\<And>tp. new_provider cfg = Inr tp \<Longrightarrow> fl_tracer_shutdown L = shutdown tp"
  shows "ts_hooks (InvokeInstallTracing new_provider shutdown (Some cfg) s) = ts_hooks s @ hooks L InstallTracing"
  using assms
  by (auto simp: InvokeInstallTracing_def hooks_def InvokeInstallTracing_part_def tracer_error_def split: sum.splits)

text \<open>
  A tracer that cannot be made is a logged line: there is no provider and no hook for it, and the
  application starts.
\<close>

lemma failed_tracing_is_only_logged:
  assumes "new_provider (ProvideTracingConfig default_config cfg) = Inl err"
    and "fl_tracer L = tracer_error (new_provider (ProvideTracingConfig default_config cfg))"
  shows "let s' = InvokeInstallTracing new_provider shutdown (Some (ProvideTracingConfig default_config cfg)) s in
    ts_global s' = ts_global s \<and> ts_hooks s' = ts_hooks s \<and> hooks L InstallTracing = [] \<and>
    ts_log s' = ts_log s @ [(''tracing initialization failed'', Some err)]"
  using assms
  by (simp add: InvokeInstallTracing_def hooks_def InvokeInstallTracing_part_def tracer_error_def)

end
