(* ===== verification/Boot.thy ===== *)
theory Boot
  imports Startup Observability
begin

text \<open>
  The whole start of the application (newApp of cmd/user-service): the configuration is read and the
  logger made before anything else, since every other constructor takes them; the tracer and the meter
  return no error; then the rest is put together as in \<open>Startup\<close>. The consumers and the servers are
  started by hooks after that, in goroutines, and none of these hooks fails.
\<close>

section \<open>Starting\<close>

definition ProvideConfig :: "(service_config \<Rightarrow> goerr option \<times> service_config) \<Rightarrow> service_config
    \<Rightarrow> goerr + service_config" where
  "ProvideConfig env_Parse zero = Load env_Parse zero"

definition start_app :: "(service_config \<Rightarrow> goerr option \<times> service_config) \<Rightarrow> service_config
    \<Rightarrow> (string \<Rightarrow> string \<Rightarrow> string \<Rightarrow> string \<Rightarrow> goerr + 'l) \<Rightarrow> ('l \<Rightarrow> goerr option) \<Rightarrow> startup_env
    \<Rightarrow> goerr + running_service" where
  "start_app env_Parse zero new_with_mode sync P =
     and_then (ProvideConfig env_Parse zero) (\<lambda>cfg.
     and_then (fst (ProvideLogger new_with_mode sync cfg [])) (\<lambda>lg.
       start_service P cfg))"

section \<open>When it starts\<close>

lemma loaded: "ProvideConfig env_Parse zero = Inr cfg \<longleftrightarrow> env_Parse zero = (None, cfg)"
  by (auto simp: ProvideConfig_def Load_def split: prod.splits option.splits)

lemma logged: "fst (ProvideLogger new_with_mode sync cfg lc) =
    new_with_mode ''user-service'' (app_Env (cfg_App cfg)) (app_ObservabilityMode (cfg_App cfg)) (app_LogLevel (cfg_App cfg))"
  by (simp add: ProvideLogger_def split: sum.splits)

lemma and_then_right: "\<not> isl (and_then x f) \<longleftrightarrow> (\<exists>y. x = Inr y \<and> \<not> isl (f y))"
  by (cases x) (simp_all add: and_then_def)

text \<open>
  C39. The application starts exactly when the configuration can be read, the logger made, the
  migrations run, both stores and the file client open, a Kafka broker is configured, and the file
  address and all topic names the providers check are not blank.
\<close>

theorem service_starts_exactly_when_configured:
  "\<not> isl (start_app env_Parse zero new_with_mode sync P) \<longleftrightarrow>
     (\<exists>cfg lg. env_Parse zero = (None, cfg) \<and>
        new_with_mode ''user-service'' (app_Env (cfg_App cfg)) (app_ObservabilityMode (cfg_App cfg))
          (app_LogLevel (cfg_App cfg)) = Inr lg \<and>
        \<not> isl (InvokeRunMigrations P cfg) \<and> \<not> isl (Open (su_register P) (su_connectDB P) (cfg_DB cfg)) \<and>
        \<not> isl (redis_Open (su_instrument P) (su_ping P) (cfg_Redis cfg)) \<and>
        su_dial P (fs_Address (cfg_File cfg)) = None \<and> k_Brokers (cfg_Kafka cfg) \<noteq> [] \<and>
        list_all (\<lambda>n. TrimSpace n \<noteq> []) (required_names cfg))"
  unfolding start_app_def and_then_right loaded logged starts_when_configured by blast

text \<open>The default configuration starts when the environment is parsed and every library answers.\<close>

lemma default_application_starts:
  "\<not> isl (start_app (\<lambda>_. (None, default_Config db redis)) zero (\<lambda>_ _ _ _. Inr ()) (\<lambda>_. None) sample_startup)"
  unfolding start_app_def and_then_right loaded logged using default_configuration_starts [of db redis] by simp

end
