(* ===== verification/Interleaving.thy ===== *)
theory Interleaving
  imports Startup
begin

text \<open>
  The running service: its gRPC requests and its five Kafka consumers share the stores and the
  table of claimed events, and take their turns in any order. A step is one request, one fetched
  message handled to its end, the end of a consumer, its restart, or a message somebody sends to a
  topic. Here a turn is never interrupted; \<open>Concurrency\<close> interleaves the single calls of the turns.
\<close>

section \<open>Components of the running service\<close>

datatype grpc_request =
    AskExists string
  | AskActivate string
  | AskDeactivate string
  | AskPreview string
  | AskPreviewNoCache string
  | AskDetailed string

fun answer :: "'s user_service_methods \<Rightarrow> grpc_request \<Rightarrow> 's \<Rightarrow> 's" where
  "answer svc (AskExists n) s = snd (srv_ExistsByUsername svc n s)"
| "answer svc (AskActivate i) s = snd (srv_ActivateUser svc i s)"
| "answer svc (AskDeactivate i) s = snd (srv_DeactivateUser svc i s)"
| "answer svc (AskPreview i) s = snd (srv_GetUserPreviewByID svc i s)"
| "answer svc (AskPreviewNoCache i) s = snd (srv_GetUserPreviewByIDNoCache svc i s)"
| "answer svc (AskDetailed n) s = snd (srv_GetDetailedUserByUsername svc n s)"

datatype topic = CreateCommands | DeleteCommands | RecoveryCommands | DetailedRequests | DetailedProjections

definition all_topics :: "topic list" where
  "all_topics = [CreateCommands, DeleteCommands, RecoveryCommands, DetailedRequests, DetailedProjections]"

fun topic_config :: "kafka_config \<Rightarrow> topic \<Rightarrow> pull_consumer_config" where
  "topic_config k CreateCommands = zero_pull_consumer\<lparr>pc_Subject := k_SagaCreateUserTopic k\<rparr>"
| "topic_config k DeleteCommands = zero_pull_consumer\<lparr>pc_Subject := k_SagaDeleteUserTopic k\<rparr>"
| "topic_config k RecoveryCommands =
     zero_pull_consumer\<lparr>pc_Subject := k_RecoveryTopic k, pc_GroupID := k_RecoveryGroup k\<rparr>"
| "topic_config k DetailedRequests = zero_pull_consumer\<lparr>pc_Subject := k_DetailedUserRequestedTopic k\<rparr>"
| "topic_config k DetailedProjections = zero_pull_consumer\<lparr>pc_Subject := k_DetailedUserProjectionTopic k\<rparr>"

fun topic_handler :: "startup_env \<Rightarrow> service_config \<Rightarrow> running_service \<Rightarrow> topic \<Rightarrow> world message_handler" where
  "topic_handler P cfg app CreateCommands = handleCreate (rn_saga app)"
| "topic_handler P cfg app DeleteCommands = handleDelete (rn_saga app)"
| "topic_handler P cfg app RecoveryCommands = recovery_handle (rn_recovery app)"
| "topic_handler P cfg app DetailedRequests =
     relay_handler (kafka_backed (su_world P) (su_broker P)) (k_DetailedUserProjectionTopic (cfg_Kafka cfg))"
| "topic_handler P cfg app DetailedProjections = projection_handler (redis_repo (su_world P))"

section \<open>Shared state\<close>

definition on_world :: "world message_handler \<Rightarrow> (world \<times> 'c) message_handler" where
  "on_world h subject payload s = (case h subject payload (fst s) of (r, w) \<Rightarrow> (r, (w, snd s)))"

definition on_claims :: "'c claim_store \<Rightarrow> (world \<times> 'c) claim_store" where
  "on_claims D =
    \<lparr>cl_ClaimDB = (\<lambda>e s. case cl_ClaimDB D e (snd s) of (r, c) \<Rightarrow> (r, (fst s, c))),
     cl_Release = (\<lambda>e s. case cl_Release D e (snd s) of (r, c) \<Rightarrow> (r, (fst s, c)))\<rparr>"

record 'c system =
  sy_world :: world
  sy_claims :: 'c
  sy_consumers :: "topic \<Rightarrow> (world \<times> 'c) consumer"
  sy_running :: "topic \<Rightarrow> bool"

record 'c deployment =
  dp_startup :: startup_env
  dp_cfg :: service_config
  dp_app :: running_service
  dp_claims :: "'c claim_store"
  dp_consumer :: "topic \<Rightarrow> (world \<times> 'c) consumer_env"

definition topic_env :: "'c deployment \<Rightarrow> topic \<Rightarrow> (world \<times> 'c) consumer_env" where
  "topic_env d t = (dp_consumer d t)\<lparr>ce_db := Some (on_claims (dp_claims d))\<rparr>"

definition handle_on :: "'c deployment \<Rightarrow> topic \<Rightarrow> (world \<times> 'c) message_handler" where
  "handle_on d t = on_world (topic_handler (dp_startup d) (dp_cfg d) (dp_app d) t)"

text \<open>One turn of the consumer of a topic.\<close>

definition turn :: "'c deployment \<Rightarrow> topic \<Rightarrow> 'c system \<Rightarrow> outcome \<times> (world \<times> 'c) consumer" where
  "turn d t s = consume_step (topic_env d t) (topic_config (cfg_Kafka (dp_cfg d)) t) (handle_on d t)
     ((sy_consumers s t)\<lparr>cs_state := (sy_world s, sy_claims s)\<rparr>)"

definition after_turn :: "topic \<Rightarrow> outcome \<Rightarrow> (world \<times> 'c) consumer \<Rightarrow> 'c system \<Rightarrow> 'c system" where
  "after_turn t x c s =
    \<lparr>sy_world = fst (cs_state c), sy_claims = snd (cs_state c), sy_consumers = (sy_consumers s)(t := c),
     sy_running = (sy_running s)(t := (x = Continue))\<rparr>"

definition restart :: "topic \<Rightarrow> 'c system \<Rightarrow> 'c system" where
  "restart t s = s\<lparr>sy_consumers := (sy_consumers s)(t := (sy_consumers s t)\<lparr>cs_pos := cs_committed (sy_consumers s t)\<rparr>),
     sy_running := (sy_running s)(t := True)\<rparr>"

definition send :: "topic \<Rightarrow> kafka_message \<Rightarrow> 'c system \<Rightarrow> 'c system" where
  "send t m s = s\<lparr>sy_consumers := (sy_consumers s)(t := (sy_consumers s t)\<lparr>cs_log := cs_log (sy_consumers s t) @ [m]\<rparr>)\<rparr>"

inductive system_step :: "'c deployment \<Rightarrow> 'c system \<Rightarrow> 'c system \<Rightarrow> bool" for d where
  asked: "system_step d s (s\<lparr>sy_world := answer (rn_server (dp_app d)) q (sy_world s)\<rparr>)"
| consumed: "sy_running s t \<Longrightarrow> turn d t s = (x, c) \<Longrightarrow> system_step d s (after_turn t x c s)"
| stopped: "system_step d s (s\<lparr>sy_running := (sy_running s)(t := False)\<rparr>)"
| restarted: "\<not> sy_running s t \<Longrightarrow> system_step d s (restart t s)"
| sent: "system_step d s (send t m s)"

definition initial_system :: "'c \<Rightarrow> 'c system" where
  "initial_system claims = \<lparr>sy_world = empty_world, sy_claims = claims,
     sy_consumers = (\<lambda>_. fresh_consumer [] (empty_world, claims)), sy_running = (\<lambda>_. True)\<rparr>"

definition deployed :: "'c deployment \<Rightarrow> bool" where
  "deployed d \<longleftrightarrow> start_service (dp_startup d) (dp_cfg d) = Inr (dp_app d)"

section \<open>The stores\<close>

lemma answer_serve:
  "\<exists>c. answer (UserService svc) q s = serve svc c s"
proof (cases q)
  case (AskExists n) then show ?thesis
    by (intro exI [of _ "CallExistsByUsername n"]) (simp add: srv_ExistsByUsername_def split: prod.splits sum.splits)
next
  case (AskActivate i) then show ?thesis
    by (intro exI [of _ "CallActivateUser i"]) (simp add: srv_ActivateUser_def split: prod.splits sum.splits)
next
  case (AskDeactivate i) then show ?thesis
    by (intro exI [of _ "CallDeactivateUser i"]) (simp add: srv_DeactivateUser_def split: prod.splits sum.splits)
next
  case (AskPreview i) then show ?thesis
    by (intro exI [of _ "CallGetUserPreviewByID i"]) (simp add: srv_GetUserPreviewByID_def split: prod.splits sum.splits)
next
  case (AskPreviewNoCache i) then show ?thesis
    by (intro exI [of _ "CallGetUserPreviewByIDNoCache i"])
      (simp add: srv_GetUserPreviewByIDNoCache_def split: prod.splits sum.splits)
next
  case (AskDetailed n) then show ?thesis
    by (intro exI [of _ "CallGetDetailedUserByUsername n"])
      (simp add: srv_GetDetailedUserByUsername_def split: prod.splits sum.splits)
qed

lemma handleCreate_moves:
  assumes "pg_inv E w" "ProvideRegistrationSagaSubscriber E B topic cfg = Inr S" "handleCreate S subject raw w = (r, w')"
  shows "pg_inv E w' \<and> user_moves (users_view w) (users_view w')"
proof (cases "unmarshal_create_command raw")
  case (Inl e)
  with assms show ?thesis by (auto simp: handleCreate_def)
next
  case (Inr cmd)
  show ?thesis
    by (rule handleCreate_outcome [OF assms(1,2) Inr assms(3)]) (auto intro: inserts_moves)
qed

lemma handleDelete_moves:
  assumes "pg_inv E w" "ProvideRegistrationSagaSubscriber E B topic cfg = Inr S" "handleDelete S subject raw w = (r, w')"
  shows "pg_inv E w' \<and> user_moves (users_view w) (users_view w')"
proof (cases "unmarshal_delete_command raw")
  case (Inl e)
  with assms show ?thesis by (auto simp: handleDelete_def)
next
  case (Inr cmd)
  show ?thesis
    by (rule handleDelete_outcome [OF assms(1,2) Inr assms(3)]) (auto intro: removes_moves)
qed

lemma recovery_moves:
  assumes "pg_inv E w" and R: "ProvideUserRecoverySubscriber E B topic cfg decode encode = Inr R"
    and "recovery_handle R subject raw w = (r, w')"
  shows "pg_inv E w' \<and> user_moves (users_view w) (users_view w')"
proof (cases "decode raw")
  case (Inl err)
  with assms provided_recovery [OF R] show ?thesis by (auto simp: recovery_handle_def)
next
  case (Inr command)
  note p = provided_recovery [OF R]
  obtain x w1 where op: "recovery_operation R command w = (x, w1)" by fastforce
  note eff = recovery_operation_effect [OF assms(1,2) op]
  have "w' = w1 \<or> w' = w \<or> (\<exists>t b. KafkaBroker.Publish E t b w1 = (r, w'))"
    using assms(3) Inr p op by (auto simp: recovery_handle_def split: sum.splits if_splits)
  with eff assms(1) show ?thesis by (auto dest!: Publish_outcome)
qed

lemma relay_moves:
  assumes "pg_inv E w" "relay_handler (kafka_backed E B) out subject raw w = (r, w')"
  shows "pg_inv E w' \<and> users_view w' = users_view w"
  using assms Publish_outcome [of E out raw w r w']
  by (auto simp: relay_handler_def kafka_backed_def split: if_splits)

lemma projection_moves:
  assumes "pg_inv E w" "projection_handler (redis_repo E) subject raw w = (r, w')"
  shows "pg_inv E w' \<and> users_view w' = users_view w"
proof -
  have "w' = w \<or> (\<exists>u. rr_UpsertByUsername (redis_repo E) (Some u) w = (r, w'))"
    using assms(2) by (auto simp: projection_handler_def Let_def split: sum.splits if_splits)
  with assms(1) show ?thesis
    using redis.dupsert_frame [OF redis_inv_pg [OF assms(1)]] redis_kept_views [of w' w E] by auto
qed

lemma topic_handler_moves:
  assumes "start_service P cfg = Inr app" "pg_inv (su_world P) w" "topic_handler P cfg app t subject raw w = (r, w')"
  shows "pg_inv (su_world P) w' \<and> user_moves (users_view w) (users_view w')"
proof -
  note w = started_wiring [OF assms(1)]
  show ?thesis
  proof (cases t)
    case CreateCommands
    with assms w handleCreate_moves show ?thesis by (metis topic_handler.simps(1))
  next
    case DeleteCommands
    with assms w handleDelete_moves show ?thesis by (metis topic_handler.simps(2))
  next
    case RecoveryCommands
    with assms w recovery_moves show ?thesis by (metis topic_handler.simps(3))
  next
    case DetailedRequests
    with assms relay_moves show ?thesis by fastforce
  next
    case DetailedProjections
    with assms projection_moves show ?thesis by fastforce
  qed
qed


lemma handle_message_world:
  assumes "handle_message (N\<lparr>ce_db := Some (on_claims D)\<rparr>) cfg (on_world h) msg offset c = (x, c')"
  shows "fst (cs_state c') = fst (cs_state c) \<or>
    (\<exists>subject p. fst (cs_state c') = snd (h subject p (fst (cs_state c))))"
proof -
  have cl: "fst (snd (claim_message (N\<lparr>ce_db := Some (on_claims D)\<rparr>) ev s)) = fst s" for ev s
    by (simp add: claim_message_def on_claims_def case_prod_unfold)
  have rl: "fst (release_event (N\<lparr>ce_db := Some (on_claims D)\<rparr>) ev s) = fst s" for ev s
    by (simp add: release_event_def on_claims_def case_prod_unfold)
  define ev where "ev = ce_event N (pc_Subject cfg) (km_Value msg)"
  obtain r s1 where c: "claim_message (N\<lparr>ce_db := Some (on_claims D)\<rparr>) ev (cs_state c) = (r, s1)" by (meson surj_pair)
  with cl [of ev "cs_state c"] have s1: "fst s1 = fst (cs_state c)" by simp
  define p where "p = (if HasPrefix (pc_Subject cfg) recovery_prefix then km_Value msg
    else projr (ce_unwrap N (km_Value msg)))"
  obtain y w2 where h: "h (pc_Subject cfg) p (fst s1) = (y, w2)" by fastforce
  have "cs_state c' \<in> {s1, (w2, snd s1), release_event (N\<lparr>ce_db := Some (on_claims D)\<rparr>) ev (w2, snd s1)}"
    using assms c h
    by (auto simp: handle_message_def handler_failed_def deadLetterMessage_def commit_message_def request_def
        note_trace_def Let_def ev_def on_world_def p_def split: sum.splits bool.splits prod.splits fault.splits if_splits)
  with s1 h rl show ?thesis by (metis fst_conv insert_iff singletonD snd_conv)
qed

lemma consume_step_cases:
  assumes "consume_step N cfg handler c = (x, c')"
  obtains (stop) "cs_state c' = cs_state c" "cs_trace c' = cs_trace c"
    | (message) e where "cs_state e = cs_state c" "cs_trace e = cs_trace c"
        "handle_message N cfg handler (cs_log c ! cs_pos c) (cs_pos c) e = (x, c')"
proof -
  let ?e = "c\<lparr>cs_iter := Suc (cs_iter c), cs_pos := Suc (cs_pos c)\<rparr>"
  have "(cs_state c' = cs_state c \<and> cs_trace c' = cs_trace c) \<or>
      handle_message N cfg handler (cs_log c ! cs_pos c) (cs_pos c) ?e = (x, c')"
    using assms by (auto simp: consume_step_def Let_def split: option.splits if_splits)
  then show thesis using stop message [of ?e] by auto
qed

lemma consume_step_world:
  assumes "consume_step (N\<lparr>ce_db := Some (on_claims D)\<rparr>) cfg (on_world h) c = (x, c')"
  shows "fst (cs_state c') = fst (cs_state c) \<or>
    (\<exists>subject p. fst (cs_state c') = snd (h subject p (fst (cs_state c))))"
  using assms
proof (rule consume_step_cases, goal_cases)
  case (2 e)
  from handle_message_world [OF 2(3)] 2(1) show ?case by simp
qed simp

lemma system_step_world:
  assumes "deployed d" "system_step d s s'" "pg_inv (su_world (dp_startup d)) (sy_world s)"
  shows "pg_inv (su_world (dp_startup d)) (sy_world s') \<and>
    user_moves (users_view (sy_world s)) (users_view (sy_world s'))"
  using assms(2)
proof cases
  case (asked q)
  let ?E = "su_world (dp_startup d)"
  have app: "rn_server (dp_app d) = UserService (wired_service ?E (k_DetailedUserRequestedTopic (cfg_Kafka (dp_cfg d))))"
    using started_wiring assms(1) unfolding deployed_def by blast
  obtain c where "answer (rn_server (dp_app d)) q (sy_world s) =
      serve (wired_service ?E (k_DetailedUserRequestedTopic (cfg_Kafka (dp_cfg d)))) c (sy_world s)"
    using answer_serve [of "wired_service ?E (k_DetailedUserRequestedTopic (cfg_Kafka (dp_cfg d)))" q "sy_world s"] app
    by auto
  with asked wired.serve_effect [OF assms(3) redis_inv_pg [OF assms(3)]] show ?thesis by simp
next
  case (consumed t x c)
  have "sy_world s' = sy_world s \<or> (\<exists>subject p. sy_world s' =
      snd (topic_handler (dp_startup d) (dp_cfg d) (dp_app d) t subject p (sy_world s)))"
    using consume_step_world [where N = "dp_consumer d t" and D = "dp_claims d" and
          h = "topic_handler (dp_startup d) (dp_cfg d) (dp_app d) t"]
      consumed by (fastforce simp: turn_def topic_env_def handle_on_def after_turn_def)
  with topic_handler_moves [OF assms(1) [unfolded deployed_def] assms(3) surjective_pairing] assms(3)
  show ?thesis by auto
qed (use assms(3) in \<open>simp_all add: restart_def send_def\<close>)

lemma reachable_world:
  assumes "deployed d" "(system_step d)\<^sup>*\<^sup>* s s'" "pg_inv (su_world (dp_startup d)) (sy_world s)"
  shows "pg_inv (su_world (dp_startup d)) (sy_world s') \<and>
    user_step\<^sup>*\<^sup>* (users_view (sy_world s)) (users_view (sy_world s'))"
  using assms(2)
proof (induction rule: rtranclp_induct)
  case (step y z)
  with system_step_world [OF assms(1) step(2)] show ?case
    by (auto simp: user_moves_def intro: rtranclp.rtrancl_into_rtrancl)
qed (use assms(3) in simp)

section \<open>The topics\<close>

definition topic_ok :: "'c system \<Rightarrow> topic \<Rightarrow> bool" where
  "topic_ok s t \<longleftrightarrow> commits_settled (sy_consumers s t) \<and>
     (sy_running s t \<longrightarrow> (\<forall>k<cs_pos (sy_consumers s t). settled (cs_trace (sy_consumers s t)) k))"

lemma system_step_topic:
  assumes "system_step d s s'" "topic_ok s t"
  shows "topic_ok s' t"
  using assms(1)
proof cases
  case (consumed u x c)
  show ?thesis
  proof (cases "u = t")
    case True
    let ?c = "(sy_consumers s t)\<lparr>cs_state := (sy_world s, sy_claims s)\<rparr>"
    have "commits_settled ?c" "\<forall>k<cs_pos ?c. settled (cs_trace ?c) k"
      using assms(2) consumed True by (simp_all add: topic_ok_def commits_settled_def)
    with consume_step_settles [of _ _ _ ?c x c, OF consumed(3) [unfolded turn_def True]] consumed(1) True
    show ?thesis by (simp add: topic_ok_def after_turn_def)
  qed (use consumed assms(2) in \<open>simp add: topic_ok_def after_turn_def\<close>)
qed (use assms(2) in \<open>auto simp: topic_ok_def restart_def send_def commits_settled_def\<close>)

lemma reachable_topic:
  assumes "(system_step d)\<^sup>*\<^sup>* s s'" "topic_ok s t"
  shows "topic_ok s' t"
  using assms by (induction rule: rtranclp_induct) (auto dest: system_step_topic)

section \<open>The events\<close>

definition total_successes :: "string \<Rightarrow> 'c system \<Rightarrow> nat" where
  "total_successes ev s = sum_list (map (\<lambda>t. successes ev (cs_trace (sy_consumers s t))) all_topics)"

definition system_once :: "('c \<Rightarrow> string set) \<Rightarrow> string \<Rightarrow> 'c system \<Rightarrow> bool" where
  "system_once claimed ev s \<longleftrightarrow> total_successes ev s = 0 \<or> (total_successes ev s = 1 \<and> ev \<in> claimed (sy_claims s))"

lemma on_claims_contract: "claim_contract D claimed \<Longrightarrow> claim_contract (on_claims D) (\<lambda>s. claimed (snd s))"
proof -
  assume c: "claim_contract D claimed"
  have "case cl_ClaimDB (on_claims D) ev s of
      (Inr True, s') \<Rightarrow> ev \<notin> claimed (snd s) \<and> claimed (snd s') = insert ev (claimed (snd s))
    | (Inr False, s') \<Rightarrow> ev \<in> claimed (snd s) \<and> claimed (snd s') = claimed (snd s)
    | (Inl _, s') \<Rightarrow> claimed (snd s) \<subseteq> claimed (snd s')" for ev s
  proof -
    obtain r s1 where cl: "cl_ClaimDB D ev (snd s) = (r, s1)" by (meson surj_pair)
    show ?thesis by (rule claim_contract_cases [OF c cl]) (simp_all add: on_claims_def cl)
  qed
  moreover have "claimed (snd s) - {ev} \<subseteq> claimed (snd (snd (cl_Release (on_claims D) ev s)))" for ev s
    using c by (simp add: claim_contract_def on_claims_def case_prod_unfold)
  ultimately show ?thesis unfolding claim_contract_def by (intro conjI allI)
qed

lemma on_world_keeps_claims: "keeps_claims (on_world h) (\<lambda>s. claimed (snd s))"
  by (simp add: keeps_claims_def on_world_def case_prod_unfold)

lemma consume_step_claims:
  assumes "ce_db N = Some D" "claim_contract D claimed" "keeps_claims handler claimed"
    and "consume_step N cfg handler c = (x, c')"
  shows "claimed (cs_state c) \<subseteq> claimed (cs_state c') \<and>
    (\<forall>v. successes v (cs_trace c') = successes v (cs_trace c) \<or>
       (successes v (cs_trace c') = Suc (successes v (cs_trace c)) \<and> v \<notin> claimed (cs_state c) \<and>
        v \<in> claimed (cs_state c')))"
  using assms(4)
proof (rule consume_step_cases, goal_cases)
  case 1
  then show ?case by simp
next
  case (2 e)
  from handle_message_claims [OF assms(1-3) 2(3)] 2(1,2) show ?case by simp
qed

lemma total_update:
  assumes "\<And>u. u \<noteq> t \<Longrightarrow> cs_trace (sy_consumers s' u) = cs_trace (sy_consumers s u)"
  shows "total_successes ev s' + successes ev (cs_trace (sy_consumers s t)) =
    total_successes ev s + successes ev (cs_trace (sy_consumers s' t))"
  by (cases t) (use assms in \<open>simp_all add: total_successes_def all_topics_def\<close>)

lemma system_step_once:
  assumes "claim_contract (dp_claims d) claimed" "system_step d s s'" "system_once claimed ev s"
  shows "system_once claimed ev s'"
  using assms(2)
proof cases
  case (consumed t x c)
  have db: "ce_db (topic_env d t) = Some (on_claims (dp_claims d))" by (simp add: topic_env_def)
  have k: "keeps_claims (handle_on d t) (\<lambda>s. claimed (snd s))"
    unfolding handle_on_def by (rule on_world_keeps_claims)
  note cl = consume_step_claims [OF db on_claims_contract [OF assms(1)] k consumed(3) [unfolded turn_def]]
  have "total_successes ev s' + successes ev (cs_trace (sy_consumers s t)) =
      total_successes ev s + successes ev (cs_trace c)"
    using total_update [of t s' s ev] consumed by (simp add: after_turn_def)
  with cl assms(3) show ?thesis
    unfolding system_once_def using consumed(1)
    by (elim conjE allE [of _ ev]) (auto simp: after_turn_def)
qed (use assms(3) in \<open>simp_all add: system_once_def total_successes_def all_topics_def restart_def send_def\<close>)

lemma reachable_once:
  assumes "claim_contract (dp_claims d) claimed" "(system_step d)\<^sup>*\<^sup>* s s'" "system_once claimed ev s"
  shows "system_once claimed ev s'"
  using assms(2,3) by (induction rule: rtranclp_induct) (auto dest: system_step_once [OF assms(1)])

lemma initial_ok:
  "topic_ok (initial_system cl) t" "system_once claimed ev (initial_system cl)"
  "sy_world (initial_system cl) = empty_world"
  by (simp_all add: initial_system_def topic_ok_def commits_settled_def fresh_consumer_def system_once_def
      total_successes_def all_topics_def)


section \<open>Properties\<close>

theorem running_service_refines_life_cycle:
  assumes "deployed d" and "env_ok utf8_valid (su_world (dp_startup d))"
    and "(system_step d)\<^sup>*\<^sup>* (initial_system claims) s"
  shows "user_step\<^sup>*\<^sup>* Map.empty (users_view (sy_world s)) \<and> store_ok (users_view (sy_world s)) \<and>
    table_ok (su_world (dp_startup d)) (sy_world s) \<and> replay (w_outbox (sy_world s)) = rows_view (sy_world s)"
proof -
  have "store_ok Map.empty" by (simp add: store_ok_def)
  with reachable_world [OF assms(1,3)] empty_world_ok [OF assms(2)] show ?thesis
    by (auto simp: initial_ok pg_inv_def outbox_ok_def dest: user_steps_ok)
qed

theorem running_service_handles_an_event_once:
  assumes "claim_contract (dp_claims d) claimed" and "(system_step d)\<^sup>*\<^sup>* (initial_system claims) s"
  shows "total_successes event s \<le> 1 \<and>
    list_all (\<lambda>t. list_all (settled (cs_trace (sy_consumers s t))) [0..<cs_committed (sy_consumers s t)]) all_topics"
proof
  from reachable_once [OF assms initial_ok(2), of event] show "total_successes event s \<le> 1"
    by (auto simp: system_once_def)
  show "list_all (\<lambda>t. list_all (settled (cs_trace (sy_consumers s t))) [0..<cs_committed (sy_consumers s t)]) all_topics"
    using reachable_topic [OF assms(2) initial_ok(1)] by (simp add: list_all_iff topic_ok_def commits_settled_def)
qed

text \<open>A create command that is delivered twice.\<close>

definition sample_deployment :: "(string list) deployment" where
  "sample_deployment = (let cfg = default_Config (default_DB ''db'' 5432 ''u'' ''p'' ''users'') (default_Redis ''r'' 6379) in
    \<lparr>dp_startup = sample_startup, dp_cfg = cfg, dp_app = projr (start_service sample_startup cfg),
     dp_claims = memory_claims, dp_consumer = (\<lambda>_. \<lparr>ce_broker = projr (newBroker default_Kafka), ce_db = None,
       ce_event = (\<lambda>_ v. v), ce_unwrap = Inr, ce_max_attempts = 5, ce_fetch_err = (\<lambda>_. None),
       ce_end_err = Foreign ''context canceled'', ce_queue_fault = (\<lambda>_. NoFault), ce_dlq_fault = (\<lambda>_. NoFault),
       ce_commit_fault = (\<lambda>_. NoFault)\<rparr>)\<rparr>)"

lemma sample_deployed: "deployed sample_deployment"
  using default_configuration_starts [of "default_DB ''db'' 5432 ''u'' ''p'' ''users''" "default_Redis ''r'' 6379"]
  by (simp add: deployed_def sample_deployment_def Let_def)

fun take_turns :: "'c deployment \<Rightarrow> topic list \<Rightarrow> 'c system \<Rightarrow> 'c system" where
  "take_turns d [] s = s"
| "take_turns d (t # ts) s =
    (if sy_running s t then (case turn d t s of (x, c) \<Rightarrow> take_turns d ts (after_turn t x c s))
     else take_turns d ts (restart t s))"

lemma take_turns_steps: "(system_step d)\<^sup>*\<^sup>* s (take_turns d ts s)"
proof (induction ts arbitrary: s)
  case (Cons t ts)
  obtain x c where t: "turn d t s = (x, c)" by (meson surj_pair)
  have "system_step d s (if sy_running s t then after_turn t x c s else restart t s)"
    using t by (auto intro: system_step.consumed system_step.restarted)
  moreover have "(system_step d)\<^sup>*\<^sup>* (if sy_running s t then after_turn t x c s else restart t s) (take_turns d (t # ts) s)"
    using t Cons.IH by simp
  ultimately show ?case by (rule converse_rtranclp_into_rtranclp)
qed simp

definition sample_inbox :: "(string list) system" where
  "sample_inbox = (let m = \<lparr>km_Key = [], km_Value = sample_create_raw, km_Headers = []\<rparr> in
     send CreateCommands m (send CreateCommands m (initial_system [])))"

lemma sample_delivered:
  "(system_step sample_deployment)\<^sup>*\<^sup>* (initial_system []) (take_turns sample_deployment ts sample_inbox)"
proof -
  have "(system_step sample_deployment)\<^sup>*\<^sup>* (initial_system []) sample_inbox"
    unfolding sample_inbox_def Let_def
    by (rule rtranclp.rtrancl_into_rtrancl [OF r_into_rtranclp]; rule system_step.sent)
  with take_turns_steps show ?thesis by (rule rtranclp_trans [rotated])
qed

theorem running_service_refines_life_cycle_witness:
  "let w = sy_world (take_turns sample_deployment [CreateCommands, CreateCommands] sample_inbox) in
    user_step\<^sup>*\<^sup>* Map.empty (users_view w) \<and> store_ok (users_view w) \<and> table_ok sample_env w \<and>
    replay (w_outbox w) = rows_view w"
  using running_service_refines_life_cycle [OF sample_deployed _ sample_delivered, of "[CreateCommands, CreateCommands]"]
    sample_env_ok
  by (simp add: sample_deployment_def sample_startup_def Let_def)

theorem running_service_handles_an_event_once_witness:
  "total_successes sample_create_raw
     (take_turns sample_deployment [CreateCommands, CreateCommands, CreateCommands] sample_inbox) \<le> 1"
  by (rule running_service_handles_an_event_once [where claimed = set, OF _ sample_delivered, THEN conjunct1])
    (simp add: sample_deployment_def Let_def memory_claims_contract)

end
