(* ===== verification/Rejections.thy ===== *)
theory Rejections
  imports Startup
begin

text \<open>
  How a creation the database rejects is reported. The driver (pgx v5 behind database/sql) returns
  errors of a type the translator does not look for, so the translator's second part, the search
  in the text of the error, decides; and the text of a malformed identifier contains the identifier.
\<close>

section \<open>The texts of the database\<close>

definition quoted :: "string \<Rightarrow> string" where
  "quoted s = CHR 0x22 # s @ [CHR 0x22]"

definition unique_text :: "string \<Rightarrow> string" where
  "unique_text c = ''ERROR: duplicate key value violates unique constraint '' @ quoted c @ '' (SQLSTATE 23505)''"

definition uuid_text :: "string \<Rightarrow> string" where
  "uuid_text i = ''ERROR: invalid input syntax for type uuid: '' @ quoted i @ '' (SQLSTATE 22P02)''"

text \<open>The bytes that are no text, as the server writes them: 0xe5 0x20.\<close>

definition text_text :: "string \<Rightarrow> string" where
  "text_text b = ''ERROR: invalid byte sequence for encoding '' @ quoted ''UTF8'' @ '': '' @ b @ '' (SQLSTATE 22021)''"

definition hex_bytes :: "string \<Rightarrow> bool" where
  "hex_bytes b \<longleftrightarrow> set b \<subseteq> set ''0123456789abcdefx ''"

text \<open>
  A violation of several constraints is reported for one of them, and an identifier that is no text is
  rejected as that before it is read as a UUID. The errors are opaque but for their text.
\<close>

definition pgx_errors :: "env \<Rightarrow> bool" where
  "pgx_errors E \<longleftrightarrow>
     (\<forall>cs. cs \<noteq> [] \<longrightarrow> (\<exists>c\<in>set cs. e_reject E (UniqueViolation cs) = Foreign (unique_text c))) \<and>
     (\<forall>i. e_text_ok E i \<longrightarrow> e_reject E (InvalidUUID i) = Foreign (uuid_text i)) \<and>
     (\<forall>i. \<not> e_text_ok E i \<longrightarrow> (\<exists>b. hex_bytes b \<and> e_reject E (InvalidUUID i) = Foreign (text_text b))) \<and>
     (\<exists>b. hex_bytes b \<and> e_reject E InvalidText = Foreign (text_text b))"

section \<open>Searching in them\<close>

lemma Contains_split:
  assumes "p \<noteq> []" "q \<notin> set p"
  shows "Contains (a @ q # b) p \<longleftrightarrow> Contains a p \<or> Contains b p"
proof -
  have "sublist p (q # b) \<longleftrightarrow> sublist p b"
    using assms by (cases p) (auto simp: sublist_Cons_right)
  moreover have "suffix x a \<and> prefix y (q # b) \<and> p = x @ y \<Longrightarrow> y = [] \<and> sublist p a" for x y
    using assms by (cases y) (auto intro: suffix_imp_sublist)
  ultimately show ?thesis
    unfolding Contains_sublist sublist_append by blast
qed

lemma unique_text_contains:
  "Contains (unique_text c) ''SQLSTATE 23505''"
  "Contains (unique_text UsersPrimaryKeyConstraint) UsersPrimaryKeyConstraint"
  "\<not> Contains (unique_text UsersUsernameConstraint) UsersPrimaryKeyConstraint"
  "Contains (unique_text UsersUsernameConstraint) UsersUsernameConstraint"
  by (simp_all add: unique_text_def quoted_def Contains_split UsersPrimaryKeyConstraint_def UsersUsernameConstraint_def)

lemma Contains_quoted:
  "p \<noteq> [] \<Longrightarrow> CHR 0x22 \<notin> set p \<Longrightarrow>
   Contains (a @ quoted i @ b) p \<longleftrightarrow> Contains a p \<or> Contains i p \<or> Contains b p"
  by (simp add: quoted_def Contains_split)

lemma uuid_text_contains:
  assumes "CHR 0x22 \<notin> set p" "p \<noteq> []" "\<not> Contains ''ERROR: invalid input syntax for type uuid: '' p"
  shows "Contains (uuid_text i) p \<longleftrightarrow> Contains i p \<or> Contains '' (SQLSTATE 22P02)'' p"
  unfolding uuid_text_def Contains_quoted [OF assms(2,1)] using assms(3) by blast

lemma text_of_rejection [simp]: "errors_as_pg (Foreign t) = None" "error_text (Foreign t) = t"
  by simp_all

text \<open>What the saga is told about an identifier that is no UUID.\<close>

definition uuid_reason :: "string \<Rightarrow> string" where
  "uuid_reason i =
    (if Contains i ''SQLSTATE 23505'' then
       (if Contains i ''users_pkey'' then ''user_id already taken''
        else if Contains i ''users_username_key'' then ''username already taken''
        else ''failed to create user'')
     else ''invalid user_id'')"

lemma reasons [simp]:
  "CreateUserFailureReason (WrapDomainError ErrUserIDAlreadyTaken e) = ''user_id already taken''"
  "CreateUserFailureReason (WrapDomainError ErrUsernameAlreadyTaken e) = ''username already taken''"
  "CreateUserFailureReason (WrapDomainError ErrInvalidUserID e) = ''invalid user_id''"
  "CreateUserFailureReason (WrapCreateUserError (Foreign t)) = ''failed to create user''"
  by (simp_all add: CreateUserFailureReason_def WrapDomainError_def WrapCreateUserError_def err_simps
      ErrUserIDAlreadyTaken_def ErrUsernameAlreadyTaken_def ErrInvalidUserID_def ErrFailedToCreateUser_def)

lemma uuid_rejection:
  "CreateUserFailureReason (TranslateCreateUserError (Foreign (uuid_text i))) = uuid_reason i"
  by (simp add: TranslateCreateUserError_def translate_create_typed_def translate_create_text_def Let_def
      uuid_text_contains uuid_reason_def pg_UniqueViolation_def pg_InvalidTextRepresentation_def
      UsersPrimaryKeyConstraint_def UsersUsernameConstraint_def)

lemma unique_rejection:
  "c \<in> {UsersPrimaryKeyConstraint, UsersUsernameConstraint} \<Longrightarrow>
   CreateUserFailureReason (TranslateCreateUserError (Foreign (unique_text c))) =
     (if c = UsersPrimaryKeyConstraint then ''user_id already taken'' else ''username already taken'')"
  using unique_text_contains
  by (auto simp: TranslateCreateUserError_def translate_create_typed_def translate_create_text_def Let_def
      pg_UniqueViolation_def)

lemma text_text_contains:
  assumes "p \<noteq> []" "CHR 0x22 \<notin> set p" "CHR '':'' \<notin> set p" "CHR ''('' \<notin> set p"
  shows "Contains (text_text b) p \<longleftrightarrow> Contains ''ERROR: invalid byte sequence for encoding '' p \<or> Contains ''UTF8'' p \<or>
    Contains ('' '' @ b @ '' '') p \<or> Contains ''SQLSTATE 22021)'' p"
proof -
  have 1: "'': '' @ b @ '' (SQLSTATE 22021)'' = [] @ CHR '':'' # (('' '' @ b @ '' '') @ CHR ''('' # ''SQLSTATE 22021)'')"
    by simp
  have 2: "\<not> Contains [] p" using assms(1) by simp
  show ?thesis
    unfolding text_text_def Contains_quoted [OF assms(1,2)] 1 Contains_split [OF assms(1,3)] Contains_split [OF assms(1,4)]
    using 2 by blast
qed

lemma text_rejection:
  assumes "hex_bytes b"
  shows "CreateUserFailureReason (TranslateCreateUserError (Foreign (text_text b))) = ''failed to create user''"
proof -
  have "CHR ''S'' \<notin> set ('' '' @ b @ '' '')" using assms by (auto simp: hex_bytes_def)
  then have hex: "\<not> Contains ('' '' @ b @ '' '') (CHR ''S'' # p)" for p
    unfolding Contains_sublist by (metis list.set_intros(1) set_mono_sublist subsetD)
  have "\<not> Contains (text_text b) ''SQLSTATE 23505''" "\<not> Contains (text_text b) ''SQLSTATE 22P02''"
    using hex by (simp_all add: text_text_contains)
  then show ?thesis
    by (simp add: TranslateCreateUserError_def translate_create_typed_def translate_create_text_def Let_def
        pg_UniqueViolation_def pg_InvalidTextRepresentation_def)
qed

section \<open>The creation\<close>

definition name_taken :: "user_store \<Rightarrow> string \<Rightarrow> bool" where
  "name_taken us n \<longleftrightarrow> (\<exists>k u. us k = Some u \<and> u_Username u = n)"

lemma name_taken_view:
  assumes "pg_inv E w"
  shows "name_taken (users_view w) n \<longleftrightarrow> (\<exists>r\<in>set (w_users w). row_Username r = n)"
proof
  assume "name_taken (users_view w) n"
  then show "\<exists>r\<in>set (w_users w). row_Username r = n"
    by (auto simp: name_taken_def elim!: users_view_Some)
next
  assume "\<exists>r\<in>set (w_users w). row_Username r = n"
  then obtain r where r: "r \<in> set (w_users w)" "row_Username r = n" by blast
  with users_view_in [of E w r] assms show "name_taken (users_view w) n"
    unfolding name_taken_def pg_inv_def by (metis mapper_fields(2))
qed

definition violation_reasons :: "user_store \<Rightarrow> string \<Rightarrow> string \<Rightarrow> string set" where
  "violation_reasons us k n = (if us k \<noteq> None then {''user_id already taken''} else {}) \<union>
     (if name_taken us n then {''username already taken''} else {})"

lemma set_violated:
  assumes "pg_inv E w"
  shows "set (violated_constraints k n (w_users w)) =
    (if users_view w k \<noteq> None then {UsersPrimaryKeyConstraint} else {}) \<union>
    (if name_taken (users_view w) n then {UsersUsernameConstraint} else {})"
  unfolding name_taken_view [OF assms]
  by (auto simp: violated_constraints_def list_ex_iff users_view_None)

text \<open>The creation failed for one of the reasons, and nothing is stored by it.\<close>

definition refused :: "world \<Rightarrow> string set \<Rightarrow> (goerr + user) \<times> world \<Rightarrow> bool" where
  "refused w reasons = (\<lambda>(r, w'). users_view w' = users_view w \<and>
     (\<exists>err. r = Inl err \<and> CreateUserFailureReason err \<in> reasons))"

lemma insert_rejected:
  assumes "e_pg_fault E (w_calls w) = NoFault" and "i \<noteq> []"
    and "createUserQuery E \<lparr>p_ID = i, p_Username = n, p_FirstName = f, p_LastName = l, p_AvatarID = []\<rparr>
      (w\<lparr>w_calls := Suc (w_calls w)\<rparr>) = (Inl err, w\<lparr>w_calls := Suc (w_calls w)\<rparr>)"
    and "CreateUserFailureReason (TranslateCreateUserError err) \<in> reasons"
  shows "refused w reasons (CreateUser (wired_service E topic) i n f l w)"
  using assms by (simp add: CreateUser_def WriteRepo.Create_def NewPgErrorTranslator_def refused_def ext_call_def)

text \<open>The cases of a creation: an identifier that is not read, a name that is not text, a taken key, and none of these.\<close>

lemma unread_identifier:
  assumes "pgx_errors E" and "e_pg_fault E (w_calls w) = NoFault" and "i \<noteq> []" and "e_uuid E i = None"
  shows "refused w {if e_text_ok E i then uuid_reason i else ''failed to create user''} (CreateUser (wired_service E topic) i n f l w)"
proof (rule insert_rejected [OF assms(2,3)])
  show "createUserQuery E \<lparr>p_ID = i, p_Username = n, p_FirstName = f, p_LastName = l, p_AvatarID = []\<rparr> (w\<lparr>w_calls := Suc (w_calls w)\<rparr>) =
      (Inl (e_reject E (InvalidUUID i)), w\<lparr>w_calls := Suc (w_calls w)\<rparr>)"
    using assms(4) by (simp add: createUserQuery_def)
  show "CreateUserFailureReason (TranslateCreateUserError (e_reject E (InvalidUUID i))) \<in>
      {if e_text_ok E i then uuid_reason i else ''failed to create user''}"
  proof (cases "e_text_ok E i")
    case True
    then have "e_reject E (InvalidUUID i) = Foreign (uuid_text i)" using assms(1) by (simp add: pgx_errors_def)
    with True uuid_rejection show ?thesis by simp
  next
    case False
    then obtain b where "hex_bytes b" "e_reject E (InvalidUUID i) = Foreign (text_text b)"
      using assms(1) unfolding pgx_errors_def by blast
    with False text_rejection show ?thesis by simp
  qed
qed

lemma unread_names:
  assumes "pgx_errors E" and "e_pg_fault E (w_calls w) = NoFault" and "i \<noteq> []" and "e_uuid E i = Some k"
    and "\<not> list_all (e_text_ok E) [n, f, l]"
  shows "refused w {''failed to create user''} (CreateUser (wired_service E topic) i n f l w)"
proof (rule insert_rejected [OF assms(2,3)])
  show "createUserQuery E \<lparr>p_ID = i, p_Username = n, p_FirstName = f, p_LastName = l, p_AvatarID = []\<rparr> (w\<lparr>w_calls := Suc (w_calls w)\<rparr>) =
      (Inl (e_reject E InvalidText), w\<lparr>w_calls := Suc (w_calls w)\<rparr>)"
    using assms(4,5) by (auto simp: createUserQuery_def)
  obtain b where "hex_bytes b" "e_reject E InvalidText = Foreign (text_text b)"
    using assms(1) unfolding pgx_errors_def by blast
  with text_rejection
  show "CreateUserFailureReason (TranslateCreateUserError (e_reject E InvalidText)) \<in> {''failed to create user''}" by simp
qed

lemma taken_keys:
  assumes "pg_inv E w" and "pgx_errors E" and "e_pg_fault E (w_calls w) = NoFault" and "i \<noteq> []" and "e_uuid E i = Some k"
    and "list_all (e_text_ok E) [n, f, l]" and "violated_constraints k n (w_users w) \<noteq> []"
  shows "refused w (violation_reasons (users_view w) k n) (CreateUser (wired_service E topic) i n f l w)"
proof -
  let ?cs = "violated_constraints k n (w_users w)"
  note cs = set_violated [OF assms(1), of k n]
  have empty: "e_text_ok E []" using env_okD(3) [of utf8_valid E] assms(1) by (simp add: pg_inv_def)
  obtain c where c: "c \<in> set ?cs" "e_reject E (UniqueViolation ?cs) = Foreign (unique_text c)"
    using assms(2,7) unfolding pgx_errors_def by blast
  have q: "createUserQuery E \<lparr>p_ID = i, p_Username = n, p_FirstName = f, p_LastName = l, p_AvatarID = []\<rparr> (w\<lparr>w_calls := Suc (w_calls w)\<rparr>) =
      (Inl (Foreign (unique_text c)), w\<lparr>w_calls := Suc (w_calls w)\<rparr>)"
    using assms(5-7) empty c(2) by (simp add: createUserQuery_def)
  have "c \<in> {UsersPrimaryKeyConstraint, UsersUsernameConstraint}" using c(1) cs by (auto split: if_splits)
  then have "CreateUserFailureReason (TranslateCreateUserError (Foreign (unique_text c))) \<in> violation_reasons (users_view w) k n"
    using c(1) cs unique_rejection
    by (auto simp: violation_reasons_def UsersPrimaryKeyConstraint_def UsersUsernameConstraint_def split: if_splits)
  with q show ?thesis by (rule insert_rejected [OF assms(3,4)])
qed

lemma free_keys:
  assumes "pg_inv E w" and "e_pg_fault E (w_calls w) = NoFault" and "i \<noteq> []" and "e_uuid E i = Some k"
    and "list_all (e_text_ok E) [n, f, l]" and "violated_constraints k n (w_users w) = []"
    and "CreateUser (wired_service E topic) i n f l w = (r, w')"
  shows "\<exists>u. inserts \<lparr>p_ID = i, p_Username = n, p_FirstName = f, p_LastName = l, p_AvatarID = []\<rparr> (Some k) (users_view w) (users_view w') u"
proof -
  let ?p = "\<lparr>p_ID = i, p_Username = n, p_FirstName = f, p_LastName = l, p_AvatarID = []\<rparr>"
  have "e_text_ok E []" using env_okD(3) [of utf8_valid E] assms(1) by (simp add: pg_inv_def)
  then obtain row w1 where q: "createUserQuery E ?p (w\<lparr>w_calls := Suc (w_calls w)\<rparr>) = (Inr row, w1)"
    using assms(4-6) by (auto simp: createUserQuery_def Let_def)
  let ?w1 = "db_metric ''create'' ''success'' w1"
  have repo: "WriteRepo.Create E NewPgErrorTranslator ?p w = (Inr (MapUserRowToDomain row), ?w1)"
    using q assms(2) by (simp add: WriteRepo.Create_def ext_call_def)
  then have ins: "inserts ?p (e_uuid E i) (users_view w) (users_view ?w1) (MapUserRowToDomain row)" and inv1: "pg_inv E ?w1"
    using pg.create_ok [OF assms(1), of ?p] pg.create_frame [OF assms(1), of ?p] by simp_all
  obtain y w2 where u: "Upsert E (Some (MapUserRowToDomain row)) ?w1 = (y, w2)" by (meson surj_pair)
  then have "redis_kept w2 = redis_kept ?w1"
    using redis.upsert_frame [OF redis_inv_pg [OF inv1], of "Some (MapUserRowToDomain row)" y w2]
    unfolding redis_repo_methods by blast
  then have "users_view w2 = users_view ?w1" by (rule redis_kept_views [THEN conjunct1])
  moreover have "w' = w2" using assms(7) repo u assms(3) by (cases y) (simp_all add: CreateUser_def)
  ultimately show ?thesis using ins assms(4) by auto
qed

text \<open>
  C14. With a database that answers and errors that carry their meaning in their text, as those of
  the driver in use do, a creation is reported: with an empty identifier as invalid; with one that
  is no UUID as invalid, unless the identifier contains the text of another error; with an
  identifier or a name that the database does not take as text as a plain failure; with an
  identifier or a name that is taken with the reason of a violated constraint; and in none of
  these cases is anything stored. In every other case the user is stored.
\<close>

theorem rejected_creation_is_classified:
  fixes i n f l :: string
  assumes inv: "pg_inv E w" and pgx: "pgx_errors E" and up: "e_pg_fault E (w_calls w) = NoFault"
  defines "p \<equiv> \<lparr>p_ID = i, p_Username = n, p_FirstName = f, p_LastName = l, p_AvatarID = []\<rparr>"
  shows "case CreateUser (wired_service E topic) i n f l w of (r, w') \<Rightarrow>
    (if i = [] then refused w {''invalid user_id''} (r, w')
     else case e_uuid E i of
       None \<Rightarrow> refused w {if e_text_ok E i then uuid_reason i else ''failed to create user''} (r, w')
     | Some k \<Rightarrow>
         (if \<not> list_all (e_text_ok E) [n, f, l] then refused w {''failed to create user''} (r, w')
          else if violation_reasons (users_view w) k n \<noteq> {}
          then refused w (violation_reasons (users_view w) k n) (r, w')
          else \<exists>u. inserts p (Some k) (users_view w) (users_view w') u))"
proof -
  obtain r w' where c: "CreateUser (wired_service E topic) i n f l w = (r, w')" by (meson surj_pair)
  consider (blank) "i = []" | (unread) "i \<noteq> []" "e_uuid E i = None"
    | (names) k where "i \<noteq> []" "e_uuid E i = Some k" "\<not> list_all (e_text_ok E) [n, f, l]"
    | (read) k where "i \<noteq> []" "e_uuid E i = Some k" "list_all (e_text_ok E) [n, f, l]"
    by (cases "e_uuid E i") auto
  then show ?thesis
  proof cases
    case blank
    with c show ?thesis by (auto simp: CreateUser_def refused_def)
  next
    case unread
    from unread_identifier [OF pgx up unread, of topic n f l] c unread show ?thesis by simp
  next
    case names
    from unread_names [OF pgx up names, of topic] c names show ?thesis by (simp split del: if_split cong: if_cong)
  next
    case (read k)
    have clean: "violation_reasons (users_view w) k n = {} \<longleftrightarrow> violated_constraints k n (w_users w) = []"
      by (subst set_empty [symmetric]) (simp add: set_violated [OF inv] violation_reasons_def)
    show ?thesis
      using taken_keys [OF inv pgx up read, of topic] free_keys [OF inv up read _ c] c read clean
      by (cases "violated_constraints k n (w_users w) = []") (simp_all add: p_def)
  qed
qed

text \<open>An identifier that quotes the text of another error.\<close>

definition strict_uuid :: "string \<rightharpoonup> string" where
  "strict_uuid i = (if i = ''U1'' \<or> i = ''u1'' then Some ''u1'' else None)"

definition pgx_env :: env where
  "pgx_env = sample_env\<lparr>e_uuid := strict_uuid, e_reject := (\<lambda>r. case r of
     UniqueViolation cs \<Rightarrow> Foreign (unique_text (hd (cs @ [[]])))
   | InvalidUUID i \<Rightarrow> Foreign (if utf8_valid i then uuid_text i else text_text ''0xff'')
   | InvalidText \<Rightarrow> Foreign (text_text ''0x00''))\<rparr>"

theorem rejected_creation_is_classified_witness:
  "\<exists>err. fst (CreateUser (wired_service pgx_env ''t'') ''SQLSTATE 23505 users_pkey'' ''alex'' ''Alex'' ''Doe'' empty_world) = Inl err \<and>
     CreateUserFailureReason err = ''user_id already taken''"
proof -
  have "env_ok utf8_valid pgx_env"
    by (auto simp: env_ok_def pgx_env_def sample_env_def strict_uuid_def utf8_valid_ascii fault_error_def
        sql_ErrNoRows_def split: pg_rejection.splits)
  then have "pg_inv pgx_env empty_world" using empty_world_ok by blast
  have hex: "hex_bytes ''0xff''" "hex_bytes ''0x00''" by (simp_all add: hex_bytes_def)
  note \<open>pg_inv pgx_env empty_world\<close>
  moreover have "pgx_errors pgx_env"
    using hex by (auto simp: pgx_errors_def pgx_env_def sample_env_def intro!: bexI [of _ "hd cs" for cs])
  ultimately show ?thesis
    using rejected_creation_is_classified [of pgx_env empty_world "''SQLSTATE 23505 users_pkey''" "''alex''" "''Alex''" "''Doe''" "''t''"]
    by (simp add: pgx_env_def sample_env_def strict_uuid_def utf8_valid_ascii uuid_reason_def refused_def case_prod_unfold)
qed

end
