(* ===== verification/CachedViews.thy ===== *)
theory CachedViews
  imports Samples GrpcServer
begin

text \<open>
  What clients see of the cached views: a cached user is read back, a cached entry outlives a
  deletion by another spelling of the identifier, and the replies of the status handlers agree
  with the table.
\<close>

section \<open>Reading a cached entry\<close>

lemma GetByID_cached:
  assumes "preview w k = Some d" and "e_redis_fault E (w_calls w) = NoFault"
  shows "fst (ReadRepo.GetByID E k w) = Inr (Some d)"
  using assms
  by (auto simp: ReadRepo.GetByID_def preview_def ext_call_def redis_get_def Let_def split: option.splits sum.splits)

lemma GetByUsername_cached:
  assumes "detailed w n = Some d" and "e_redis_fault E (w_calls w) = NoFault"
  shows "fst (ReadRepo.GetByUsername E n w) = Inr (Some d)"
  using assms
  by (auto simp: ReadRepo.GetByUsername_def detailed_def ext_call_def redis_get_def Let_def split: option.splits sum.splits)

lemma refresh_url:
  "refresh_preview svc d w = (u, w') \<Longrightarrow> u\<lparr>u_AvatarURL := x\<rparr> = d\<lparr>u_AvatarURL := x\<rparr>"
  by (auto simp: refresh_preview_def Let_def split: if_splits prod.splits sum.splits)


text \<open>
  C33. A user written to both cached views is read back from each of them, through JSON and the
  mappers, as the fields that view carries.
\<close>

theorem cached_user_is_read_back:
  assumes "redis_inv E w" and "storable u"
    and "Upsert E (Some u) w = (Inr (), w1)" and "UpsertByUsername E (Some u) w1 = (Inr (), w2)"
    and "e_redis_fault E (w_calls w2) = NoFault"
  shows "fst (ReadRepo.GetByID E (u_ID u) w2) = Inr (Some (as_preview u)) \<and>
    fst (ReadRepo.GetByUsername E (u_Username u) w2) = Inr (Some (as_detailed u))"
proof -
  have u: "rr_Upsert (redis_repo E) (Some u) w = (Inr (), w1)"
    and d: "rr_UpsertByUsername (redis_repo E) (Some u) w1 = (Inr (), w2)" using assms(3,4) by simp_all
  have 1: "preview w1 = (preview w)(u_ID u \<mapsto> as_preview u)" by (rule redis.upsert_ok [OF assms(1) u assms(2)])
  have inv1: "redis_inv E w1" using redis.upsert_frame [OF assms(1) u] by simp
  have 2: "detailed w2 = (detailed w1)(u_Username u \<mapsto> as_detailed u)" "preview w2 = preview w1"
    using redis.dupsert_ok [OF inv1 d assms(2)] redis.dupsert_frame [OF inv1 d] by simp_all
  from 1 2 assms(5) show ?thesis by (auto intro!: GetByID_cached GetByUsername_cached)
qed


section \<open>Status replies\<close>

text \<open>
  A reply to an activation carries the stored, active user, which is also the one cached; a reply
  to a deactivation names the identifier as the client wrote it, and the stored user has the
  status the reply says. The stored users change by nothing else, whatever the answer.
\<close>

text \<open>
  C19. A reply to an activation carries the identifier and status of a stored, active user, which
  is also the cached preview; a reply to a deactivation says the status the stored user now has
  and leaves no preview under the identifier it names; any failure is the internal error; and
  neither moves the stored users by more than one step of the life cycle.
\<close>

theorem status_replies_agree_with_the_table:
  fixes topic :: string
  assumes "pg_inv E w"
  defines "svc \<equiv> UserService (wired_service E topic)"
  shows "(case srv_ActivateUser svc i w of (r, w') \<Rightarrow> user_moves (users_view w) (users_view w') \<and>
      (case r of
         Inl st \<Rightarrow> st = Internal ''internal server error''
       | Inr resp \<Rightarrow> \<exists>u. e_uuid E i = Some (st_UserId resp) \<and> users_view w' (st_UserId resp) = Some u \<and>
           u_Status u = st_Status resp \<and> st_Status resp = StatusActive \<and> u_IsActive u \<and>
           preview w' (st_UserId resp) = Some (as_preview u))) \<and>
    (case srv_DeactivateUser svc i w of (r, w') \<Rightarrow> user_moves (users_view w) (users_view w') \<and>
      (case r of
         Inl st \<Rightarrow> st = Internal ''internal server error''
       | Inr resp \<Rightarrow> st_UserId resp = i \<and> preview w' i = None \<and>
           (\<exists>k u. e_uuid E i = Some k \<and> users_view w' k = Some u \<and> u_Status u = st_Status resp \<and>
              st_Status resp = StatusRegistrationFailed \<and> \<not> u_IsActive u)))"
proof
  note r = redis_inv_pg [OF assms(1)]
  obtain a w1 where a: "ActivateUser (wired_service E topic) i w = (a, w1)" by (meson surj_pair)
  obtain b w2 where b: "DeactivateUser (wired_service E topic) i w = (b, w2)" by (meson surj_pair)
  note ea = wired.activate_effect [OF assms(1) r a] and eb = wired.deactivate_effect [OF assms(1) r b]
  have active: "activated_from v u \<Longrightarrow> u_Status u = StatusActive \<and> u_IsActive u" for v u
    unfolding activated_from_def by (frule arg_cong [where f = u_Status], drule arg_cong [where f = u_IsActive]) simp
  have inactive: "deactivated_from v u \<Longrightarrow> u_Status u = StatusRegistrationFailed \<and> \<not> u_IsActive u" for v u
    unfolding deactivated_from_def by (frule arg_cong [where f = u_Status], drule arg_cong [where f = u_IsActive]) simp
  have failed: "''registration_failed'' = StatusRegistrationFailed" by (simp add: StatusRegistrationFailed_def)
  have ma: "user_moves (users_view w) (users_view w1)"
    using ea by (cases a) (auto intro: activates_moves)
  have mb: "user_moves (users_view w) (users_view w2)"
    using eb by (cases b) (auto intro: deactivates_moves)
  show "case srv_ActivateUser svc i w of (r, w') \<Rightarrow> user_moves (users_view w) (users_view w') \<and>
      (case r of
         Inl st \<Rightarrow> st = Internal ''internal server error''
       | Inr resp \<Rightarrow> \<exists>u. e_uuid E i = Some (st_UserId resp) \<and> users_view w' (st_UserId resp) = Some u \<and>
           u_Status u = st_Status resp \<and> st_Status resp = StatusActive \<and> u_IsActive u \<and>
           preview w' (st_UserId resp) = Some (as_preview u))"
    using ea a ma by (cases a) (auto simp: srv_ActivateUser_def svc_def stores_def dest: active)
  show "case srv_DeactivateUser svc i w of (r, w') \<Rightarrow> user_moves (users_view w) (users_view w') \<and>
      (case r of
         Inl st \<Rightarrow> st = Internal ''internal server error''
       | Inr resp \<Rightarrow> st_UserId resp = i \<and> preview w' i = None \<and>
           (\<exists>k u. e_uuid E i = Some k \<and> users_view w' k = Some u \<and> u_Status u = st_Status resp \<and>
              st_Status resp = StatusRegistrationFailed \<and> \<not> u_IsActive u))"
    using eb b mb by (cases b) (auto simp: srv_DeactivateUser_def svc_def stores_def failed dest: inactive)
qed


section \<open>Witnesses\<close>

definition sample_user :: user where
  "sample_user = MapUserRowToDomain sample_row"

lemma sample_user_storable: "storable sample_user"
  by (simp add: storable_def sample_user_def sample_row_def MapUserRowToDomain_def zero_user_def utf8_valid_ascii)

theorem cached_user_is_read_back_witness:
  "let w = snd (UpsertByUsername sample_env (Some sample_user) (snd (Upsert sample_env (Some sample_user) empty_world))) in
    fst (ReadRepo.GetByID sample_env (u_ID sample_user) w) = Inr (Some (as_preview sample_user)) \<and>
    fst (ReadRepo.GetByUsername sample_env (u_Username sample_user) w) = Inr (Some (as_detailed sample_user))"
  unfolding Let_def
proof (rule cached_user_is_read_back [OF _ sample_user_storable])
  show "redis_inv sample_env empty_world" using empty_world_ok [OF sample_env_ok] by simp
  have ok: "fst (Upsert sample_env (Some sample_user) w) = Inr ()"
    "fst (UpsertByUsername sample_env (Some sample_user) w) = Inr ()" for w
    by (simp_all add: Upsert_def UpsertByUsername_def run_eval sample_user_def)
  then show "Upsert sample_env (Some sample_user) empty_world =
      (Inr (), snd (Upsert sample_env (Some sample_user) empty_world))"
    and "UpsertByUsername sample_env (Some sample_user) (snd (Upsert sample_env (Some sample_user) empty_world)) =
      (Inr (), snd (UpsertByUsername sample_env (Some sample_user) (snd (Upsert sample_env (Some sample_user) empty_world))))"
    by (metis prod.collapse)+
qed (simp add: sample_env_def)



theorem status_replies_agree_with_the_table_witness:
  "case srv_ActivateUser (UserService sample_service) ''U1'' sample_world of (r, w') \<Rightarrow>
     user_moves (users_view sample_world) (users_view w')"
  using status_replies_agree_with_the_table [OF sample_inv, of "''U1''" "''user.detailed.requested''", THEN conjunct1]
  by (simp add: case_prod_unfold)

section \<open>Preview replies\<close>

text \<open>The cache has an entry under the identifier and answers the request for it.\<close>

definition cache_answers :: "env \<Rightarrow> world \<Rightarrow> string \<Rightarrow> bool" where
  "cache_answers E w k \<longleftrightarrow> preview w k \<noteq> None \<and> e_redis_fault E (w_calls w) = NoFault"

lemma read_answers:
  assumes "pg_inv E w" and "ReadRepo.GetByID E k w = (g, w1)"
  shows "cache_answers E w k \<longleftrightarrow> (\<exists>c. g = Inr (Some c) \<and> preview w k = Some c)"
    and "\<not> cache_answers E w k \<longleftrightarrow> g = Inr None \<or> (\<exists>e. g = Inl e)"
proof -
  have hit: "preview w k = Some c" if "g = Inr (Some c)" for c
    using redis.rget_ok [OF redis_inv_pg [OF assms(1)], of k "Some c" w1] assms(2) that by simp
  have calm: "e_redis_fault E (w_calls w) = NoFault" if "g = Inr (Some c)" for c
    using assms(2) that by (cases "e_redis_fault E (w_calls w)") (simp_all add: ReadRepo.GetByID_def ext_call_def Let_def)
  have found: "g = Inr (Some c)" if "preview w k = Some c" "e_redis_fault E (w_calls w) = NoFault" for c
    using GetByID_cached [OF that] assms(2) by simp
  show a: "cache_answers E w k \<longleftrightarrow> (\<exists>c. g = Inr (Some c) \<and> preview w k = Some c)"
    unfolding cache_answers_def using hit calm found by (metis not_Some_eq)
  show "\<not> cache_answers E w k \<longleftrightarrow> g = Inr None \<or> (\<exists>e. g = Inl e)"
    unfolding a using hit by (cases g; cases "projr g") auto
qed

text \<open>Where the answer of the preview query comes from, coherent or not.\<close>

lemma preview_query_source:
  assumes inv: "pg_inv E w" and q: "GetUserPreviewByID (wired_service E topic) i w = (r, w')"
  shows "case r of
      Inr v \<Rightarrow> if cache_answers E w (TrimSpace i)
        then \<exists>c. preview w (TrimSpace i) = Some c \<and> v\<lparr>u_AvatarURL := []\<rparr> = c\<lparr>u_AvatarURL := []\<rparr>
        else e_uuid E (TrimSpace i) = Some (u_ID v) \<and> (\<exists>u. users_view w (u_ID v) = Some u \<and> previews u (as_preview v))
    | Inl e \<Rightarrow> errors_is e ErrUserNotFound \<longrightarrow>
        absent (e_uuid E (TrimSpace i)) (users_view w) \<and> \<not> cache_answers E w (TrimSpace i)"
proof (cases "TrimSpace i = []")
  case True
  with q show ?thesis by (auto simp: GetUserPreviewByID_def ErrInvalidUserID_def ErrUserNotFound_def err_simps)
next
  case False
  let ?svc = "wired_service E topic" and ?k = "TrimSpace i"
  obtain g w1 where g: "ReadRepo.GetByID E ?k w = (g, w1)" by fastforce
  then have g': "rr_GetByID (svc_readRepo ?svc) ?k w = (g, w1)" by simp
  show ?thesis
  proof (cases "cache_answers E w ?k")
    case True
    then obtain c where c: "g = Inr (Some c)" "preview w ?k = Some c" using read_answers(1) [OF inv g] by blast
    obtain v w2 where v: "refresh_preview ?svc c w1 = (v, w2)" by fastforce
    then have "r = Inr v" using q g c False by (simp add: GetUserPreviewByID_def Let_def)
    with True c refresh_url [OF v] show ?thesis by auto
  next
    case no: False
    then have miss: "g = Inr None \<or> (\<exists>e. g = Inl e)" using read_answers(2) [OF inv g] by blast
    obtain x w2 where x: "loadUserPreview ?svc ?k w1 = (x, w2)" by fastforce
    have h: "pg_inv E w1" "users_view w1 = users_view w"
      using wired.read_hit(1) [OF inv redis_inv_pg [OF inv] g'] by simp_all
    have "(case x of Inl err \<Rightarrow> (Inl err, w2)
          | Inr user \<Rightarrow> (case rr_Upsert (svc_readRepo ?svc) (Some user) w2 of
               (Inl err, w3) \<Rightarrow> (Inl err, w3) | (Inr _, w3) \<Rightarrow> (Inr user, w3))) = (r, w')"
      using miss False g' x q by (auto simp: GetUserPreviewByID_def split: sum.splits)
    from wired.load_cache_effect [OF h(1) redis_inv_pg [OF h(1)] x this] no h(2) show ?thesis
      by (cases r) auto
  qed
qed

text \<open>The profile a reply carries for a user, with some avatar URL.\<close>

definition profile :: "user \<Rightarrow> string \<Rightarrow> user_preview" where
  "profile u url = \<lparr>pv_UserId = u_ID u, pv_Username = u_Username u,
     pv_DisplayName = DisplayName (u_FirstName u) (u_LastName u), pv_AvatarId = u_AvatarID u, pv_AvatarUrl = url\<rparr>"

lemma reply_profile: "pr_User (ToPreviewResponse (Some v)) = Some (profile v (u_AvatarURL v))"
  by (simp add: ToPreviewResponse_def profile_def)

lemma profile_url: "v\<lparr>u_AvatarURL := x\<rparr> = c\<lparr>u_AvatarURL := x\<rparr> \<Longrightarrow> profile v url = profile c url"
  unfolding profile_def
  by (metis user.ext_inject user.surjective user.update_convs(7))

lemma profile_previews: "previews u (as_preview v) \<Longrightarrow> profile v url = profile u url \<and> u_ID v = u_ID u"
  by (auto simp: previews_def as_preview_def zero_user_def profile_def)

text \<open>
  C20. The preview handler answers NotFound only when the cache does not answer for the identifier
  and no user is stored under it; its reply carries, up to the avatar URL, the profile of the
  cached entry when the cache answers, and of the stored user otherwise; any other failure is the
  internal error with its fixed text. The uncached handler asks the table only: NotFound means
  that no user is stored, and a reply carries the profile of the stored user.
\<close>

theorem grpc_not_found_only_when_absent:
  fixes topic :: string
  assumes "pg_inv E w"
  defines "svc \<equiv> UserService (wired_service E topic)"
  shows "(case fst (srv_GetUserPreviewByID svc i w) of
      Inl (NotFound m) \<Rightarrow> absent (e_uuid E (TrimSpace i)) (users_view w) \<and> \<not> cache_answers E w (TrimSpace i)
    | Inl (Internal m) \<Rightarrow> m = ''internal server error''
    | Inr reply \<Rightarrow> \<exists>u url. pr_User reply = Some (profile u url) \<and>
        (if cache_answers E w (TrimSpace i) then preview w (TrimSpace i) = Some u
         else e_uuid E (TrimSpace i) = Some (u_ID u) \<and> users_view w (u_ID u) = Some u)) \<and>
    (case fst (srv_GetUserPreviewByIDNoCache svc i w) of
      Inl (NotFound m) \<Rightarrow> absent (e_uuid E (TrimSpace i)) (users_view w)
    | Inl (Internal m) \<Rightarrow> m = ''internal server error''
    | Inr reply \<Rightarrow> \<exists>u url. pr_User reply = Some (profile u url) \<and>
        e_uuid E (TrimSpace i) = Some (u_ID u) \<and> users_view w (u_ID u) = Some u)"
proof
  obtain r w' where q: "GetUserPreviewByID (wired_service E topic) i w = (r, w')" by fastforce
  show "case fst (srv_GetUserPreviewByID svc i w) of
      Inl (NotFound m) \<Rightarrow> absent (e_uuid E (TrimSpace i)) (users_view w) \<and> \<not> cache_answers E w (TrimSpace i)
    | Inl (Internal m) \<Rightarrow> m = ''internal server error''
    | Inr reply \<Rightarrow> \<exists>u url. pr_User reply = Some (profile u url) \<and>
        (if cache_answers E w (TrimSpace i) then preview w (TrimSpace i) = Some u
         else e_uuid E (TrimSpace i) = Some (u_ID u) \<and> users_view w (u_ID u) = Some u)"
  proof (cases r)
    case (Inr v)
    with preview_query_source [OF assms(1) q] q show ?thesis
      unfolding svc_def srv_GetUserPreviewByID_def
      by (auto simp: reply_profile split: if_splits) (metis profile_url, metis profile_previews)
  qed (use preview_query_source [OF assms(1) q] q in
      \<open>auto simp: svc_def srv_GetUserPreviewByID_def userQueryStatus_def split: grpc_status.splits\<close>)
  obtain x w2 where n: "GetUserPreviewByIDNoCache (wired_service E topic) i w = (x, w2)" by fastforce
  note e = wired.nocache_effect [OF assms(1) redis_inv_pg [OF assms(1)] n]
  show "case fst (srv_GetUserPreviewByIDNoCache svc i w) of
      Inl (NotFound m) \<Rightarrow> absent (e_uuid E (TrimSpace i)) (users_view w)
    | Inl (Internal m) \<Rightarrow> m = ''internal server error''
    | Inr reply \<Rightarrow> \<exists>u url. pr_User reply = Some (profile u url) \<and>
        e_uuid E (TrimSpace i) = Some (u_ID u) \<and> users_view w (u_ID u) = Some u"
  proof (cases x)
    case (Inr v)
    with e obtain u where u: "users_view w (u_ID v) = Some u" "v = u\<lparr>u_AvatarURL := u_AvatarURL v\<rparr>"
      "e_uuid E (TrimSpace i) = Some (u_ID v)" by auto
    have "profile v (u_AvatarURL v) = profile u (u_AvatarURL v)" "u_ID v = u_ID u"
      by (subst u(2), simp add: profile_def) (rule url_only [OF u(2)])
    with u Inr n show ?thesis
      by (auto simp: svc_def srv_GetUserPreviewByIDNoCache_def reply_profile)
  qed (use e n in \<open>auto simp: svc_def srv_GetUserPreviewByIDNoCache_def userQueryStatus_def split: grpc_status.splits\<close>)
qed

theorem grpc_not_found_only_when_absent_witness:
  "\<exists>u url. fst (srv_GetUserPreviewByIDNoCache (UserService (wired_service sample_env ''t'')) ''u1'' sample_world) =
      Inr \<lparr>pr_User = Some (profile u url)\<rparr> \<and> users_view sample_world ''u1'' = Some u"
proof -
  let ?r = "fst (srv_GetUserPreviewByIDNoCache (UserService (wired_service sample_env ''t'')) ''u1'' sample_world)"
  obtain reply where "?r = Inr reply"
    by (simp add: srv_GetUserPreviewByIDNoCache_def GetUserPreviewByIDNoCache_def loadUserPreview_def resolve_avatar_def
        WriteRepo.GetByID_def getUserByID_def ext_call_def run_eval env_eval TrimSpace_visible sample_world_users sample_row_def)
  moreover have "e_uuid sample_env (TrimSpace ''u1'') = Some ''u1''" by (simp add: env_eval TrimSpace_visible run_eval)
  ultimately show ?thesis
    using grpc_not_found_only_when_absent [OF sample_inv, of "''u1''" "''t''"]
    by (cases reply) auto
qed

section \<open>Avatar URLs\<close>

text \<open>
  The URL of a user whose row has none: empty when it has no avatar or the file service, asked at the n-th
  call, fails.
\<close>

definition avatar_url :: "env \<Rightarrow> nat \<Rightarrow> user \<Rightarrow> string" where
  "avatar_url E n u =
    (if TrimSpace (u_AvatarID u) = [] then []
     else case e_file_url E n (TrimSpace (u_AvatarID u)) of Inl err \<Rightarrow> [] | Inr url \<Rightarrow> url)"

lemma resolved_avatar:
  assumes "resolve_avatar (wired_service E topic) u w = (v, w')" and "u_AvatarURL u = []"
  shows "v = u\<lparr>u_AvatarURL := avatar_url E (w_calls w) u\<rparr>"
  using assms
  by (auto simp: resolve_avatar_def avatar_url_def file_client_def GetFileURL_def Let_def split: if_splits sum.splits)

lemma one_call:
  "ReadRepo.GetByUsername E n w = (g, w1) \<Longrightarrow> w_calls w1 = Suc (w_calls w)"
  "WriteRepo.GetByUsername E T n w = (x, w1) \<Longrightarrow> w_calls w1 = Suc (w_calls w)"
  by (auto simp: ReadRepo.GetByUsername_def WriteRepo.GetByUsername_def ext_call_def redis_get_def getUserByUsername_def
      redis_metric_def db_metric_def observe_def Let_def split: fault.splits option.splits sum.splits if_splits prod.splits)

lemma detailed_query_avatar:
  assumes inv: "pg_inv E w" and "detailed w (TrimSpace name) = None"
    and q: "GetDetailedUserByUsername (wired_service E topic) name w = (Inr v, w')"
  shows "u_AvatarURL v = avatar_url E (w_calls w + 2) v"
proof -
  let ?svc = "wired_service E topic" and ?n = "TrimSpace name"
  obtain g w1 where g: "ReadRepo.GetByUsername E ?n w = (g, w1)" by fastforce
  have inv1: "pg_inv E w1"
    using redis.dget_frame [OF redis_inv_pg [OF inv], of ?n g w1] redis_kept_views [of w1 w E] g inv by simp
  have "g \<noteq> Inr (Some c)" for c
    using redis.dget_ok [OF redis_inv_pg [OF inv], of ?n "Some c" w1] g assms(2) by auto
  then have "load_detailed ?svc ?n w1 = (Inr v, w')"
    using q g by (auto simp: GetDetailedUserByUsername_def Let_def split: if_splits sum.splits option.splits)
  then obtain u w2 z w3 where c: "WriteRepo.GetByUsername E NewPgErrorTranslator ?n w1 = (Inr u, w2)"
    and z: "resolve_avatar ?svc u w2 = (z, w3)" and v: "u_AvatarURL v = u_AvatarURL z" "u_AvatarID v = u_AvatarID z"
    by (auto simp: load_detailed_def Let_def split: sum.splits prod.splits if_splits)
  have "users_view w1 (u_ID u) = Some u" using pg.byname_ok [OF inv1, of ?n u w2] c by simp
  then have "u_AvatarURL u = []" using stored_user [OF inv1] by blast
  from resolved_avatar [OF z this] v one_call(1) [OF g] one_call(2) [OF c] show ?thesis
    by (simp add: avatar_url_def)
qed

end
