(* ===== verification/Programs.thy ===== *)
theory Programs
  imports Prelude
begin

text \<open>
  Programs that stop at every external call, so that the calls of several operations can
  interleave. A program is finished, or makes one call on the shared state and goes on with what
  the call returned; what it computes between two calls touches nothing shared.

  The predicate \<open>keeps_to\<close> is the rely-guarantee judgement for them: whatever the others do
  between two calls, as long as it is within the rely relation, every call keeps the invariant and
  moves the state within the guarantee, and the result satisfies a condition.
\<close>

section \<open>Programs\<close>

datatype (dead 's, 'a) prog = Done 'a | Call "'s \<Rightarrow> ('s, 'a) prog \<times> 's"

primrec run :: "('s, 'a) prog \<Rightarrow> 's \<Rightarrow> 'a \<times> 's" where
  "run (Done a) s = (a, s)"
| "run (Call f) s = (case map_prod run (\<lambda>t. t) (f s) of (go, t) \<Rightarrow> go t)"

definition call :: "('s \<Rightarrow> 'a \<times> 's) \<Rightarrow> ('a \<Rightarrow> ('s, 'b) prog) \<Rightarrow> ('s, 'b) prog" where
  "call act k = Call (\<lambda>s. case act s of (a, t) \<Rightarrow> (k a, t))"

primrec andthen :: "('s, 'a) prog \<Rightarrow> ('a \<Rightarrow> ('s, 'b) prog) \<Rightarrow> ('s, 'b) prog" where
  "andthen (Done a) k = k a"
| "andthen (Call f) k = Call (\<lambda>s. case map_prod andthen (\<lambda>t. t) (f s) of (go, t) \<Rightarrow> (go k, t))"

text \<open>A program on a part of the state.\<close>

primrec within :: "('t \<Rightarrow> 's) \<Rightarrow> ('s \<Rightarrow> 't \<Rightarrow> 't) \<Rightarrow> ('s, 'a) prog \<Rightarrow> ('t, 'a) prog" where
  "within part update (Done a) = Done a"
| "within part update (Call f) =
     Call (\<lambda>t. case map_prod (within part update) (\<lambda>s. s) (f (part t)) of (p, s) \<Rightarrow> (p, update s t))"

lemma prog_induct [case_names Done Call]:
  assumes "\<And>a. P (Done a)" and "\<And>f. (\<And>s p t. f s = (p, t) \<Longrightarrow> P p) \<Longrightarrow> P (Call f)"
  shows "P p"
proof (induction p)
  case (Call f)
  show ?case
  proof (rule assms(2))
    fix s p t
    assume "f s = (p, t)"
    then show "P p" using Call [of "f s" p] by (metis Basic_BNFs.fsts.intros fst_conv rangeI)
  qed
qed (rule assms(1))

lemma run_call [simp]: "run (call act k) s = (case act s of (a, t) \<Rightarrow> run (k a) t)"
  by (simp add: call_def case_prod_unfold)

lemma run_andthen [simp]: "run (andthen p k) s = (case run p s of (a, t) \<Rightarrow> run (k a) t)"
proof (induction p arbitrary: s rule: prog_induct)
  case (Call f)
  obtain p t where "f s = (p, t)" by (meson surj_pair)
  with Call show ?case by simp
qed simp

text \<open>How a part of the state is read and replaced.\<close>

definition part_of :: "('t \<Rightarrow> 's) \<Rightarrow> ('s \<Rightarrow> 't \<Rightarrow> 't) \<Rightarrow> bool" where
  "part_of part update \<longleftrightarrow>
     (\<forall>s t. part (update s t) = s) \<and> (\<forall>t. update (part t) t = t) \<and>
     (\<forall>s u t. update s (update u t) = update s t)"

lemma part_ofD:
  assumes "part_of part update"
  shows "part (update s t) = s" "update (part t) t = t" "update s (update u t) = update s t"
  using assms by (simp_all add: part_of_def)

lemma run_within [simp]:
  assumes "part_of part update"
  shows "run (within part update p) t = (case run p (part t) of (a, s) \<Rightarrow> (a, update s t))"
proof (induction p arbitrary: t rule: prog_induct)
  case (Done a)
  then show ?case by (simp add: part_ofD [OF assms])
next
  case (Call f)
  obtain p s where "f (part t) = (p, s)" by (meson surj_pair)
  with Call [of "part t" p s "update s t"] show ?case by (simp add: part_ofD [OF assms] case_prod_unfold)
qed

section \<open>Relying on the others\<close>

primrec keeps_to :: "('s \<Rightarrow> bool) \<Rightarrow> ('s \<Rightarrow> 's \<Rightarrow> bool) \<Rightarrow> ('s \<Rightarrow> 's \<Rightarrow> bool) \<Rightarrow> ('a \<Rightarrow> 's \<Rightarrow> bool)
    \<Rightarrow> ('s, 'a) prog \<Rightarrow> 's \<Rightarrow> bool" where
  "keeps_to safe rely guar post (Done a) = (\<lambda>s. post a s)"
| "keeps_to safe rely guar post (Call f) = (\<lambda>s. \<forall>t. safe t \<longrightarrow> rely s t \<longrightarrow>
     (case map_prod (keeps_to safe rely guar post) (\<lambda>t. t) (f t) of (ok, t') \<Rightarrow> safe t' \<and> guar t t' \<and> ok t'))"

lemma keeps_to_Call:
  "keeps_to safe rely guar post (Call f) s \<longleftrightarrow> (\<forall>t p t'. safe t \<longrightarrow> rely s t \<longrightarrow> f t = (p, t') \<longrightarrow>
     safe t' \<and> guar t t' \<and> keeps_to safe rely guar post p t')"
  by (auto simp: case_prod_unfold) (metis fst_conv snd_conv surj_pair)+

declare keeps_to.simps(2) [simp del]

text \<open>
  A relation others may move the state by, whatever the number of their calls, and an invariant.
\<close>

locale rely_guarantee =
  fixes safe :: "'s \<Rightarrow> bool" and rely :: "'s \<Rightarrow> 's \<Rightarrow> bool" and guar :: "'s \<Rightarrow> 's \<Rightarrow> bool"
  assumes rely_refl: "rely s s"
    and rely_trans: "rely s t \<Longrightarrow> rely t u \<Longrightarrow> rely s u"
begin

lemma keeps_later:
  assumes "keeps_to safe rely guar post p s" and "rely s t" and "\<And>a. post a s \<Longrightarrow> post a t"
  shows "keeps_to safe rely guar post p t"
proof (cases p)
  case (Call f)
  from assms(1) show ?thesis
    unfolding Call keeps_to_Call using rely_trans [OF assms(2)] by blast
qed (use assms in simp)

lemma keeps_done: "post a s \<Longrightarrow> keeps_to safe rely guar post (Done a) s"
  by simp

lemma keeps_call:
  assumes "\<And>t a t'. safe t \<Longrightarrow> rely s t \<Longrightarrow> act t = (a, t') \<Longrightarrow>
    safe t' \<and> guar t t' \<and> keeps_to safe rely guar post (k a) t'"
  shows "keeps_to safe rely guar post (call act k) s"
  unfolding call_def keeps_to_Call using assms by (auto split: prod.splits)

lemma keeps_andthen:
  assumes "keeps_to safe rely guar mid p s" and "\<And>a t. mid a t \<Longrightarrow> keeps_to safe rely guar post (k a) t"
  shows "keeps_to safe rely guar post (andthen p k) s"
  using assms(1)
proof (induction p arbitrary: s rule: prog_induct)
  case (Call f)
  show ?case
    unfolding andthen.simps keeps_to_Call
  proof (intro allI impI)
    fix t q t'
    assume t: "safe t" "rely s t" and q: "(case map_prod andthen (\<lambda>t. t) (f t) of (go, t) \<Rightarrow> (go k, t)) = (q, t')"
    obtain p u where p: "f t = (p, u)" by (meson surj_pair)
    with q have "q = andthen p k" "t' = u" by simp_all
    with Call.IH [OF p, of u] Call.prems t p
    show "safe t' \<and> guar t t' \<and> keeps_to safe rely guar post q t'"
      unfolding keeps_to_Call by blast
  qed
qed (use assms(2) in simp)

lemma keeps_weaken:
  assumes "keeps_to safe rely guar mid p s" and "\<And>a t. mid a t \<Longrightarrow> post a t"
  shows "keeps_to safe rely guar post p s"
  using assms(1)
proof (induction p arbitrary: s rule: prog_induct)
  case (Call f)
  then show ?case unfolding keeps_to_Call by blast
qed (use assms(2) in simp)

end

text \<open>When a program is not interrupted, it relies on nothing.\<close>

lemma keeps_run:
  assumes "keeps_to safe (=) guar post p s" and "safe s" and "run p s = (a, t)"
    and "\<And>s. guar s s" and "\<And>s t u. guar s t \<Longrightarrow> guar t u \<Longrightarrow> guar s u"
  shows "safe t \<and> guar s t \<and> post a t"
  using assms(1-3)
proof (induction p arbitrary: s rule: prog_induct)
  case (Call f)
  obtain p u where p: "f s = (p, u)" by (meson surj_pair)
  with Call.prems have "safe u \<and> guar s u \<and> keeps_to safe (=) guar post p u" "run p u = (a, t)"
    unfolding keeps_to_Call by auto
  with Call.IH [OF p] assms(5) show ?case by blast
qed (use assms(4) in simp)

text \<open>A program on a part of the state keeps to what the part does.\<close>

lemma keeps_within:
  assumes "part_of part update" and "keeps_to safe rely guar post p (part t)"
    and "\<And>t u. Rely t u \<Longrightarrow> rely (part t) (part u)" and "\<And>t. Inv t \<Longrightarrow> safe (part t)"
    and "\<And>s t. Inv t \<Longrightarrow> safe s \<Longrightarrow> guar (part t) s \<Longrightarrow> Inv (update s t) \<and> Guar t (update s t)"
  shows "keeps_to Inv Rely Guar (\<lambda>a t. post a (part t)) (within part update p) t"
  using assms(2)
proof (induction p arbitrary: t rule: prog_induct)
  case (Call f)
  show ?case
    unfolding within.simps keeps_to_Call
  proof (intro allI impI)
    fix u q u'
    assume u: "Inv u" "Rely t u"
      and q: "(case map_prod (within part update) (\<lambda>s. s) (f (part u)) of (p, s) \<Rightarrow> (p, update s u)) = (q, u')"
    obtain p s where p: "f (part u) = (p, s)" by (meson surj_pair)
    with q have q: "q = within part update p" "u' = update s u" by simp_all
    have "safe s \<and> guar (part u) s \<and> keeps_to safe rely guar post p s"
      using Call.prems p assms(3) [OF u(2)] assms(4) [OF u(1)] unfolding keeps_to_Call by blast
    with Call.IH [OF p, of "update s u"] part_ofD(1) [OF assms(1)] assms(5) [OF u(1), of s] q
    show "Inv u' \<and> Guar u u' \<and> keeps_to Inv Rely Guar (\<lambda>a t. post a (part t)) q u'" by simp
  qed
qed simp

section \<open>Accounting\<close>

text \<open>
  A program with a token it may hold: each call changes the token and the state together as the
  relation allows, whatever the state it is made in.
\<close>

primrec accounts :: "('o \<Rightarrow> 's \<Rightarrow> 'o \<Rightarrow> 's \<Rightarrow> bool) \<Rightarrow> ('s, 'a) prog \<Rightarrow> 'o \<Rightarrow> bool" where
  "accounts R (Done a) = (\<lambda>tok. True)"
| "accounts R (Call f) = (\<lambda>tok. \<forall>s. case map_prod (accounts R) (\<lambda>s. s) (f s) of (ok, s') \<Rightarrow> \<exists>tok'. R tok s tok' s' \<and> ok tok')"

lemma accounts_Call:
  "accounts R (Call f) tok \<longleftrightarrow> (\<forall>s p s'. f s = (p, s') \<longrightarrow> (\<exists>tok'. R tok s tok' s' \<and> accounts R p tok'))"
  by (auto simp: case_prod_unfold) (metis fst_conv snd_conv surj_pair)+

declare accounts.simps(2) [simp del]

lemma accounts_call:
  assumes "\<And>s a s'. act s = (a, s') \<Longrightarrow> \<exists>tok'. R tok s tok' s' \<and> accounts R (k a) tok'"
  shows "accounts R (call act k) tok"
  unfolding call_def accounts_Call using assms by (auto split: prod.splits)

lemma accounts_andthen:
  assumes "accounts R0 p tok" and "\<And>a. accounts R (k a) tok"
    and "\<And>s s' tok'. R0 tok s tok' s' \<Longrightarrow> tok' = tok \<and> R tok s tok s'"
  shows "accounts R (andthen p k) tok"
  using assms(1)
proof (induction p rule: prog_induct)
  case (Call f)
  show ?case
    unfolding andthen.simps accounts_Call
  proof (intro allI impI)
    fix s q s'
    assume q: "(case map_prod andthen (\<lambda>t. t) (f s) of (go, t) \<Rightarrow> (go k, t)) = (q, s')"
    obtain p u where p: "f s = (p, u)" by (meson surj_pair)
    with q have "q = andthen p k" "s' = u" by simp_all
    with Call.IH [OF p] Call.prems p assms(3) show "\<exists>tok'. R tok s tok' s' \<and> accounts R q tok'"
      unfolding accounts_Call by metis
  qed
qed (use assms(2) in simp)

lemma accounts_free: "accounts (\<lambda>tok _ tok' _. tok' = tok) p tok"
proof (induction p rule: prog_induct)
  case (Call f)
  then show ?case unfolding accounts_Call by blast
qed simp

lemma accounts_within:
  assumes "accounts R p tok" and "\<And>tok t tok' s. R tok (part t) tok' s \<Longrightarrow> Q tok t tok' (update s t)"
  shows "accounts Q (within part update p) tok"
  using assms(1)
proof (induction p arbitrary: tok rule: prog_induct)
  case (Call f)
  show ?case
    unfolding within.simps accounts_Call
  proof (intro allI impI)
    fix t q t'
    assume q: "(case map_prod (within part update) (\<lambda>s. s) (f (part t)) of (p, s) \<Rightarrow> (p, update s t)) = (q, t')"
    obtain p s where p: "f (part t) = (p, s)" by (meson surj_pair)
    with Call.prems obtain tok' where "R tok (part t) tok' s" "accounts R p tok'"
      unfolding accounts_Call by blast
    then have "Q tok t tok' (update s t) \<and> accounts Q (within part update p) tok'"
      using Call.IH [OF p] assms(2) by blast
    with q p show "\<exists>tok'. Q tok t tok' t' \<and> accounts Q q tok'" by auto
  qed
qed simp

end
