(* ===== verification/ServicePrograms.thy ===== *)
theory ServicePrograms
  imports Interleaving Programs
begin

text \<open>
  The operations of the service, its gRPC requests and its message handlers as programs: one call
  for every method of a repository, of the file client and of the broker, in the order of the
  code. Run without interruption, each program is the operation it stands for.
\<close>

section \<open>The operations of the service\<close>

definition CreateUser_prog :: "'s user_service \<Rightarrow> string \<Rightarrow> string \<Rightarrow> string \<Rightarrow> string
    \<Rightarrow> ('s, goerr + user) prog" where
  "CreateUser_prog svc userID username firstName lastName =
    (if userID = [] then Done (Inl ErrInvalidUserID)
     else call (ur_Create (svc_repo svc)
                  \<lparr>p_ID = userID, p_Username = username, p_FirstName = firstName,
                   p_LastName = lastName, p_AvatarID = []\<rparr>) (\<lambda>created.
       case created of
         Inl err \<Rightarrow> Done (Inl err)
       | Inr user \<Rightarrow> call (rr_Upsert (svc_readRepo svc) (Some user)) (\<lambda>cached.
           case cached of Inl err \<Rightarrow> Done (Inl err) | Inr _ \<Rightarrow> Done (Inr user))))"

definition DeleteUser_prog :: "'s user_service \<Rightarrow> string \<Rightarrow> ('s, goerr + unit) prog" where
  "DeleteUser_prog svc userID =
    (if userID = [] then Done (Inl ErrInvalidUserID)
     else call (ur_DeleteByID (svc_repo svc) userID) (\<lambda>deleted.
       case deleted of
         Inl err \<Rightarrow> Done (Inl err)
       | Inr _ \<Rightarrow> call (rr_DeleteByID (svc_readRepo svc) userID) Done))"

definition ActivateUser_prog :: "'s user_service \<Rightarrow> string \<Rightarrow> ('s, goerr + user) prog" where
  "ActivateUser_prog svc userID =
    (if userID = [] then Done (Inl ErrInvalidUserID)
     else call (ur_ActivateByID (svc_repo svc) userID) (\<lambda>activated.
       case activated of
         Inl err \<Rightarrow> Done (Inl err)
       | Inr user \<Rightarrow> call (rr_Upsert (svc_readRepo svc) (Some user)) (\<lambda>cached.
           case cached of Inl err \<Rightarrow> Done (Inl err) | Inr _ \<Rightarrow> Done (Inr user))))"

definition DeactivateUser_prog :: "'s user_service \<Rightarrow> string \<Rightarrow> ('s, goerr + unit) prog" where
  "DeactivateUser_prog svc userID =
    (if userID = [] then Done (Inl ErrInvalidUserID)
     else call (ur_DeactivateByID (svc_repo svc) userID) (\<lambda>deactivated.
       case deactivated of
         Inl err \<Rightarrow> Done (Inl err)
       | Inr _ \<Rightarrow> call (rr_DeleteByID (svc_readRepo svc) userID) Done))"

definition ExistsByUsername_prog :: "'s user_service \<Rightarrow> string \<Rightarrow> ('s, goerr + bool) prog" where
  "ExistsByUsername_prog svc username =
    (if TrimSpace username = [] then Done (Inl ErrInvalidUsername)
     else call (ur_ExistsByUsername (svc_repo svc) (TrimSpace username)) Done)"

definition resolve_avatar_prog :: "'s user_service \<Rightarrow> user \<Rightarrow> ('s, user) prog" where
  "resolve_avatar_prog svc user =
    (let avatarID = TrimSpace (u_AvatarID user) in
     if avatarID \<noteq> [] then
       call (fc_GetFileURL (svc_files svc) avatarID) (\<lambda>found.
         case found of Inr avatarURL \<Rightarrow> Done (user\<lparr>u_AvatarURL := avatarURL\<rparr>) | Inl _ \<Rightarrow> Done user)
     else Done user)"

definition loadUserPreview_prog :: "'s user_service \<Rightarrow> string \<Rightarrow> ('s, goerr + user) prog" where
  "loadUserPreview_prog svc userID =
    call (ur_GetByID (svc_repo svc) userID) (\<lambda>found.
      case found of
        Inl err \<Rightarrow> Done (Inl err)
      | Inr user \<Rightarrow> andthen (resolve_avatar_prog svc user) (\<lambda>user. Done (Inr user)))"

definition refresh_preview_prog :: "'s user_service \<Rightarrow> user \<Rightarrow> ('s, user) prog" where
  "refresh_preview_prog svc cached =
    (if TrimSpace (u_AvatarURL cached) = [] \<and> TrimSpace (u_AvatarID cached) \<noteq> [] then
       call (fc_GetFileURL (svc_files svc) (u_AvatarID cached)) (\<lambda>found.
         case found of
           Inr avatarURL \<Rightarrow>
             (let cached = cached\<lparr>u_AvatarURL := avatarURL\<rparr> in
              call (rr_Upsert (svc_readRepo svc) (Some cached)) (\<lambda>_. Done cached))
         | Inl _ \<Rightarrow> Done cached)
     else Done cached)"

definition GetUserPreviewByID_prog :: "'s user_service \<Rightarrow> string \<Rightarrow> ('s, goerr + user) prog" where
  "GetUserPreviewByID_prog svc userID =
    (let userID = TrimSpace userID in
     if userID = [] then Done (Inl ErrInvalidUserID)
     else call (rr_GetByID (svc_readRepo svc) userID) (\<lambda>cached.
       case cached of
         Inr (Some cached) \<Rightarrow> andthen (refresh_preview_prog svc cached) (\<lambda>cached. Done (Inr cached))
       | _ \<Rightarrow> andthen (loadUserPreview_prog svc userID) (\<lambda>loaded.
           case loaded of
             Inl err \<Rightarrow> Done (Inl err)
           | Inr user \<Rightarrow> call (rr_Upsert (svc_readRepo svc) (Some user)) (\<lambda>stored.
               case stored of Inl err \<Rightarrow> Done (Inl err) | Inr _ \<Rightarrow> Done (Inr user)))))"

definition GetUserPreviewByIDNoCache_prog :: "'s user_service \<Rightarrow> string \<Rightarrow> ('s, goerr + user) prog" where
  "GetUserPreviewByIDNoCache_prog svc userID =
    (let userID = TrimSpace userID in
     if userID = [] then Done (Inl ErrInvalidUserID) else loadUserPreview_prog svc userID)"

definition load_detailed_prog :: "'s user_service \<Rightarrow> string \<Rightarrow> ('s, goerr + user) prog" where
  "load_detailed_prog svc username =
    call (ur_GetByUsername (svc_repo svc) username) (\<lambda>found.
      case found of
        Inl err \<Rightarrow> Done (Inl err)
      | Inr user \<Rightarrow> andthen (resolve_avatar_prog svc user) (\<lambda>user.
          let user = (if u_DisplayName user = []
                      then user\<lparr>u_DisplayName := DisplayName (u_FirstName user) (u_LastName user)\<rparr>
                      else user)
          in call (rr_UpsertByUsername (svc_readRepo svc) (Some user)) (\<lambda>stored.
               case stored of
                 Inl err \<Rightarrow> Done (Inl err)
               | Inr _ \<Rightarrow> call (pb_PublishDetailedUserRequested (svc_pub svc) (Some user)) (\<lambda>_. Done (Inr user)))))"

definition GetDetailedUserByUsername_prog :: "'s user_service \<Rightarrow> string \<Rightarrow> ('s, goerr + user) prog" where
  "GetDetailedUserByUsername_prog svc username =
    (let username = TrimSpace username in
     if username = [] then Done (Inl ErrInvalidUsername)
     else call (rr_GetByUsername (svc_readRepo svc) username) (\<lambda>cached.
       case cached of Inr (Some cached) \<Rightarrow> Done (Inr cached) | _ \<Rightarrow> load_detailed_prog svc username))"

lemmas service_prog_defs = CreateUser_prog_def DeleteUser_prog_def ActivateUser_prog_def DeactivateUser_prog_def
  ExistsByUsername_prog_def resolve_avatar_prog_def loadUserPreview_prog_def refresh_preview_prog_def
  GetUserPreviewByID_prog_def GetUserPreviewByIDNoCache_prog_def load_detailed_prog_def
  GetDetailedUserByUsername_prog_def

text \<open>Run without interruption, a program is its operation.\<close>

lemma run_commands:
  "run (CreateUser_prog svc i n f l) s = CreateUser svc i n f l s"
  "run (DeleteUser_prog svc i) s = DeleteUser svc i s"
  "run (ActivateUser_prog svc i) s = ActivateUser svc i s"
  "run (DeactivateUser_prog svc i) s = DeactivateUser svc i s"
  "run (ExistsByUsername_prog svc n) s = ExistsByUsername svc n s"
  by (auto simp: service_prog_defs CreateUser_def DeleteUser_def ActivateUser_def DeactivateUser_def
      ExistsByUsername_def split: prod.splits sum.splits)

lemma run_resolve: "run (resolve_avatar_prog svc u) s = resolve_avatar svc u s"
  by (auto simp: resolve_avatar_prog_def resolve_avatar_def Let_def split: prod.splits sum.splits)

lemma run_load: "run (loadUserPreview_prog svc i) s = loadUserPreview svc i s"
  by (auto simp: loadUserPreview_prog_def loadUserPreview_def run_resolve split: prod.splits sum.splits)

lemma run_refresh: "run (refresh_preview_prog svc u) s = refresh_preview svc u s"
  by (auto simp: refresh_preview_prog_def refresh_preview_def Let_def split: prod.splits sum.splits)

lemma run_load_detailed: "run (load_detailed_prog svc n) s = load_detailed svc n s"
  by (auto simp: load_detailed_prog_def load_detailed_def run_resolve Let_def split: prod.splits sum.splits)

lemma run_queries:
  "run (GetUserPreviewByID_prog svc i) s = GetUserPreviewByID svc i s"
  "run (GetUserPreviewByIDNoCache_prog svc i) s = GetUserPreviewByIDNoCache svc i s"
  "run (GetDetailedUserByUsername_prog svc n) s = GetDetailedUserByUsername svc n s"
proof -
  show "run (GetUserPreviewByID_prog svc i) s = GetUserPreviewByID svc i s"
    by (auto simp: GetUserPreviewByID_prog_def GetUserPreviewByID_def run_load run_refresh Let_def
        split: prod.splits sum.splits option.splits)
  show "run (GetUserPreviewByIDNoCache_prog svc i) s = GetUserPreviewByIDNoCache svc i s"
    by (simp add: GetUserPreviewByIDNoCache_prog_def GetUserPreviewByIDNoCache_def run_load Let_def)
  show "run (GetDetailedUserByUsername_prog svc n) s = GetDetailedUserByUsername svc n s"
    by (auto simp: GetDetailedUserByUsername_prog_def GetDetailedUserByUsername_def run_load_detailed Let_def
        split: prod.splits sum.splits option.splits)
qed

section \<open>Requests\<close>

datatype grpc_reply =
    ExistsReply "grpc_status + bool"
  | StatusReply "grpc_status + status_response"
  | PreviewReply "grpc_status + preview_response"
  | DetailedReply "grpc_status + detailed_response"

definition internal :: grpc_status where
  "internal = Internal ''internal server error''"

fun request_prog :: "'s user_service \<Rightarrow> grpc_request \<Rightarrow> ('s, grpc_reply) prog" where
  "request_prog svc (AskExists n) = andthen (ExistsByUsername_prog svc n) (\<lambda>r. Done (ExistsReply
     (case r of Inl err \<Rightarrow> Inl internal | Inr exists \<Rightarrow> Inr exists)))"
| "request_prog svc (AskActivate i) = andthen (ActivateUser_prog svc i) (\<lambda>r. Done (StatusReply
     (case r of Inl err \<Rightarrow> Inl internal
      | Inr user \<Rightarrow> Inr \<lparr>st_UserId = u_ID user, st_Status = u_Status user\<rparr>)))"
| "request_prog svc (AskDeactivate i) = andthen (DeactivateUser_prog svc i) (\<lambda>r. Done (StatusReply
     (case r of Inl err \<Rightarrow> Inl internal
      | Inr _ \<Rightarrow> Inr \<lparr>st_UserId = i, st_Status = ''registration_failed''\<rparr>)))"
| "request_prog svc (AskPreview i) = andthen (GetUserPreviewByID_prog svc i) (\<lambda>r. Done (PreviewReply
     (case r of Inl err \<Rightarrow> Inl (the (userQueryStatus (Some err)))
      | Inr user \<Rightarrow> Inr (ToPreviewResponse (Some user)))))"
| "request_prog svc (AskPreviewNoCache i) = andthen (GetUserPreviewByIDNoCache_prog svc i) (\<lambda>r. Done (PreviewReply
     (case r of Inl err \<Rightarrow> Inl (the (userQueryStatus (Some err)))
      | Inr user \<Rightarrow> Inr \<lparr>pr_User = pr_User (ToPreviewResponse (Some user))\<rparr>)))"
| "request_prog svc (AskDetailed n) = andthen (GetDetailedUserByUsername_prog svc n) (\<lambda>r. Done (DetailedReply
     (case r of Inl err \<Rightarrow> Inl (the (userQueryStatus (Some err)))
      | Inr user \<Rightarrow> Inr (ToDetailedResponse (Some user)))))"

text \<open>The reply of a request that is not interrupted.\<close>

fun rpc_reply :: "'s user_service_methods \<Rightarrow> grpc_request \<Rightarrow> 's \<Rightarrow> grpc_reply \<times> 's" where
  "rpc_reply svc (AskExists n) s = map_prod ExistsReply (\<lambda>s. s) (srv_ExistsByUsername svc n s)"
| "rpc_reply svc (AskActivate i) s = map_prod StatusReply (\<lambda>s. s) (srv_ActivateUser svc i s)"
| "rpc_reply svc (AskDeactivate i) s = map_prod StatusReply (\<lambda>s. s) (srv_DeactivateUser svc i s)"
| "rpc_reply svc (AskPreview i) s = map_prod PreviewReply (\<lambda>s. s) (srv_GetUserPreviewByID svc i s)"
| "rpc_reply svc (AskPreviewNoCache i) s = map_prod PreviewReply (\<lambda>s. s) (srv_GetUserPreviewByIDNoCache svc i s)"
| "rpc_reply svc (AskDetailed n) s = map_prod DetailedReply (\<lambda>s. s) (srv_GetDetailedUserByUsername svc n s)"

lemmas srv_defs = srv_ExistsByUsername_def srv_ActivateUser_def srv_DeactivateUser_def
  srv_GetUserPreviewByID_def srv_GetUserPreviewByIDNoCache_def srv_GetDetailedUserByUsername_def

lemma run_request: "run (request_prog svc q) s = rpc_reply (UserService svc) q s"
  by (cases q) (auto simp: srv_defs run_commands run_queries internal_def split: prod.splits sum.splits)

section \<open>Message handlers\<close>

type_synonym 's handler_prog = "string \<Rightarrow> string \<Rightarrow> ('s, goerr + unit) prog"

definition handleCreate_prog :: "'s registration_saga_subscriber \<Rightarrow> 's user_service \<Rightarrow> 's handler_prog" where
  "handleCreate_prog S svc subject raw =
    (case unmarshal_create_command raw of
       Inl err \<Rightarrow> Done (Inl err)
     | Inr cmd \<Rightarrow>
         andthen (CreateUser_prog svc (cc_UserID cmd) (cc_Username cmd) (cc_FirstName cmd) (cc_LastName cmd))
           (\<lambda>created. call (publish_result S (k_SagaCreateResultTopic (sg_cfg S))
              (case created of
                 Inl err \<Rightarrow> saga_failed (cc_SessionID cmd) (cc_UserID cmd) (cc_SagaID cmd)
                    (fr_CreateUserFailureReason (sg_resolver S) err)
               | Inr _ \<Rightarrow> saga_success (cc_SessionID cmd) (cc_UserID cmd) (cc_SagaID cmd))) Done))"

definition handleDelete_prog :: "'s registration_saga_subscriber \<Rightarrow> 's user_service \<Rightarrow> 's handler_prog" where
  "handleDelete_prog S svc subject raw =
    (case unmarshal_delete_command raw of
       Inl err \<Rightarrow> Done (Inl err)
     | Inr cmd \<Rightarrow>
         andthen (DeleteUser_prog svc (dc_UserID cmd))
           (\<lambda>deleted. call (publish_result S (k_SagaDeleteResultTopic (sg_cfg S))
              (case deleted of
                 Inl err \<Rightarrow> saga_failed (dc_SessionID cmd) (dc_UserID cmd) (dc_SagaID cmd)
                    (fr_DeleteUserFailureReason (sg_resolver S) err)
               | Inr _ \<Rightarrow> saga_success (dc_SessionID cmd) (dc_UserID cmd) (dc_SagaID cmd))) Done))"

definition recovery_operation_prog :: "'s user_service \<Rightarrow> envelope \<Rightarrow> ('s, goerr + user option \<times> string) prog" where
  "recovery_operation_prog svc command =
    (let userID = en_AggregateID command;
         operation = ToLower (en_Operation command)
     in if operation = ''post'' \<or> operation = ''create'' then
          (case unmarshal_create_payload (en_Payload command) of
             Inl err \<Rightarrow> Done (Inl err)
           | Inr p \<Rightarrow>
               (let userID = recovery_user_id command p in
                if TrimSpace userID = [] then
                  Done (Inl (Permanent (Foreign (''user recovery command '' @ en_CommandID command @
                     '' is missing user_id''))))
                else
                  andthen (CreateUser_prog svc userID (cp_Username p) (cp_FirstName p) (cp_LastName p)) (\<lambda>r.
                    Done (map_sum (\<lambda>err. err) (\<lambda>u. (Some u, userID)) r))))
        else if operation = ''delete'' then
          andthen (DeleteUser_prog svc userID) (\<lambda>r. Done (map_sum (\<lambda>err. err) (\<lambda>_. (None, userID)) r))
        else if operation = ''activate'' then
          andthen (ActivateUser_prog svc userID) (\<lambda>r. Done (map_sum (\<lambda>err. err) (\<lambda>u. (Some u, userID)) r))
        else if operation = ''deactivate'' then
          andthen (DeactivateUser_prog svc userID) (\<lambda>r. Done (map_sum (\<lambda>err. err) (\<lambda>_. (None, userID)) r))
        else Done (Inl (Foreign (''unsupported user recovery operation='' @ en_Operation command))))"

definition recovery_prog :: "'s user_recovery_subscriber \<Rightarrow> 's user_service \<Rightarrow> 's handler_prog" where
  "recovery_prog R svc subject raw =
    (case rs_decode R raw of
       Inl err \<Rightarrow> Done (Inl (wrap_msg ''decode user recovery command'' err))
     | Inr command \<Rightarrow>
         if en_AggregateType command \<noteq> ''user'' \<and> en_AggregateType command \<noteq> ''users'' then
           Done (Inl (Foreign (''unsupported user recovery aggregate_type='' @ go_quote (en_AggregateType command))))
         else
           andthen (recovery_operation_prog svc command) (\<lambda>done.
             case done of
               Inl err \<Rightarrow> Done (Inl err)
             | Inr (result, userID) \<Rightarrow>
                 call (\<lambda>s. case rs_encode R (recovery_completed command result userID (rs_now R s)) of
                             Inl err \<Rightarrow> (Inl err, s)
                           | Inr body \<Rightarrow> eb_Publish (rs_broker R) (k_RecoveryCompletedTopic (rs_cfg R)) body s) Done))"

definition relay_prog :: "'s event_broker \<Rightarrow> string \<Rightarrow> 's handler_prog" where
  "relay_prog b output subject payload =
    (if payload = [] then Done (Inl errInvalidPayload) else call (eb_Publish b output payload) Done)"

definition projection_prog :: "'s user_read_repository \<Rightarrow> 's handler_prog" where
  "projection_prog read subject payload =
    (case unmarshal_event payload of
       Inl err \<Rightarrow> Done (Inl err)
     | Inr event \<Rightarrow>
         (let user = user_of_event event in
          if u_Username user = [] then Done (Inl errInvalidPayload)
          else call (rr_UpsertByUsername read (Some user)) Done))"

definition runs_as :: "'s handler_prog \<Rightarrow> 's message_handler \<Rightarrow> bool" where
  "runs_as p h \<longleftrightarrow> (\<forall>subject payload s. run (p subject payload) s = h subject payload s)"

lemma run_saga:
  assumes "sg_service S = UserService svc"
  shows "runs_as (handleCreate_prog S svc) (handleCreate S)" "runs_as (handleDelete_prog S svc) (handleDelete S)"
  using assms
  by (auto simp: runs_as_def handleCreate_prog_def handleCreate_def handleDelete_prog_def handleDelete_def run_commands
      split: sum.splits prod.splits)

lemma run_recovery:
  assumes "rs_service R = UserService svc"
  shows "runs_as (recovery_prog R svc) (recovery_handle R)"
proof -
  have "run (recovery_operation_prog svc command) s = recovery_operation R command s" for command s
  proof -
    consider "ToLower (en_Operation command) = ''post'' \<or> ToLower (en_Operation command) = ''create''"
      | "\<not> (ToLower (en_Operation command) = ''post'' \<or> ToLower (en_Operation command) = ''create'')"
      by blast
    then show ?thesis
    proof cases
      case 1
      then show ?thesis
        unfolding recovery_operation_prog_def recovery_operation_def Let_def
        by (simp only: if_True assms UserService_methods)
          (simp add: run_commands case_prod_unfold split: sum.split)
    next
      case 2
      then show ?thesis
        unfolding recovery_operation_prog_def recovery_operation_def Let_def
        by (simp only: if_False assms UserService_methods if_distrib [of run] if_distrib [of "\<lambda>p. run p s"])
          (simp add: run_commands case_prod_unfold split: sum.split)
    qed
  qed
  then show ?thesis
    by (auto simp: runs_as_def recovery_prog_def recovery_handle_def split: sum.splits prod.splits)
qed

lemma run_projection:
  "runs_as (relay_prog b out) (relay_handler b out)" "runs_as (projection_prog read) (projection_handler read)"
  by (auto simp: runs_as_def relay_prog_def relay_handler_def projection_prog_def projection_handler_def Let_def
      split: sum.splits prod.splits)

text \<open>The handler of a topic of the started service.\<close>

definition app_service :: "startup_env \<Rightarrow> service_config \<Rightarrow> world user_service" where
  "app_service P cfg = wired_service (su_world P) (k_DetailedUserRequestedTopic (cfg_Kafka cfg))"

fun topic_prog :: "startup_env \<Rightarrow> service_config \<Rightarrow> running_service \<Rightarrow> topic \<Rightarrow> world handler_prog" where
  "topic_prog P cfg app CreateCommands = handleCreate_prog (rn_saga app) (app_service P cfg)"
| "topic_prog P cfg app DeleteCommands = handleDelete_prog (rn_saga app) (app_service P cfg)"
| "topic_prog P cfg app RecoveryCommands = recovery_prog (rn_recovery app) (app_service P cfg)"
| "topic_prog P cfg app DetailedRequests =
     relay_prog (kafka_backed (su_world P) (su_broker P)) (k_DetailedUserProjectionTopic (cfg_Kafka cfg))"
| "topic_prog P cfg app DetailedProjections = projection_prog (redis_repo (su_world P))"

lemma started_parts:
  assumes "start_service P cfg = Inr app"
  shows "rn_server app = UserService (app_service P cfg)" "sg_service (rn_saga app) = UserService (app_service P cfg)"
    "rs_service (rn_recovery app) = UserService (app_service P cfg)"
    "eb_Publish (sg_broker (rn_saga app)) = KafkaBroker.Publish (su_world P)"
    "eb_Publish (rs_broker (rn_recovery app)) = KafkaBroker.Publish (su_world P)"
proof -
  note w = started_wiring [OF assms]
  from w show "rn_server app = UserService (app_service P cfg)" by (simp add: app_service_def)
  from w provided_saga show "sg_service (rn_saga app) = UserService (app_service P cfg)"
    "eb_Publish (sg_broker (rn_saga app)) = KafkaBroker.Publish (su_world P)"
    unfolding app_service_def by blast+
  from w provided_recovery show "rs_service (rn_recovery app) = UserService (app_service P cfg)"
    "eb_Publish (rs_broker (rn_recovery app)) = KafkaBroker.Publish (su_world P)"
    unfolding app_service_def by blast+
qed

lemma run_topic:
  assumes "start_service P cfg = Inr app"
  shows "runs_as (topic_prog P cfg app t) (topic_handler P cfg app t)"
  using run_saga run_recovery run_projection started_parts [OF assms] by (cases t) simp_all

end
