(* ===== verification/SoundCalls.thy ===== *)
theory SoundCalls
  imports ServicePrograms
begin

text \<open>
  What every single call of the service keeps, whatever other requests and handlers do between
  two calls of its program: the table and its constraints, that each cached preview shows a
  version of the user the table has had, and that the outbox only grows.
\<close>

section \<open>What the calls of the service keep\<close>

text \<open>
  The rows the outbox recorded are the versions of the users there have been. Every cached preview
  shows one of them, with whatever avatar URL was resolved; the outbox only grows, and the stored
  users move along the life cycle.
\<close>

definition seen :: "world \<Rightarrow> user \<Rightarrow> bool" where
  "seen w u \<longleftrightarrow> list_ex (\<lambda>e. MapUserRowToDomain (ob_payload e) = u) (w_outbox w)"

definition recorded :: "world \<Rightarrow> user \<Rightarrow> bool" where
  "recorded w c \<longleftrightarrow> storable c \<and> (\<exists>u. seen w u \<and> previews u c)"

definition known :: "world \<Rightarrow> user \<Rightarrow> bool" where
  "known w u \<longleftrightarrow> storable u \<and> (\<exists>v. seen w v \<and> u\<lparr>u_AvatarURL := []\<rparr> = v\<lparr>u_AvatarURL := []\<rparr>)"

definition sound :: "env \<Rightarrow> world \<Rightarrow> bool" where
  "sound E w \<longleftrightarrow> pg_inv E w \<and> (\<forall>i c. preview w i = Some c \<longrightarrow> u_ID c = i \<and> recorded w c)"

definition grows :: "world \<Rightarrow> world \<Rightarrow> bool" where
  "grows w w' \<longleftrightarrow> user_step\<^sup>*\<^sup>* (users_view w) (users_view w') \<and> prefix (w_outbox w) (w_outbox w')"

interpretation life: rely_guarantee "sound E" grows G for E G
  by unfold_locales (auto simp: grows_def intro: rtranclp_trans prefix_order.trans)

lemma grows_seen: "grows w w' \<Longrightarrow> seen w u \<Longrightarrow> seen w' u"
  by (auto simp: grows_def seen_def prefix_def)

lemma grows_recorded: "grows w w' \<Longrightarrow> recorded w c \<Longrightarrow> recorded w' c"
  by (auto simp: recorded_def dest: grows_seen)

lemma grows_known: "grows w w' \<Longrightarrow> known w u \<Longrightarrow> known w' u"
  by (auto simp: known_def dest: grows_seen)

lemma grows_moves:
  "user_moves (users_view w) (users_view w') \<Longrightarrow> prefix (w_outbox w) (w_outbox w') \<Longrightarrow> grows w w'"
  by (auto simp: grows_def user_moves_def)

text \<open>A stored user is the last version the outbox recorded of it.\<close>

lemma replay_recorded: "replay es k = Some r \<Longrightarrow> list_ex (\<lambda>e. ob_payload e = r) es"
proof (induction es rule: rev_induct)
  case Nil
  then show ?case by (simp add: replay_def)
next
  case (snoc e es)
  then show ?case by (auto simp: replay_append apply_event_def split: if_splits)
qed

lemma stored_known:
  assumes "pg_inv E w" and "users_view w k = Some u"
  shows "known w u"
proof -
  have "storable u" using stored_user [OF assms] by simp
  moreover obtain r where r: "rows_view w k = Some r" "u = MapUserRowToDomain r"
    using assms(2) by (auto simp: users_view_def rows_view_def)
  then have "replay (w_outbox w) k = Some r" using assms(1) by (simp add: pg_inv_def outbox_ok_def)
  with r have "seen w u" using replay_recorded by (fastforce simp: seen_def list_ex_iff)
  ultimately show ?thesis unfolding known_def by blast
qed

lemma known_url: "known w u \<Longrightarrow> utf8_valid url \<Longrightarrow> known w (u\<lparr>u_AvatarURL := url\<rparr>)"
  by (auto simp: known_def storable_def)

lemma previews_of_url: "previews (v\<lparr>u_AvatarURL := x\<rparr>) c = previews v c"
  by (simp add: previews_def)

lemma known_preview:
  assumes "known w u"
  shows "recorded w (as_preview u)"
proof -
  obtain v where v: "seen w v" "u\<lparr>u_AvatarURL := []\<rparr> = v\<lparr>u_AvatarURL := []\<rparr>" "storable u"
    using assms by (auto simp: known_def)
  have "previews v (as_preview u)"
    using v(2) previews_as [of u] previews_of_url [where v = v and x = "[]"] previews_of_url [where v = u and x = "[]"] by simp
  with v storable_preview show ?thesis by (auto simp: recorded_def)
qed

lemma recorded_url: "recorded w c \<Longrightarrow> utf8_valid url \<Longrightarrow> recorded w (c\<lparr>u_AvatarURL := url\<rparr>)"
  by (auto simp: recorded_def storable_def)

lemma recorded_as: "recorded w c \<Longrightarrow> as_preview c = c"
  by (auto simp: recorded_def intro: wired.preview_again)

lemma as_preview_ID [simp]: "u_ID (as_preview u) = u_ID u"
  by (simp add: as_preview_def)

text \<open>A write to the table, a change of the cache, and a call that touches neither.\<close>

lemma sound_write:
  assumes "sound E w" and "pg_inv E w'" and "pg_kept w' = pg_kept w"
    and "user_moves (users_view w) (users_view w')" and "prefix (w_outbox w) (w_outbox w')"
  shows "sound E w' \<and> grows w w'"
proof -
  have g: "grows w w'" using assms(4,5) by (rule grows_moves)
  moreover have "preview w' = preview w" using assms(3) pg_kept_views by blast
  ultimately show ?thesis using assms(1,2) grows_recorded unfolding sound_def by auto
qed

lemma sound_cache:
  assumes "sound E w" and "redis_kept w' = redis_kept w"
    and "preview w' = preview w \<or> (\<exists>i. preview w' = (preview w)(i := None)) \<or>
      (\<exists>c. recorded w c \<and> preview w' = (preview w)(u_ID c \<mapsto> c))"
  shows "sound E w' \<and> grows w w'"
proof -
  have g: "grows w w'" using assms(2) by (intro grows_moves) (auto simp: redis_kept_def users_view_def fun_eq_iff user_moves_def)
  have "pg_inv E w'" using assms(1,2) redis_kept_views unfolding sound_def by blast
  with g assms(1,3) grows_recorded [OF g] show ?thesis
    unfolding sound_def by (auto split: if_splits)
qed

lemma sound_bus:
  assumes "sound E w" and "bus_kept w' = bus_kept w"
  shows "sound E w' \<and> grows w w'"
proof -
  have g: "grows w w'" using assms(2) by (intro grows_moves) (auto simp: bus_kept_def users_view_def fun_eq_iff user_moves_def)
  with assms bus_kept_views [OF assms(2), of E] grows_recorded [OF g] show ?thesis unfolding sound_def by auto
qed

text \<open>The outbox through each method of the repository.\<close>

lemma update_outbox: "prefix (w_outbox w) (w_outbox (snd (update_rows upd uid now w)))"
  by (simp add: update_rows_def Let_def)

lemma ext_call_outbox:
  assumes "\<And>v. prefix (w_outbox v) (w_outbox (snd (act v)))" and "ext_call faults act w = (r, w')"
  shows "prefix (w_outbox w) (w_outbox w')"
  by (rule ext_call_cases [OF assms(2)]) (use assms(1) [of "w\<lparr>w_calls := Suc (w_calls w)\<rparr>"] in auto)

lemma statement_outbox:
  "prefix (w_outbox v) (w_outbox (snd (createUserQuery E p v)))"
  "prefix (w_outbox v) (w_outbox (snd (activateUserByID E i v)))"
  "prefix (w_outbox v) (w_outbox (snd (deactivateUserByID E i v)))"
  "prefix (w_outbox v) (w_outbox (snd (deleteUserByID E i v)))"
  "prefix (w_outbox v) (w_outbox (snd (getUserByID E i v)))"
  "prefix (w_outbox v) (w_outbox (snd (getUserByUsername E i v)))"
  "prefix (w_outbox v) (w_outbox (snd (existsByUsernameQuery E i v)))"
  using update_outbox [of v]
  by (auto simp: createUserQuery_def activateUserByID_def deactivateUserByID_def deleteUserByID_def
      getUserByID_def getUserByUsername_def existsByUsernameQuery_def Let_def case_prod_unfold
      split: option.splits list.splits)

lemma outbox_grows:
  assumes "\<And>v. prefix (w_outbox v) (w_outbox (snd (act v)))"
  shows "prefix (w_outbox w) (w_outbox (snd (ext_call faults act w)))"
  using ext_call_outbox [OF assms, of faults w] by (metis prod.collapse)

lemma method_outbox:
  assumes "repo = pg_repo E T"
  shows "ur_Create repo p w = (r1, w') \<Longrightarrow> prefix (w_outbox w) (w_outbox w')"
    "ur_ActivateByID repo i w = (r2, w') \<Longrightarrow> prefix (w_outbox w) (w_outbox w')"
    "ur_DeactivateByID repo i w = (r3, w') \<Longrightarrow> prefix (w_outbox w) (w_outbox w')"
    "ur_DeleteByID repo i w = (r4, w') \<Longrightarrow> prefix (w_outbox w) (w_outbox w')"
    "ur_GetByID repo i w = (r5, w') \<Longrightarrow> prefix (w_outbox w) (w_outbox w')"
    "ur_GetByUsername repo i w = (r6, w') \<Longrightarrow> prefix (w_outbox w) (w_outbox w')"
    "ur_ExistsByUsername repo i w = (r7, w') \<Longrightarrow> prefix (w_outbox w) (w_outbox w')"
proof -
  have q: "prefix (w_outbox w) (w_outbox (snd (ext_call (e_pg_fault E) (createUserQuery E p) w)))"
    "prefix (w_outbox w) (w_outbox (snd (ext_call (e_pg_fault E) (activateUserByID E i) w)))"
    "prefix (w_outbox w) (w_outbox (snd (ext_call (e_pg_fault E) (deactivateUserByID E i) w)))"
    "prefix (w_outbox w) (w_outbox (snd (ext_call (e_pg_fault E) (deleteUserByID E i) w)))"
    "prefix (w_outbox w) (w_outbox (snd (ext_call (e_pg_fault E) (getUserByID E i) w)))"
    "prefix (w_outbox w) (w_outbox (snd (ext_call (e_pg_fault E) (getUserByUsername E i) w)))"
    "prefix (w_outbox w) (w_outbox (snd (ext_call (e_pg_fault E) (existsByUsernameQuery E i) w)))"
    by (rule outbox_grows statement_outbox)+
  show "ur_Create repo p w = (r1, w') \<Longrightarrow> prefix (w_outbox w) (w_outbox w')"
    using q(1) by (auto simp: assms WriteRepo.Create_def db_metric_def split: prod.splits sum.splits)
  show "ur_ActivateByID repo i w = (r2, w') \<Longrightarrow> prefix (w_outbox w) (w_outbox w')"
    using q(2) by (auto simp: assms WriteRepo.ActivateByID_def db_metric_def split: prod.splits sum.splits)
  show "ur_DeactivateByID repo i w = (r3, w') \<Longrightarrow> prefix (w_outbox w) (w_outbox w')"
    using q(3)
    by (auto simp: assms WriteRepo.DeactivateByID_def db_metric_def split: prod.splits sum.splits option.splits if_splits)
  show "ur_DeleteByID repo i w = (r4, w') \<Longrightarrow> prefix (w_outbox w) (w_outbox w')"
    using q(4)
    by (auto simp: assms WriteRepo.DeleteByID_def db_metric_def split: prod.splits sum.splits option.splits if_splits)
  show "ur_GetByID repo i w = (r5, w') \<Longrightarrow> prefix (w_outbox w) (w_outbox w')"
    using q(5) by (auto simp: assms WriteRepo.GetByID_def db_metric_def split: prod.splits sum.splits)
  show "ur_GetByUsername repo i w = (r6, w') \<Longrightarrow> prefix (w_outbox w) (w_outbox w')"
    using q(6) by (auto simp: assms WriteRepo.GetByUsername_def db_metric_def split: prod.splits sum.splits)
  show "ur_ExistsByUsername repo i w = (r7, w') \<Longrightarrow> prefix (w_outbox w) (w_outbox w')"
    using q(7) by (auto simp: assms WriteRepo.ExistsByUsername_def db_metric_def split: prod.splits sum.splits)
qed

section \<open>The methods of the collaborators keep the state sound\<close>

lemma user_in_store: "stores P key us us' u \<Longrightarrow> \<exists>k. us' k = Some u" "inserts p key us us' u \<Longrightarrow> \<exists>k. us' k = Some u"
  by (auto simp: stores_def inserts_def)

lemma write_steps:
  assumes "sound E w" and "repo = pg_repo E NewPgErrorTranslator"
  shows "ur_Create repo p w = (r1, w') \<Longrightarrow> sound E w' \<and> grows w w' \<and> (\<forall>u. r1 = Inr u \<longrightarrow> known w' u)"
    "ur_ActivateByID repo i w = (r2, w') \<Longrightarrow> sound E w' \<and> grows w w' \<and> (\<forall>u. r2 = Inr u \<longrightarrow> known w' u)"
    "ur_DeactivateByID repo i w = (r3, w') \<Longrightarrow> sound E w' \<and> grows w w'"
    "ur_DeleteByID repo i w = (r4, w') \<Longrightarrow> sound E w' \<and> grows w w'"
proof -
  have inv: "pg_inv E w" using assms(1) by (simp add: sound_def)
  note moves = inserts_moves activates_moves deactivates_moves removes_moves
  show "sound E w' \<and> grows w w' \<and> (\<forall>u. r1 = Inr u \<longrightarrow> known w' u)" if c: "ur_Create repo p w = (r1, w')"
  proof -
    note c' = c [unfolded assms(2)]
    note f = pg.create_frame [OF inv c'] and o = method_outbox(1) [OF assms(2) c]
    have "user_moves (users_view w) (users_view w')"
      by (cases r1) (use c' pg.create_ok [OF inv] pg.create_err [OF inv] moves in fastforce)+
    moreover have "known w' u" if "r1 = Inr u" for u
      using pg.create_ok [OF inv, of p u w'] c' that user_in_store(2) stored_known [of E w'] f by fast
    ultimately show ?thesis using sound_write [OF assms(1)] f o by blast
  qed
  show "sound E w' \<and> grows w w' \<and> (\<forall>u. r2 = Inr u \<longrightarrow> known w' u)" if c: "ur_ActivateByID repo i w = (r2, w')"
  proof -
    note c' = c [unfolded assms(2)]
    note f = pg.activate_frame [OF inv c'] and o = method_outbox(2) [OF assms(2) c]
    have "user_moves (users_view w) (users_view w')"
      by (cases r2) (use c' pg.activate_ok [OF inv] pg.activate_err [OF inv] moves in fastforce)+
    moreover have "known w' u" if "r2 = Inr u" for u
      using pg.activate_ok [OF inv, of i u w'] c' that user_in_store(1) stored_known [of E w'] f by fast
    ultimately show ?thesis using sound_write [OF assms(1)] f o by blast
  qed
  show "sound E w' \<and> grows w w'" if c: "ur_DeactivateByID repo i w = (r3, w')"
  proof -
    note c' = c [unfolded assms(2)]
    note f = pg.deactivate_frame [OF inv c'] and o = method_outbox(3) [OF assms(2) c]
    have "user_moves (users_view w) (users_view w')"
      by (cases r3) (use c' pg.deactivate_ok [OF inv] pg.deactivate_err [OF inv] moves in fastforce)+
    then show ?thesis using sound_write [OF assms(1)] f o by blast
  qed
  show "sound E w' \<and> grows w w'" if c: "ur_DeleteByID repo i w = (r4, w')"
  proof -
    note c' = c [unfolded assms(2)]
    note f = pg.delete_frame [OF inv c'] and o = method_outbox(4) [OF assms(2) c]
    have "user_moves (users_view w) (users_view w')"
      by (cases r4) (use c' pg.delete_ok [OF inv] pg.delete_err [OF inv] moves in fastforce)+
    then show ?thesis using sound_write [OF assms(1)] f o by blast
  qed
qed

lemma read_steps:
  assumes "sound E w" and "repo = pg_repo E NewPgErrorTranslator"
  shows "ur_GetByID repo i w = (r1, w') \<Longrightarrow> sound E w' \<and> grows w w' \<and> (\<forall>u. r1 = Inr u \<longrightarrow> known w' u)"
    "ur_GetByUsername repo i w = (r2, w') \<Longrightarrow> sound E w' \<and> grows w w' \<and> (\<forall>u. r2 = Inr u \<longrightarrow> known w' u)"
    "ur_ExistsByUsername repo i w = (r3, w') \<Longrightarrow> sound E w' \<and> grows w w'"
proof -
  have inv: "pg_inv E w" using assms(1) by (simp add: sound_def)
  show "sound E w' \<and> grows w w' \<and> (\<forall>u. r1 = Inr u \<longrightarrow> known w' u)" if c: "ur_GetByID repo i w = (r1, w')"
  proof -
    note c' = c [unfolded assms(2)]
    note f = pg.get_frame [OF inv c'] and o = method_outbox(5) [OF assms(2) c]
    have "known w' u" if "r1 = Inr u" for u
      using pg.get_ok [OF inv, of i u w'] c' that stored_known [of E w'] f by metis
    with sound_write [OF assms(1)] f o show ?thesis by auto
  qed
  show "sound E w' \<and> grows w w' \<and> (\<forall>u. r2 = Inr u \<longrightarrow> known w' u)" if c: "ur_GetByUsername repo i w = (r2, w')"
  proof -
    note c' = c [unfolded assms(2)]
    note f = pg.byname_frame [OF inv c'] and o = method_outbox(6) [OF assms(2) c]
    have "known w' u" if "r2 = Inr u" for u
      using pg.byname_ok [OF inv, of i u w'] c' that stored_known [of E w'] f by metis
    with sound_write [OF assms(1)] f o show ?thesis by auto
  qed
  show "sound E w' \<and> grows w w'" if c: "ur_ExistsByUsername repo i w = (r3, w')"
    using pg.exists_frame [OF inv c [unfolded assms(2)]] sound_write [OF assms(1)] method_outbox(7) [OF assms(2) c]
    by auto
qed

lemma cache_steps:
  assumes "sound E w" and "read = redis_repo E"
  shows "rr_Upsert read (Some u) w = (r1, w') \<Longrightarrow> storable u \<Longrightarrow> recorded w (as_preview u) \<Longrightarrow>
      sound E w' \<and> grows w w'"
    "rr_GetByID read i w = (r2, w') \<Longrightarrow> sound E w' \<and> grows w w' \<and> (\<forall>c. r2 = Inr (Some c) \<longrightarrow> recorded w' c)"
    "rr_DeleteByID read i w = (r3, w') \<Longrightarrow> sound E w' \<and> grows w w'"
    "rr_UpsertByUsername read uo w = (r4, w') \<Longrightarrow> sound E w' \<and> grows w w'"
    "rr_GetByUsername read i w = (r5, w') \<Longrightarrow> sound E w' \<and> grows w w'"
proof -
  have r: "redis_inv E w" using assms(1) by (simp add: sound_def)
  show "sound E w' \<and> grows w w'" if c: "rr_Upsert read (Some u) w = (r1, w')" "storable u" "recorded w (as_preview u)"
  proof (rule sound_cache [OF assms(1)])
    note c' = c(1) [unfolded assms(2)]
    from redis.upsert_frame [OF r c'] show "redis_kept w' = redis_kept w" by simp
    have "preview w' = preview w \<or> preview w' = (preview w)(u_ID (as_preview u) \<mapsto> as_preview u)"
      using redis.upsert_ok [OF r, of u _ w'] redis.upsert_err [OF r, of u _ w'] c' c(2) by (cases r1) auto
    with c(3) show "preview w' = preview w \<or> (\<exists>i. preview w' = (preview w)(i := None)) \<or>
      (\<exists>c. recorded w c \<and> preview w' = (preview w)(u_ID c \<mapsto> c))" by blast
  qed
  show "sound E w' \<and> grows w w' \<and> (\<forall>c. r2 = Inr (Some c) \<longrightarrow> recorded w' c)"
    if c: "rr_GetByID read i w = (r2, w')"
  proof -
    note c' = c [unfolded assms(2)]
    note f = redis.rget_frame [OF r c']
    then have s: "sound E w' \<and> grows w w'" by (intro sound_cache [OF assms(1)]) simp_all
    have "recorded w' c" if "r2 = Inr (Some c)" for c
      using redis.rget_ok [OF r, of i "Some c" w'] c' that assms(1) s grows_recorded unfolding sound_def by metis
    with s show ?thesis by blast
  qed
  show "sound E w' \<and> grows w w'" if c: "rr_DeleteByID read i w = (r3, w')"
  proof (rule sound_cache [OF assms(1)])
    note c' = c [unfolded assms(2)]
    from redis.rdelete_frame [OF r c'] show "redis_kept w' = redis_kept w" by simp
    have "preview w' = preview w \<or> preview w' = (preview w)(i := None)"
      using redis.rdelete_ok [OF r, of i _ w'] redis.rdelete_err [OF r, of i _ w'] c' by (cases r3) auto
    then show "preview w' = preview w \<or> (\<exists>i. preview w' = (preview w)(i := None)) \<or>
      (\<exists>c. recorded w c \<and> preview w' = (preview w)(u_ID c \<mapsto> c))" by blast
  qed
  show "sound E w' \<and> grows w w'" if c: "rr_UpsertByUsername read uo w = (r4, w')"
    using redis.dupsert_frame [OF r c [unfolded assms(2)]] by (intro sound_cache [OF assms(1)]) simp_all
  show "sound E w' \<and> grows w w'" if c: "rr_GetByUsername read i w = (r5, w')"
    using redis.dget_frame [OF r c [unfolded assms(2)]] by (intro sound_cache [OF assms(1)]) simp_all
qed

lemma publish_step:
  assumes "sound E w" and "KafkaBroker.Publish E subject body w = (r, w')"
  shows "sound E w' \<and> grows w w'"
  using sound_bus [OF assms(1)] kafka.publish_frame [OF assms(2)] by blast

lemma file_step:
  assumes "sound E w" and "fc_GetFileURL (file_client E) f w = (r, w')"
  shows "sound E w' \<and> grows w w' \<and> (\<forall>url. r = Inr url \<longrightarrow> utf8_valid url)"
proof -
  have "w' = w\<lparr>w_calls := Suc (w_calls w)\<rparr>" using assms(2) GetFileURL_frame by (simp add: file_client_def)
  then have "bus_kept w' = bus_kept w" by (simp add: bus_kept_def)
  moreover have "env_ok utf8_valid E" using assms(1) by (simp add: sound_def pg_inv_def)
  then have "utf8_valid url" if "r = Inr url" for url
    using assms(2) that env_okD(9) GetFileURL_frame [of E f w r w'] by (fastforce simp: file_client_def)
  ultimately show ?thesis using sound_bus [OF assms(1)] by blast
qed

section \<open>The programs keep the state sound\<close>

abbreviation keeps :: "env \<Rightarrow> ('a \<Rightarrow> world \<Rightarrow> bool) \<Rightarrow> (world, 'a) prog \<Rightarrow> world \<Rightarrow> bool" where
  "keeps E \<equiv> keeps_to (sound E) grows grows"

text \<open>What a preview reply may show: a version of the user, with some avatar URL.\<close>

definition shown :: "world \<Rightarrow> preview_response \<Rightarrow> bool" where
  "shown w r \<longleftrightarrow> (\<exists>v url. seen w v \<and> r = ToPreviewResponse (Some (v\<lparr>u_AvatarURL := url\<rparr>)))"

lemma preview_reply: "previews v c \<Longrightarrow> ToPreviewResponse (Some c) = ToPreviewResponse (Some (v\<lparr>u_AvatarURL := u_AvatarURL c\<rparr>))"
  by (drule previews_eq, erule ssubst) (simp add: ToPreviewResponse_def as_preview_def)

lemma recorded_shown: "recorded w c \<Longrightarrow> shown w (ToPreviewResponse (Some c))"
  unfolding recorded_def shown_def using preview_reply by blast

lemma known_shown:
  assumes "known w u"
  shows "shown w (ToPreviewResponse (Some u))"
proof -
  obtain v where v: "seen w v" "u\<lparr>u_AvatarURL := []\<rparr> = v\<lparr>u_AvatarURL := []\<rparr>"
    using assms by (auto simp: known_def)
  have "u = v\<lparr>u_AvatarURL := u_AvatarURL u\<rparr>"
    using arg_cong [OF v(2), of "\<lambda>x. x\<lparr>u_AvatarURL := u_AvatarURL u\<rparr>"] by simp
  then have "ToPreviewResponse (Some u) = ToPreviewResponse (Some (v\<lparr>u_AvatarURL := u_AvatarURL u\<rparr>))" by simp
  with v(1) show ?thesis unfolding shown_def by blast
qed

lemma grows_shown: "grows w w' \<Longrightarrow> shown w r \<Longrightarrow> shown w' r"
  by (auto simp: shown_def dest: grows_seen)

lemma known_storable: "known w u \<Longrightarrow> storable u"
  by (simp add: known_def)

lemma recorded_storable: "recorded w c \<Longrightarrow> storable c"
  by (simp add: recorded_def)

lemma upsert_known_step:
  assumes "sound E w" and "rr_Upsert (redis_repo E) (Some u) w = (r, w')" and "known w u"
  shows "sound E w' \<and> grows w w'"
  using cache_steps(1) [OF assms(1) refl assms(2) known_storable known_preview] assms(3) by simp

lemma commands_keep:
  fixes topic :: string and E :: env
  defines "svc \<equiv> wired_service E topic"
  shows "keeps E (\<lambda>_ _. True) (CreateUser_prog svc i n f l) w"
    "keeps E (\<lambda>_ _. True) (ActivateUser_prog svc i) w"
    "keeps E (\<lambda>_ _. True) (DeactivateUser_prog svc i) w"
    "keeps E (\<lambda>_ _. True) (DeleteUser_prog svc i) w"
    "keeps E (\<lambda>_ _. True) (ExistsByUsername_prog svc n) w"
proof -
  have cache: "keeps E (\<lambda>_ _. True) (call (rr_Upsert (redis_repo E) (Some u)) (\<lambda>x. case x of Inl err \<Rightarrow> Done (Inl err) | Inr _ \<Rightarrow> Done (Inr u))) v"
    if "known v u" for u v
  proof (rule life.keeps_call)
    fix t a t'
    assume "sound E t" "grows v t" "rr_Upsert (redis_repo E) (Some u) t = (a, t')"
    with upsert_known_step [of E t u a t'] grows_known [of v t u] that
    show "sound E t' \<and> grows t t' \<and> keeps E (\<lambda>_ _. True) (case a of Inl err \<Rightarrow> Done (Inl err) | Inr _ \<Rightarrow> Done (Inr u)) t'"
      by (auto split: sum.split)
  qed
  have drop: "keeps E (\<lambda>_ _. True) (call (rr_DeleteByID (redis_repo E) i) Done) v" for i v
    by (rule life.keeps_call) (auto dest: cache_steps(3) [OF _ refl])
  show "keeps E (\<lambda>_ _. True) (CreateUser_prog svc i n f l) w"
  proof (cases "i = []")
    case False
    then show ?thesis unfolding CreateUser_prog_def svc_def wired_parts if_not_P [OF False]
      by (intro life.keeps_call) (auto dest: write_steps(1) [OF _ refl] simp del: pg_repo_methods redis_repo_methods intro: cache split: sum.split)
  qed (simp add: CreateUser_prog_def)
  show "keeps E (\<lambda>_ _. True) (ActivateUser_prog svc i) w"
  proof (cases "i = []")
    case False
    then show ?thesis unfolding ActivateUser_prog_def svc_def wired_parts if_not_P [OF False]
      by (intro life.keeps_call) (auto dest: write_steps(2) [OF _ refl] simp del: pg_repo_methods redis_repo_methods intro: cache split: sum.split)
  qed (simp add: ActivateUser_prog_def)
  show "keeps E (\<lambda>_ _. True) (DeactivateUser_prog svc i) w"
  proof (cases "i = []")
    case False
    then show ?thesis unfolding DeactivateUser_prog_def svc_def wired_parts if_not_P [OF False]
      by (intro life.keeps_call) (auto dest: write_steps(3) [OF _ refl] simp del: pg_repo_methods redis_repo_methods intro: drop split: sum.split)
  qed (simp add: DeactivateUser_prog_def)
  show "keeps E (\<lambda>_ _. True) (DeleteUser_prog svc i) w"
  proof (cases "i = []")
    case False
    then show ?thesis unfolding DeleteUser_prog_def svc_def wired_parts if_not_P [OF False]
      by (intro life.keeps_call) (auto dest: write_steps(4) [OF _ refl] simp del: pg_repo_methods redis_repo_methods intro: drop split: sum.split)
  qed (simp add: DeleteUser_prog_def)
  show "keeps E (\<lambda>_ _. True) (ExistsByUsername_prog svc n) w"
  proof (cases "TrimSpace n = []")
    case False
    then show ?thesis unfolding ExistsByUsername_prog_def svc_def wired_parts if_not_P [OF False]
      by (intro life.keeps_call) (auto dest: read_steps(3) [OF _ refl])
  qed (simp add: ExistsByUsername_prog_def)
qed

lemma resolve_keeps:
  assumes "known w u"
  shows "keeps E (\<lambda>u w. known w u) (resolve_avatar_prog (wired_service E topic) u) w"
proof (cases "TrimSpace (u_AvatarID u) = []")
  case False
  show ?thesis
    unfolding resolve_avatar_prog_def Let_def wired_parts
  proof (simp only: False if_not_P simp_thms(8) not_False_eq_True if_True, rule life.keeps_call)
    fix t a t'
    assume t: "sound E t" "grows w t" "fc_GetFileURL (file_client E) (TrimSpace (u_AvatarID u)) t = (a, t')"
    note f = file_step [OF t(1,3)]
    then have "known t' u" using assms t(2) grows_known by blast
    with f known_url show "sound E t' \<and> grows t t' \<and>
      keeps E (\<lambda>u w. known w u) (case a of Inl x \<Rightarrow> Done u | Inr url \<Rightarrow> Done (u\<lparr>u_AvatarURL := url\<rparr>)) t'"
      by (auto split: sum.split)
  qed
qed (use assms in \<open>simp add: resolve_avatar_prog_def\<close>)

lemma load_keeps:
  "keeps E (\<lambda>r w. \<forall>u. r = Inr u \<longrightarrow> known w u) (loadUserPreview_prog (wired_service E topic) i) w"
  unfolding loadUserPreview_prog_def wired_parts
proof (rule life.keeps_call)
  fix t a t'
  assume "sound E t" "ur_GetByID (pg_repo E NewPgErrorTranslator) i t = (a, t')"
  note g = read_steps(1) [OF this(1) refl this(2)]
  show "sound E t' \<and> grows t t' \<and> keeps E (\<lambda>r w. \<forall>u. r = Inr u \<longrightarrow> known w u)
      (case a of Inl err \<Rightarrow> Done (Inl err)
       | Inr user \<Rightarrow> andthen (resolve_avatar_prog (wired_service E topic) user) (\<lambda>user. Done (Inr user))) t'"
    using g by (auto split: sum.split intro!: life.keeps_andthen [OF resolve_keeps])
qed

lemma refresh_keeps:
  assumes "recorded w c"
  shows "keeps E (\<lambda>u w. recorded w u) (refresh_preview_prog (wired_service E topic) c) w"
proof (cases "TrimSpace (u_AvatarURL c) = [] \<and> TrimSpace (u_AvatarID c) \<noteq> []")
  case True
  show ?thesis
    unfolding refresh_preview_prog_def if_P [OF True] wired_parts
  proof (rule life.keeps_call)
    fix t a t'
    assume t: "sound E t" "grows w t" "fc_GetFileURL (file_client E) (u_AvatarID c) t = (a, t')"
    note f = file_step [OF t(1,3)]
    then have rec: "recorded t' c" using assms t(2) grows_recorded by blast
    show "sound E t' \<and> grows t t' \<and> keeps E (\<lambda>u w. recorded w u)
      (case a of Inl x \<Rightarrow> Done c
       | Inr url \<Rightarrow> let cached = c\<lparr>u_AvatarURL := url\<rparr> in call (rr_Upsert (redis_repo E) (Some cached)) (\<lambda>_. Done cached)) t'"
    proof (cases a)
      case (Inr url)
      let ?c = "c\<lparr>u_AvatarURL := url\<rparr>"
      have r: "recorded t' ?c" using rec f Inr recorded_url by blast
      have "keeps E (\<lambda>u w. recorded w u) (call (rr_Upsert (redis_repo E) (Some ?c)) (\<lambda>_. Done ?c)) t'"
      proof (rule life.keeps_call)
        fix v x v'
        assume v: "sound E v" "grows t' v" "rr_Upsert (redis_repo E) (Some ?c) v = (x, v')"
        have rv: "recorded v ?c" using r v(2) grows_recorded by blast
        with cache_steps(1) [OF v(1) refl v(3)] have "sound E v' \<and> grows v v'"
          by (simp only: recorded_as [OF rv] recorded_storable [OF rv] rv)
        with rv show "sound E v' \<and> grows v v' \<and> keeps E (\<lambda>u w. recorded w u) (Done ?c) v'"
          using grows_recorded by auto
      qed
      with f Inr show ?thesis by (simp add: Let_def)
    qed (use f rec in simp)
  qed
qed (use assms in \<open>auto simp: refresh_preview_prog_def\<close>)

lemma load_detailed_keeps:
  "keeps E (\<lambda>_ _. True) (load_detailed_prog (wired_service E topic) n) w"
  unfolding load_detailed_prog_def wired_parts
proof (rule life.keeps_call)
  fix t a t'
  assume "sound E t" "ur_GetByUsername (pg_repo E NewPgErrorTranslator) n t = (a, t')"
  note g = read_steps(2) [OF this(1) refl this(2)]
  define publish where "publish user = call (rr_UpsertByUsername (redis_repo E) (Some user)) (\<lambda>stored.
      case stored of Inl err \<Rightarrow> Done (Inl err)
      | Inr _ \<Rightarrow> call (pb_PublishDetailedUserRequested (detailed_publisher E topic) (Some user))
          (\<lambda>_. Done (Inr user :: goerr + user)))" for user
  have p: "keeps E (\<lambda>_ _. True) (publish u) v" for u v
    unfolding publish_def
  proof (rule life.keeps_call)
    fix x r x'
    assume "sound E x" "rr_UpsertByUsername (redis_repo E) (Some u) x = (r, x')"
    note s = cache_steps(4) [OF this(1) refl this(2)]
    have "keeps E (\<lambda>_ _. True) (call (pb_PublishDetailedUserRequested (detailed_publisher E topic) (Some u))
        (\<lambda>_. Done (Inr u))) x'"
      by (rule life.keeps_call)
        (auto simp: detailed_publisher_def PublishDetailedUserRequested_def dest: publish_step)
    with s show "sound E x' \<and> grows x x' \<and> keeps E (\<lambda>_ _. True)
        (case r of Inl err \<Rightarrow> Done (Inl err)
         | Inr _ \<Rightarrow> call (pb_PublishDetailedUserRequested (detailed_publisher E topic) (Some u))
             (\<lambda>_. Done (Inr u))) x'"
      by (auto split: sum.split)
  qed
  have "keeps E (\<lambda>_ _. True) (andthen (resolve_avatar_prog (wired_service E topic) u) (\<lambda>user.
      let user = (if u_DisplayName user = []
                  then user\<lparr>u_DisplayName := DisplayName (u_FirstName user) (u_LastName user)\<rparr> else user)
      in publish user)) t'" if "known t' u" for u
    using that unfolding Let_def by (intro life.keeps_andthen [OF resolve_keeps p])
  with g show "sound E t' \<and> grows t t' \<and> keeps E (\<lambda>_ _. True)
      (case a of Inl err \<Rightarrow> Done (Inl err)
       | Inr user \<Rightarrow> andthen (resolve_avatar_prog (wired_service E topic) user) (\<lambda>user.
          let user = (if u_DisplayName user = []
                      then user\<lparr>u_DisplayName := DisplayName (u_FirstName user) (u_LastName user)\<rparr>
                      else user)
          in call (rr_UpsertByUsername (redis_repo E) (Some user)) (\<lambda>stored.
               case stored of
                 Inl err \<Rightarrow> Done (Inl err)
               | Inr _ \<Rightarrow> call (pb_PublishDetailedUserRequested (detailed_publisher E topic) (Some user))
                   (\<lambda>_. Done (Inr user))))) t'"
    by (auto simp: publish_def split: sum.split)
qed

lemma queries_keep:
  fixes topic :: string and E :: env
  defines "svc \<equiv> wired_service E topic"
  shows "keeps E (\<lambda>r w. \<forall>u. r = Inr u \<longrightarrow> shown w (ToPreviewResponse (Some u))) (GetUserPreviewByID_prog svc i) w"
    "keeps E (\<lambda>r w. \<forall>u. r = Inr u \<longrightarrow> shown w (ToPreviewResponse (Some u))) (GetUserPreviewByIDNoCache_prog svc i) w"
    "keeps E (\<lambda>_ _. True) (GetDetailedUserByUsername_prog svc n) w"
proof -
  let ?shows = "\<lambda>(r::goerr + user) w. \<forall>u. r = Inr u \<longrightarrow> shown w (ToPreviewResponse (Some u))"
  define load where "load = andthen (loadUserPreview_prog svc (TrimSpace i)) (\<lambda>loaded.
      case loaded of
        Inl err \<Rightarrow> Done (Inl err)
      | Inr user \<Rightarrow> call (rr_Upsert (redis_repo E) (Some user)) (\<lambda>stored.
          case stored of Inl err \<Rightarrow> Done (Inl err) | Inr _ \<Rightarrow> Done (Inr user)))"
  have put: "keeps E ?shows (call (rr_Upsert (redis_repo E) (Some u)) (\<lambda>x. case x of Inl err \<Rightarrow> Done (Inl err) | Inr _ \<Rightarrow> Done (Inr u))) v"
    if "known v u" for u v
  proof (rule life.keeps_call)
    fix t a t'
    assume t: "sound E t" "grows v t" "rr_Upsert (redis_repo E) (Some u) t = (a, t')"
    have "known t u" using t(2) that by (rule grows_known)
    note s = upsert_known_step [OF t(1,3) this]
    then have "shown t' (ToPreviewResponse (Some u))"
      using \<open>known t u\<close> grows_known known_shown by blast
    with s show "sound E t' \<and> grows t t' \<and> keeps E ?shows (case a of Inl err \<Rightarrow> Done (Inl err) | Inr _ \<Rightarrow> Done (Inr u)) t'"
      by (auto split: sum.split)
  qed
  have load: "keeps E ?shows load v" for v
    unfolding load_def svc_def
    by (rule life.keeps_andthen [OF load_keeps]) (auto simp del: redis_repo_methods intro: put split: sum.split)
  show "keeps E ?shows (GetUserPreviewByID_prog svc i) w"
  proof (cases "TrimSpace i = []")
    case False
    have "keeps E ?shows (call (rr_GetByID (redis_repo E) (TrimSpace i)) (\<lambda>cached.
       case cached of
         Inr (Some cached) \<Rightarrow> andthen (refresh_preview_prog svc cached) (\<lambda>cached. Done (Inr cached))
       | _ \<Rightarrow> load)) w"
    proof (rule life.keeps_call)
      fix t a t'
      assume "sound E t" "rr_GetByID (redis_repo E) (TrimSpace i) t = (a, t')"
      note g = cache_steps(2) [OF this(1) refl this(2)]
      have "keeps E ?shows (andthen (refresh_preview_prog svc c) (\<lambda>cached. Done (Inr cached))) t'"
        if "recorded t' c" for c
        using that unfolding svc_def by (intro life.keeps_andthen [OF refresh_keeps]) (simp_all add: recorded_shown)
      with g load show "sound E t' \<and> grows t t' \<and> keeps E ?shows (case a of
         Inr (Some cached) \<Rightarrow> andthen (refresh_preview_prog svc cached) (\<lambda>cached. Done (Inr cached))
       | _ \<Rightarrow> load) t'"
        by (auto split: sum.split option.split)
    qed
    with False show ?thesis unfolding GetUserPreviewByID_prog_def Let_def load_def svc_def
      by (simp only: if_False wired_parts)
  qed (simp add: GetUserPreviewByID_prog_def)
  show "keeps E ?shows (GetUserPreviewByIDNoCache_prog svc i) w"
  proof (cases "TrimSpace i = []")
    case False
    have "keeps E ?shows (loadUserPreview_prog svc (TrimSpace i)) w"
      unfolding svc_def by (rule life.keeps_weaken [OF load_keeps]) (simp add: known_shown)
    with False show ?thesis by (simp add: GetUserPreviewByIDNoCache_prog_def Let_def)
  qed (simp add: GetUserPreviewByIDNoCache_prog_def)
  show "keeps E (\<lambda>_ _. True) (GetDetailedUserByUsername_prog svc n) w"
  proof (cases "TrimSpace n = []")
    case False
    have "keeps E (\<lambda>_ _. True) (call (rr_GetByUsername (redis_repo E) (TrimSpace n)) (\<lambda>cached.
       case cached of Inr (Some cached) \<Rightarrow> Done (Inr cached) | _ \<Rightarrow> load_detailed_prog svc (TrimSpace n))) w"
      unfolding svc_def
      by (rule life.keeps_call) (auto simp del: redis_repo_methods dest: cache_steps(5) [OF _ refl]
          intro: load_detailed_keeps split: sum.split option.split)
    with False show ?thesis unfolding GetDetailedUserByUsername_prog_def Let_def svc_def
      by (simp only: if_False wired_parts)
  qed (simp add: GetDetailedUserByUsername_prog_def)
qed

text \<open>A preview reply shows a version of the user that was stored.\<close>

definition reply_true :: "grpc_reply \<Rightarrow> world \<Rightarrow> bool" where
  "reply_true r w = (case r of PreviewReply (Inr resp) \<Rightarrow> shown w resp | _ \<Rightarrow> True)"

lemma request_keeps: "keeps E reply_true (request_prog (wired_service E topic) q) w"
proof (cases q)
  case (AskPreview i)
  then show ?thesis
    by (auto simp: reply_true_def split: sum.split intro!: life.keeps_andthen [OF queries_keep(1)])
next
  case (AskPreviewNoCache i)
  have r: "\<lparr>pr_User = pr_User r\<rparr> = r" for r :: preview_response by simp
  from AskPreviewNoCache show ?thesis
    by (auto simp: reply_true_def r split: sum.split intro!: life.keeps_andthen [OF queries_keep(2)])
qed (auto simp: reply_true_def intro!: life.keeps_andthen [OF commands_keep(5)] life.keeps_andthen [OF commands_keep(2)]
      life.keeps_andthen [OF commands_keep(3)] life.keeps_andthen [OF queries_keep(3)])

lemma publish_keeps:
  assumes "\<And>v r v'. f v = (r, v') \<Longrightarrow> v' = v \<or> (\<exists>subject body. KafkaBroker.Publish E subject body v = (r, v'))"
  shows "keeps E (\<lambda>_ _. True) (call f Done) w"
proof (rule life.keeps_call)
  fix t a t'
  assume "sound E t" "f t = (a, t')"
  then have "sound E t' \<and> grows t t'" using assms [of t a t'] publish_step life.rely_refl by blast
  then show "sound E t' \<and> grows t t' \<and> keeps E (\<lambda>_ _. True) (Done a) t'" by simp
qed

lemma saga_keeps:
  assumes "eb_Publish (sg_broker S) = KafkaBroker.Publish E"
  shows "keeps E (\<lambda>_ _. True) (handleCreate_prog S (wired_service E topic) subject raw) w"
    "keeps E (\<lambda>_ _. True) (handleDelete_prog S (wired_service E topic) subject raw) w"
proof -
  have p: "keeps E (\<lambda>_ _. True) (call (publish_result S t r) Done) v" for t r v
    by (rule publish_keeps) (auto simp: publish_result_def assms)
  show "keeps E (\<lambda>_ _. True) (handleCreate_prog S (wired_service E topic) subject raw) w"
    unfolding handleCreate_prog_def
    by (auto split: sum.split intro!: life.keeps_andthen [OF commands_keep(1) p])
  show "keeps E (\<lambda>_ _. True) (handleDelete_prog S (wired_service E topic) subject raw) w"
    unfolding handleDelete_prog_def
    by (auto split: sum.split intro!: life.keeps_andthen [OF commands_keep(4) p])
qed

lemma recovery_keeps:
  assumes "eb_Publish (rs_broker R) = KafkaBroker.Publish E"
  shows "keeps E (\<lambda>_ _. True) (recovery_prog R (wired_service E topic) subject raw) w"
proof -
  have op: "keeps E (\<lambda>_ _. True) (recovery_operation_prog (wired_service E topic) command) w" for command w
    unfolding recovery_operation_prog_def Let_def
    by (auto split: sum.split intro!: life.keeps_andthen [OF commands_keep(1)] life.keeps_andthen [OF commands_keep(2)]
        life.keeps_andthen [OF commands_keep(3)] life.keeps_andthen [OF commands_keep(4)])
  have p: "keeps E (\<lambda>_ _. True) (call (\<lambda>s. case rs_encode R (recovery_completed command result userID (rs_now R s)) of
      Inl err \<Rightarrow> (Inl err, s) | Inr body \<Rightarrow> eb_Publish (rs_broker R) (k_RecoveryCompletedTopic (rs_cfg R)) body s) Done) v"
    for command result userID v
    by (rule publish_keeps) (auto simp: assms split: sum.splits)
  show ?thesis
    unfolding recovery_prog_def
    by (auto split: sum.split intro!: life.keeps_andthen [OF op] p)
qed

lemma topic_keeps:
  assumes "start_service P cfg = Inr app"
  shows "keeps (su_world P) (\<lambda>_ _. True) (topic_prog P cfg app t subject payload) w"
proof (cases t)
  case CreateCommands
  with saga_keeps(1) started_parts [OF assms] show ?thesis by (simp add: app_service_def)
next
  case DeleteCommands
  with saga_keeps(2) started_parts [OF assms] show ?thesis by (simp add: app_service_def)
next
  case RecoveryCommands
  with recovery_keeps started_parts [OF assms] show ?thesis by (simp add: app_service_def)
next
  case DetailedRequests
  then show ?thesis
    by (auto simp: relay_prog_def kafka_backed_def intro: publish_keeps)
next
  case DetailedProjections
  then show ?thesis
    by (auto simp: projection_prog_def Let_def simp del: redis_repo_methods split: sum.split
        intro!: life.keeps_call dest: cache_steps(4) [OF _ refl])
qed

end
