(* ===== verification/Concurrency.thy ===== *)
theory Concurrency
  imports SoundCalls
begin

text \<open>
  The running service at the grain of single calls: its gRPC requests and its five consumers are
  programs over the shared stores and the table of claimed events, and any of them may make its
  next call at any time, stop half way, or start again.
\<close>

section \<open>The turn of a consumer\<close>

definition set_shared :: "'s \<Rightarrow> 's consumer \<Rightarrow> 's consumer" where
  "set_shared s c = c\<lparr>cs_state := s\<rparr>"

definition settle_prog :: "'s consumer_env \<Rightarrow> pull_consumer_config \<Rightarrow> kafka_message \<Rightarrow> nat \<Rightarrow> int \<Rightarrow> string
    \<Rightarrow> goerr + unit \<Rightarrow> ('s consumer, outcome) prog" where
  "settle_prog N cfg msg offset attempts event result =
    (case result of
       Inl err \<Rightarrow>
         call (\<lambda>c. ((), note_trace (Handled offset event False)
                  (c\<lparr>cs_state := release_event N event (cs_state c)\<rparr>))) (\<lambda>_.
         call (handler_failed N cfg msg offset attempts err) Done)
     | Inr _ \<Rightarrow>
         call (\<lambda>c. ((), note_trace (Handled offset event True) c)) (\<lambda>_.
         call (commit_message N offset) Done))"

definition message_prog :: "'s consumer_env \<Rightarrow> pull_consumer_config \<Rightarrow> 's handler_prog \<Rightarrow> kafka_message
    \<Rightarrow> nat \<Rightarrow> ('s consumer, outcome) prog" where
  "message_prog N cfg handler msg offset =
    (let attempts = retryAttempt (km_Headers msg);
         event = ce_event N (pc_Subject cfg) (km_Value msg)
     in call (\<lambda>c. case claim_message N event (cs_state c) of
                    (Inl claimErr, s1) \<Rightarrow> (Inl claimErr, c\<lparr>cs_state := s1\<rparr>)
                  | (Inr False, s1) \<Rightarrow> (Inr False, note_trace (Skipped offset event) (c\<lparr>cs_state := s1\<rparr>))
                  | (Inr True, s1) \<Rightarrow> (Inr True, c\<lparr>cs_state := s1\<rparr>)) (\<lambda>claimed.
          case claimed of
            Inl claimErr \<Rightarrow> Done (Return (Some claimErr))
          | Inr False \<Rightarrow> Done Continue
          | Inr True \<Rightarrow>
              (case ce_unwrap N (km_Value msg) of
                 Inl unwrapErr \<Rightarrow>
                   call (\<lambda>c. deadLetterMessage N (pc_Subject cfg) msg offset attempts unwrapErr
                     (note_trace (Unreadable offset) c)) Done
               | Inr unwrapped \<Rightarrow>
                   (let payload = (if HasPrefix (pc_Subject cfg) recovery_prefix then km_Value msg else unwrapped) in
                    andthen (within cs_state set_shared (handler (pc_Subject cfg) payload))
                      (settle_prog N cfg msg offset attempts event)))))"

definition turn_prog :: "'s consumer_env \<Rightarrow> pull_consumer_config \<Rightarrow> 's handler_prog
    \<Rightarrow> ('s consumer, outcome) prog" where
  "turn_prog N cfg handler =
    Call (\<lambda>c. let c = c\<lparr>cs_iter := Suc (cs_iter c)\<rparr> in
      case ce_fetch_err N (cs_iter c) of
        Some err \<Rightarrow> (Done (Return (Some err)), c)
      | None \<Rightarrow>
          if cs_pos c < length (cs_log c) then
            (message_prog N cfg handler (cs_log c ! cs_pos c) (cs_pos c), c\<lparr>cs_pos := Suc (cs_pos c)\<rparr>)
          else (Done (Return (Some (ce_end_err N))), c))"

lemma shared_part [simp]: "part_of cs_state set_shared"
  by (simp add: part_of_def set_shared_def)

lemma run_settle:
  "run (settle_prog N cfg msg offset attempts event r) c =
    (case r of
       Inl err \<Rightarrow> handler_failed N cfg msg offset attempts err
         (note_trace (Handled offset event False) (c\<lparr>cs_state := release_event N event (cs_state c)\<rparr>))
     | Inr _ \<Rightarrow> commit_message N offset (note_trace (Handled offset event True) c))"
  by (cases r) (simp_all add: settle_prog_def case_prod_unfold)

lemma run_message:
  assumes "runs_as p handler"
  shows "run (message_prog N cfg p msg offset) c = handle_message N cfg handler msg offset c"
proof -
  have h: "run (p subject payload) s = handler subject payload s" for subject payload s
    using assms by (simp add: runs_as_def)
  define event where "event = ce_event N (pc_Subject cfg) (km_Value msg)"
  obtain r s1 where c: "claim_message N event (cs_state c) = (r, s1)" by (meson surj_pair)
  consider e where "r = Inl e" | "r = Inr False" | "r = Inr True" by (metis (full_types) sum.exhaust)
  then show ?thesis
  proof cases
    case 3
    define payload where "payload u = (if HasPrefix (pc_Subject cfg) recovery_prefix then km_Value msg else u)" for u
    obtain y s2 where y: "handler (pc_Subject cfg) (payload (projr (ce_unwrap N (km_Value msg)))) s1 = (y, s2)"
      by (meson surj_pair)
    from 3 c y show ?thesis
      unfolding message_prog_def handle_message_def Let_def event_def [symmetric] payload_def [symmetric]
      by (simp add: run_settle h set_shared_def case_prod_unfold split: sum.split)
  qed (use c in \<open>simp_all add: message_prog_def handle_message_def Let_def event_def\<close>)
qed

lemma run_turn:
  assumes "runs_as p handler"
  shows "run (turn_prog N cfg p) c = consume_step N cfg handler c"
  by (auto simp: turn_prog_def consume_step_def Let_def run_message [OF assms] split: option.splits)

section \<open>The service\<close>

record 'c live_system =
  lv_world :: world
  lv_claims :: 'c
  lv_requests :: "(world, grpc_reply) prog list"
  lv_consumers :: "topic \<Rightarrow> (world \<times> 'c) consumer"
  lv_turns :: "topic \<Rightarrow> ((world \<times> 'c) consumer, outcome) prog"

definition set_world :: "world \<Rightarrow> world \<times> 'c \<Rightarrow> world \<times> 'c" where
  "set_world w s = (w, snd s)"

definition live_request :: "'c deployment \<Rightarrow> grpc_request \<Rightarrow> (world, grpc_reply) prog" where
  "live_request d q = request_prog (app_service (dp_startup d) (dp_cfg d)) q"

definition live_handler :: "'c deployment \<Rightarrow> topic \<Rightarrow> (world \<times> 'c) handler_prog" where
  "live_handler d t subject payload =
     within fst set_world (topic_prog (dp_startup d) (dp_cfg d) (dp_app d) t subject payload)"

definition live_turn :: "'c deployment \<Rightarrow> topic \<Rightarrow> ((world \<times> 'c) consumer, outcome) prog" where
  "live_turn d t = turn_prog (topic_env d t) (topic_config (cfg_Kafka (dp_cfg d)) t) (live_handler d t)"

definition consumer_view :: "'c live_system \<Rightarrow> topic \<Rightarrow> (world \<times> 'c) consumer" where
  "consumer_view s t = set_shared (lv_world s, lv_claims s) (lv_consumers s t)"

text \<open>
  A request arrives, makes a call, or leaves, finished or abandoned; a consumer that is ready
  begins a turn, makes a call of it, or stops; a stopped one starts again at its committed offset;
  somebody sends a message to a topic.
\<close>

inductive live_step :: "'c deployment \<Rightarrow> 'c live_system \<Rightarrow> 'c live_system \<Rightarrow> bool" for d where
  arrives: "live_step d s (s\<lparr>lv_requests := lv_requests s @ [live_request d q]\<rparr>)"
| calls: "k < length (lv_requests s) \<Longrightarrow> lv_requests s ! k = Call f \<Longrightarrow> f (lv_world s) = (p, w) \<Longrightarrow>
    live_step d s (s\<lparr>lv_world := w, lv_requests := (lv_requests s)[k := p]\<rparr>)"
| leaves: "live_step d s (s\<lparr>lv_requests := take k (lv_requests s) @ drop (Suc k) (lv_requests s)\<rparr>)"
| begins: "lv_turns s t = Done Continue \<Longrightarrow>
    live_step d s (s\<lparr>lv_turns := (lv_turns s)(t := live_turn d t)\<rparr>)"
| acts: "lv_turns s t = Call f \<Longrightarrow> f (consumer_view s t) = (p, c) \<Longrightarrow>
    live_step d s (s\<lparr>lv_world := fst (cs_state c), lv_claims := snd (cs_state c),
      lv_consumers := (lv_consumers s)(t := c), lv_turns := (lv_turns s)(t := p)\<rparr>)"
| stops: "live_step d s (s\<lparr>lv_turns := (lv_turns s)(t := Done (Return None))\<rparr>)"
| restarts: "lv_turns s t = Done (Return r) \<Longrightarrow>
    live_step d s (s\<lparr>lv_consumers := (lv_consumers s)(t := (lv_consumers s t)\<lparr>cs_pos := cs_committed (lv_consumers s t)\<rparr>),
      lv_turns := (lv_turns s)(t := Done Continue)\<rparr>)"
| sends: "live_step d s (s\<lparr>lv_consumers := (lv_consumers s)(t := (lv_consumers s t)\<lparr>cs_log := cs_log (lv_consumers s t) @ [m]\<rparr>)\<rparr>)"

definition initial_live :: "'c \<Rightarrow> 'c live_system" where
  "initial_live claims = \<lparr>lv_world = empty_world, lv_claims = claims, lv_requests = [],
     lv_consumers = (\<lambda>_. fresh_consumer [] (empty_world, claims)), lv_turns = (\<lambda>_. Done Continue)\<rparr>"

section \<open>The stores\<close>

definition consumer_world :: "(world \<times> 'c) consumer \<Rightarrow> world" where
  "consumer_world c = fst (cs_state c)"

definition consumer_sound :: "env \<Rightarrow> (world \<times> 'c) consumer \<Rightarrow> bool" where
  "consumer_sound E c \<longleftrightarrow> sound E (consumer_world c)"

definition consumer_grows :: "(world \<times> 'c) consumer \<Rightarrow> (world \<times> 'c) consumer \<Rightarrow> bool" where
  "consumer_grows c c' \<longleftrightarrow> grows (consumer_world c) (consumer_world c')"

definition consumer_does :: "(world \<Rightarrow> world \<Rightarrow> bool) \<Rightarrow> (world \<times> 'c) consumer \<Rightarrow> (world \<times> 'c) consumer \<Rightarrow> bool" where
  "consumer_does G c c' \<longleftrightarrow> G (consumer_world c) (consumer_world c')"

interpretation loop: rely_guarantee "consumer_sound E" consumer_grows "consumer_does G" for E G
  by unfold_locales (auto simp: consumer_grows_def intro: life.rely_refl life.rely_trans)

text \<open>What each call of a program, of a turn and of everything in progress does to the stores is within \<open>G\<close>.\<close>

abbreviation does :: "(world \<Rightarrow> world \<Rightarrow> bool) \<Rightarrow> env \<Rightarrow> ('a \<Rightarrow> world \<Rightarrow> bool) \<Rightarrow> (world, 'a) prog \<Rightarrow> world \<Rightarrow> bool" where
  "does G E \<equiv> keeps_to (sound E) grows G"

abbreviation turn_does :: "(world \<Rightarrow> world \<Rightarrow> bool) \<Rightarrow> env \<Rightarrow> ((world \<times> 'c) consumer, 'a) prog
    \<Rightarrow> (world \<times> 'c) consumer \<Rightarrow> bool" where
  "turn_does G E \<equiv> keeps_to (consumer_sound E) consumer_grows (consumer_does G) (\<lambda>_ _. True)"

definition live_sound :: "(world \<Rightarrow> world \<Rightarrow> bool) \<Rightarrow> 'c deployment \<Rightarrow> 'c live_system \<Rightarrow> bool" where
  "live_sound G d s \<longleftrightarrow> sound (su_world (dp_startup d)) (lv_world s) \<and>
     (\<forall>p\<in>set (lv_requests s). does G (su_world (dp_startup d)) reply_true p (lv_world s)) \<and>
     (\<forall>t. turn_does G (su_world (dp_startup d)) (lv_turns s t) (consumer_view s t))"

text \<open>Whether the programs of a deployment keep within \<open>G\<close> when nothing is in progress.\<close>

definition within_guarantee :: "(world \<Rightarrow> world \<Rightarrow> bool) \<Rightarrow> 'c deployment \<Rightarrow> bool" where
  "within_guarantee G d \<longleftrightarrow>
     (\<forall>q w. does G (su_world (dp_startup d)) reply_true (live_request d q) w) \<and>
     (\<forall>t subject payload w. does G (su_world (dp_startup d)) (\<lambda>_ _. True)
        (topic_prog (dp_startup d) (dp_cfg d) (dp_app d) t subject payload) w)"

lemma world_part [simp]: "part_of fst set_world"
  by (simp add: part_of_def set_world_def)

lemma note_trace_world [simp]: "consumer_world (note_trace e c) = consumer_world c"
  by (simp add: note_trace_def consumer_world_def)

lemma request_world:
  "request f x act c = (y, c') \<Longrightarrow> (\<And>c. consumer_world (act c) = consumer_world c) \<Longrightarrow>
     consumer_world c' = consumer_world c"
  by (auto simp: request_def split: fault.splits)

lemma handler_failed_world: "handler_failed N cfg msg offset n err c = (x, c') \<Longrightarrow> consumer_world c' = consumer_world c"
  by (auto simp: handler_failed_def deadLetterMessage_def Let_def split: if_splits dest!: request_world)
    (simp_all add: consumer_world_def note_trace_def)

lemma deadLetter_world: "deadLetterMessage N subject msg offset n err c = (x, c') \<Longrightarrow> consumer_world c' = consumer_world c"
  by (auto simp: deadLetterMessage_def Let_def dest!: request_world)
    (simp_all add: consumer_world_def note_trace_def)

lemma commit_world: "commit_message N offset c = (x, c') \<Longrightarrow> consumer_world c' = consumer_world c"
  by (auto simp: commit_message_def dest!: request_world) (simp_all add: consumer_world_def note_trace_def)

lemma claims_world:
  assumes "ce_db N = Some (on_claims D)"
  shows "fst (snd (claim_message N ev s)) = fst s" "fst (release_event N ev s) = fst s"
  using assms by (simp_all add: claim_message_def release_event_def on_claims_def case_prod_unfold)

lemma consumer_view_world [simp]: "consumer_world (consumer_view s t) = lv_world s"
  by (simp add: consumer_view_def consumer_world_def set_shared_def)

lemma reply_later: "grows w w' \<Longrightarrow> reply_true r w \<Longrightarrow> reply_true r w'"
  by (auto simp: reply_true_def grows_shown split: grpc_reply.splits sum.splits)

text \<open>A relation between the stores before and after a call, within which the outbox only grows.\<close>

locale world_guarantee =
  fixes G :: "world \<Rightarrow> world \<Rightarrow> bool"
  assumes G_refl: "G w w"
    and G_grows: "G w w' \<Longrightarrow> grows w w'"
begin

lemma quiet_call:
  assumes "\<And>c a c'. act c = (a, c') \<Longrightarrow> consumer_world c' = consumer_world c"
    and "\<And>a c. turn_does G E (k a) c"
  shows "turn_does G E (call act k) c"
proof (rule loop.keeps_call)
  fix t a t'
  assume "consumer_sound E t" "act t = (a, t')"
  with assms(1) [of t a t'] assms(2) show "consumer_sound E t' \<and> consumer_does G t t' \<and> turn_does G E (k a) t'"
    by (simp add: consumer_sound_def consumer_does_def G_refl)
qed

lemma settle_keeps:
  assumes "ce_db N = Some (on_claims D)"
  shows "turn_does G E (settle_prog N cfg msg offset attempts event r) c"
proof (cases r)
  case (Inl err)
  show ?thesis
    unfolding Inl settle_prog_def sum.case
  proof (intro quiet_call)
    show "consumer_world c' = consumer_world c"
      if "((), note_trace (Handled offset event False) (c\<lparr>cs_state := release_event N event (cs_state c)\<rparr>)) = (a, c')" for a c c'
      using that claims_world(2) [OF assms, of event "cs_state c"] by (auto simp: consumer_world_def note_trace_def)
  qed (auto dest: handler_failed_world)
next
  case (Inr u)
  show ?thesis
    unfolding Inr settle_prog_def sum.case by (intro quiet_call) (auto dest: commit_world)
qed

lemma handler_in_turn:
  assumes "does G E (\<lambda>_ _. True) p (consumer_world c)"
  shows "turn_does G E (within cs_state set_shared (within fst set_world p)) c"
proof -
  have "keeps_to (\<lambda>s. sound E (fst s)) (\<lambda>s s'. grows (fst s) (fst s')) (\<lambda>s s'. G (fst s) (fst s')) (\<lambda>_ _. True)
      (within fst set_world p) (cs_state c)"
    by (rule keeps_within [OF world_part, of "sound E" grows G "\<lambda>_ _. True"])
      (use assms in \<open>simp_all add: consumer_world_def set_world_def\<close>)
  then show ?thesis
    by (rule keeps_within [where rely = "\<lambda>s s'. grows (fst s) (fst s')" and safe = "\<lambda>s. sound E (fst s)", OF shared_part])
      (simp_all add: consumer_sound_def consumer_grows_def consumer_does_def consumer_world_def set_shared_def)
qed

lemma message_keeps:
  assumes "ce_db N = Some (on_claims D)" and "\<And>subject payload w. does G E (\<lambda>_ _. True) (h subject payload) w"
  shows "turn_does G E (message_prog N cfg (\<lambda>subject payload. within fst set_world (h subject payload)) msg offset) c"
  unfolding message_prog_def Let_def
proof (rule quiet_call)
  define event where "event = ce_event N (pc_Subject cfg) (km_Value msg)"
  fix c a c'
  assume "(case claim_message N (ce_event N (pc_Subject cfg) (km_Value msg)) (cs_state c) of
        (Inl claimErr, s1) \<Rightarrow> (Inl claimErr, c\<lparr>cs_state := s1\<rparr>)
      | (Inr False, s1) \<Rightarrow> (Inr False, note_trace (Skipped offset (ce_event N (pc_Subject cfg) (km_Value msg))) (c\<lparr>cs_state := s1\<rparr>))
      | (Inr True, s1) \<Rightarrow> (Inr True, c\<lparr>cs_state := s1\<rparr>)) = (a, c')"
  with claims_world(1) [OF assms(1), of event "cs_state c"] show "consumer_world c' = consumer_world c"
    by (auto simp: event_def [symmetric] consumer_world_def note_trace_def split: prod.splits sum.splits bool.splits)
next
  fix a :: "goerr + bool" and c
  have d: "turn_does G E (call (\<lambda>c. deadLetterMessage N (pc_Subject cfg) msg offset n err
      (note_trace (Unreadable offset) c)) Done) c" for n err
    by (rule quiet_call) (auto dest: deadLetter_world)
  have h: "turn_does G E (andthen (within cs_state set_shared (within fst set_world (h subject payload)))
      (settle_prog N cfg msg offset n event)) c" for subject payload n event
    by (rule loop.keeps_andthen [OF handler_in_turn [OF assms(2)] settle_keeps [OF assms(1)]])
  show "turn_does G E (case a of Inl claimErr \<Rightarrow> Done (Return (Some claimErr)) | Inr False \<Rightarrow> Done Continue
      | Inr True \<Rightarrow> (case ce_unwrap N (km_Value msg) of
           Inl unwrapErr \<Rightarrow> call (\<lambda>c. deadLetterMessage N (pc_Subject cfg) msg offset (retryAttempt (km_Headers msg)) unwrapErr
             (note_trace (Unreadable offset) c)) Done
         | Inr unwrapped \<Rightarrow> andthen (within cs_state set_shared (within fst set_world (h (pc_Subject cfg)
             (if HasPrefix (pc_Subject cfg) recovery_prefix then km_Value msg else unwrapped))))
             (settle_prog N cfg msg offset (retryAttempt (km_Headers msg)) (ce_event N (pc_Subject cfg) (km_Value msg))))) c"
    using d h by (auto split: sum.split bool.split)
qed

lemma turn_keeps_sound:
  fixes d :: "'c deployment"
  assumes "within_guarantee G d"
  shows "turn_does G (su_world (dp_startup d)) (live_turn d t) c"
  unfolding live_turn_def turn_prog_def keeps_to_Call
proof (intro allI impI)
  let ?E = "su_world (dp_startup d)" and ?N = "topic_env d t" and ?cfg = "topic_config (cfg_Kafka (dp_cfg d)) t"
  fix c' c'' :: "(world \<times> 'c) consumer" and q
  assume c: "consumer_sound ?E c'"
    and q: "(let c = c'\<lparr>cs_iter := Suc (cs_iter c')\<rparr> in case ce_fetch_err ?N (cs_iter c) of
        Some err \<Rightarrow> (Done (Return (Some err)), c)
      | None \<Rightarrow> if cs_pos c < length (cs_log c)
          then (message_prog ?N ?cfg (live_handler d t) (cs_log c ! cs_pos c) (cs_pos c), c\<lparr>cs_pos := Suc (cs_pos c)\<rparr>)
          else (Done (Return (Some (ce_end_err ?N))), c)) = (q, c'')"
  have m: "turn_does G ?E (message_prog ?N ?cfg (live_handler d t) msg offset) v" for msg offset v
    unfolding live_handler_def
    by (rule message_keeps [of _ "dp_claims d"])
      (use assms in \<open>simp_all add: topic_env_def within_guarantee_def\<close>)
  have "consumer_world c'' = consumer_world c'"
    using q by (auto simp: Let_def consumer_world_def split: option.splits if_splits)
  moreover have "turn_does G ?E q c''"
    using q m by (auto simp: Let_def split: option.splits if_splits)
  ultimately show "consumer_sound ?E c'' \<and> consumer_does G c' c'' \<and> turn_does G ?E q c''"
    using c by (simp add: consumer_sound_def consumer_does_def G_refl)
qed

lemma turn_later:
  assumes "turn_does G E p c" and "grows (consumer_world c) (consumer_world c')"
  shows "turn_does G E p c'"
  by (rule loop.keeps_later [OF assms(1)]) (use assms(2) in \<open>simp_all add: consumer_grows_def\<close>)

lemma live_sound_later:
  assumes "live_sound G d s" and "grows (lv_world s) (lv_world s')" and "sound (su_world (dp_startup d)) (lv_world s')"
    and "\<And>p. p \<in> set (lv_requests s') \<Longrightarrow> p \<in> set (lv_requests s) \<or> does G (su_world (dp_startup d)) reply_true p (lv_world s')"
    and "\<And>t. lv_turns s' t = lv_turns s t \<or> turn_does G (su_world (dp_startup d)) (lv_turns s' t) (consumer_view s' t)"
  shows "live_sound G d s'"
  unfolding live_sound_def
proof (intro conjI ballI allI)
  fix p
  assume "p \<in> set (lv_requests s')"
  then consider "p \<in> set (lv_requests s)" | "does G (su_world (dp_startup d)) reply_true p (lv_world s')"
    using assms(4) by blast
  then show "does G (su_world (dp_startup d)) reply_true p (lv_world s')"
  proof cases
    case 1
    with assms(1) have "does G (su_world (dp_startup d)) reply_true p (lv_world s)" by (simp add: live_sound_def)
    then show ?thesis by (rule life.keeps_later [OF _ assms(2)]) (rule reply_later [OF assms(2)])
  qed
next
  fix t
  show "turn_does G (su_world (dp_startup d)) (lv_turns s' t) (consumer_view s' t)"
    using assms(5) [of t]
  proof
    assume t: "lv_turns s' t = lv_turns s t"
    have "turn_does G (su_world (dp_startup d)) (lv_turns s t) (consumer_view s t)"
      using assms(1) by (simp add: live_sound_def)
    then show ?thesis unfolding t by (rule turn_later) (simp add: assms(2))
  qed
qed (rule assms(3))

lemma live_step_sound:
  assumes "within_guarantee G d" "live_step d s s'" "live_sound G d s"
  shows "live_sound G d s' \<and> G (lv_world s) (lv_world s')"
proof -
  let ?E = "su_world (dp_startup d)"
  have s: "sound ?E (lv_world s)" using assms(3) by (simp add: live_sound_def)
  have same: "live_sound G d s' \<and> G (lv_world s) (lv_world s')"
    if "lv_world s' = lv_world s"
      "\<And>p. p \<in> set (lv_requests s') \<Longrightarrow> p \<in> set (lv_requests s) \<or> does G ?E reply_true p (lv_world s')"
      "\<And>t. lv_turns s' t = lv_turns s t \<or> turn_does G ?E (lv_turns s' t) (consumer_view s' t)"
    using live_sound_later [OF assms(3) _ _ that(2,3)] s life.rely_refl G_refl that(1) by simp
  from assms(2) show ?thesis
  proof cases
    case (arrives q)
    have "does G ?E reply_true (live_request d q) w" for w
      using assms(1) by (simp add: within_guarantee_def)
    then show ?thesis by (intro same) (auto simp: arrives)
  next
    case (calls k f p w)
    then have "does G ?E reply_true (Call f) (lv_world s)"
      using assms(3) unfolding live_sound_def by (metis nth_mem)
    then have r: "sound ?E w \<and> G (lv_world s) w \<and> does G ?E reply_true p w"
      using s calls(4) life.rely_refl unfolding keeps_to_Call by blast
    have "live_sound G d s'"
      by (rule live_sound_later [OF assms(3)]) (use calls r G_grows in \<open>auto dest!: set_update_subset_insert [THEN subsetD]\<close>)
    with r calls show ?thesis by simp
  next
    case (leaves k)
    then show ?thesis by (intro same) (auto dest: in_set_takeD in_set_dropD)
  next
    case (begins t)
    then show ?thesis by (intro same) (auto simp: turn_keeps_sound [OF assms(1)])
  next
    case (acts t f p c)
    have "turn_does G ?E (Call f) (consumer_view s t)"
      using assms(3) acts(2) unfolding live_sound_def by metis
    moreover have "consumer_sound ?E (consumer_view s t)" using s by (simp add: consumer_sound_def)
    ultimately have r: "consumer_sound ?E c \<and> consumer_does G (consumer_view s t) c \<and> turn_does G ?E p c"
      using acts(3) loop.rely_refl unfolding keeps_to_Call by blast
    have v: "consumer_view s' t = c" using acts by (simp add: consumer_view_def set_shared_def)
    have "live_sound G d s'"
    proof (rule live_sound_later [OF assms(3)])
      show "grows (lv_world s) (lv_world s')" "sound ?E (lv_world s')"
        using r acts(1) G_grows by (simp_all add: consumer_does_def consumer_sound_def consumer_world_def [of c])
      show "p \<in> set (lv_requests s) \<or> does G ?E reply_true p (lv_world s')" if "p \<in> set (lv_requests s')" for p
        using that acts(1) by simp
      show "lv_turns s' u = lv_turns s u \<or> turn_does G ?E (lv_turns s' u) (consumer_view s' u)" for u
        using r v acts(1) by (cases "u = t") simp_all
    qed
    with r acts(1) show ?thesis by (simp add: consumer_does_def consumer_world_def [of c])
  next
    case (stops t)
    then show ?thesis by (intro same) auto
  next
    case (restarts t r)
    then show ?thesis by (intro same) auto
  next
    case (sends t m)
    then show ?thesis by (intro same) auto
  qed
qed

lemma reachable_sound:
  assumes "within_guarantee G d" "(live_step d)\<^sup>*\<^sup>* s s'" "live_sound G d s"
  shows "live_sound G d s' \<and> G\<^sup>*\<^sup>* (lv_world s) (lv_world s')"
  using assms(2)
proof (induction rule: rtranclp_induct)
  case (step y z)
  with live_step_sound [OF assms(1) step(2)] show ?case by (blast intro: rtranclp.rtrancl_into_rtrancl)
qed (use assms(3) in simp)

end

interpretation growth: world_guarantee grows
  by unfold_locales (simp_all add: life.rely_refl)

lemma deployed_grows: "deployed d \<Longrightarrow> within_guarantee grows d"
  unfolding within_guarantee_def live_request_def app_service_def deployed_def
  using request_keeps topic_keeps by blast

lemma grows_closed: "grows\<^sup>*\<^sup>* w w' \<Longrightarrow> grows w w'"
  by (induction rule: rtranclp_induct) (auto intro: life.rely_refl life.rely_trans)

lemma initial_sound: "env_ok utf8_valid (su_world (dp_startup d)) \<Longrightarrow> live_sound G d (initial_live claims)"
  using empty_world_ok by (simp add: live_sound_def initial_live_def sound_def)

lemma reachable_grows:
  assumes "deployed d" and "env_ok utf8_valid (su_world (dp_startup d))"
    and "(live_step d)\<^sup>*\<^sup>* (initial_live claims) s"
  shows "live_sound grows d s" and "grows empty_world (lv_world s)"
  using growth.reachable_sound [OF deployed_grows [OF assms(1)] assms(3) initial_sound [OF assms(2)]] grows_closed
  by (auto simp: initial_live_def)

end
