(* ===== verification/Claims.thy ===== *)
theory Claims
  imports Concurrency
begin

text \<open>
  The claims and the offsets of the consumers when their calls interleave: a consumer that was
  granted the claim of an event holds its token until the event has succeeded or the claim is
  given back, and what it keeps of its own books no other can change.
\<close>

section \<open>The claims\<close>

text \<open>
  A consumer holds the token of an event from the claim it was granted until the event has
  succeeded or its claim is given back.
\<close>

definition token_step :: "('s \<Rightarrow> string set) \<Rightarrow> string \<Rightarrow> bool \<Rightarrow> 's consumer \<Rightarrow> bool \<Rightarrow> 's consumer \<Rightarrow> bool" where
  "token_step claimed ev own c own' c' \<longleftrightarrow>
    (let held = ev \<in> claimed (cs_state c); held' = ev \<in> claimed (cs_state c');
         n = successes ev (cs_trace c); n' = successes ev (cs_trace c') in
     (own' = own \<and> n' = n \<and> (held \<longrightarrow> held')) \<or>
     (\<not> own \<and> own' \<and> \<not> held \<and> held' \<and> n' = n) \<or>
     (own \<and> \<not> own' \<and> n' = Suc n \<and> (held \<longrightarrow> held')) \<or>
     (own \<and> \<not> own' \<and> n' = n))"

lemma token_quiet:
  "cs_state c' = cs_state c \<Longrightarrow> successes ev (cs_trace c') = successes ev (cs_trace c) \<Longrightarrow>
     token_step claimed ev own c own c'"
  by (simp add: token_step_def)

lemma request_quiet:
  "request f x act c = (y, c') \<Longrightarrow> (\<And>c. cs_state (act c) = cs_state c \<and> successes ev (cs_trace (act c)) = successes ev (cs_trace c)) \<Longrightarrow>
     cs_state c' = cs_state c \<and> successes ev (cs_trace c') = successes ev (cs_trace c)"
  by (auto simp: request_def split: fault.splits)

lemma ends_quiet:
  "handler_failed N cfg msg offset n err c = (x, c') \<Longrightarrow> cs_state c' = cs_state c \<and> successes ev (cs_trace c') = successes ev (cs_trace c)"
  "deadLetterMessage N subject msg offset n err c = (x, c') \<Longrightarrow> cs_state c' = cs_state c \<and> successes ev (cs_trace c') = successes ev (cs_trace c)"
  "commit_message N offset c = (x, c') \<Longrightarrow> cs_state c' = cs_state c \<and> successes ev (cs_trace c') = successes ev (cs_trace c)"
  by (auto simp: handler_failed_def deadLetterMessage_def commit_message_def Let_def note_trace_def request_def
      split: if_splits fault.splits)

lemma token_call:
  assumes "\<And>c a c'. act c = (a, c') \<Longrightarrow> cs_state c' = cs_state c \<and> successes ev (cs_trace c') = successes ev (cs_trace c)"
    and "\<And>a. accounts (token_step claimed ev) (k a) own"
  shows "accounts (token_step claimed ev) (call act k) own"
  by (rule accounts_call) (use assms token_quiet in blast)

lemma settle_accounts:
  fixes claimed :: "'s \<Rightarrow> string set"
  assumes "ce_db N = Some D" "claim_contract D claimed"
  shows "accounts (token_step claimed ev) (settle_prog N cfg msg offset n event r) (event = ev)"
proof (cases r)
  case (Inl err)
  show ?thesis
    unfolding Inl settle_prog_def sum.case
  proof (rule accounts_call)
    fix c a c'
    assume c': "((), note_trace (Handled offset event False) (c\<lparr>cs_state := release_event N event (cs_state c)\<rparr>)) = (a, c')"
    have "claimed (cs_state c) - {event} \<subseteq> claimed (release_event N event (cs_state c))"
      using assms by (simp add: claim_contract_def release_event_def)
    with c' have "token_step claimed ev (event = ev) c False c'"
      by (auto simp: token_step_def note_trace_def)
    moreover have "accounts (token_step claimed ev) (call (handler_failed N cfg msg offset n err) Done) False"
      by (rule token_call, erule ends_quiet(1), simp)
    ultimately show "\<exists>own'. token_step claimed ev (event = ev) c own' c' \<and>
        accounts (token_step claimed ev) (call (handler_failed N cfg msg offset n err) Done) own'"
      by blast
  qed
next
  case (Inr u)
  show ?thesis
    unfolding Inr settle_prog_def sum.case
  proof (rule accounts_call)
    fix c c' :: "'s consumer" and a
    assume "((), note_trace (Handled offset event True) c) = (a, c')"
    then have "token_step claimed ev (event = ev) c False c'"
      by (auto simp: token_step_def note_trace_def)
    moreover have "accounts (token_step claimed ev) (call (commit_message N offset) Done) False"
      by (rule token_call, erule ends_quiet(3), simp)
    ultimately show "\<exists>own'. token_step claimed ev (event = ev) c own' c' \<and>
        accounts (token_step claimed ev) (call (commit_message N offset) Done) own'"
      by blast
  qed
qed

lemma message_accounts:
  fixes claimed :: "'s \<Rightarrow> string set"
  assumes D: "ce_db N = Some D" "claim_contract D claimed"
    and h: "\<And>subject payload own. accounts (\<lambda>own s own' s'. own' = own \<and> claimed s' = claimed s) (h subject payload) (own::bool)"
  shows "accounts (token_step claimed ev) (message_prog N cfg h msg offset) False"
  unfolding message_prog_def Let_def
proof (rule accounts_call)
  define event where "event = ce_event N (pc_Subject cfg) (km_Value msg)"
  define n where "n = retryAttempt (km_Headers msg)"
  fix c c' :: "'s consumer" and a
  obtain r s1 where cl: "cl_ClaimDB D event (cs_state c) = (r, s1)" by (meson surj_pair)
  let ?claim = "\<lambda>c. (case claim_message N event (cs_state c) of
        (Inl claimErr, s1) \<Rightarrow> (Inl claimErr, c\<lparr>cs_state := s1\<rparr>)
      | (Inr False, s1) \<Rightarrow> (Inr False, note_trace (Skipped offset event) (c\<lparr>cs_state := s1\<rparr>))
      | (Inr True, s1) \<Rightarrow> (Inr True, c\<lparr>cs_state := s1\<rparr>))"
  let ?cont = "\<lambda>a. case a of Inl claimErr \<Rightarrow> Done (Return (Some claimErr)) | Inr False \<Rightarrow> Done Continue
      | Inr True \<Rightarrow> (case ce_unwrap N (km_Value msg) of
           Inl unwrapErr \<Rightarrow> call (\<lambda>c. deadLetterMessage N (pc_Subject cfg) msg offset n unwrapErr
             (note_trace (Unreadable offset) c)) Done
         | Inr unwrapped \<Rightarrow> andthen (within cs_state set_shared (h (pc_Subject cfg)
             (if HasPrefix (pc_Subject cfg) recovery_prefix then km_Value msg else unwrapped)))
             (settle_prog N cfg msg offset n event))"
  have after: "accounts (token_step claimed ev) (?cont (Inr True)) (event = ev)"
  proof (cases "ce_unwrap N (km_Value msg)")
    case (Inl err)
    have "accounts (token_step claimed ev) (call (\<lambda>c. deadLetterMessage N (pc_Subject cfg) msg offset n err
        (note_trace (Unreadable offset) c)) Done) (event = ev)"
      by (rule token_call) (auto dest!: ends_quiet(2) [where ev = ev] simp: note_trace_def)
    with Inl show ?thesis by simp
  next
    case (Inr u)
    define p where "p = (if HasPrefix (pc_Subject cfg) recovery_prefix then km_Value msg else u)"
    have "accounts (\<lambda>own c own' c'. own' = own \<and> claimed (cs_state c') = claimed (cs_state c) \<and> cs_trace c' = cs_trace c)
        (within cs_state set_shared (h (pc_Subject cfg) p)) (event = ev)"
      by (rule accounts_within [where R = "\<lambda>own s own' s'. own' = own \<and> claimed s' = claimed s", OF h])
        (simp add: set_shared_def)
    then have "accounts (token_step claimed ev) (andthen (within cs_state set_shared (h (pc_Subject cfg) p))
        (settle_prog N cfg msg offset n event)) (event = ev)"
      by (rule accounts_andthen [OF _ settle_accounts [OF D]]) (simp add: token_step_def)
    with Inr show ?thesis by (simp add: p_def)
  qed
  assume q: "?claim c = (a, c')"
  show "\<exists>own'. token_step claimed ev False c own' c' \<and> accounts (token_step claimed ev) (?cont a) own'"
  proof (rule claim_contract_cases [OF D(2) cl], goal_cases)
    case (1 e)
    with D(1) cl q have "token_step claimed ev False c False c'" "a = Inl e"
      by (auto simp: claim_message_def token_step_def)
    then show ?case by auto
  next
    case 2
    with D(1) cl q have "token_step claimed ev False c False c'" "a = Inr False"
      by (auto simp: claim_message_def token_step_def note_trace_def)
    then show ?case by auto
  next
    case 3
    with D(1) cl q have "token_step claimed ev False c (event = ev) c'" "a = Inr True"
      by (auto simp: claim_message_def token_step_def)
    with after show ?case by blast
  qed
qed

lemma turn_accounts:
  fixes d :: "'c deployment"
  assumes "claim_contract (dp_claims d) claimed"
  shows "accounts (token_step (\<lambda>s. claimed (snd s)) ev) (live_turn d t) False"
  unfolding live_turn_def turn_prog_def accounts_Call
proof (intro allI impI)
  let ?N = "topic_env d t" and ?cfg = "topic_config (cfg_Kafka (dp_cfg d)) t"
  fix c c' :: "(world \<times> 'c) consumer" and q
  assume q: "(let c = c\<lparr>cs_iter := Suc (cs_iter c)\<rparr> in case ce_fetch_err ?N (cs_iter c) of
        Some err \<Rightarrow> (Done (Return (Some err)), c)
      | None \<Rightarrow> if cs_pos c < length (cs_log c)
          then (message_prog ?N ?cfg (live_handler d t) (cs_log c ! cs_pos c) (cs_pos c), c\<lparr>cs_pos := Suc (cs_pos c)\<rparr>)
          else (Done (Return (Some (ce_end_err ?N))), c)) = (q, c')"
  have h: "accounts (\<lambda>own s own' s'. own' = own \<and> claimed (snd s') = claimed (snd s)) (live_handler d t subject payload) own"
    for subject payload and own :: bool
    unfolding live_handler_def
    by (rule accounts_within [where R = "\<lambda>own _ own' _. own' = own", OF accounts_free]) (simp add: set_world_def)
  have m: "accounts (token_step (\<lambda>s. claimed (snd s)) ev) (message_prog ?N ?cfg (live_handler d t) msg offset) False" for msg offset
    by (rule message_accounts [OF _ on_claims_contract [OF assms] h]) (simp add: topic_env_def)
  have "token_step (\<lambda>s. claimed (snd s)) ev False c False c'"
    using q by (auto simp: Let_def intro!: token_quiet split: option.splits if_splits)
  moreover have "accounts (token_step (\<lambda>s. claimed (snd s)) ev) q False"
    using q m by (auto simp: Let_def split: option.splits if_splits)
  ultimately show "\<exists>own'. token_step (\<lambda>s. claimed (snd s)) ev False c own' c' \<and>
      accounts (token_step (\<lambda>s. claimed (snd s)) ev) q own'" by blast
qed

definition live_successes :: "string \<Rightarrow> 'c live_system \<Rightarrow> nat" where
  "live_successes ev s = sum_list (map (\<lambda>t. successes ev (cs_trace (lv_consumers s t))) all_topics)"

definition tokens :: "(topic \<Rightarrow> bool) \<Rightarrow> nat" where
  "tokens own = sum_list (map (\<lambda>t. of_bool (own t)) all_topics)"

text \<open>At most one consumer holds the token of an event, and none once the event has succeeded.\<close>

definition claims_ok :: "('c \<Rightarrow> string set) \<Rightarrow> string \<Rightarrow> 'c live_system \<Rightarrow> bool" where
  "claims_ok claimed ev s \<longleftrightarrow> (\<exists>own.
     (\<forall>t. accounts (token_step (\<lambda>s. claimed (snd s)) ev) (lv_turns s t) (own t)) \<and>
     live_successes ev s + tokens own \<le> 1 \<and>
     (live_successes ev s + tokens own > 0 \<longrightarrow> ev \<in> claimed (lv_claims s)))"

lemma all_topics_set: "set all_topics = UNIV"
proof -
  have "t \<in> set all_topics" for t by (cases t) (simp_all add: all_topics_def)
  then show ?thesis by blast
qed

lemma sum_update:
  fixes f g :: "topic \<Rightarrow> nat"
  assumes "\<And>u. u \<noteq> t \<Longrightarrow> g u = f u"
  shows "sum_list (map g all_topics) + f t = sum_list (map f all_topics) + g t"
  by (cases t) (use assms in \<open>simp_all add: all_topics_def\<close>)

lemma live_successes_same:
  "(\<And>t. cs_trace (lv_consumers s' t) = cs_trace (lv_consumers s t)) \<Longrightarrow> live_successes ev s' = live_successes ev s"
  by (simp add: live_successes_def)

lemma tokens_drop: "tokens (own(t := False)) \<le> tokens own"
  using sum_update [of t "\<lambda>u. of_bool ((own(t := False)) u)" "\<lambda>u. of_bool (own u)"] by (simp add: tokens_def)

lemma live_step_claims:
  assumes "claim_contract (dp_claims d) claimed" "live_step d s s'" "claims_ok claimed ev s"
  shows "claims_ok claimed ev s'"
proof -
  let ?R = "token_step (\<lambda>s. claimed (snd s)) ev"
  obtain own where own: "\<And>t. accounts ?R (lv_turns s t) (own t)" "live_successes ev s + tokens own \<le> 1"
    "live_successes ev s + tokens own > 0 \<longrightarrow> ev \<in> claimed (lv_claims s)"
    using assms(3) [unfolded claims_ok_def] by (elim exE conjE) (rule that, erule spec, assumption+)
  have same: "claims_ok claimed ev s'"
    if "lv_claims s' = lv_claims s" "\<And>t. cs_trace (lv_consumers s' t) = cs_trace (lv_consumers s t)"
      "\<And>t. accounts ?R (lv_turns s' t) (own' t)" "tokens own' \<le> tokens own" for own'
    unfolding claims_ok_def
    by (intro exI [of _ own'] conjI allI impI)
      (use own that live_successes_same [of s' s ev] in auto)
  from assms(2) show ?thesis
  proof cases
    case (begins t)
    have "accounts ?R (lv_turns s' u) ((own(t := False)) u)" for u
      using own(1) [of u] begins turn_accounts [OF assms(1)] by simp
    then show ?thesis by (rule same [rotated 2, OF _ tokens_drop]) (simp_all add: begins)
  next
    case (acts t f p c)
    have "accounts ?R (Call f) (own t)" using own(1) [of t] acts(2) by simp
    with acts(3) obtain own' where st: "?R (own t) (consumer_view s t) own' c" "accounts ?R p own'"
      unfolding accounts_Call by blast
    have n: "live_successes ev s' + successes ev (cs_trace (lv_consumers s t)) =
        live_successes ev s + successes ev (cs_trace c)"
      using sum_update [of t "\<lambda>u. successes ev (cs_trace (lv_consumers s' u))" "\<lambda>u. successes ev (cs_trace (lv_consumers s u))"]
        acts(1) by (simp add: live_successes_def)
    have k: "tokens (own(t := own')) + of_bool (own t) = tokens own + of_bool own'"
      using sum_update [of t "\<lambda>u. of_bool ((own(t := own')) u)" "\<lambda>u. of_bool (own u)"] by (simp add: tokens_def)
    have v: "cs_trace (consumer_view s t) = cs_trace (lv_consumers s t)" "snd (cs_state (consumer_view s t)) = lv_claims s"
      by (simp_all add: consumer_view_def set_shared_def)
    show ?thesis
      unfolding claims_ok_def
    proof (intro exI [of _ "own(t := own')"] conjI allI)
      show "accounts ?R (lv_turns s' u) ((own(t := own')) u)" for u
        using own(1) [of u] st(2) acts(1) by simp
      show "live_successes ev s' + tokens (own(t := own')) \<le> 1"
        using st(1) n k own(2,3) unfolding token_step_def Let_def v by auto
      show "live_successes ev s' + tokens (own(t := own')) > 0 \<longrightarrow> ev \<in> claimed (lv_claims s')"
        using st(1) n k own(2,3) acts(1) unfolding token_step_def Let_def v by auto
    qed
  next
    case (stops t)
    have "accounts ?R (lv_turns s' u) ((own(t := False)) u)" for u
      using own(1) [of u] stops by simp
    then show ?thesis by (rule same [rotated 2, OF _ tokens_drop]) (simp_all add: stops)
  next
    case (restarts t r)
    have "accounts ?R (lv_turns s' u) ((own(t := False)) u)" for u
      using own(1) [of u] restarts by simp
    then show ?thesis by (rule same [rotated 2, OF _ tokens_drop]) (simp_all add: restarts)
  qed (rule same [of own]; simp add: own(1))+
qed

lemma reachable_claims:
  assumes "claim_contract (dp_claims d) claimed" "(live_step d)\<^sup>*\<^sup>* s s'" "claims_ok claimed ev s"
  shows "claims_ok claimed ev s'"
  using assms(2,3) by (induction rule: rtranclp_induct) (auto dest: live_step_claims [OF assms(1)])

lemma initial_claims_ok: "claims_ok claimed ev (initial_live claims)"
  by (auto simp: claims_ok_def initial_live_def live_successes_def tokens_def all_topics_def fresh_consumer_def
      intro!: exI [of _ "\<lambda>_. False"])

section \<open>The offsets\<close>

text \<open>What a consumer keeps of its own books between two of its calls.\<close>

definition same_books :: "'s consumer \<Rightarrow> 's consumer \<Rightarrow> bool" where
  "same_books c c' \<longleftrightarrow> cs_trace c' = cs_trace c \<and> cs_pos c' = cs_pos c \<and> cs_committed c' = cs_committed c"

definition settled_below :: "nat \<Rightarrow> 's consumer \<Rightarrow> bool" where
  "settled_below n c \<longleftrightarrow> (\<forall>k<n. settled (cs_trace c) k)"

definition ready :: "outcome \<Rightarrow> 's consumer \<Rightarrow> bool" where
  "ready x c \<longleftrightarrow> (x = Continue \<longrightarrow> settled_below (cs_pos c) c)"

interpretation books: rely_guarantee commits_settled same_books "\<lambda>_ _. True"
  by unfold_locales (auto simp: same_books_def)

abbreviation keeps_books :: "('a \<Rightarrow> 's consumer \<Rightarrow> bool) \<Rightarrow> ('s consumer, 'a) prog \<Rightarrow> 's consumer \<Rightarrow> bool" where
  "keeps_books \<equiv> keeps_to commits_settled same_books (\<lambda>_ _. True)"

definition at_message :: "nat \<Rightarrow> 's consumer \<Rightarrow> bool" where
  "at_message offset c \<longleftrightarrow> settled_below offset c \<and> cs_pos c = Suc offset"

lemma at_message_same: "same_books c c' \<Longrightarrow> at_message offset c \<Longrightarrow> at_message offset c'"
  by (simp add: same_books_def at_message_def settled_below_def)

lemma settled_below_Suc: "settled_below (Suc n) c \<longleftrightarrow> settled_below n c \<and> settled (cs_trace c) n"
  by (auto simp: settled_below_def less_Suc_eq)

lemmas end_defs = handler_failed_def deadLetterMessage_def commit_message_def note_trace_def request_def

lemma settle_books:
  assumes "at_message offset c"
  shows "keeps_books ready (settle_prog N cfg msg offset n event r) c"
proof (cases r)
  case (Inl err)
  show ?thesis
    unfolding Inl settle_prog_def sum.case
  proof (rule books.keeps_call)
    fix t a t'
    assume t: "commits_settled t" "same_books c t"
      "((), note_trace (Handled offset event False) (t\<lparr>cs_state := release_event N event (cs_state t)\<rparr>)) = (a, t')"
    have at: "at_message offset t'" "commits_settled t'"
      using t assms by (auto simp: at_message_def settled_below_def same_books_def note_trace_def commits_settled_def)
    have "keeps_books ready (call (handler_failed N cfg msg offset n err) Done) t'"
    proof (rule books.keeps_call)
      fix u b u'
      assume u: "commits_settled u" "same_books t' u" "handler_failed N cfg msg offset n err u = (b, u')"
      have "at_message offset u" using u(2) at(1) by (rule at_message_same)
      with u(1,3) show "commits_settled u' \<and> True \<and> keeps_books ready (Done b) u'"
        by (auto simp: end_defs ready_def at_message_def settled_below_Suc settled_below_def
            commits_settled_def Let_def split: if_splits fault.splits)
    qed
    with at show "commits_settled t' \<and> True \<and> keeps_books ready (call (handler_failed N cfg msg offset n err) Done) t'"
      by simp
  qed
next
  case (Inr x)
  show ?thesis
    unfolding Inr settle_prog_def sum.case
  proof (rule books.keeps_call)
    fix t a t'
    assume t: "commits_settled t" "same_books c t" "((), note_trace (Handled offset event True) t) = (a, t')"
    have at: "settled_below (Suc offset) t'" "cs_pos t' = Suc offset" "commits_settled t'"
      using t assms
      by (auto simp: at_message_def settled_below_Suc settled_below_def same_books_def note_trace_def commits_settled_def)
    have "keeps_books ready (call (commit_message N offset) Done) t'"
    proof (rule books.keeps_call)
      fix u b u'
      assume u: "commits_settled u" "same_books t' u" "commit_message N offset u = (b, u')"
      have "settled_below (Suc offset) u" "cs_pos u = Suc offset"
        using u(2) at by (simp_all add: same_books_def settled_below_def)
      with u(1,3) show "commits_settled u' \<and> True \<and> keeps_books ready (Done b) u'"
        by (auto simp: commit_message_def note_trace_def request_def ready_def settled_below_def commits_settled_def
            split: fault.splits)
    qed
    with at show "commits_settled t' \<and> True \<and> keeps_books ready (call (commit_message N offset) Done) t'"
      by simp
  qed
qed

lemma within_books:
  assumes "at_message offset c"
  shows "keeps_books (\<lambda>_. at_message offset) (within cs_state set_shared p) c"
  using assms
proof (induction p arbitrary: c rule: prog_induct)
  case (Call f)
  show ?case
    unfolding within.simps keeps_to_Call
  proof (intro allI impI)
    fix t q t'
    assume t: "commits_settled t" "same_books c t"
      and q: "(case map_prod (within cs_state set_shared) (\<lambda>s. s) (f (cs_state t)) of (p, s) \<Rightarrow> (p, set_shared s t)) = (q, t')"
    obtain p s where p: "f (cs_state t) = (p, s)" by (meson surj_pair)
    with q have q: "q = within cs_state set_shared p" "t' = set_shared s t" by simp_all
    have "at_message offset t'" "commits_settled t'"
      using at_message_same [OF t(2) Call.prems] t(1) q(2)
      by (simp_all add: set_shared_def at_message_def settled_below_def commits_settled_def)
    with Call.IH [OF p] q show "commits_settled t' \<and> True \<and> keeps_books (\<lambda>_. at_message offset) q t'" by simp
  qed
qed simp

lemma ready_same: "same_books c c' \<Longrightarrow> ready x c \<Longrightarrow> ready x c'"
  by (simp add: same_books_def ready_def settled_below_def)

lemma message_books:
  assumes "at_message offset c"
  shows "keeps_books ready (message_prog N cfg h msg offset) c"
  unfolding message_prog_def Let_def
proof (rule books.keeps_call)
  define event where "event = ce_event N (pc_Subject cfg) (km_Value msg)"
  define n where "n = retryAttempt (km_Headers msg)"
  fix t a t'
  assume t: "commits_settled t" "same_books c t"
    and q: "(case claim_message N event (cs_state t) of
        (Inl claimErr, s1) \<Rightarrow> (Inl claimErr, t\<lparr>cs_state := s1\<rparr>)
      | (Inr False, s1) \<Rightarrow> (Inr False, note_trace (Skipped offset event) (t\<lparr>cs_state := s1\<rparr>))
      | (Inr True, s1) \<Rightarrow> (Inr True, t\<lparr>cs_state := s1\<rparr>)) = (a, t')"
  have at: "at_message offset t" using t(2) assms by (rule at_message_same)
  obtain r s1 where r: "claim_message N event (cs_state t) = (r, s1)" by (meson surj_pair)
  let ?cont = "\<lambda>a. case a of Inl claimErr \<Rightarrow> Done (Return (Some claimErr)) | Inr False \<Rightarrow> Done Continue
      | Inr True \<Rightarrow> (case ce_unwrap N (km_Value msg) of
           Inl unwrapErr \<Rightarrow> call (\<lambda>c. deadLetterMessage N (pc_Subject cfg) msg offset n unwrapErr
             (note_trace (Unreadable offset) c)) Done
         | Inr unwrapped \<Rightarrow> andthen (within cs_state set_shared (h (pc_Subject cfg)
             (if HasPrefix (pc_Subject cfg) recovery_prefix then km_Value msg else unwrapped)))
             (settle_prog N cfg msg offset n event))"
  have go: "keeps_books ready (?cont (Inr True)) v" if v: "at_message offset v" for v
  proof (cases "ce_unwrap N (km_Value msg)")
    case (Inl err)
    have "keeps_books ready (call (\<lambda>c. deadLetterMessage N (pc_Subject cfg) msg offset n err
        (note_trace (Unreadable offset) c)) Done) v"
      by (rule books.keeps_call)
        (auto simp: deadLetterMessage_def note_trace_def request_def ready_def commits_settled_def Let_def split: fault.splits)
    with Inl show ?thesis by simp
  next
    case (Inr u)
    define p where "p = (if HasPrefix (pc_Subject cfg) recovery_prefix then km_Value msg else u)"
    have "keeps_to commits_settled same_books (\<lambda>_ _. True) (\<lambda>_. at_message offset)
        (within cs_state set_shared (h (pc_Subject cfg) p)) v"
      by (rule within_books [OF v])
    then have "keeps_books ready (andthen (within cs_state set_shared (h (pc_Subject cfg) p))
        (settle_prog N cfg msg offset n event)) v"
      by (rule books.keeps_andthen [OF _ settle_books])
    with Inr show ?thesis by (simp add: p_def)
  qed
  show "commits_settled t' \<and> True \<and> keeps_books ready (?cont a) t'"
  proof -
    consider e where "r = Inl e" | "r = Inr False" | "r = Inr True" by (metis (full_types) sum.exhaust)
    then show ?thesis
    proof cases
      case 2
      with q r t at show ?thesis
        by (auto simp: ready_def at_message_def settled_below_Suc settled_below_def note_trace_def commits_settled_def)
    next
      case 3
      then have "t' = t\<lparr>cs_state := s1\<rparr>" "a = Inr True" using q r by auto
      moreover from this have "at_message offset t'" "commits_settled t'"
        using at t(1) by (simp_all add: at_message_def settled_below_def commits_settled_def)
      ultimately show ?thesis using go by simp
    qed (use q r t in \<open>auto simp: ready_def commits_settled_def\<close>)
  qed
qed

lemma turn_books:
  assumes "settled_below (cs_pos c) c"
  shows "keeps_books ready (turn_prog N cfg h) c"
  unfolding turn_prog_def keeps_to_Call
proof (intro allI impI)
  fix t q t'
  assume t: "commits_settled t" "same_books c t"
    and q: "(let c = t\<lparr>cs_iter := Suc (cs_iter t)\<rparr> in case ce_fetch_err N (cs_iter c) of
        Some err \<Rightarrow> (Done (Return (Some err)), c)
      | None \<Rightarrow> if cs_pos c < length (cs_log c)
          then (message_prog N cfg h (cs_log c ! cs_pos c) (cs_pos c), c\<lparr>cs_pos := Suc (cs_pos c)\<rparr>)
          else (Done (Return (Some (ce_end_err N))), c)) = (q, t')"
  have b: "settled_below (cs_pos t) t" using t(2) assms by (simp add: same_books_def settled_below_def)
  have "keeps_books ready (message_prog N cfg h msg (cs_pos t)) (t\<lparr>cs_iter := i, cs_pos := Suc (cs_pos t)\<rparr>)" for msg i
    by (rule message_books) (use b in \<open>simp add: at_message_def settled_below_def\<close>)
  with q t(1) show "commits_settled t' \<and> True \<and> keeps_books ready q t'"
    by (auto simp: Let_def ready_def commits_settled_def split: option.splits if_splits)
qed

definition books_ok :: "'c live_system \<Rightarrow> topic \<Rightarrow> bool" where
  "books_ok s t \<longleftrightarrow> commits_settled (lv_consumers s t) \<and> keeps_books ready (lv_turns s t) (lv_consumers s t)"

lemma live_step_books:
  assumes "live_step d s s'" "books_ok s t"
  shows "books_ok s' t"
  using assms(1)
proof cases
  case (begins u)
  show ?thesis
  proof (cases "u = t")
    case True
    then have "settled_below (cs_pos (lv_consumers s t)) (lv_consumers s t)"
      using assms(2) begins by (simp add: books_ok_def ready_def)
    with True begins assms(2) turn_books show ?thesis by (simp add: books_ok_def live_turn_def)
  qed (use begins assms(2) in \<open>simp add: books_ok_def\<close>)
next
  case (acts u f p c)
  show ?thesis
  proof (cases "u = t")
    case True
    have k: "keeps_books ready (Call f) (lv_consumers s t)" "commits_settled (lv_consumers s t)"
      using assms(2) acts(2) True by (simp_all add: books_ok_def)
    have v: "same_books (lv_consumers s t) (consumer_view s t)" "commits_settled (consumer_view s t)"
      using k(2) by (simp_all add: consumer_view_def set_shared_def same_books_def commits_settled_def)
    from k(1) v acts(3) True have "commits_settled c \<and> keeps_books ready p c"
      unfolding keeps_to_Call by blast
    with True acts(1) show ?thesis by (simp add: books_ok_def)
  qed (use acts assms(2) in \<open>simp add: books_ok_def\<close>)
next
  case (sends u m)
  let ?c = "(lv_consumers s t)\<lparr>cs_log := cs_log (lv_consumers s t) @ [m]\<rparr>"
  have b: "same_books (lv_consumers s t) ?c" by (simp add: same_books_def)
  have "keeps_books ready (lv_turns s t) (lv_consumers s t)" using assms(2) by (simp add: books_ok_def)
  then have "keeps_books ready (lv_turns s t) ?c"
    by (rule books.keeps_later [OF _ b]) (rule ready_same [OF b])
  with sends assms(2) show ?thesis by (cases "u = t") (simp_all add: books_ok_def commits_settled_def)
qed (use assms(2) in \<open>auto simp: books_ok_def ready_def settled_below_def commits_settled_def\<close>)

lemma reachable_books:
  assumes "(live_step d)\<^sup>*\<^sup>* s s'" "books_ok s t"
  shows "books_ok s' t"
  using assms by (induction rule: rtranclp_induct) (auto dest: live_step_books)

lemma initial_books: "books_ok (initial_live claims) t"
  by (simp add: books_ok_def initial_live_def fresh_consumer_def commits_settled_def ready_def settled_below_def)

section \<open>Properties\<close>

text \<open>
  C2. In every state the running service can reach, its consumers interleaved call by call, an
  event has been handled successfully at most once over all topics together, and every committed
  message of every topic was handled, queued for another attempt, or skipped as claimed.
\<close>

theorem interleaved_consumers_handle_an_event_once:
  assumes "claim_contract (dp_claims d) claimed" and "(live_step d)\<^sup>*\<^sup>* (initial_live claims) s"
  shows "live_successes event s \<le> 1 \<and>
    list_all (\<lambda>t. list_all (settled (cs_trace (lv_consumers s t))) [0..<cs_committed (lv_consumers s t)]) all_topics"
proof
  from reachable_claims [OF assms initial_claims_ok, of event] show "live_successes event s \<le> 1"
    by (auto simp: claims_ok_def)
  show "list_all (\<lambda>t. list_all (settled (cs_trace (lv_consumers s t))) [0..<cs_committed (lv_consumers s t)]) all_topics"
    using reachable_books [OF assms(2) initial_books] by (simp add: list_all_iff books_ok_def commits_settled_def)
qed

end
