(* ===== verification/LiveRuns.thy ===== *)
theory LiveRuns
  imports Claims
begin

text \<open>
  Runs of the service at the grain of single calls: schedules that are executed, the turns and
  requests that are not interrupted, and what is proved of every reachable state.
\<close>

section \<open>Schedules\<close>

datatype move =
    Ask grpc_request
  | Request_call nat
  | Leave nat
  | Begin topic
  | Act topic
  | Stop topic
  | Restart topic
  | Send topic kafka_message

fun move_step :: "'c deployment \<Rightarrow> move \<Rightarrow> 'c live_system \<Rightarrow> 'c live_system" where
  "move_step d (Ask q) s = s\<lparr>lv_requests := lv_requests s @ [live_request d q]\<rparr>"
| "move_step d (Request_call k) s =
    (if k < length (lv_requests s) then
       (case lv_requests s ! k of
          Call f \<Rightarrow> (case f (lv_world s) of (p, w) \<Rightarrow> s\<lparr>lv_world := w, lv_requests := (lv_requests s)[k := p]\<rparr>)
        | Done r \<Rightarrow> s)
     else s)"
| "move_step d (Leave k) s = s\<lparr>lv_requests := take k (lv_requests s) @ drop (Suc k) (lv_requests s)\<rparr>"
| "move_step d (Begin t) s =
    (case lv_turns s t of Done Continue \<Rightarrow> s\<lparr>lv_turns := (lv_turns s)(t := live_turn d t)\<rparr> | _ \<Rightarrow> s)"
| "move_step d (Act t) s =
    (case lv_turns s t of
       Call f \<Rightarrow> (case f (consumer_view s t) of (p, c) \<Rightarrow>
          s\<lparr>lv_world := fst (cs_state c), lv_claims := snd (cs_state c),
            lv_consumers := (lv_consumers s)(t := c), lv_turns := (lv_turns s)(t := p)\<rparr>)
     | Done x \<Rightarrow> s)"
| "move_step d (Stop t) s = s\<lparr>lv_turns := (lv_turns s)(t := Done (Return None))\<rparr>"
| "move_step d (Restart t) s =
    (case lv_turns s t of
       Done (Return r) \<Rightarrow>
         s\<lparr>lv_consumers := (lv_consumers s)(t := (lv_consumers s t)\<lparr>cs_pos := cs_committed (lv_consumers s t)\<rparr>),
           lv_turns := (lv_turns s)(t := Done Continue)\<rparr>
     | _ \<Rightarrow> s)"
| "move_step d (Send t m) s =
    s\<lparr>lv_consumers := (lv_consumers s)(t := (lv_consumers s t)\<lparr>cs_log := cs_log (lv_consumers s t) @ [m]\<rparr>)\<rparr>"

fun play :: "'c deployment \<Rightarrow> move list \<Rightarrow> 'c live_system \<Rightarrow> 'c live_system" where
  "play d [] s = s"
| "play d (m # ms) s = play d ms (move_step d m s)"

lemma move_step_steps: "(live_step d)\<^sup>*\<^sup>* s (move_step d m s)"
proof (cases m)
  case (Request_call k)
  then show ?thesis
    by (auto intro!: r_into_rtranclp [where r = "live_step d"] live_step.calls split: prog.splits prod.splits)
next
  case (Begin t)
  then show ?thesis
    by (auto intro!: r_into_rtranclp [where r = "live_step d"] live_step.begins split: prog.splits outcome.splits)
next
  case (Act t)
  then show ?thesis
    by (auto intro!: r_into_rtranclp [where r = "live_step d"] live_step.acts split: prog.splits prod.splits)
next
  case (Restart t)
  have "live_step d s (move_step d (Restart t) s)" if "lv_turns s t = Done (Return r)" for r
    using live_step.restarts [OF that, of d] that by simp
  with Restart show ?thesis
    by (auto intro: r_into_rtranclp [where r = "live_step d"] split: prog.splits outcome.splits)
qed (auto intro!: r_into_rtranclp [where r = "live_step d"] live_step.intros)

lemma play_steps: "(live_step d)\<^sup>*\<^sup>* s (play d ms s)"
proof (induction ms arbitrary: s)
  case (Cons m ms)
  show ?case unfolding play.simps by (rule rtranclp_trans [OF move_step_steps Cons.IH])
qed simp

section \<open>Whole turns\<close>

lemma runs_live:
  assumes "deployed d"
  shows "runs_as (live_handler d t) (handle_on d t)"
  using run_topic [OF assms [unfolded deployed_def], of t]
  by (simp add: runs_as_def live_handler_def handle_on_def on_world_def set_world_def)

lemma run_live_turn:
  "deployed d \<Longrightarrow> run (live_turn d t) c = consume_step (topic_env d t) (topic_config (cfg_Kafka (dp_cfg d)) t) (handle_on d t) c"
  unfolding live_turn_def by (rule run_turn [OF runs_live])

lemma run_live_request: "deployed d \<Longrightarrow> run (live_request d q) w = rpc_reply (rn_server (dp_app d)) q w"
  unfolding live_request_def deployed_def by (simp add: run_request started_parts(1))

text \<open>
  The program of a request run without interruption is its gRPC handler, and the program of a turn one
  iteration of the consumer loop; the properties of the interleaved service below are so about the
  operations of the other theories.
\<close>

lemma uninterrupted_programs_are_the_operations:
  assumes "deployed d"
  shows "run (live_request d q) w = rpc_reply (rn_server (dp_app d)) q w \<and>
    run (live_turn d t) c =
      consume_step (topic_env d t) (topic_config (cfg_Kafka (dp_cfg d)) t) (handle_on d t) c"
  using run_live_request [OF assms] run_live_turn [OF assms] by blast

definition put_turn :: "topic \<Rightarrow> (world \<times> 'c) consumer \<Rightarrow> ((world \<times> 'c) consumer, outcome) prog \<Rightarrow> 'c live_system \<Rightarrow> 'c live_system" where
  "put_turn t c p s = s\<lparr>lv_world := fst (cs_state c), lv_claims := snd (cs_state c),
     lv_consumers := (lv_consumers s)(t := c), lv_turns := (lv_turns s)(t := p)\<rparr>"

lemma put_turn_view [simp]: "consumer_view (put_turn t c p s) t = c" "lv_turns (put_turn t c p s) t = p"
  "put_turn t c' p' (put_turn t c p s) = put_turn t c' p' s"
  by (simp_all add: put_turn_def consumer_view_def set_shared_def)

lemma turn_runs:
  "run p c = (x, c') \<Longrightarrow> (live_step d)\<^sup>*\<^sup>* (put_turn t c p s) (put_turn t c' (Done x) s)"
proof (induction p arbitrary: c rule: prog_induct)
  case (Call f)
  obtain q e where f: "f c = (q, e)" by (meson surj_pair)
  have "live_step d (put_turn t c (Call f) s) (put_turn t e q s)"
    using live_step.acts [of "put_turn t c (Call f) s" t f q e d] f
    by (simp only: put_turn_view put_turn_def [symmetric] simp_thms)
  moreover have "(live_step d)\<^sup>*\<^sup>* (put_turn t e q s) (put_turn t c' (Done x) s)"
    using Call f by simp
  ultimately show ?case by (rule converse_rtranclp_into_rtranclp)
qed simp

definition put_request :: "world \<Rightarrow> (world, grpc_reply) prog \<Rightarrow> 'c live_system \<Rightarrow> 'c live_system" where
  "put_request w p s = s\<lparr>lv_world := w, lv_requests := [p]\<rparr>"

lemma request_runs:
  "run p w = (r, w') \<Longrightarrow> (live_step d)\<^sup>*\<^sup>* (put_request w p s) (put_request w' (Done r) s)"
proof (induction p arbitrary: w rule: prog_induct)
  case (Call f)
  obtain q v where f: "f w = (q, v)" by (meson surj_pair)
  have "live_step d (put_request w (Call f) s) (put_request v q s)"
    using live_step.calls [of 0 "put_request w (Call f) s" f q v d] f by (simp add: put_request_def)
  moreover have "(live_step d)\<^sup>*\<^sup>* (put_request v q s) (put_request w' (Done r) s)"
    using Call f by simp
  ultimately show ?case by (rule converse_rtranclp_into_rtranclp)
qed simp

text \<open>A state between whole turns and requests.\<close>

definition matches :: "'c system \<Rightarrow> 'c live_system \<Rightarrow> bool" where
  "matches s v \<longleftrightarrow> lv_world v = sy_world s \<and> lv_claims v = sy_claims s \<and> lv_requests v = [] \<and>
     lv_consumers v = sy_consumers s \<and>
     (\<forall>t. if sy_running s t then lv_turns v t = Done Continue else \<exists>r. lv_turns v t = Done (Return r))"

lemma reply_answer: "snd (rpc_reply svc q w) = answer svc q w"
  by (cases q) simp_all

lemma step_simulated:
  assumes "deployed d" "system_step d s s'" "matches s v"
  shows "\<exists>v'. (live_step d)\<^sup>*\<^sup>* v v' \<and> matches s' v'"
  using assms(2)
proof cases
  case (asked q)
  let ?v = "v\<lparr>lv_requests := [live_request d q]\<rparr>"
  obtain r w where r: "run (live_request d q) (lv_world v) = (r, w)" by (meson surj_pair)
  have "live_step d v ?v" using live_step.arrives [of d v q] assms(3) by (simp add: matches_def)
  moreover have "(live_step d)\<^sup>*\<^sup>* ?v (put_request w (Done r) v)"
    using request_runs [OF r, of d v] by (simp add: put_request_def)
  moreover have "live_step d (put_request w (Done r) v) (v\<lparr>lv_world := w, lv_requests := []\<rparr>)"
    using live_step.leaves [of d "put_request w (Done r) v" 0] by (simp add: put_request_def)
  ultimately have "(live_step d)\<^sup>*\<^sup>* v (v\<lparr>lv_world := w, lv_requests := []\<rparr>)"
    by (rule rtranclp.rtrancl_into_rtrancl [OF converse_rtranclp_into_rtranclp])
  moreover have "w = answer (rn_server (dp_app d)) q (sy_world s)"
    using r run_live_request [OF assms(1)] reply_answer [of _ q] assms(3) by (metis matches_def snd_conv)
  ultimately show ?thesis using asked assms(3) by (intro exI conjI) (auto simp: matches_def)
next
  case (consumed t x c)
  let ?v = "v\<lparr>lv_turns := (lv_turns v)(t := live_turn d t)\<rparr>"
  have v: "lv_turns v t = Done Continue" using assms(3) consumed(2) by (auto simp: matches_def split: if_splits)
  obtain f where f: "live_turn d t = Call f" by (simp add: live_turn_def turn_prog_def)
  obtain q e where q: "f (consumer_view v t) = (q, e)" by (meson surj_pair)
  have view: "consumer_view v t = (sy_consumers s t)\<lparr>cs_state := (sy_world s, sy_claims s)\<rparr>"
    using assms(3) by (simp add: matches_def consumer_view_def set_shared_def)
  have "run (live_turn d t) (consumer_view v t) = (x, c)"
    using run_live_turn [OF assms(1)] consumed(3) view by (simp add: turn_def)
  then have "run q e = (x, c)" using f q by simp
  then have "(live_step d)\<^sup>*\<^sup>* (put_turn t e q v) (put_turn t c (Done x) v)" by (rule turn_runs)
  moreover have "live_step d ?v (put_turn t e q v)"
    using live_step.acts [of ?v t f q e d] f q by (simp add: put_turn_def consumer_view_def)
  moreover have "live_step d v ?v" using v by (rule live_step.begins)
  ultimately have "(live_step d)\<^sup>*\<^sup>* v (put_turn t c (Done x) v)"
    by (meson converse_rtranclp_into_rtranclp)
  moreover have "matches s' (put_turn t c (Done x) v)"
    using assms(3) consumed(1) by (cases x) (auto simp: matches_def after_turn_def put_turn_def)
  ultimately show ?thesis by blast
next
  case (stopped t)
  have "live_step d v (v\<lparr>lv_turns := (lv_turns v)(t := Done (Return None))\<rparr>)" by (rule live_step.stops)
  moreover have "matches s' (v\<lparr>lv_turns := (lv_turns v)(t := Done (Return None))\<rparr>)"
    using assms(3) stopped by (auto simp: matches_def)
  ultimately show ?thesis by blast
next
  case (restarted t)
  then obtain r where "lv_turns v t = Done (Return r)" using assms(3) by (auto simp: matches_def split: if_splits)
  let ?v = "v\<lparr>lv_consumers := (lv_consumers v)(t := (lv_consumers v t)\<lparr>cs_pos := cs_committed (lv_consumers v t)\<rparr>),
    lv_turns := (lv_turns v)(t := Done Continue)\<rparr>"
  have "live_step d v ?v" using \<open>lv_turns v t = Done (Return r)\<close> by (rule live_step.restarts)
  moreover have "matches s' ?v" using restarted assms(3) by (auto simp: matches_def restart_def)
  ultimately show ?thesis by blast
next
  case (sent t m)
  let ?v = "v\<lparr>lv_consumers := (lv_consumers v)(t := (lv_consumers v t)\<lparr>cs_log := cs_log (lv_consumers v t) @ [m]\<rparr>)\<rparr>"
  have "live_step d v ?v" by (rule live_step.sends)
  moreover have "matches s' ?v" using sent assms(3) by (auto simp: matches_def send_def)
  ultimately show ?thesis by blast
qed

lemma reachable_simulated:
  assumes "deployed d" "(system_step d)\<^sup>*\<^sup>* s s'" "matches s v"
  shows "\<exists>v'. (live_step d)\<^sup>*\<^sup>* v v' \<and> matches s' v'"
  using assms(2)
proof (induction rule: rtranclp_induct)
  case (step y z)
  then obtain v' where v': "(live_step d)\<^sup>*\<^sup>* v v'" "matches y v'" by blast
  from step_simulated [OF assms(1) step(2) v'(2)] v'(1) show ?case by (meson rtranclp_trans)
qed (use assms(3) in blast)

section \<open>Properties\<close>

lemma sample_stores: "su_world (dp_startup sample_deployment) = sample_env"
  by (simp add: sample_deployment_def sample_startup_def Let_def)

text \<open>
  C1. In every state the started service can reach, with any number of gRPC requests and the five
  Kafka consumers interleaved call by call over the shared stores, any messages, faults, abandoned
  requests, stops and restarts, the stored users have evolved by steps of the life cycle, every
  stored user has a status that agrees with its active flag, the table keeps its constraints, the
  outbox replays to the table, and every cached preview is one of a user that was stored under its
  key.
\<close>

theorem interleaved_service_refines_life_cycle:
  assumes "deployed d" and "env_ok utf8_valid (su_world (dp_startup d))"
    and "(live_step d)\<^sup>*\<^sup>* (initial_live claims) s"
  shows "user_step\<^sup>*\<^sup>* Map.empty (users_view (lv_world s)) \<and> store_ok (users_view (lv_world s)) \<and>
    table_ok (su_world (dp_startup d)) (lv_world s) \<and> replay (w_outbox (lv_world s)) = rows_view (lv_world s) \<and>
    (\<forall>i c. preview (lv_world s) i = Some c \<longrightarrow> u_ID c = i \<and> (\<exists>u. seen (lv_world s) u \<and> previews u c))"
proof -
  note r = reachable_grows [OF assms]
  have s: "sound (su_world (dp_startup d)) (lv_world s)" using r by (simp add: live_sound_def)
  have "store_ok Map.empty" by (simp add: store_ok_def)
  moreover have "user_step\<^sup>*\<^sup>* Map.empty (users_view (lv_world s))"
    using r by (simp add: grows_def initial_live_def)
  ultimately show ?thesis
    using s user_steps_ok unfolding sound_def pg_inv_def outbox_ok_def recorded_def by blast
qed

theorem interleaved_service_refines_life_cycle_witness:
  "let w = lv_world (play sample_deployment [Send CreateCommands \<lparr>km_Key = [], km_Value = sample_create_raw, km_Headers = []\<rparr>,
      Begin CreateCommands, Ask (AskPreview ''u1''), Act CreateCommands, Request_call 0, Act CreateCommands,
      Act CreateCommands, Request_call 0, Stop CreateCommands] (initial_live [])) in
    user_step\<^sup>*\<^sup>* Map.empty (users_view w) \<and> store_ok (users_view w) \<and> table_ok sample_env w \<and>
    replay (w_outbox w) = rows_view w \<and>
    (\<forall>i c. preview w i = Some c \<longrightarrow> u_ID c = i \<and> (\<exists>u. seen w u \<and> previews u c))"
  unfolding Let_def
  by (rule interleaved_service_refines_life_cycle
      [OF sample_deployed _ play_steps, unfolded sample_stores, OF sample_env_ok])

text \<open>
  C5. Whatever the interleaving with commands, consumers and other requests, every preview reply
  the gRPC server sends shows, up to the avatar URL, a user as the outbox recorded it in some
  stored state: never a mixture of two states and never invented data.
\<close>

theorem interleaved_preview_replies_show_stored_users:
  assumes "deployed d" and "env_ok utf8_valid (su_world (dp_startup d))"
    and "(live_step d)\<^sup>*\<^sup>* (initial_live claims) s"
  shows "list_all (\<lambda>p. case p of
      Done (PreviewReply (Inr resp)) \<Rightarrow> list_ex (\<lambda>e. \<exists>url. resp =
        ToPreviewResponse (Some ((MapUserRowToDomain (ob_payload e))\<lparr>u_AvatarURL := url\<rparr>))) (w_outbox (lv_world s))
    | _ \<Rightarrow> True) (lv_requests s)"
proof -
  have "keeps (su_world (dp_startup d)) reply_true p (lv_world s)" if "p \<in> set (lv_requests s)" for p
    using reachable_grows(1) [OF assms] that by (simp add: live_sound_def)
  then show ?thesis
    by (fastforce simp: list_all_iff reply_true_def shown_def seen_def list_ex_iff
        split: prog.split grpc_reply.split sum.split)
qed

theorem interleaved_preview_replies_show_stored_users_witness:
  "let s = play sample_deployment [Ask (AskPreview ''u1''), Ask (AskActivate ''u1''), Request_call 0, Request_call 1,
      Request_call 0, Request_call 0] (initial_live []) in
    list_all (\<lambda>p. case p of
      Done (PreviewReply (Inr resp)) \<Rightarrow> list_ex (\<lambda>e. \<exists>url. resp =
        ToPreviewResponse (Some ((MapUserRowToDomain (ob_payload e))\<lparr>u_AvatarURL := url\<rparr>))) (w_outbox (lv_world s))
    | _ \<Rightarrow> True) (lv_requests s)"
  unfolding Let_def
  by (rule interleaved_preview_replies_show_stored_users
      [OF sample_deployed _ play_steps, unfolded sample_stores, OF sample_env_ok])

theorem interleaved_consumers_handle_an_event_once_witness:
  "live_successes sample_create_raw (play sample_deployment
     [Send CreateCommands \<lparr>km_Key = [], km_Value = sample_create_raw, km_Headers = []\<rparr>,
      Send DeleteCommands \<lparr>km_Key = [], km_Value = sample_create_raw, km_Headers = []\<rparr>,
      Begin CreateCommands, Begin DeleteCommands, Act CreateCommands, Act DeleteCommands, Act DeleteCommands,
      Act CreateCommands, Act CreateCommands, Act DeleteCommands] (initial_live [])) \<le> 1"
  by (rule interleaved_consumers_handle_an_event_once [where claimed = set, OF _ play_steps, THEN conjunct1])
    (simp add: sample_deployment_def Let_def memory_claims_contract)

lemma uninterrupted_programs_are_the_operations_witness:
  "run (live_request sample_deployment (AskPreview ''u1'')) empty_world =
     rpc_reply (rn_server (dp_app sample_deployment)) (AskPreview ''u1'') empty_world \<and>
   run (live_turn sample_deployment DeleteCommands) (fresh_consumer [] (empty_world, [])) =
     consume_step (topic_env sample_deployment DeleteCommands)
       (topic_config (cfg_Kafka (dp_cfg sample_deployment)) DeleteCommands) (handle_on sample_deployment DeleteCommands)
       (fresh_consumer [] (empty_world, []))"
  by (rule uninterrupted_programs_are_the_operations [OF sample_deployed])

theorem whole_turns_are_interleavings:
  assumes "deployed d" and "(system_step d)\<^sup>*\<^sup>* (initial_system claims) s"
  shows "\<exists>v. (live_step d)\<^sup>*\<^sup>* (initial_live claims) v \<and> lv_world v = sy_world s \<and>
    lv_claims v = sy_claims s \<and> lv_consumers v = sy_consumers s"
proof -
  have "matches (initial_system claims) (initial_live claims)"
    by (simp add: matches_def initial_system_def initial_live_def)
  from reachable_simulated [OF assms this] show ?thesis by (auto simp: matches_def)
qed

theorem whole_turns_are_interleavings_witness:
  "\<exists>v. (live_step sample_deployment)\<^sup>*\<^sup>* (initial_live []) v \<and>
    lv_world v = sy_world (take_turns sample_deployment [CreateCommands, CreateCommands] sample_inbox)"
  using whole_turns_are_interleavings [OF sample_deployed sample_delivered, of "[CreateCommands, CreateCommands]"] by auto

section \<open>A race\<close>

text \<open>Two programs by turns: true for a call of the first, false for one of the second.\<close>

fun alternate :: "bool list \<Rightarrow> ('s, 'a) prog \<Rightarrow> ('s, 'b) prog \<Rightarrow> 's \<Rightarrow> ('s, 'a) prog \<times> ('s, 'b) prog \<times> 's" where
  "alternate [] p q s = (p, q, s)"
| "alternate (True # bs) p q s =
    (case p of Call f \<Rightarrow> (case f s of (p', s') \<Rightarrow> alternate bs p' q s') | Done _ \<Rightarrow> alternate bs p q s)"
| "alternate (False # bs) p q s =
    (case q of Call f \<Rightarrow> (case f s of (q', s') \<Rightarrow> alternate bs p q' s') | Done _ \<Rightarrow> alternate bs p q s)"

lemma alternate_call [simp]:
  "alternate (True # bs) (call act k) q s = (case act s of (a, s') \<Rightarrow> alternate bs (k a) q s')"
  "alternate (False # bs) p (call act k') s = (case act s of (a, s') \<Rightarrow> alternate bs p (k' a) s')"
  by (simp_all add: call_def alternate.simps case_prod_unfold)

declare alternate.simps(2,3) [simp del]

lemma andthen_call [simp]: "andthen (call act k) l = call act (\<lambda>a. andthen (k a) l)"
  by (simp add: call_def case_prod_unfold)

definition faultless :: "env \<Rightarrow> bool" where
  "faultless E \<longleftrightarrow> (\<forall>n. e_pg_fault E n = NoFault \<and> e_rows_fault E n = None \<and> e_redis_fault E n = NoFault)"

lemma faultless_get:
  assumes "faultless E" and "pg_inv E w" and "users_view w k = Some u"
  shows "\<exists>w'. ur_GetByID (pg_repo E T) k w = (Inr u, w')"
proof -
  have "e_uuid E k = Some k" using stored_user [OF assms(2,3)] by simp
  then show ?thesis
    using assms(1,3) by (auto simp: WriteRepo.GetByID_def ext_call_def getUserByID_def users_view_def faultless_def)
qed

lemma faultless_delete:
  assumes "faultless E" and "pg_inv E w" and "users_view w k = Some u"
  shows "\<exists>w'. ur_DeleteByID (pg_repo E T) k w = (Inr (), w')"
proof -
  have "e_uuid E k = Some k" using stored_user [OF assms(2,3)] by simp
  moreover obtain r where "r \<in> set (w_users w)" "row_ID r = k" using assms(3) by (rule users_view_Some)
  then have "filter (\<lambda>r. row_ID r = k) (w_users w) \<noteq> []" by (auto simp: filter_empty_conv)
  ultimately show ?thesis
    using assms(1) by (simp add: WriteRepo.DeleteByID_def ext_call_def deleteUserByID_def faultless_def Let_def)
qed

lemma faultless_cache:
  assumes "faultless E" and "k \<noteq> []" and "u_ID u \<noteq> []"
  shows "\<exists>w'. rr_DeleteByID (redis_repo E) k w = (Inr (), w')"
    "\<exists>w'. rr_Upsert (redis_repo E) (Some u) w = (Inr (), w')"
  using assms by (simp_all add: ReadRepo.DeleteByID_def Upsert_def ext_call_def redis_del_def redis_set_def faultless_def Let_def)

text \<open>
  C21. Without faults, for a user without an avatar, not cached, asked for by its own identifier:
  a preview query that has loaded the user from the table and is overtaken by its deletion still
  caches what it loaded. Both calls succeed, the user is gone, and its preview stays in Redis,
  which sets no expiry.
\<close>

theorem query_and_deletion_race:
  fixes topic :: string
  assumes "pg_inv E w" and "faultless E" and "users_view w k = Some u" and "preview w k = None"
    and "TrimSpace k = k" and "k \<noteq> []" and "TrimSpace (u_AvatarID u) = []"
  shows "case alternate [True, True, False, False, True]
        (GetUserPreviewByID_prog (wired_service E topic) k) (DeleteUser_prog (wired_service E topic) k) w of
      (query, deletion, w') \<Rightarrow> query = Done (Inr u) \<and> deletion = Done (Inr ()) \<and>
        users_view w' k = None \<and> preview w' k = Some (as_preview u)"
proof -
  note st = stored_user [OF assms(1,3)]
  note r = redis_inv_pg [OF assms(1)]
  obtain g w1 where g: "rr_GetByID (redis_repo E) k w = (g, w1)" by (meson surj_pair)
  have miss: "\<exists>e. g = Inl e" using redis.rget_ok [OF r, of k _ w1] g assms(4) by (cases g) auto
  have 1: "pg_inv E w1" "users_view w1 = users_view w"
    using redis.rget_frame [OF r g] redis_kept_views [of w1 w E] assms(1) by auto
  obtain w2 where g2: "ur_GetByID (pg_repo E NewPgErrorTranslator) k w1 = (Inr u, w2)"
    using faultless_get [OF assms(2) 1(1)] 1(2) assms(3) by metis
  have 2: "pg_inv E w2" "users_view w2 = users_view w" using pg.get_frame [OF 1(1) g2] 1(2) by simp_all
  obtain w3 where d: "ur_DeleteByID (pg_repo E NewPgErrorTranslator) k w2 = (Inr (), w3)"
    using faultless_delete [OF assms(2) 2(1)] 2(2) assms(3) by metis
  have 3: "pg_inv E w3" "users_view w3 k = None"
    using pg.delete_frame [OF 2(1) d] pg.delete_ok [OF 2(1) d] st by (auto simp: removes_def)
  obtain w4 where c: "rr_DeleteByID (redis_repo E) k w3 = (Inr (), w4)"
    using faultless_cache(1) [OF assms(2,6)] assms(6) st by metis
  have 4: "pg_inv E w4" "users_view w4 k = None"
    using redis.rdelete_frame [OF redis_inv_pg [OF 3(1)] c] redis_kept_views [of w4 w3 E] 3 by auto
  obtain w5 where p: "rr_Upsert (redis_repo E) (Some u) w4 = (Inr (), w5)"
    using faultless_cache(2) [OF assms(2,6), of u] assms(6) st by metis
  have 5: "users_view w5 k = None" "preview w5 k = Some (as_preview u)"
    using redis.upsert_frame [OF redis_inv_pg [OF 4(1)] p] redis_kept_views [of w5 w4 E] 4(2)
      redis.upsert_ok [OF redis_inv_pg [OF 4(1)] p] st by auto
  show ?thesis
    using miss g g2 d c p 5 assms(5-7)
    by (auto simp: GetUserPreviewByID_prog_def DeleteUser_prog_def loadUserPreview_prog_def resolve_avatar_prog_def
        Let_def simp del: pg_repo_methods redis_repo_methods)
qed

definition uncached_world :: world where
  "uncached_world = sample_world\<lparr>w_redis := Map.empty\<rparr>"

lemma uncached_facts:
  "pg_inv sample_env uncached_world" "users_view uncached_world ''u1'' = Some (MapUserRowToDomain sample_row)"
  "preview uncached_world ''u1'' = None"
proof -
  show "pg_inv sample_env uncached_world"
    using sample_inv
    by (simp add: uncached_world_def pg_inv_def table_ok_def outbox_ok_def rows_view_def fun_eq_iff)
  show "users_view uncached_world ''u1'' = Some (MapUserRowToDomain sample_row)"
    by (simp add: uncached_world_def users_view_def sample_world_users) (simp add: sample_row_def)
  show "preview uncached_world ''u1'' = None" by (simp add: uncached_world_def preview_def)
qed

theorem query_and_deletion_race_witness:
  "case alternate [True, True, False, False, True]
        (GetUserPreviewByID_prog sample_service ''u1'') (DeleteUser_prog sample_service ''u1'') uncached_world of
      (query, deletion, w') \<Rightarrow> query = Done (Inr (MapUserRowToDomain sample_row)) \<and> deletion = Done (Inr ()) \<and>
        users_view w' ''u1'' = None \<and> preview w' ''u1'' = Some (as_preview (MapUserRowToDomain sample_row))"
  by (rule query_and_deletion_race [OF uncached_facts(1) _ uncached_facts(2,3)])
    (simp_all add: faultless_def sample_env_def sample_row_def MapUserRowToDomain_def zero_user_def TrimSpace_visible)

end
