(* ===== verification/Results.thy ===== *)
theory Results
  imports LiveRuns
begin

text \<open>
  What the running service says of its commands. The result topics of the registration saga carry
  one message per report; whatever runs between the calls of the handler that reports, a success
  names a user that was stored, or one whose removal the outbox records.
\<close>

section \<open>Every call of a program\<close>

text \<open>Each call of the program relates the state before and after it, from any safe state.\<close>

primrec each_call :: "('s \<Rightarrow> bool) \<Rightarrow> ('s \<Rightarrow> 's \<Rightarrow> bool) \<Rightarrow> ('s, 'a) prog \<Rightarrow> bool" where
  "each_call safe Q (Done a) = True"
| "each_call safe Q (Call f) = (\<forall>s. safe s \<longrightarrow> (case map_prod (each_call safe Q) (\<lambda>t. t) (f s) of (ok, t) \<Rightarrow> Q s t \<and> ok))"

lemma each_call_Call:
  "each_call safe Q (Call f) \<longleftrightarrow> (\<forall>s p t. safe s \<longrightarrow> f s = (p, t) \<longrightarrow> Q s t \<and> each_call safe Q p)"
  by (auto simp: case_prod_unfold) (metis fst_conv snd_conv surj_pair)+

declare each_call.simps(2) [simp del]

lemma each_call_call:
  assumes "\<And>s a t. safe s \<Longrightarrow> act s = (a, t) \<Longrightarrow> Q s t" and "\<And>a. each_call safe Q (k a)"
  shows "each_call safe Q (call act k)"
  unfolding call_def each_call_Call using assms by (auto split: prod.splits)

lemma each_call_andthen:
  assumes "each_call safe Q p" and "\<And>a. each_call safe Q (k a)"
  shows "each_call safe Q (andthen p k)"
  using assms(1)
proof (induction p rule: prog_induct)
  case (Call f)
  show ?case
    unfolding andthen.simps each_call_Call
  proof (intro allI impI)
    fix s q t
    assume s: "safe s" and q: "(case map_prod andthen (\<lambda>t. t) (f s) of (go, t) \<Rightarrow> (go k, t)) = (q, t)"
    obtain p u where p: "f s = (p, u)" by (meson surj_pair)
    with q have "q = andthen p k" "t = u" by simp_all
    with Call.IH [OF p] Call.prems s p show "Q s t \<and> each_call safe Q q"
      unfolding each_call_Call by blast
  qed
qed (use assms(2) in simp)

lemma keeps_each:
  assumes "keeps_to safe rely guar post p s" and "each_call safe Q p"
    and "\<And>s t. guar s t \<Longrightarrow> Q s t \<Longrightarrow> guar' s t"
  shows "keeps_to safe rely guar' post p s"
  using assms(1,2)
proof (induction p arbitrary: s rule: prog_induct)
  case (Call f)
  then show ?case unfolding keeps_to_Call each_call_Call using assms(3) by metis
qed simp

section \<open>Who writes to which topic\<close>

definition elsewhere :: "string set \<Rightarrow> world \<Rightarrow> world \<Rightarrow> bool" where
  "elsewhere Ts w w' \<longleftrightarrow> (\<exists>new. w_bus w' = w_bus w @ new \<and> (\<forall>m\<in>set new. fst m \<notin> Ts))"

lemma silent_elsewhere: "w_bus w' = w_bus w \<Longrightarrow> elsewhere Ts w w'"
  by (simp add: elsewhere_def)

lemma write_elsewhere:
  assumes "sound E w" and "repo = pg_repo E NewPgErrorTranslator"
  shows "ur_Create repo p w = (r1, w') \<Longrightarrow> elsewhere Ts w w'"
    "ur_ActivateByID repo i w = (r2, w') \<Longrightarrow> elsewhere Ts w w'"
    "ur_DeactivateByID repo i w = (r3, w') \<Longrightarrow> elsewhere Ts w w'"
    "ur_DeleteByID repo i w = (r4, w') \<Longrightarrow> elsewhere Ts w w'"
    "ur_GetByID repo i w = (r5, w') \<Longrightarrow> elsewhere Ts w w'"
    "ur_GetByUsername repo i w = (r6, w') \<Longrightarrow> elsewhere Ts w w'"
    "ur_ExistsByUsername repo i w = (r7, w') \<Longrightarrow> elsewhere Ts w w'"
proof -
  have inv: "pg_inv E w" using assms(1) by (simp add: sound_def)
  note frames = pg.create_frame [OF inv] pg.activate_frame [OF inv] pg.deactivate_frame [OF inv]
    pg.delete_frame [OF inv] pg.get_frame [OF inv] pg.byname_frame [OF inv] pg.exists_frame [OF inv]
  show "ur_Create repo p w = (r1, w') \<Longrightarrow> elsewhere Ts w w'"
    "ur_ActivateByID repo i w = (r2, w') \<Longrightarrow> elsewhere Ts w w'"
    "ur_DeactivateByID repo i w = (r3, w') \<Longrightarrow> elsewhere Ts w w'"
    "ur_DeleteByID repo i w = (r4, w') \<Longrightarrow> elsewhere Ts w w'"
    "ur_GetByID repo i w = (r5, w') \<Longrightarrow> elsewhere Ts w w'"
    "ur_GetByUsername repo i w = (r6, w') \<Longrightarrow> elsewhere Ts w w'"
    "ur_ExistsByUsername repo i w = (r7, w') \<Longrightarrow> elsewhere Ts w w'"
    unfolding assms(2) using frames pg_kept_bus silent_elsewhere by meson+
qed

lemma cache_elsewhere:
  assumes "sound E w" and "read = redis_repo E"
  shows "rr_Upsert read uo w = (r1, w') \<Longrightarrow> elsewhere Ts w w'"
    "rr_GetByID read i w = (r2, w') \<Longrightarrow> elsewhere Ts w w'"
    "rr_DeleteByID read i w = (r3, w') \<Longrightarrow> elsewhere Ts w w'"
    "rr_UpsertByUsername read uo w = (r4, w') \<Longrightarrow> elsewhere Ts w w'"
    "rr_GetByUsername read i w = (r5, w') \<Longrightarrow> elsewhere Ts w w'"
proof -
  have r: "redis_inv E w" using assms(1) by (simp add: sound_def)
  note frames = redis.upsert_frame [OF r] redis.rget_frame [OF r] redis.rdelete_frame [OF r]
    redis.dupsert_frame [OF r] redis.dget_frame [OF r]
  show "rr_Upsert read uo w = (r1, w') \<Longrightarrow> elsewhere Ts w w'"
    "rr_GetByID read i w = (r2, w') \<Longrightarrow> elsewhere Ts w w'"
    "rr_DeleteByID read i w = (r3, w') \<Longrightarrow> elsewhere Ts w w'"
    "rr_UpsertByUsername read uo w = (r4, w') \<Longrightarrow> elsewhere Ts w w'"
    "rr_GetByUsername read i w = (r5, w') \<Longrightarrow> elsewhere Ts w w'"
    unfolding assms(2) using frames redis_kept_bus silent_elsewhere by meson+
qed

lemma file_elsewhere: "fc_GetFileURL (file_client E) f w = (r, w') \<Longrightarrow> elsewhere Ts w w'"
  using GetFileURL_frame [of E f w r w'] by (simp add: file_client_def silent_elsewhere)

lemma publish_elsewhere:
  assumes "subject \<notin> Ts" and "KafkaBroker.Publish E subject body w = (r, w')"
  shows "elsewhere Ts w w'"
  using Publish_effect [OF assms(2)] assms(1) by (cases r) (auto simp: elsewhere_def)

abbreviation speaks_elsewhere :: "env \<Rightarrow> string set \<Rightarrow> (world, 'a) prog \<Rightarrow> bool" where
  "speaks_elsewhere E Ts \<equiv> each_call (sound E) (elsewhere Ts)"

lemmas silent_calls = write_elsewhere [OF _ refl, rotated] cache_elsewhere [OF _ refl, rotated] file_elsewhere

lemma commands_elsewhere:
  fixes topic :: string and E :: env
  defines "svc \<equiv> wired_service E topic"
  shows "speaks_elsewhere E Ts (CreateUser_prog svc i n f l)" "speaks_elsewhere E Ts (DeleteUser_prog svc i)"
    "speaks_elsewhere E Ts (ActivateUser_prog svc i)" "speaks_elsewhere E Ts (DeactivateUser_prog svc i)"
    "speaks_elsewhere E Ts (ExistsByUsername_prog svc n)"
  unfolding service_prog_defs svc_def wired_parts
  by (auto simp del: pg_repo_methods redis_repo_methods intro!: each_call_call dest: silent_calls split: sum.split)

lemma queries_elsewhere:
  fixes topic :: string and E :: env
  assumes "topic \<notin> Ts"
  defines "svc \<equiv> wired_service E topic"
  shows "speaks_elsewhere E Ts (GetUserPreviewByID_prog svc i)" "speaks_elsewhere E Ts (GetUserPreviewByIDNoCache_prog svc i)"
    "speaks_elsewhere E Ts (GetDetailedUserByUsername_prog svc n)"
proof -
  have resolve: "speaks_elsewhere E Ts (resolve_avatar_prog svc u)" for u
    unfolding resolve_avatar_prog_def Let_def svc_def wired_parts
    by (auto intro!: each_call_call dest: silent_calls split: sum.split)
  have load: "speaks_elsewhere E Ts (loadUserPreview_prog svc i)" for i
    unfolding loadUserPreview_prog_def svc_def wired_parts
    by (auto simp del: pg_repo_methods intro!: each_call_call each_call_andthen resolve [unfolded svc_def]
        dest: silent_calls split: sum.split)
  have refresh: "speaks_elsewhere E Ts (refresh_preview_prog svc u)" for u
    unfolding refresh_preview_prog_def Let_def svc_def wired_parts
    by (auto simp del: redis_repo_methods intro!: each_call_call dest: silent_calls split: sum.split)
  have publish: "pb_PublishDetailedUserRequested (detailed_publisher E topic) u w = (r, w') \<Longrightarrow> elsewhere Ts w w'" for u w r w'
    using publish_elsewhere [OF assms(1)] silent_elsewhere
    by (auto simp: detailed_publisher_def PublishDetailedUserRequested_def split: option.splits)
  have detailed: "speaks_elsewhere E Ts (load_detailed_prog svc n)" for n
    unfolding load_detailed_prog_def Let_def svc_def wired_parts
    by (auto simp del: pg_repo_methods redis_repo_methods intro!: each_call_call each_call_andthen resolve [unfolded svc_def]
        split: sum.split)
      (erule silent_calls publish; assumption)+
  show "speaks_elsewhere E Ts (GetUserPreviewByID_prog svc i)"
    unfolding GetUserPreviewByID_prog_def Let_def
    by (auto simp: svc_def simp del: redis_repo_methods intro!: each_call_call each_call_andthen
        load [unfolded svc_def] refresh [unfolded svc_def] split: sum.split option.split)
      (erule silent_calls; assumption)+
  show "speaks_elsewhere E Ts (GetUserPreviewByIDNoCache_prog svc i)"
    unfolding GetUserPreviewByIDNoCache_prog_def Let_def using load by simp
  show "speaks_elsewhere E Ts (GetDetailedUserByUsername_prog svc n)"
    unfolding GetDetailedUserByUsername_prog_def Let_def
    by (auto simp: svc_def simp del: redis_repo_methods intro!: each_call_call
        detailed [unfolded svc_def] dest: silent_calls split: sum.split option.split)
qed


section \<open>What a report says\<close>

definition create_result_true :: "env \<Rightarrow> world \<Rightarrow> string \<times> string \<Rightarrow> bool" where
  "create_result_true E w m \<longleftrightarrow> (\<exists>r. enveloped E (fst m) (marshal_result r) (snd m) \<and>
     (sr_Status r = ''success'' \<longrightarrow> (\<exists>u. seen w u \<and> e_uuid E (sr_UserID r) = Some (u_ID u))))"

definition removal_recorded :: "world \<Rightarrow> string \<Rightarrow> bool" where
  "removal_recorded w k \<longleftrightarrow> list_ex (\<lambda>e. ob_aggregate_id e = k \<and> ob_operation e = ''deactivated'') (w_outbox w)"

definition delete_result_true :: "env \<Rightarrow> world \<Rightarrow> string \<times> string \<Rightarrow> bool" where
  "delete_result_true E w m \<longleftrightarrow> (\<exists>r. enveloped E (fst m) (marshal_result r) (snd m) \<and>
     (sr_Status r = ''success'' \<longrightarrow> (\<exists>k. e_uuid E (sr_UserID r) = Some k \<and> removal_recorded w k)))"

definition result_true :: "env \<Rightarrow> kafka_config \<Rightarrow> world \<Rightarrow> string \<times> string \<Rightarrow> bool" where
  "result_true E cfg w m \<longleftrightarrow>
     (fst m = k_SagaCreateResultTopic cfg \<longrightarrow> create_result_true E w m) \<and>
     (fst m = k_SagaDeleteResultTopic cfg \<longrightarrow> delete_result_true E w m)"

definition result_topics :: "kafka_config \<Rightarrow> string set" where
  "result_topics cfg = {k_SagaCreateResultTopic cfg, k_SagaDeleteResultTopic cfg}"

definition reports :: "env \<Rightarrow> kafka_config \<Rightarrow> world \<Rightarrow> world \<Rightarrow> bool" where
  "reports E cfg w w' \<longleftrightarrow> grows w w' \<and>
     (\<exists>new. w_bus w' = w_bus w @ new \<and> list_all (result_true E cfg w') new)"

interpretation reporting: world_guarantee "reports E cfg" for E cfg
  by unfold_locales (simp_all add: reports_def life.rely_refl)

lemma elsewhere_reports: "grows w w' \<Longrightarrow> elsewhere (result_topics cfg) w w' \<Longrightarrow> reports E cfg w w'"
  by (fastforce simp: reports_def elsewhere_def list_all_iff result_true_def result_topics_def)

lemma removal_later: "grows w w' \<Longrightarrow> removal_recorded w k \<Longrightarrow> removal_recorded w' k"
  by (auto simp: grows_def removal_recorded_def prefix_def)

lemma create_result_later: "grows w w' \<Longrightarrow> create_result_true E w m \<Longrightarrow> create_result_true E w' m"
  unfolding create_result_true_def using grows_seen by blast

lemma delete_result_later: "grows w w' \<Longrightarrow> delete_result_true E w m \<Longrightarrow> delete_result_true E w' m"
  unfolding delete_result_true_def using removal_later by blast

lemma result_later: "grows w w' \<Longrightarrow> result_true E cfg w m \<Longrightarrow> result_true E cfg w' m"
  unfolding result_true_def using create_result_later delete_result_later by blast

lemma reports_closed:
  assumes "(reports E cfg)\<^sup>*\<^sup>* w w'" and "list_all (result_true E cfg w) (w_bus w)"
  shows "list_all (result_true E cfg w') (w_bus w')"
  using assms
proof (induction rule: rtranclp_induct)
  case (step y z)
  then show ?case using result_later by (auto simp: reports_def list_all_iff)
qed simp

text \<open>A program that only grows the stores and writes elsewhere.\<close>

lemma keeps_elsewhere:
  assumes "does grows E post p w" and "speaks_elsewhere E (result_topics cfg) p"
  shows "does (reports E cfg) E post p w"
  using keeps_each [OF assms] elsewhere_reports by blast

section \<open>The command handlers\<close>

lemma create_names:
  "does grows E (\<lambda>r w. \<forall>u. r = Inr u \<longrightarrow> (\<exists>v. seen w v \<and> e_uuid E i = Some (u_ID v)))
    (CreateUser_prog (wired_service E topic) i n f l) w"
proof (cases "i = []")
  case False
  let ?post = "\<lambda>r w. \<forall>u. r = Inr u \<longrightarrow> (\<exists>v. seen w v \<and> e_uuid E i = Some (u_ID v))"
  show ?thesis
    unfolding CreateUser_prog_def wired_parts if_not_P [OF False]
  proof (rule life.keeps_call)
    let ?p = "\<lparr>p_ID = i, p_Username = n, p_FirstName = f, p_LastName = l, p_AvatarID = []\<rparr>"
    fix t a t'
    assume t: "sound E t" "ur_Create (pg_repo E NewPgErrorTranslator) ?p t = (a, t')"
    note s = write_steps(1) [OF t(1) refl t(2)]
    have named: "\<exists>v. seen t' v \<and> e_uuid E i = Some (u_ID v)" if u: "a = Inr u" for u
    proof -
      have "inserts ?p (e_uuid E i) (users_view t) (users_view t') u"
        using pg.create_ok [of E t ?p u t'] t u by (simp add: sound_def)
      then have "e_uuid E i = Some (u_ID u)" by (simp add: inserts_def)
      moreover obtain v where "seen t' v" "u\<lparr>u_AvatarURL := []\<rparr> = v\<lparr>u_AvatarURL := []\<rparr>"
        using s u by (auto simp: known_def)
      moreover from this(2) have "u_ID u = u_ID v" by (metis user.select_convs(1) user.surjective user.update_convs)
      ultimately show ?thesis by auto
    qed
    have "does grows E ?post (call (rr_Upsert (redis_repo E) (Some u))
        (\<lambda>x. case x of Inl err \<Rightarrow> Done (Inl err) | Inr _ \<Rightarrow> Done (Inr u))) t'" if u: "a = Inr u" for u
    proof (rule life.keeps_call)
      fix v x v'
      assume v: "sound E v" "grows t' v" "rr_Upsert (redis_repo E) (Some u) v = (x, v')"
      have "known v u" using s u v(2) grows_known by blast
      note c = upsert_known_step [OF v(1,3) this]
      then have "grows t' v'" using v(2) life.rely_trans by blast
      with named [OF u] grows_seen have "\<exists>w. seen v' w \<and> e_uuid E i = Some (u_ID w)" by blast
      with c show "sound E v' \<and> grows v v' \<and>
          does grows E ?post (case x of Inl err \<Rightarrow> Done (Inl err) | Inr _ \<Rightarrow> Done (Inr u)) v'"
        by (auto split: sum.split)
    qed
    with s show "sound E t' \<and> grows t t' \<and> does grows E ?post (case a of Inl err \<Rightarrow> Done (Inl err)
        | Inr user \<Rightarrow> call (rr_Upsert (redis_repo E) (Some user))
            (\<lambda>x. case x of Inl err \<Rightarrow> Done (Inl err) | Inr _ \<Rightarrow> Done (Inr user))) t'"
      by (auto split: sum.split)
  qed
qed (simp add: CreateUser_prog_def)

lemma replay_drop:
  "replay es k \<noteq> None \<Longrightarrow> replay (es @ new) k = None \<Longrightarrow>
     list_ex (\<lambda>e. ob_aggregate_id e = k \<and> ob_operation e = ''deactivated'') new"
proof (induction new rule: rev_induct)
  case (snoc e new)
  then show ?case
    by (cases "replay (es @ new) k = None")
      (auto simp: replay_append apply_event_def simp flip: append_assoc split: if_splits)
qed simp

lemma removal_found:
  assumes "pg_inv E w" and "pg_inv E w'" and "prefix (w_outbox w) (w_outbox w')"
    and "users_view w k \<noteq> None" and "users_view w' k = None"
  shows "removal_recorded w' k"
proof -
  obtain new where new: "w_outbox w' = w_outbox w @ new" using assms(3) by (auto simp: prefix_def)
  have "replay (w_outbox v) k = None \<longleftrightarrow> users_view v k = None" if "pg_inv E v" for v
    using that by (simp add: pg_inv_def outbox_ok_def rows_view_def users_view_def)
  with assms new have "replay (w_outbox w) k \<noteq> None" "replay (w_outbox w @ new) k = None" by metis+
  from replay_drop [OF this] show ?thesis by (simp add: removal_recorded_def new)
qed

lemma delete_names:
  "does grows E (\<lambda>r w. \<forall>x. r = Inr x \<longrightarrow> (\<exists>k. e_uuid E i = Some k \<and> removal_recorded w k))
    (DeleteUser_prog (wired_service E topic) i) w"
proof (cases "i = []")
  case False
  let ?post = "\<lambda>r w. \<forall>x. r = Inr x \<longrightarrow> (\<exists>k. e_uuid E i = Some k \<and> removal_recorded w k)"
  show ?thesis
    unfolding DeleteUser_prog_def wired_parts if_not_P [OF False]
  proof (rule life.keeps_call)
    fix t a t'
    assume t: "sound E t" "ur_DeleteByID (pg_repo E NewPgErrorTranslator) i t = (a, t')"
    note s = write_steps(4) [OF t(1) refl t(2)]
    have named: "\<exists>k. e_uuid E i = Some k \<and> removal_recorded t' k" if u: "a = Inr x" for x
    proof -
      have inv: "pg_inv E t" "pg_inv E t'" using t(1) s by (simp_all add: sound_def)
      have "removes (e_uuid E i) (users_view t) (users_view t')"
        using pg.delete_ok [OF inv(1)] t(2) u by blast
      then obtain k where "e_uuid E i = Some k" "users_view t k \<noteq> None" "users_view t' k = None"
        by (auto simp: removes_def)
      with removal_found [OF inv] s show ?thesis by (auto simp: grows_def)
    qed
    have "does grows E ?post (call (rr_DeleteByID (redis_repo E) i) Done) t'" if u: "a = Inr x" for x
    proof (rule life.keeps_call)
      fix v y v'
      assume v: "sound E v" "grows t' v" "rr_DeleteByID (redis_repo E) i v = (y, v')"
      note c = cache_steps(3) [OF v(1) refl v(3)]
      then have "grows t' v'" using v(2) life.rely_trans by blast
      with named [OF u] removal_later have "\<exists>k. e_uuid E i = Some k \<and> removal_recorded v' k" by blast
      with c show "sound E v' \<and> grows v v' \<and> does grows E ?post (Done y) v'" by simp
    qed
    with s show "sound E t' \<and> grows t t' \<and> does grows E ?post (case a of Inl err \<Rightarrow> Done (Inl err)
        | Inr x \<Rightarrow> call (rr_DeleteByID (redis_repo E) i) Done) t'"
      by (auto split: sum.split)
  qed
qed (simp add: DeleteUser_prog_def)

lemma report_call:
  assumes "eb_Publish (sg_broker S) = KafkaBroker.Publish E"
    and "\<And>t time body. grows w t \<Longrightarrow>
      enveloped E T (marshal_result (r\<lparr>sr_Timestamp := time\<rparr>)) body \<Longrightarrow> result_true E cfg t (T, body)"
  shows "does (reports E cfg) E (\<lambda>_ _. True) (call (publish_result S T r) Done) w"
proof (rule life.keeps_call)
  fix t a t'
  assume t: "sound E t" "grows w t" "publish_result S T r t = (a, t')"
  then have p: "KafkaBroker.Publish E T (marshal_result (r\<lparr>sr_Timestamp := format_time (sg_now S t)\<rparr>)) t = (a, t')"
    by (simp add: publish_result_def assms(1))
  note s = publish_step [OF t(1) p]
  then have "grows w t'" using t(2) life.rely_trans by blast
  then have true: "result_true E cfg t' (T, body)"
    if "enveloped E T (marshal_result (r\<lparr>sr_Timestamp := format_time (sg_now S t)\<rparr>)) body" for body
    using assms(2) that by blast
  have "reports E cfg t t'"
    using Publish_effect [OF p] s true by (cases a) (auto simp: reports_def)
  with s show "sound E t' \<and> reports E cfg t t' \<and> does (reports E cfg) E (\<lambda>_ _. True) (Done a) t'" by simp
qed

definition result_topics_apart :: "kafka_config \<Rightarrow> bool" where
  "result_topics_apart cfg \<longleftrightarrow> k_SagaCreateResultTopic cfg \<noteq> k_SagaDeleteResultTopic cfg \<and>
     k_RecoveryCompletedTopic cfg \<notin> result_topics cfg \<and> k_DetailedUserProjectionTopic cfg \<notin> result_topics cfg \<and>
     k_DetailedUserRequestedTopic cfg \<notin> result_topics cfg"

lemma saga_reports_true:
  assumes "eb_Publish (sg_broker S) = KafkaBroker.Publish E" and "sg_cfg S = cfg" and "result_topics_apart cfg"
  shows "does (reports E cfg) E (\<lambda>_ _. True) (handleCreate_prog S (wired_service E topic) subject raw) w"
    "does (reports E cfg) E (\<lambda>_ _. True) (handleDelete_prog S (wired_service E topic) subject raw) w"
proof -
  have apart: "k_SagaCreateResultTopic cfg \<noteq> k_SagaDeleteResultTopic cfg" using assms(3) by (simp add: result_topics_apart_def)
  show "does (reports E cfg) E (\<lambda>_ _. True) (handleCreate_prog S (wired_service E topic) subject raw) w"
  proof (cases "unmarshal_create_command raw")
    case (Inr cmd)
    show ?thesis
      unfolding handleCreate_prog_def Inr sum.case
    proof (rule life.keeps_andthen [OF keeps_elsewhere [OF create_names commands_elsewhere(1)]], rule report_call [OF assms(1)])
      fix created t v time body
      assume named: "\<forall>u. created = Inr u \<longrightarrow> (\<exists>v. seen t v \<and> e_uuid E (cc_UserID cmd) = Some (u_ID v))" and v: "grows t v"
        and body: "enveloped E (k_SagaCreateResultTopic (sg_cfg S)) (marshal_result ((case created of
           Inl err \<Rightarrow> saga_failed (cc_SessionID cmd) (cc_UserID cmd) (cc_SagaID cmd)
                       (fr_CreateUserFailureReason (sg_resolver S) err)
         | Inr _ \<Rightarrow> saga_success (cc_SessionID cmd) (cc_UserID cmd) (cc_SagaID cmd))\<lparr>sr_Timestamp := time\<rparr>)) body"
      have "create_result_true E v (k_SagaCreateResultTopic (sg_cfg S), body)"
        unfolding create_result_true_def fst_conv snd_conv
        by (rule exI, rule conjI [OF body])
          (use named grows_seen [OF v] in \<open>auto simp: saga_failed_def saga_success_def split: sum.splits\<close>)
      with apart assms(2) show "result_true E cfg v (k_SagaCreateResultTopic (sg_cfg S), body)"
        by (simp add: result_true_def)
    qed
  qed (simp add: handleCreate_prog_def)
  show "does (reports E cfg) E (\<lambda>_ _. True) (handleDelete_prog S (wired_service E topic) subject raw) w"
  proof (cases "unmarshal_delete_command raw")
    case (Inr cmd)
    show ?thesis
      unfolding handleDelete_prog_def Inr sum.case
    proof (rule life.keeps_andthen [OF keeps_elsewhere [OF delete_names commands_elsewhere(2)]], rule report_call [OF assms(1)])
      fix deleted t v time body
      assume named: "\<forall>x. deleted = Inr x \<longrightarrow> (\<exists>k. e_uuid E (dc_UserID cmd) = Some k \<and> removal_recorded t k)" and v: "grows t v"
        and body: "enveloped E (k_SagaDeleteResultTopic (sg_cfg S)) (marshal_result ((case deleted of
           Inl err \<Rightarrow> saga_failed (dc_SessionID cmd) (dc_UserID cmd) (dc_SagaID cmd)
                       (fr_DeleteUserFailureReason (sg_resolver S) err)
         | Inr _ \<Rightarrow> saga_success (dc_SessionID cmd) (dc_UserID cmd) (dc_SagaID cmd))\<lparr>sr_Timestamp := time\<rparr>)) body"
      have "delete_result_true E v (k_SagaDeleteResultTopic (sg_cfg S), body)"
        unfolding delete_result_true_def fst_conv snd_conv
        by (rule exI, rule conjI [OF body])
          (use named removal_later [OF v] in \<open>auto simp: saga_failed_def saga_success_def split: sum.splits\<close>)
      with apart assms(2) show "result_true E cfg v (k_SagaDeleteResultTopic (sg_cfg S), body)"
        by (simp add: result_true_def)
    qed
  qed (simp add: handleDelete_prog_def)
qed

section \<open>The running service\<close>

lemma request_elsewhere:
  assumes "topic \<notin> Ts"
  shows "speaks_elsewhere E Ts (request_prog (wired_service E topic) q)"
  by (cases q) (auto intro!: each_call_andthen commands_elsewhere queries_elsewhere [OF assms])

lemma recovery_elsewhere:
  assumes "eb_Publish (rs_broker R) = KafkaBroker.Publish E" and "k_RecoveryCompletedTopic (rs_cfg R) \<notin> Ts"
  shows "speaks_elsewhere E Ts (recovery_prog R (wired_service E topic) subject raw)"
proof -
  have op: "speaks_elsewhere E Ts (recovery_operation_prog (wired_service E topic) command)" for command
    unfolding recovery_operation_prog_def Let_def
    by (auto intro!: each_call_andthen commands_elsewhere split: sum.split)
  have "speaks_elsewhere E Ts (call (\<lambda>s. case rs_encode R (recovery_completed command result userID (rs_now R s)) of
      Inl err \<Rightarrow> (Inl err, s) | Inr body \<Rightarrow> eb_Publish (rs_broker R) (k_RecoveryCompletedTopic (rs_cfg R)) body s) Done)"
    for command result userID
    by (rule each_call_call)
      (auto simp: assms(1) intro: silent_elsewhere publish_elsewhere [OF assms(2)] split: sum.splits)
  then show ?thesis
    unfolding recovery_prog_def by (auto intro!: each_call_andthen op split: sum.split)
qed

lemma deployed_reports:
  assumes "deployed d" and "result_topics_apart (cfg_Kafka (dp_cfg d))"
  shows "within_guarantee (reports (su_world (dp_startup d)) (cfg_Kafka (dp_cfg d))) d"
  unfolding within_guarantee_def
proof (intro conjI allI)
  let ?P = "dp_startup d" and ?cfg = "dp_cfg d" and ?app = "dp_app d"
  let ?E = "su_world ?P" and ?k = "cfg_Kafka (dp_cfg d)"
  have app: "start_service ?P ?cfg = Inr ?app" using assms(1) by (simp add: deployed_def)
  note parts = started_parts [OF app]
  have out: "k_DetailedUserRequestedTopic ?k \<notin> result_topics ?k" "k_DetailedUserProjectionTopic ?k \<notin> result_topics ?k"
    "k_RecoveryCompletedTopic ?k \<notin> result_topics ?k" using assms(2) by (simp_all add: result_topics_apart_def)
  show "does (reports ?E ?k) ?E reply_true (live_request d q) w" for q w
    unfolding live_request_def app_service_def
    by (rule keeps_elsewhere [OF request_keeps request_elsewhere [OF out(1)]])
  have saga: "sg_cfg (rn_saga ?app) = ?k" and recovery: "rs_cfg (rn_recovery ?app) = ?k"
    using started_wiring [OF app] provided_saga provided_recovery by blast+
  show "does (reports ?E ?k) ?E (\<lambda>_ _. True) (topic_prog ?P ?cfg ?app t subject payload) w" for t subject payload w
  proof (cases t)
    case CreateCommands
    then show ?thesis using saga_reports_true(1) [OF parts(4) saga assms(2)] by (simp add: app_service_def)
  next
    case DeleteCommands
    then show ?thesis using saga_reports_true(2) [OF parts(4) saga assms(2)] by (simp add: app_service_def)
  next
    case RecoveryCommands
    have "speaks_elsewhere ?E (result_topics ?k) (topic_prog ?P ?cfg ?app t subject payload)"
      using RecoveryCommands recovery_elsewhere [OF parts(5)] recovery out(3) by (simp add: app_service_def)
    then show ?thesis by (rule keeps_elsewhere [OF topic_keeps [OF app]])
  next
    case DetailedRequests
    then have "speaks_elsewhere ?E (result_topics ?k) (topic_prog ?P ?cfg ?app t subject payload)"
      by (auto simp: relay_prog_def kafka_backed_def intro!: each_call_call intro: publish_elsewhere [OF out(2)])
    then show ?thesis by (rule keeps_elsewhere [OF topic_keeps [OF app]])
  next
    case DetailedProjections
    then have "speaks_elsewhere ?E (result_topics ?k) (topic_prog ?P ?cfg ?app t subject payload)"
      by (auto simp: projection_prog_def Let_def simp del: redis_repo_methods intro!: each_call_call
          dest: silent_calls split: sum.split)
    then show ?thesis by (rule keeps_elsewhere [OF topic_keeps [OF app]])
  qed
qed

lemma seen_ID: "(\<exists>u. seen w u \<and> i = Some (u_ID u)) \<longleftrightarrow> (\<exists>e\<in>set (w_outbox w). i = Some (row_ID (ob_payload e)))"
  by (auto simp: seen_def list_ex_iff)

lemma removal_ID: "(\<exists>k. i = Some k \<and> removal_recorded w k) \<longleftrightarrow>
    (\<exists>e\<in>set (w_outbox w). ob_operation e = ''deactivated'' \<and> i = Some (ob_aggregate_id e))"
  by (auto simp: removal_recorded_def list_ex_iff)

lemma create_result_read:
  "create_result_true E w (topic, body) \<longleftrightarrow> (\<exists>r. enveloped E topic (marshal_result r) body \<and>
     (sr_Status r = ''success'' \<longrightarrow>
       (\<exists>e\<in>set (w_outbox w). e_uuid E (sr_UserID r) = Some (row_ID (ob_payload e)))))"
  by (simp add: create_result_true_def seen_ID)

lemma delete_result_read:
  "delete_result_true E w (topic, body) \<longleftrightarrow> (\<exists>r. enveloped E topic (marshal_result r) body \<and>
     (sr_Status r = ''success'' \<longrightarrow> (\<exists>e\<in>set (w_outbox w). ob_operation e = ''deactivated'' \<and>
       e_uuid E (sr_UserID r) = Some (ob_aggregate_id e))))"
  by (simp add: delete_result_true_def removal_ID)

text \<open>
  Results.
\<close>

text \<open>
  C6. When the result topics of creations and deletions are two and neither carries other messages
  of the service, as in the default configuration, and whatever the interleaving with other
  commands, consumers and requests, every message on the result topic of creations carries a
  result, and one that says success names a user that the outbox records; every message on the
  result topic of deletions carries a result, and one that says success names a user whose removal
  the outbox records.
\<close>

theorem interleaved_results_are_true:
  assumes "deployed d" and "env_ok utf8_valid (su_world (dp_startup d))"
    and "result_topics_apart (cfg_Kafka (dp_cfg d))" and "(live_step d)\<^sup>*\<^sup>* (initial_live claims) s"
  shows "list_all (\<lambda>(topic, body). \<exists>r. enveloped (su_world (dp_startup d)) topic (marshal_result r) body \<and>
        (sr_Status r = ''success'' \<longrightarrow> (\<exists>e\<in>set (w_outbox (lv_world s)).
           e_uuid (su_world (dp_startup d)) (sr_UserID r) = Some (row_ID (ob_payload e)))))
      (filter (\<lambda>m. fst m = k_SagaCreateResultTopic (cfg_Kafka (dp_cfg d))) (w_bus (lv_world s))) \<and>
    list_all (\<lambda>(topic, body). \<exists>r. enveloped (su_world (dp_startup d)) topic (marshal_result r) body \<and>
        (sr_Status r = ''success'' \<longrightarrow> (\<exists>e\<in>set (w_outbox (lv_world s)). ob_operation e = ''deactivated'' \<and>
           e_uuid (su_world (dp_startup d)) (sr_UserID r) = Some (ob_aggregate_id e))))
      (filter (\<lambda>m. fst m = k_SagaDeleteResultTopic (cfg_Kafka (dp_cfg d))) (w_bus (lv_world s)))"
proof -
  let ?E = "su_world (dp_startup d)" and ?k = "cfg_Kafka (dp_cfg d)"
  have "list_all (result_true ?E ?k (lv_world s)) (w_bus (lv_world s))"
  proof (rule reports_closed)
    show "(reports ?E ?k)\<^sup>*\<^sup>* empty_world (lv_world s)"
      using reporting.reachable_sound [OF deployed_reports [OF assms(1,3)] assms(4) initial_sound [OF assms(2)]]
      by (simp add: initial_live_def)
  qed (simp add: empty_world_def)
  then have "\<forall>m\<in>set (w_bus (lv_world s)). result_true ?E ?k (lv_world s) m" by (simp add: list_all_iff)
  then show ?thesis
    by (auto simp: list_all_iff result_true_def create_result_read delete_result_read)
qed

lemma sample_kafka: "cfg_Kafka (dp_cfg sample_deployment) = default_Kafka"
  by (simp add: sample_deployment_def default_Config_def Let_def)

lemma default_apart: "result_topics_apart default_Kafka"
  by (simp add: result_topics_apart_def result_topics_def default_Kafka_def)

theorem interleaved_results_are_true_witness:
  "let w = lv_world (play sample_deployment [Send CreateCommands \<lparr>km_Key = [], km_Value = sample_create_raw, km_Headers = []\<rparr>,
      Begin CreateCommands, Act CreateCommands, Act CreateCommands, Ask (AskDetailed ''alex''), Act CreateCommands,
      Request_call 0, Act CreateCommands, Act CreateCommands, Act CreateCommands] (initial_live [])) in
    list_all (\<lambda>(topic, body). \<exists>r. enveloped sample_env topic (marshal_result r) body \<and>
        (sr_Status r = ''success'' \<longrightarrow> (\<exists>e\<in>set (w_outbox w).
           e_uuid sample_env (sr_UserID r) = Some (row_ID (ob_payload e)))))
      (filter (\<lambda>m. fst m = k_SagaCreateResultTopic default_Kafka) (w_bus w))"
  unfolding Let_def
  by (rule interleaved_results_are_true
      [OF sample_deployed _ _ play_steps, unfolded sample_stores sample_kafka, OF sample_env_ok default_apart, THEN conjunct1])

end
