(* ===== verification/Bounded.thy ===== *)
theory Bounded
  imports LiveRuns
begin

text \<open>
  How many calls a request or a turn of a consumer makes, whatever runs between its calls.
\<close>

section \<open>Programs under interference\<close>

text \<open>A program that finds the given states at its calls, one after the other.\<close>

primrec drive :: "('s, 'a) prog \<Rightarrow> 's list \<Rightarrow> ('s, 'a) prog" where
  "drive p [] = p"
| "drive p (s # ss) = (case p of Done a \<Rightarrow> Done a | Call f \<Rightarrow> drive (fst (f s)) ss)"

primrec ends_within :: "nat \<Rightarrow> ('s, 'a) prog \<Rightarrow> bool" where
  "ends_within 0 p = (case p of Done _ \<Rightarrow> True | Call _ \<Rightarrow> False)"
| "ends_within (Suc n) p = (case p of Done _ \<Rightarrow> True | Call f \<Rightarrow> (\<forall>s. ends_within n (fst (f s))))"

lemma ends_rules [simp]:
  "ends_within n (Done a)" "\<not> ends_within 0 (Call f)"
  "ends_within (Suc n) (Call f) \<longleftrightarrow> (\<forall>s. ends_within n (fst (f s)))"
  by (cases n; simp)+

declare ends_within.simps [simp del]

lemma ends_Suc: "ends_within n p \<Longrightarrow> ends_within (Suc n) p"
proof (induction n arbitrary: p)
  case 0
  then show ?case by (cases p) simp_all
next
  case (Suc n)
  show ?case by (cases p) (use Suc in simp_all)
qed

lemma ends_mono: "ends_within m p \<Longrightarrow> m \<le> n \<Longrightarrow> ends_within n p"
  by (induction n) (auto simp: le_Suc_eq dest: ends_Suc)

lemma ends_call:
  assumes "\<And>a. ends_within (n - 1) (k a)" and "0 < n"
  shows "ends_within n (call act k)"
  using assms by (cases n) (simp_all add: call_def case_prod_unfold)

lemma ends_andthen:
  assumes "ends_within m p" and "\<And>a. ends_within (n - m) (k a)" and "m \<le> n"
  shows "ends_within n (andthen p k)"
  using assms
proof (induction m arbitrary: p n)
  case 0
  then show ?case by (cases p) simp_all
next
  case (Suc m)
  show ?case
  proof (cases p)
    case (Done a)
    then show ?thesis using ends_mono [OF Suc.prems(2)] by simp
  next
    case (Call f)
    with Suc show ?thesis by (cases n) (simp_all add: case_prod_unfold)
  qed
qed

lemma ends_part: "ends_within n p \<Longrightarrow> ends_within n (within get put p)"
proof (induction n arbitrary: p)
  case 0
  then show ?case by (cases p) simp_all
next
  case (Suc n)
  then show ?case by (cases p) (simp_all add: case_prod_unfold)
qed

lemma drive_Done: "drive (Done a) ss = Done a"
  by (cases ss) simp_all

lemma ends_drive: "ends_within n p \<Longrightarrow> n \<le> length ss \<Longrightarrow> \<exists>a. drive p ss = Done a"
proof (induction n arbitrary: p ss)
  case 0
  then show ?case by (cases p) (simp_all add: drive_Done)
next
  case (Suc n)
  then obtain s ss' where ss: "ss = s # ss'" "n \<le> length ss'" by (cases ss) auto
  show ?case by (cases p) (use Suc ss in simp_all)
qed

section \<open>Operations\<close>

named_theorems ends_intros \<open>how many calls the operations make\<close>

lemma ends_resolve [ends_intros]: "ends_within 1 (resolve_avatar_prog svc user)"
  unfolding resolve_avatar_prog_def Let_def by (auto intro!: ends_call split: sum.split)

lemma ends_load [ends_intros]: "ends_within 2 (loadUserPreview_prog svc i)"
  unfolding loadUserPreview_prog_def
  by (auto intro!: ends_call ends_andthen [OF ends_resolve] split: sum.split)

lemma ends_refresh [ends_intros]: "ends_within 2 (refresh_preview_prog svc cached)"
  unfolding refresh_preview_prog_def Let_def by (auto intro!: ends_call split: sum.split)

lemma ends_detailed [ends_intros]: "ends_within 4 (load_detailed_prog svc n)"
  unfolding load_detailed_prog_def Let_def
  by (auto intro!: ends_call ends_andthen [OF ends_resolve] split: sum.split)

lemma ends_commands [ends_intros]:
  "ends_within 2 (CreateUser_prog svc i n f l)" "ends_within 2 (DeleteUser_prog svc i)"
  "ends_within 2 (ActivateUser_prog svc i)" "ends_within 2 (DeactivateUser_prog svc i)"
  unfolding service_prog_defs by (auto intro!: ends_call split: sum.split)

lemma ends_queries [ends_intros]:
  "ends_within 1 (ExistsByUsername_prog svc n)" "ends_within 4 (GetUserPreviewByID_prog svc i)"
  "ends_within 2 (GetUserPreviewByIDNoCache_prog svc i)" "ends_within 5 (GetDetailedUserByUsername_prog svc n)"
  unfolding ExistsByUsername_prog_def GetUserPreviewByID_prog_def GetUserPreviewByIDNoCache_prog_def
    GetDetailedUserByUsername_prog_def Let_def
  by (auto intro!: ends_call ends_andthen [OF ends_load] ends_andthen [OF ends_refresh] ends_load
      ends_mono [OF ends_detailed] split: sum.split option.split)

lemma ends_request: "ends_within 5 (request_prog svc q)"
  by (cases q) (auto intro!: ends_andthen [OF ends_commands(3)] ends_andthen [OF ends_commands(4)]
      ends_andthen [OF ends_queries(1)] ends_andthen [OF ends_queries(2)] ends_andthen [OF ends_queries(3)]
      ends_andthen [OF ends_queries(4)])

section \<open>Handlers and turns\<close>

lemma ends_recovery_operation: "ends_within 2 (recovery_operation_prog svc command)"
  unfolding recovery_operation_prog_def Let_def
  by (auto intro!: ends_andthen [OF ends_commands(1)] ends_andthen [OF ends_commands(2)]
      ends_andthen [OF ends_commands(3)] ends_andthen [OF ends_commands(4)] split: sum.split)

lemma ends_handler: "ends_within 3 (topic_prog P cfg app t subject payload)"
  by (cases t)
    (auto simp: handleCreate_prog_def handleDelete_prog_def recovery_prog_def relay_prog_def projection_prog_def Let_def
      intro!: ends_call ends_andthen [OF ends_commands(1)] ends_andthen [OF ends_commands(2)]
        ends_andthen [OF ends_recovery_operation] split: sum.split)

lemma ends_settle: "ends_within 2 (settle_prog N cfg msg offset attempts event r)"
  unfolding settle_prog_def by (auto intro!: ends_call split: sum.split)

lemma ends_message:
  assumes "\<And>subject payload. ends_within 3 (h subject payload)"
  shows "ends_within 6 (message_prog N cfg h msg offset)"
  unfolding message_prog_def Let_def
  by (auto intro!: ends_call ends_andthen [OF ends_part [OF assms]] ends_settle split: sum.split bool.split)

lemma ends_turn: "ends_within 7 (live_turn d t)"
proof -
  have "ends_within 3 (live_handler d t subject payload)" for subject payload
    unfolding live_handler_def by (rule ends_part [OF ends_handler])
  from ends_message [of "live_handler d t", OF this] show ?thesis
    by (simp add: live_turn_def turn_prog_def eval_nat_numeral Let_def split: option.split)
qed

text \<open>
  Under any interference.
\<close>

text \<open>
  C22. A gRPC request answers after at most five calls of its own, and a turn of a consumer ends
  after at most seven, whatever states of the stores the others leave them to find at each of
  these calls.
\<close>

theorem requests_and_turns_end:
  assumes "5 \<le> length ws" and "7 \<le> length cs"
  shows "(\<exists>r. drive (live_request d q) ws = Done r) \<and> (\<exists>o'. drive (live_turn d t) cs = Done o')"
  using ends_drive [OF ends_request assms(1)] ends_drive [OF ends_turn assms(2)]
  by (simp add: live_request_def)

theorem requests_and_turns_end_witness:
  "(\<exists>r. drive (live_request sample_deployment (AskPreview ''u1'')) (replicate 5 empty_world) = Done r) \<and>
   (\<exists>o'. drive (live_turn sample_deployment CreateCommands) (replicate 7 (fresh_consumer [] (empty_world, []))) = Done o')"
  by (rule requests_and_turns_end) simp_all

end
