(* ===== verification/Redelivery.thy ===== *)
theory Redelivery
  imports SagaFlow
begin

text \<open>
  Recovery commands that are delivered again. Creation and deletion are not idempotent, and the handler
  completes a command only when its own call of the service succeeds.
\<close>

section \<open>Repeated operations\<close>

lemma repeated_create:
  assumes "pg_inv E w" and "e_uuid E i = Some k" and "users_view w k \<noteq> None"
    and "CreateUser (wired_service E topic) i n f l w = (r, w')"
  shows "isl r \<and> users_view w' = users_view w"
  using wired.create_effect [OF assms(1) redis_inv_pg [OF assms(1)] assms(4)] assms(2,3)
  by (cases r) (auto simp: inserts_def)

lemma repeated_delete:
  assumes "pg_inv E w" and "e_uuid E i = Some k" and "users_view w k = None"
    and "DeleteUser (wired_service E topic) i w = (r, w')"
  shows "isl r \<and> users_view w' = users_view w"
  using wired.delete_effect [OF assms(1) redis_inv_pg [OF assms(1)] assms(4)] assms(2,3)
  by (cases r) (auto simp: removes_def)

text \<open>An operation that changes which users are stored is a creation or a deletion.\<close>

lemma create_adds:
  assumes "pg_inv E w" and "CreateUser (wired_service E topic) i n f l w = (r, w')"
    and "dom (users_view w') \<noteq> dom (users_view w)"
  shows "\<exists>k. e_uuid E i = Some k \<and> users_view w' k \<noteq> None"
  using wired.create_effect [OF assms(1) redis_inv_pg [OF assms(1)] assms(2)] assms(3)
  by (cases r) (auto simp: inserts_def)

lemma delete_drops:
  assumes "pg_inv E w" and "DeleteUser (wired_service E topic) i w = (r, w')"
    and "dom (users_view w') \<noteq> dom (users_view w)"
  shows "\<exists>k. e_uuid E i = Some k \<and> users_view w' k = None"
  using wired.delete_effect [OF assms(1) redis_inv_pg [OF assms(1)] assms(2)] assms(3)
  by (cases r) (auto simp: removes_def)

lemma stores_dom: "stores rel key us us' u \<Longrightarrow> dom us' = dom us"
  by (auto simp: stores_def)

lemma activate_dom:
  assumes "pg_inv E w" and "ActivateUser (wired_service E topic) i w = (r, w')"
  shows "dom (users_view w') = dom (users_view w)"
  using wired.activate_effect [OF assms(1) redis_inv_pg [OF assms(1)] assms(2)]
  by (cases r; simp; metis stores_dom)

lemma deactivate_dom:
  assumes "pg_inv E w" and "DeactivateUser (wired_service E topic) i w = (r, w')"
  shows "dom (users_view w') = dom (users_view w)"
  using wired.deactivate_effect [OF assms(1) redis_inv_pg [OF assms(1)] assms(2)]
  by (cases r; simp; metis stores_dom)

lemma repeated_operation:
  assumes "pg_inv E w" and R: "ProvideUserRecoverySubscriber E B topic cfg decode encode = Inr R"
    and op: "recovery_operation R command w = (x, w1)" and changed: "dom (users_view w1) \<noteq> dom (users_view w)"
    and v: "pg_inv E v" "dom (users_view v) = dom (users_view w1)" and again: "recovery_operation R command v = (y, v1)"
  shows "isl y \<and> users_view v1 = users_view v"
proof -
  let ?svc = "wired_service E topic"
  have svc: "rs_service R = UserService ?svc" using provided_recovery [OF R] by simp
  let ?o = "ToLower (en_Operation command)" and ?i = "en_AggregateID command"
  have still: "w1 \<noteq> w" using changed by auto
  consider (create) "?o = ''post'' \<or> ?o = ''create''" | (delete) "?o = ''delete''"
    | (activate) "?o = ''activate''" | (deactivate) "?o = ''deactivate''"
    using op still unfolding recovery_operation_def Let_def by (auto split: if_splits)
  then show ?thesis
  proof cases
    case create
    with op still obtain p where p: "unmarshal_create_payload (en_Payload command) = Inr p"
        "TrimSpace (recovery_user_id command p) \<noteq> []"
      unfolding recovery_operation_def Let_def by (auto split: sum.splits if_splits)
    let ?u = "recovery_user_id command p"
    have c: "\<exists>r. CreateUser ?svc ?u (cp_Username p) (cp_FirstName p) (cp_LastName p) w = (r, w1)"
      using op create p unfolding recovery_operation_def Let_def svc by (auto split: sum.splits prod.splits if_splits)
    have d: "\<exists>r. CreateUser ?svc ?u (cp_Username p) (cp_FirstName p) (cp_LastName p) v = (r, v1) \<and> (isl r \<longrightarrow> isl y)"
      using again create p unfolding recovery_operation_def Let_def svc by (auto split: sum.splits prod.splits if_splits)
    from c d show ?thesis using create_adds [OF assms(1) _ changed] repeated_create [OF v(1)] v(2) domIff by metis
  next
    case delete
    have c: "\<exists>r. DeleteUser ?svc ?i w = (r, w1)"
      using op delete unfolding recovery_operation_def Let_def svc by (auto split: sum.splits prod.splits if_splits)
    have d: "\<exists>r. DeleteUser ?svc ?i v = (r, v1) \<and> (isl r \<longrightarrow> isl y)"
      using again delete unfolding recovery_operation_def Let_def svc by (auto split: sum.splits prod.splits if_splits)
    from c d show ?thesis using delete_drops [OF assms(1) _ changed] repeated_delete [OF v(1)] v(2) domIff by metis
  next
    case activate
    then have "\<exists>r. ActivateUser ?svc ?i w = (r, w1)"
      using op unfolding recovery_operation_def Let_def svc by (auto split: sum.splits prod.splits if_splits)
    with activate_dom [OF assms(1)] changed show ?thesis by blast
  next
    case deactivate
    then have "\<exists>r. DeactivateUser ?svc ?i w = (r, w1)"
      using op unfolding recovery_operation_def Let_def svc by (auto split: sum.splits prod.splits if_splits)
    with deactivate_dom [OF assms(1)] changed show ?thesis by blast
  qed
qed

text \<open>
  C38. When the handling of a recovery command that created or deleted a user ends with an error,
  because the cache write or the publication of its completion failed, every later delivery of the
  command fails too as long as the same users are stored: it changes no user and publishes no
  completion.
\<close>

theorem unfinished_recovery_is_never_completed:
  assumes "pg_inv E w" and "ProvideUserRecoverySubscriber E B topic cfg decode encode = Inr R"
    and "recovery_handle R subject raw w = (Inl e, w1)" and "dom (users_view w1) \<noteq> dom (users_view w)"
    and "pg_inv E v" and "dom (users_view v) = dom (users_view w1)"
  shows "case recovery_handle R subject raw v of (r, v') \<Rightarrow>
    isl r \<and> users_view v' = users_view v \<and> w_bus v' = w_bus v"
proof -
  note p = provided_recovery [OF assms(2)]
  have still: "w1 \<noteq> w" using assms(4) by auto
  then obtain command where command: "decode raw = Inr command" "en_AggregateType command \<in> {''user'', ''users''}"
    using assms(3) p by (auto simp: recovery_handle_def split: sum.splits if_splits)
  obtain x s where op: "recovery_operation R command w = (x, s)" by fastforce
  obtain y t where again: "recovery_operation R command v = (y, t)" by fastforce
  have "users_view s = users_view w1"
  proof (cases x)
    case (Inr ri)
    with op command p assms(3) show ?thesis
      by (auto simp: recovery_handle_def dest: Publish_outcome split: sum.splits prod.splits if_splits)
  qed (use op command p assms(3) in \<open>auto simp: recovery_handle_def\<close>)
  with repeated_operation [OF assms(1,2) op _ assms(5) _ again] assms(4,6)
  have "isl y" "users_view t = users_view v" by auto
  with recovery_operation_effect [OF assms(5,2) again] again command p show ?thesis
    by (cases y) (auto simp: recovery_handle_def)
qed

text \<open>A deletion whose completion cannot be published.\<close>

definition unpublished_recovery :: "world user_recovery_subscriber" where
  "unpublished_recovery = \<lparr>rs_broker = kafka_backed (bus_down {6}) sample_broker,
     rs_service = UserService (wired_service (bus_down {6}) ''user.detailed.requested''),
     rs_cfg = default_Kafka, rs_now = clock_of (bus_down {6}), rs_decode = (\<lambda>_. Inr sample_envelope),
     rs_encode = (\<lambda>e. Inr (en_EventID e))\<rparr>"

lemma unpublished_recovery_provided:
  "ProvideUserRecoverySubscriber (bus_down {6}) sample_broker ''user.detailed.requested'' default_Kafka
     (\<lambda>_. Inr sample_envelope) (\<lambda>e. Inr (en_EventID e)) = Inr unpublished_recovery"
  by (simp add: ProvideUserRecoverySubscriber_def NewUserRecoverySubscriber_def unpublished_recovery_def)

lemma bus_down_inv: "pg_inv sample_env w \<Longrightarrow> pg_inv (bus_down ns) w"
  using bus_down_ok [of ns] by (simp add: pg_inv_def table_ok_def row_ok_def [abs_def] bus_down_def)

lemma delete_lowered: "ToLower ''Delete'' = ''delete''"
  by code_simp

abbreviation unpublished_world :: world where
  "unpublished_world \<equiv> snd (recovery_handle unpublished_recovery ''t'' [] sample_world)"

lemma recovery_unpublished:
  "recovery_handle unpublished_recovery ''t'' [] sample_world = (Inl (Foreign ''kafka: leader not available''), unpublished_world)"
  "users_view unpublished_world ''u1'' = None"
  by (simp_all add: recovery_handle_def recovery_operation_def unpublished_recovery_def sample_envelope_def delete_lowered run_eval
      bus_down_def sample_world_users sample_world_calls sample_row_def kafka_backed_def KafkaBroker.Publish_def bus_write_def
      prod_eq_iff users_view_def)

theorem unfinished_recovery_is_never_completed_witness:
  "case recovery_handle unpublished_recovery ''t'' [] unpublished_world of (r, v') \<Rightarrow>
    isl r \<and> users_view v' = users_view unpublished_world \<and> w_bus v' = w_bus unpublished_world"
proof -
  have inv: "pg_inv (bus_down {6}) sample_world" by (rule bus_down_inv [OF sample_inv])
  have "users_view sample_world ''u1'' \<noteq> None" by (simp add: users_view_def sample_world_users sample_row_def)
  with recovery_unpublished(2) have "dom (users_view unpublished_world) \<noteq> dom (users_view sample_world)"
    by (metis domIff)
  with recovery_completed_only_after_success [OF inv unpublished_recovery_provided surjective_pairing] show ?thesis
    by (intro unfinished_recovery_is_never_completed [OF inv unpublished_recovery_provided recovery_unpublished(1)])
      (simp_all add: case_prod_unfold)
qed

end
