(* ===== verification/ServerLifecycle.thy ===== *)
theory ServerLifecycle
  imports GrpcServer Config
begin

text \<open>
  Start and Shutdown of the gRPC server (internal/presentation/grpc/server.go). The gRPC library and
  the network are a runtime, a parameter; \<open>runtime_contract\<close> states what their documentation says of
  serving, stopping and closing. Serve blocks, so Start either returns or is left serving.
\<close>

section \<open>The runtime\<close>

datatype serving = Serving | Returned "goerr option"

record ('l, 'n) grpc_runtime =
  rt_Listen :: "string \<Rightarrow> (goerr, 'l, 'n) io"
  rt_Serve :: "'l \<Rightarrow> 'n \<Rightarrow> serving \<times> 'n"
  rt_GracefulStop :: "'n \<Rightarrow> 'n"
  rt_Close :: "'l \<Rightarrow> 'n \<Rightarrow> goerr option \<times> 'n"

definition net_ErrClosed :: goerr where
  "net_ErrClosed = Sentinel ''net'' ''use of closed network connection''"

definition grpc_ErrServerStopped :: goerr where
  "grpc_ErrServerStopped = Sentinel ''grpc'' ''grpc: the server has been stopped''"

text \<open>
  A new listener is open. Serving a listener leaves it open, except on a server that was stopped,
  which refuses and closes it. Stopping gracefully closes every listener that is served, and no
  more can be served. Closing an open listener works; closing it again is an error.
\<close>

definition listen_ok :: "('l, 'n) grpc_runtime \<Rightarrow> ('n \<Rightarrow> 'l set) \<Rightarrow> ('n \<Rightarrow> 'l set) \<Rightarrow> ('n \<Rightarrow> bool) \<Rightarrow> bool" where
  "listen_ok R opened served stopped \<longleftrightarrow> (\<forall>addr n lis n'. rt_Listen R addr n = (Inr lis, n') \<longrightarrow>
     lis \<notin> opened n \<and> opened n' = insert lis (opened n) \<and> served n' = served n \<and> stopped n' = stopped n)"

definition serve_ok :: "('l, 'n) grpc_runtime \<Rightarrow> ('n \<Rightarrow> 'l set) \<Rightarrow> ('n \<Rightarrow> 'l set) \<Rightarrow> ('n \<Rightarrow> bool) \<Rightarrow> bool" where
  "serve_ok R opened served stopped \<longleftrightarrow> (\<forall>lis n r n'. rt_Serve R lis n = (r, n') \<longrightarrow>
     (if stopped n
      then r = Returned (Some grpc_ErrServerStopped) \<and> opened n' = opened n - {lis} \<and> served n' = served n \<and> stopped n'
      else r = Serving \<and> opened n' = opened n \<and> served n' = insert lis (served n) \<and> \<not> stopped n'))"

definition stop_ok :: "('l, 'n) grpc_runtime \<Rightarrow> ('n \<Rightarrow> 'l set) \<Rightarrow> ('n \<Rightarrow> 'l set) \<Rightarrow> ('n \<Rightarrow> bool) \<Rightarrow> bool" where
  "stop_ok R opened served stopped \<longleftrightarrow> (\<forall>n. opened (rt_GracefulStop R n) = opened n - served n \<and>
     served (rt_GracefulStop R n) = {} \<and> stopped (rt_GracefulStop R n))"

definition close_ok :: "('l, 'n) grpc_runtime \<Rightarrow> ('n \<Rightarrow> 'l set) \<Rightarrow> bool" where
  "close_ok R opened \<longleftrightarrow> (\<forall>lis n r n'. rt_Close R lis n = (r, n') \<longrightarrow>
     (if lis \<in> opened n then r = None \<and> opened n' = opened n - {lis} else r = Some net_ErrClosed \<and> n' = n))"

definition runtime_contract :: "('l, 'n) grpc_runtime \<Rightarrow> ('n \<Rightarrow> 'l set) \<Rightarrow> ('n \<Rightarrow> 'l set) \<Rightarrow> ('n \<Rightarrow> bool) \<Rightarrow> bool" where
  "runtime_contract R opened served stopped \<longleftrightarrow> listen_ok R opened served stopped \<and>
     serve_ok R opened served stopped \<and> stop_ok R opened served stopped \<and> close_ok R opened"

section \<open>Start and Shutdown\<close>

text \<open>The listener field of the server.\<close>

record 'l grpc_server =
  sv_listener :: "'l option"

definition new_server :: "'l grpc_server" where
  "new_server = \<lparr>sv_listener = None\<rparr>"

definition listen_address :: "grpc_config \<Rightarrow> string" where
  "listen_address cfg = g_Host cfg @ '':'' @ itoa (g_Port cfg)"

definition Start :: "('l, 'n) grpc_runtime \<Rightarrow> grpc_config \<Rightarrow> 'l grpc_server \<times> 'n \<Rightarrow> serving \<times> ('l grpc_server \<times> 'n)" where
  "Start R cfg s =
    (case s of (srv, n) \<Rightarrow>
       (case rt_Listen R (listen_address cfg) n of
          (Inl err, n1) \<Rightarrow> (Returned (Some err), (srv, n1))
        | (Inr lis, n1) \<Rightarrow>
            (case rt_Serve R lis n1 of (r, n2) \<Rightarrow> (r, (srv\<lparr>sv_listener := Some lis\<rparr>, n2)))))"

definition Shutdown :: "('l, 'n) grpc_runtime \<Rightarrow> 'l grpc_server \<times> 'n \<Rightarrow> goerr option \<times> ('l grpc_server \<times> 'n)" where
  "Shutdown R s =
    (case s of (srv, n) \<Rightarrow>
       let n1 = rt_GracefulStop R n in
       case sv_listener srv of
         Some lis \<Rightarrow> (case rt_Close R lis n1 of (err, n2) \<Rightarrow> (err, (srv, n2)))
       | None \<Rightarrow> (None, (srv, n1)))"

text \<open>The goroutine of the start hook panics when Start returns an error.\<close>

definition start_panics :: "serving \<Rightarrow> bool" where
  "start_panics r \<longleftrightarrow> (case r of Returned (Some _) \<Rightarrow> True | _ \<Rightarrow> False)"

section \<open>Lemmas\<close>

lemma runtime_contractD:
  assumes "runtime_contract R opened served stopped"
  shows "rt_Listen R addr n = (Inr lis, n1) \<Longrightarrow> lis \<in> opened n1 \<and> stopped n1 = stopped n"
    and "rt_Serve R lis n = (r, n1) \<Longrightarrow> \<not> stopped n \<Longrightarrow> lis \<in> served n1"
    and "rt_Serve R lis n = (r, n1) \<Longrightarrow> stopped n \<Longrightarrow> r = Returned (Some grpc_ErrServerStopped)"
    and "opened (rt_GracefulStop R n) = opened n - served n"
    and "stopped (rt_GracefulStop R n)"
    and "lis \<notin> opened n \<Longrightarrow> rt_Close R lis n = (Some net_ErrClosed, n)"
  using assms
  unfolding runtime_contract_def listen_ok_def serve_ok_def stop_ok_def close_ok_def
  by (force, force, metis, blast, blast, metis surj_pair)

section \<open>Properties\<close>

theorem shutdown_of_a_serving_server_fails:
  assumes "runtime_contract R opened served stopped"
    and "\<not> stopped n" and "Start R cfg (new_server, n) = (Serving, (srv, n1))"
  shows "case Shutdown R (srv, n1) of (err, (_, n2)) \<Rightarrow>
    err = Some net_ErrClosed \<and> (\<exists>lis. sv_listener srv = Some lis \<and> lis \<notin> opened n2) \<and> stopped n2"
proof -
  obtain lis n0 where l: "rt_Listen R (listen_address cfg) n = (Inr lis, n0)" "rt_Serve R lis n0 = (Serving, n1)"
    "sv_listener srv = Some lis"
    using assms(3) by (auto simp: Start_def new_server_def split: prod.splits sum.splits)
  have "\<not> stopped n0" using runtime_contractD(1) [OF assms(1) l(1)] assms(2) by simp
  with runtime_contractD(2) [OF assms(1) l(2)] have "lis \<in> served n1" by simp
  then have c: "lis \<notin> opened (rt_GracefulStop R n1)" using runtime_contractD(4) [OF assms(1)] by simp
  with runtime_contractD(6) [OF assms(1) this] runtime_contractD(5) [OF assms(1)] l(3) show ?thesis
    by (simp add: Shutdown_def Let_def)
qed

theorem start_after_shutdown_panics:
  assumes "runtime_contract R opened served stopped" and "Shutdown R (new_server, n) = (err, (srv, n1))"
  shows "err = None \<and> start_panics (fst (Start R cfg (srv, n1)))"
proof -
  have s: "err = None" "srv = new_server" "n1 = rt_GracefulStop R n"
    using assms(2) by (simp_all add: Shutdown_def new_server_def Let_def)
  have st: "stopped n1" using runtime_contractD(5) [OF assms(1)] s(3) by simp
  obtain r n2 where l: "rt_Listen R (listen_address cfg) n1 = (r, n2)" by (meson surj_pair)
  show ?thesis
  proof (cases r)
    case (Inl e)
    with l s show ?thesis by (simp add: Start_def start_panics_def)
  next
    case (Inr lis)
    with runtime_contractD(1) [OF assms(1), of "listen_address cfg" n1 lis n2] l st have n2: "stopped n2" by simp
    obtain x n3 where "rt_Serve R lis n2 = (x, n3)" by (meson surj_pair)
    with runtime_contractD(3) [OF assms(1) this n2] l Inr s show ?thesis
      by (simp add: Start_def start_panics_def)
  qed
qed

text \<open>A runtime of numbered listeners: how many there were, the open ones, the served ones, and whether it was stopped.\<close>

definition counting_runtime :: "(nat, nat \<times> nat list \<times> nat list \<times> bool) grpc_runtime" where
  "counting_runtime =
    \<lparr>rt_Listen = (\<lambda>_ (k, op, sv, st). (Inr k, (Suc k, k # filter (\<lambda>x. x < k) op, sv, st))),
     rt_Serve = (\<lambda>l (k, op, sv, st).
       if st then (Returned (Some grpc_ErrServerStopped), (k, filter (\<lambda>x. x \<noteq> l) op, sv, st))
       else (Serving, (k, op, l # sv, st))),
     rt_GracefulStop = (\<lambda>(k, op, sv, st). (k, filter (\<lambda>x. x \<notin> set sv) op, [], True)),
     rt_Close = (\<lambda>l (k, op, sv, st). if l < k \<and> l \<in> set op then (None, (k, filter (\<lambda>x. x \<noteq> l) op, sv, st))
       else (Some net_ErrClosed, (k, op, sv, st)))\<rparr>"

definition counting_opened :: "nat \<times> nat list \<times> nat list \<times> bool \<Rightarrow> nat set" where
  "counting_opened n = (case n of (k, op, sv, st) \<Rightarrow> {x \<in> set op. x < k})"

lemma counting_contract:
  "runtime_contract counting_runtime counting_opened (\<lambda>(k, op, sv, st). set sv) (\<lambda>(k, op, sv, st). st)"
proof -
  have "listen_ok counting_runtime counting_opened (\<lambda>(k, op, sv, st). set sv) (\<lambda>(k, op, sv, st). st)"
    by (auto simp: listen_ok_def counting_runtime_def counting_opened_def)
  moreover have "serve_ok counting_runtime counting_opened (\<lambda>(k, op, sv, st). set sv) (\<lambda>(k, op, sv, st). st)"
    by (auto simp: serve_ok_def counting_runtime_def counting_opened_def split: if_splits)
  moreover have "stop_ok counting_runtime counting_opened (\<lambda>(k, op, sv, st). set sv) (\<lambda>(k, op, sv, st). st)"
    by (auto simp: stop_ok_def counting_runtime_def counting_opened_def)
  moreover have "close_ok counting_runtime counting_opened"
    by (auto simp: close_ok_def counting_runtime_def counting_opened_def split: if_splits)
  ultimately show ?thesis by (simp add: runtime_contract_def)
qed

theorem shutdown_of_a_serving_server_fails_witness:
  "case Shutdown counting_runtime (snd (Start counting_runtime \<lparr>g_Host = ''h'', g_Port = 1\<rparr> (new_server, (0, [], [], False)))) of
    (err, (_, n2)) \<Rightarrow> err = Some net_ErrClosed"
proof -
  have s: "Start counting_runtime \<lparr>g_Host = ''h'', g_Port = 1\<rparr> (new_server, (0, [], [], False)) =
      (Serving, (\<lparr>sv_listener = Some 0\<rparr>, (1, [0], [0], False)))"
    by (simp add: Start_def counting_runtime_def new_server_def)
  from shutdown_of_a_serving_server_fails [OF counting_contract _ s] show ?thesis
    unfolding s by (simp add: case_prod_unfold)
qed

theorem start_after_shutdown_panics_witness:
  "start_panics (fst (Start counting_runtime \<lparr>g_Host = ''h'', g_Port = 1\<rparr>
     (snd (Shutdown counting_runtime (new_server, (0, [], [], False))))))"
proof -
  obtain err srv n1 where s: "Shutdown counting_runtime (new_server, (0, [], [], False)) = (err, (srv, n1))"
    by (metis prod.exhaust)
  from start_after_shutdown_panics [OF counting_contract s] show ?thesis unfolding s by simp
qed

end
