(* ===== verification/KafkaWire.thy ===== *)
theory KafkaWire
  imports KafkaConsumer
begin

text \<open>
  What the Kafka broker puts on the wire beside the value of a message, and the readers it keeps.
  The digest of the key, the headers the shared library takes from a context, and its addresses
  are parameters.
\<close>

section \<open>Messages\<close>

text \<open>A writer balances by hash of the key when it was given the hash balancer.\<close>

record kafka_writer =
  wr_Addr :: "string list"
  wr_Topic :: string
  wr_HashBalancer :: bool
  wr_BatchSize :: int
  wr_BatchTimeout :: time
  wr_WriteTimeout :: time

definition publish_writer :: "kafka_broker \<Rightarrow> string \<Rightarrow> kafka_writer" where
  "publish_writer b subject =
    \<lparr>wr_Addr = kb_brokers b, wr_Topic = subject, wr_HashBalancer = True, wr_BatchSize = 100,
     wr_BatchTimeout = 50 * millisecond, wr_WriteTimeout = 0\<rparr>"

definition dead_letter_writer :: "kafka_broker \<Rightarrow> kafka_writer" where
  "dead_letter_writer b =
    \<lparr>wr_Addr = kb_brokers b, wr_Topic = kb_deadLetter b, wr_HashBalancer = False, wr_BatchSize = 0,
     wr_BatchTimeout = 0, wr_WriteTimeout = 5 * second\<rparr>"

definition eventKey :: "(string \<Rightarrow> string) \<Rightarrow> string \<Rightarrow> string" where
  "eventKey sha256 payload = sha256 payload"

text \<open>The headers of a context, in the order in which the map is walked.\<close>

definition kafkaHeaders :: "(string \<times> string) list \<Rightarrow> (string \<times> string) list" where
  "kafkaHeaders outgoing = foldl (\<lambda>headers (key, v). headers @ [(key, v)]) [] outgoing"

definition publication :: "(string \<Rightarrow> string) \<Rightarrow> (string \<times> string) list \<Rightarrow> string \<Rightarrow> kafka_message" where
  "publication sha256 outgoing body =
    \<lparr>km_Key = eventKey sha256 body, km_Value = body, km_Headers = kafkaHeaders outgoing\<rparr>"

text \<open>The messages of the topics, with the writer each was sent by.\<close>

type_synonym wire = "(kafka_writer \<times> kafka_message) list"

definition wire_Publish :: "env \<Rightarrow> kafka_broker \<Rightarrow> (string \<Rightarrow> string) \<Rightarrow> (string \<times> string) list \<Rightarrow> string
    \<Rightarrow> string \<Rightarrow> world \<times> wire \<Rightarrow> (goerr + unit) \<times> (world \<times> wire)" where
  "wire_Publish E b sha256 outgoing subject payload = (\<lambda>(w, ms).
    case e_wrap E (w_calls w) subject payload of
      Inl err \<Rightarrow> (Inl err, (w, ms))
    | Inr body \<Rightarrow>
        (let w1 = w\<lparr>w_calls := Suc (w_calls w)\<rparr>;
             sent = (w1\<lparr>w_bus := w_bus w1 @ [(subject, body)]\<rparr>,
                     ms @ [(publish_writer b subject, publication sha256 outgoing body)]) in
         case e_bus_fault E (w_calls w) of
           NoFault \<Rightarrow> (Inr (), sent)
         | Lost err \<Rightarrow> (Inl err, (w1, ms))
         | Late err \<Rightarrow> (Inl err, sent)))"

text \<open>Without the key and the headers, a topic is what Publish appends to it.\<close>

definition on_wire :: "wire \<Rightarrow> (string \<times> string) list" where
  "on_wire ms = map (\<lambda>(wr, m). (wr_Topic wr, km_Value m)) ms"

lemma kafkaHeaders_id: "kafkaHeaders outgoing = outgoing"
proof -
  have "foldl (\<lambda>headers (key, v). headers @ [(key, v)]) acc outgoing = acc @ outgoing" for acc
    by (induction outgoing arbitrary: acc) auto
  then show ?thesis by (simp add: kafkaHeaders_def)
qed

lemma wire_Publish_refines:
  assumes "wire_Publish E b sha256 outgoing subject payload (w, ms) = (r, (w', ms'))"
  shows "Publish E subject payload w = (r, w')"
    and "w_bus w = bus @ on_wire ms \<Longrightarrow> w_bus w' = bus @ on_wire ms'"
    and "\<exists>new. ms' = ms @ new \<and> (\<forall>(wr, m) \<in> set new. wr = publish_writer b subject \<and>
           km_Key m = sha256 (km_Value m) \<and> km_Headers m = outgoing)"
  using assms
  by (auto simp: wire_Publish_def Publish_def ext_call_def bus_write_def on_wire_def publication_def
      publish_writer_def eventKey_def kafkaHeaders_id Let_def split: sum.splits fault.splits)

section \<open>Readers\<close>

text \<open>
  Every run of a consumer opens a reader, puts it into the broker's list and closes it when it
  returns; Close closes all that are in the list. The list says which readers are open; the runs
  that go on are known by the index of their reader.
\<close>

record reader_state =
  bs_readers :: "bool list"
  bs_runs :: "nat set"

datatype reader_event = RunStarts | RunReturns nat | BrokerCloses

definition open_reader :: "reader_state \<Rightarrow> reader_state" where
  "open_reader s = s\<lparr>bs_readers := bs_readers s @ [True], bs_runs := insert (length (bs_readers s)) (bs_runs s)\<rparr>"

definition return_reader :: "nat \<Rightarrow> reader_state \<Rightarrow> reader_state" where
  "return_reader i s =
    (if i \<in> bs_runs s then s\<lparr>bs_readers := (bs_readers s)[i := False], bs_runs := bs_runs s - {i}\<rparr> else s)"

definition Close :: "reader_state \<Rightarrow> reader_state" where
  "Close s = s\<lparr>bs_readers := map (\<lambda>_. False) (bs_readers s)\<rparr>"

fun reader_do :: "reader_event \<Rightarrow> reader_state \<Rightarrow> reader_state" where
  "reader_do RunStarts s = open_reader s"
| "reader_do (RunReturns i) s = return_reader i s"
| "reader_do BrokerCloses s = Close s"

definition no_readers :: reader_state where
  "no_readers = \<lparr>bs_readers = [], bs_runs = {}\<rparr>"

definition readers_after :: "reader_event list \<Rightarrow> reader_state" where
  "readers_after es = foldl (\<lambda>s e. reader_do e s) no_readers es"

definition readers_ok :: "reader_state \<Rightarrow> bool" where
  "readers_ok s \<longleftrightarrow> (\<forall>i \<in> bs_runs s. i < length (bs_readers s)) \<and>
     (\<forall>i < length (bs_readers s). bs_readers s ! i \<longrightarrow> i \<in> bs_runs s)"

lemma reader_do_ok: "readers_ok s \<Longrightarrow> readers_ok (reader_do e s)"
  by (cases e) (auto simp: readers_ok_def open_reader_def return_reader_def Close_def nth_append nth_list_update
      less_Suc_eq)

lemma readers_after_snoc: "readers_after (es @ [e]) = reader_do e (readers_after es)"
  by (simp add: readers_after_def)

lemma readers_after_ok: "readers_ok (readers_after es)"
  by (induction es rule: rev_induct)
    (simp_all add: readers_after_snoc reader_do_ok, simp add: readers_after_def readers_ok_def no_readers_def)

lemma readers_after_length: "length (bs_readers (readers_after es)) = count_list es RunStarts"
proof (induction es rule: rev_induct)
  case (snoc e es)
  then show ?case
    by (cases e) (simp_all add: readers_after_snoc open_reader_def return_reader_def Close_def)
qed (simp add: readers_after_def no_readers_def)

text \<open>A consumer that is started again whenever it returns: one run after the other.\<close>

definition restarts :: "nat \<Rightarrow> reader_event list" where
  "restarts n = concat (map (\<lambda>i. [RunStarts, RunReturns i]) [0..<n])"

lemma restarts_count: "count_list (restarts n) RunStarts = n"
  by (induction n) (simp_all add: restarts_def)

lemma restarts_runs: "bs_runs (readers_after (restarts n)) = {} \<and> length (bs_readers (readers_after (restarts n))) = n"
proof (induction n)
  case (Suc n)
  have "restarts (Suc n) = (restarts n @ [RunStarts]) @ [RunReturns n]" by (simp add: restarts_def)
  then have "readers_after (restarts (Suc n)) = return_reader n (open_reader (readers_after (restarts n)))"
    by (simp only: readers_after_snoc reader_do.simps)
  with Suc show ?case by (simp add: open_reader_def return_reader_def)
qed (simp add: restarts_def readers_after_def no_readers_def)

theorem readers_are_closed_but_kept:
  "readers_ok (readers_after es) \<and> bs_runs (readers_after (es @ [BrokerCloses])) = bs_runs (readers_after es) \<and>
   True \<notin> set (bs_readers (readers_after (es @ [BrokerCloses]))) \<and>
   length (bs_readers (readers_after es)) = count_list es RunStarts \<and>
   bs_readers (readers_after (restarts n)) = replicate n False"
proof -
  have "bs_readers (readers_after (restarts n)) = replicate n False"
    using readers_after_ok [of "restarts n"] restarts_runs [of n]
    by (auto simp: readers_ok_def intro!: nth_equalityI)
  then show ?thesis
    by (auto simp: readers_after_ok readers_after_length readers_after_snoc Close_def)
qed

end
