(* ===== verification/RedisHook.thy ===== *)
theory RedisHook
  imports Samples
begin

text \<open>
  The circuit breaker around the Redis client (the hook of pkg/storage/redis/redis.go). The breaker is the
  shared library's, with a state of its own; \<open>breaker_contract\<close> states what it promises: it refuses a
  call with an error of its own, or makes it once and passes on what it returned.
\<close>

section \<open>The hook\<close>

type_synonym ('a, 's, 'b) do_classified =
  "(goerr, 'a, 's) io \<Rightarrow> (goerr \<Rightarrow> bool) \<Rightarrow> (goerr, 'a, 's \<times> 'b) io"

record ('a, 's, 'b) breakerHook =
  bh_DoClassified :: "('a, 's, 'b) do_classified"
  bh_transient :: "goerr \<Rightarrow> bool"

type_synonym 'd dial = "string \<Rightarrow> 'd"

definition DialHook :: "('a, 's, 'b) breakerHook \<Rightarrow> 'd dial \<Rightarrow> 'd dial" where
  "DialHook h next_hook = next_hook"

definition ProcessHook :: "('a, 's, 'b) breakerHook \<Rightarrow> ('c \<Rightarrow> (goerr, 'a, 's) io) \<Rightarrow> 'c \<Rightarrow> (goerr, 'a, 's \<times> 'b) io" where
  "ProcessHook h next_hook cmd = bh_DoClassified h (next_hook cmd) (bh_transient h)"

definition ProcessPipelineHook :: "('a, 's, 'b) breakerHook \<Rightarrow> ('c list \<Rightarrow> (goerr, 'a, 's) io) \<Rightarrow> 'c list
    \<Rightarrow> (goerr, 'a, 's \<times> 'b) io" where
  "ProcessPipelineHook h next_hook cmds = bh_DoClassified h (next_hook cmds) (bh_transient h)"

section \<open>What the breaker promises\<close>

definition breaker_contract :: "(goerr \<Rightarrow> bool) \<Rightarrow> ('a, 's, 'b) do_classified \<Rightarrow> bool" where
  "breaker_contract refusal f \<longleftrightarrow>
     (\<forall>call transient s b. case f call transient (s, b) of (r, (s', b')) \<Rightarrow>
        (r, s') = call s \<or> (\<exists>e. r = Inl e \<and> refusal e \<and> s' = s))"

lemma breaker_cases:
  fixes f :: "('a, 's, 'b) do_classified"
  assumes "breaker_contract refusal f" and "f call transient (s, b) = (r, (s', b'))"
  obtains (made) "call s = (r, s')" | (refused) e where "r = Inl e" "refusal e" "s' = s"
proof -
  from assms(1) have "case f call transient (s, b) of (r, (s', b')) \<Rightarrow>
      (r, s') = call s \<or> (\<exists>e. r = Inl e \<and> refusal e \<and> s' = s)"
    by (simp add: breaker_contract_def)
  with assms(2) made refused show thesis by auto
qed

text \<open>What a refusal must not be mistaken for; \<open>env_ok\<close> asks the same of a lost request.\<close>

definition plain_refusal :: "goerr \<Rightarrow> bool" where
  "plain_refusal e \<longleftrightarrow> \<not> errors_is e ErrUserNotFound \<and> e \<noteq> redis_Nil"

definition with_redis_faults :: "(nat \<Rightarrow> fault) \<Rightarrow> env \<Rightarrow> env" where
  "with_redis_faults faults E = E\<lparr>e_redis_fault := faults\<rparr>"

lemma lost_env_ok:
  assumes "env_ok valid E" and "plain_refusal e"
  shows "env_ok valid (with_redis_faults ((e_redis_fault E)(n := Lost e)) E)"
  using assms by (auto simp: env_ok_def with_redis_faults_def plain_refusal_def fault_error_def)

definition uncounted :: "world \<Rightarrow> world" where
  "uncounted w = w\<lparr>w_calls := 0\<rparr>"

lemma refused_is_lost:
  "\<exists>w'. ext_call (faults(w_calls w := Lost e)) act w = (Inl e, w') \<and> uncounted w' = uncounted w"
  by (simp add: ext_call_def uncounted_def Let_def)

lemma same_faults: "with_redis_faults (e_redis_fault E) E = E"
  by (simp add: with_redis_faults_def)

text \<open>
  A hooked command in an environment is the command without the hook in an environment that
  may lose one more request: what the repository proves for every environment holds with the breaker.
\<close>

lemma breaker_only_loses_requests:
  fixes h :: "('a, world, 'b) breakerHook"
  assumes "breaker_contract plain_refusal (bh_DoClassified h)" and "env_ok valid E"
  shows "case ProcessHook h (\<lambda>cmd. ext_call (e_redis_fault E) (act cmd)) cmd (w, b) of (r, (w', b')) \<Rightarrow>
    \<exists>faults w''. env_ok valid (with_redis_faults faults E) \<and>
      ext_call (e_redis_fault (with_redis_faults faults E)) (act cmd) w = (r, w'') \<and>
      uncounted w' = uncounted w''"
proof (cases "ProcessHook h (\<lambda>cmd. ext_call (e_redis_fault E) (act cmd)) cmd (w, b)" rule: prod_cases3)
  case (fields r w' b')
  from assms(1) fields [unfolded ProcessHook_def]
  have "\<exists>faults w''. env_ok valid (with_redis_faults faults E) \<and> ext_call faults (act cmd) w = (r, w'') \<and>
      uncounted w' = uncounted w''"
  proof (cases rule: breaker_cases)
    case made
    then show ?thesis using same_faults [of E] assms(2) by metis
  next
    case (refused e)
    then show ?thesis using refused_is_lost [of "e_redis_fault E" w e "act cmd"] lost_env_ok [OF assms(2)] by metis
  qed
  with fields show ?thesis by (simp add: with_redis_faults_def)
qed

text \<open>A breaker that refuses after three failures it counts as transient.\<close>

definition counting_breaker :: "('a, 's, nat) do_classified" where
  "counting_breaker call transient = (\<lambda>(s, failures).
    if failures \<ge> 3 then (Inl (Foreign ''circuit breaker is open''), (s, failures))
    else case call s of
           (Inl e, s') \<Rightarrow> (Inl e, (s', if transient e then Suc failures else failures))
         | (Inr v, s') \<Rightarrow> (Inr v, (s', 0)))"

definition sample_hook :: "(string, world, nat) breakerHook" where
  "sample_hook = \<lparr>bh_DoClassified = counting_breaker, bh_transient = (\<lambda>e. e \<noteq> redis_Nil)\<rparr>"

lemma counting_breaker_contract: "breaker_contract plain_refusal (bh_DoClassified sample_hook)"
  by (auto simp: breaker_contract_def sample_hook_def counting_breaker_def plain_refusal_def
      ErrUserNotFound_def redis_Nil_def split: sum.splits prod.splits)

lemma breaker_only_loses_requests_witness:
  "case ProcessHook sample_hook (\<lambda>cmd. ext_call (e_redis_fault sample_env) (redis_get cmd)) ''user:u1'' (empty_world, 3)
   of (r, (w', b')) \<Rightarrow>
    \<exists>faults w''. env_ok utf8_valid (with_redis_faults faults sample_env) \<and>
      ext_call (e_redis_fault (with_redis_faults faults sample_env)) (redis_get ''user:u1'') empty_world = (r, w'') \<and>
      uncounted w' = uncounted w''"
  by (rule breaker_only_loses_requests [OF counting_breaker_contract sample_env_ok])

end
