(* ===== verification/Sql.thy ===== *)
theory Sql
  imports GoTime "HOL-Library.List_Lexorder" "HOL-Library.Char_ord"
begin

text \<open>
  The part of PostgreSQL's SQL that the migrations and the queries of the service use: tables
  with typed columns, defaults and unique keys, indexes, trigger functions and row triggers, and the
  statements on them. A file or a query that fails leaves the database as it was, so a statement
  either gives the next database or an error.

  A row is a map from column names to values and NULL is \<open>None\<close>. An index or a trigger belongs to
  a table and goes with it; a function goes only when no trigger calls it. After a statement has
  changed its rows, the AFTER triggers of the table run for each of them in the order of their
  names, and what they insert may run further triggers, up to the depth of the server's stack.
\<close>

section \<open>Values, tables and the database\<close>

datatype sql_type = UUID | TEXT | TIMESTAMPTZ | BOOLEAN | INT4 | BIGINT | JSONB

datatype sql_value = VUuid string | VText string | VTime time | VBool bool | VInt int
  | VJson "(string \<times> sql_value option) list"

type_synonym sql_row = "string \<rightharpoonup> sql_value"
type_synonym row_record = "(string \<times> sql_value option) list"

fun has_type :: "sql_value \<Rightarrow> sql_type \<Rightarrow> bool" where
  "has_type (VUuid u) t = (t = UUID)"
| "has_type (VText s) t = (t = TEXT)"
| "has_type (VTime i) t = (t = TIMESTAMPTZ)"
| "has_type (VBool b) t = (t = BOOLEAN)"
| "has_type (VInt i) t = (t = INT4 \<and> - (2 ^ 31) \<le> i \<and> i < 2 ^ 31 \<or> t = BIGINT \<and> - (2 ^ 63) \<le> i \<and> i < 2 ^ 63)"
| "has_type (VJson r) t = (t = JSONB)"

datatype sql_expr = Lit sql_value | NOW | CaseWhen string sql_expr sql_expr

datatype sql_cond = Eq string sql_value | IsNull string

datatype col_constraint = PRIMARY_KEY | NOT_NULL | UNIQUE | DEFAULT sql_expr

type_synonym col_def = "string \<times> sql_type \<times> col_constraint list"

record column =
  c_name :: string
  c_type :: sql_type
  c_notnull :: bool
  c_default :: "sql_expr option"

record sql_table =
  t_columns :: "column list"
  t_unique :: "(string \<times> string) list"
  t_rows :: "sql_row list"

datatype trigger_op = INSERT | UPDATE | DELETE

record session =
  ss_now :: time
  ss_random :: "nat \<Rightarrow> string"
  ss_text :: "sql_value \<Rightarrow> string"
  ss_depth :: nat

text \<open>
  A trigger function of the form the migrations need: from the operation, the record of the OLD and of
  the NEW row and one random identifier, the row it inserts and the table it inserts it into.
\<close>

type_synonym trigger_function =
  "session \<Rightarrow> trigger_op \<Rightarrow> row_record \<Rightarrow> row_record \<Rightarrow> string \<Rightarrow> string \<times> row_record"

record trigger =
  tg_name :: string
  tg_table :: string
  tg_ops :: "trigger_op list"
  tg_function :: string

record database =
  db_tables :: "string \<rightharpoonup> sql_table"
  db_indexes :: "string \<rightharpoonup> string \<times> string list"
  db_functions :: "string \<rightharpoonup> trigger_function"
  db_triggers :: "trigger list"
  db_draws :: nat

definition empty_database :: database where
  "empty_database = \<lparr>db_tables = Map.empty, db_indexes = Map.empty, db_functions = Map.empty,
     db_triggers = [], db_draws = 0\<rparr>"

datatype sql_error = UndefinedTable string | UndefinedColumn string | UndefinedFunction string
  | DuplicateColumn string | DuplicateTrigger string | DatatypeMismatch string
  | NotNullViolation string | UniqueConflict "string list" | DependentObjects string | StackDepthExceeded

definition sql_bind :: "sql_error + 'a \<Rightarrow> ('a \<Rightarrow> sql_error + 'b) \<Rightarrow> sql_error + 'b" where
  "sql_bind x f = (case x of Inl e \<Rightarrow> Inl e | Inr y \<Rightarrow> f y)"

lemma sql_bind_simps [simp]: "sql_bind (Inr y) f = f y" "sql_bind (Inl e) f = Inl e"
  by (simp_all add: sql_bind_def)

lemma sql_bind_Inr: "sql_bind x f = Inr z \<longleftrightarrow> (\<exists>y. x = Inr y \<and> f y = Inr z)"
  by (cases x) simp_all

fun each_in_turn :: "('a \<Rightarrow> 's \<Rightarrow> sql_error + 's) \<Rightarrow> 'a list \<Rightarrow> 's \<Rightarrow> sql_error + 's" where
  "each_in_turn f [] D = Inr D"
| "each_in_turn f (x # xs) D = sql_bind (f x D) (each_in_turn f xs)"

section \<open>Columns and expressions\<close>

definition column_names :: "sql_table \<Rightarrow> string list" where
  "column_names tb = map c_name (t_columns tb)"

definition find_column :: "sql_table \<Rightarrow> string \<Rightarrow> column option" where
  "find_column tb n = find (\<lambda>c. c_name c = n) (t_columns tb)"

fun default_of :: "col_constraint list \<Rightarrow> sql_expr option" where
  "default_of [] = None"
| "default_of (DEFAULT e # cs) = Some e"
| "default_of (_ # cs) = default_of cs"

fun column_of :: "col_def \<Rightarrow> column" where
  "column_of (n, t, cs) =
    \<lparr>c_name = n, c_type = t, c_notnull = (PRIMARY_KEY \<in> set cs \<or> NOT_NULL \<in> set cs), c_default = default_of cs\<rparr>"

text \<open>The names PostgreSQL gives to the constraints of a column.\<close>

fun unique_of :: "string \<Rightarrow> col_def \<Rightarrow> (string \<times> string) list" where
  "unique_of t (n, ty, cs) =
    (if PRIMARY_KEY \<in> set cs then [(t @ ''_pkey'', n)] else []) @
    (if UNIQUE \<in> set cs then [(t @ ''_'' @ n @ ''_key'', n)] else [])"

fun expr_fits :: "column list \<Rightarrow> sql_type \<Rightarrow> sql_expr \<Rightarrow> bool" where
  "expr_fits cols t (Lit v) = has_type v t"
| "expr_fits cols t NOW = (t = TIMESTAMPTZ)"
| "expr_fits cols t (CaseWhen c a b) =
    (list_ex (\<lambda>k. c_name k = c \<and> c_type k = BOOLEAN) cols \<and> expr_fits cols t a \<and> expr_fits cols t b)"

fun eval_expr :: "session \<Rightarrow> sql_row \<Rightarrow> sql_expr \<Rightarrow> sql_value" where
  "eval_expr s r (Lit v) = v"
| "eval_expr s r NOW = VTime (ss_now s)"
| "eval_expr s r (CaseWhen c a b) = (if r c = Some (VBool True) then eval_expr s r a else eval_expr s r b)"

fun cond_column :: "sql_cond \<Rightarrow> string" where
  "cond_column (Eq c v) = c"
| "cond_column (IsNull c) = c"

fun holds :: "sql_cond \<Rightarrow> sql_row \<Rightarrow> bool" where
  "holds (Eq c v) r = (r c = Some v)"
| "holds (IsNull c) r = (r c = None)"

definition default_value :: "session \<Rightarrow> column \<Rightarrow> sql_value option" where
  "default_value s c = map_option (eval_expr s Map.empty) (c_default c)"

definition default_fits :: "column \<Rightarrow> bool" where
  "default_fits c = (case c_default c of None \<Rightarrow> True | Some e \<Rightarrow> expr_fits [] (c_type c) e)"

definition record_of :: "sql_table \<Rightarrow> sql_row \<Rightarrow> row_record" where
  "record_of tb r = map (\<lambda>n. (n, r n)) (column_names tb)"

section \<open>Constraints\<close>

definition null_columns :: "sql_table \<Rightarrow> sql_row \<Rightarrow> string list" where
  "null_columns tb r = map c_name (filter (\<lambda>c. c_notnull c \<and> r (c_name c) = None) (t_columns tb))"

definition conflicts :: "sql_table \<Rightarrow> sql_row \<Rightarrow> string list" where
  "conflicts tb r =
     map fst (filter (\<lambda>(n, c). r c \<noteq> None \<and> list_ex (\<lambda>v. v c = r c) (t_rows tb)) (t_unique tb))"

definition add_row :: "sql_row \<Rightarrow> sql_table \<Rightarrow> sql_error + sql_table" where
  "add_row r tb =
    (case null_columns tb r of c # _ \<Rightarrow> Inl (NotNullViolation c)
     | [] \<Rightarrow> (case conflicts tb r of n # ns \<Rightarrow> Inl (UniqueConflict (n # ns))
       | [] \<Rightarrow> Inr (tb\<lparr>t_rows := t_rows tb @ [r]\<rparr>)))"

text \<open>The rows of a table that has been changed are checked again.\<close>

definition check_table :: "sql_table \<Rightarrow> sql_error + sql_table" where
  "check_table tb = each_in_turn add_row (t_rows tb) (tb\<lparr>t_rows := []\<rparr>)"

definition with_table :: "database \<Rightarrow> string \<Rightarrow> (sql_table \<Rightarrow> sql_error + 'a) \<Rightarrow> sql_error + 'a" where
  "with_table D t f = (case db_tables D t of None \<Rightarrow> Inl (UndefinedTable t) | Some tb \<Rightarrow> f tb)"

definition put_table :: "string \<Rightarrow> sql_table \<Rightarrow> database \<Rightarrow> database" where
  "put_table t tb D = D\<lparr>db_tables := (db_tables D)(t \<mapsto> tb)\<rparr>"

text \<open>Values that do not fit their column: the column and the error.\<close>

definition misfits :: "sql_table \<Rightarrow> row_record \<Rightarrow> sql_error list" where
  "misfits tb given = concat (map (\<lambda>(n, v). case find_column tb n of None \<Rightarrow> [UndefinedColumn n]
     | Some c \<Rightarrow> (case v of None \<Rightarrow> [] | Some x \<Rightarrow> if has_type x (c_type c) then [] else [DatatypeMismatch n])) given)"

definition full_row :: "session \<Rightarrow> sql_table \<Rightarrow> row_record \<Rightarrow> sql_row" where
  "full_row s tb given n = (case find_column tb n of None \<Rightarrow> None
     | Some c \<Rightarrow> (case map_of given n of Some v \<Rightarrow> v | None \<Rightarrow> default_value s c))"

section \<open>Triggers and changes of rows\<close>

definition triggers_on :: "database \<Rightarrow> trigger_op \<Rightarrow> string \<Rightarrow> trigger list" where
  "triggers_on D op t = sort_key tg_name (filter (\<lambda>g. tg_table g = t \<and> op \<in> set (tg_ops g)) (db_triggers D))"

definition run_trigger :: "(string \<Rightarrow> row_record \<Rightarrow> database \<Rightarrow> sql_error + sql_row \<times> database) \<Rightarrow> session
    \<Rightarrow> trigger_op \<Rightarrow> row_record \<times> row_record \<Rightarrow> trigger \<Rightarrow> database \<Rightarrow> sql_error + database" where
  "run_trigger ins s op change g D =
    (case db_functions D (tg_function g) of
       None \<Rightarrow> Inl (UndefinedFunction (tg_function g))
     | Some f \<Rightarrow>
        (case f s op (fst change) (snd change) (ss_random s (db_draws D)) of
          (t, given) \<Rightarrow> sql_bind (ins t given (D\<lparr>db_draws := Suc (db_draws D)\<rparr>)) (\<lambda>(r, D'). Inr D')))"

definition fire :: "(string \<Rightarrow> row_record \<Rightarrow> database \<Rightarrow> sql_error + sql_row \<times> database) \<Rightarrow> session
    \<Rightarrow> trigger_op \<Rightarrow> string \<Rightarrow> (row_record \<times> row_record) list \<Rightarrow> database \<Rightarrow> sql_error + database" where
  "fire ins s op t changes D =
     each_in_turn (\<lambda>change. each_in_turn (run_trigger ins s op change) (triggers_on D op t)) changes D"

fun insert_at :: "nat \<Rightarrow> session \<Rightarrow> string \<Rightarrow> row_record \<Rightarrow> database \<Rightarrow> sql_error + sql_row \<times> database" where
  "insert_at 0 s t given D = Inl StackDepthExceeded"
| "insert_at (Suc d) s t given D =
    with_table D t (\<lambda>tb.
      (case misfits tb given of e # _ \<Rightarrow> Inl e
       | [] \<Rightarrow> (let r = full_row s tb given in
           sql_bind (add_row r tb) (\<lambda>tb'.
           sql_bind (fire (insert_at d s) s INSERT t [([], record_of tb r)] (put_table t tb' D)) (\<lambda>D'.
             Inr (r, D'))))))"

definition insert_into :: "session \<Rightarrow> string \<Rightarrow> row_record \<Rightarrow> database \<Rightarrow> sql_error + sql_row \<times> database" where
  "insert_into s = insert_at (ss_depth s) s"

definition set_columns :: "session \<Rightarrow> (string \<times> sql_expr) list \<Rightarrow> sql_row \<Rightarrow> sql_row" where
  "set_columns s sets r n = (case map_of sets n of None \<Rightarrow> r n | Some e \<Rightarrow> Some (eval_expr s r e))"

definition bad_sets :: "sql_table \<Rightarrow> (string \<times> sql_expr) list \<Rightarrow> sql_error list" where
  "bad_sets tb sets = concat (map (\<lambda>(n, e). case find_column tb n of None \<Rightarrow> [UndefinedColumn n]
     | Some c \<Rightarrow> if expr_fits (t_columns tb) (c_type c) e then [] else [DatatypeMismatch n]) sets)"

definition check_where :: "sql_table \<Rightarrow> sql_cond \<Rightarrow> sql_error list" where
  "check_where tb c = (if find_column tb (cond_column c) = None then [UndefinedColumn (cond_column c)] else [])"

text \<open>UPDATE and DELETE with RETURNING: the changed rows beside the database.\<close>

definition update_where :: "session \<Rightarrow> string \<Rightarrow> (string \<times> sql_expr) list \<Rightarrow> sql_cond \<Rightarrow> database
    \<Rightarrow> sql_error + sql_row list \<times> database" where
  "update_where s t sets c D =
    with_table D t (\<lambda>tb.
      (case bad_sets tb sets @ check_where tb c of e # _ \<Rightarrow> Inl e
       | [] \<Rightarrow> (let hit = filter (holds c) (t_rows tb); upd = set_columns s sets in
           sql_bind (check_table (tb\<lparr>t_rows := map (\<lambda>r. if holds c r then upd r else r) (t_rows tb)\<rparr>)) (\<lambda>tb'.
           sql_bind (fire (insert_into s) s UPDATE t (map (\<lambda>r. (record_of tb r, record_of tb (upd r))) hit)
             (put_table t tb' D)) (\<lambda>D'. Inr (map upd hit, D'))))))"

definition delete_where :: "session \<Rightarrow> string \<Rightarrow> sql_cond \<Rightarrow> database \<Rightarrow> sql_error + sql_row list \<times> database" where
  "delete_where s t c D =
    with_table D t (\<lambda>tb.
      (case check_where tb c of e # _ \<Rightarrow> Inl e
       | [] \<Rightarrow> (let hit = filter (holds c) (t_rows tb) in
           sql_bind (fire (insert_into s) s DELETE t (map (\<lambda>r. (record_of tb r, [])) hit)
             (put_table t (tb\<lparr>t_rows := filter (\<lambda>r. \<not> holds c r) (t_rows tb)\<rparr>) D)) (\<lambda>D'. Inr (hit, D')))))"

definition select_where :: "string \<Rightarrow> sql_cond \<Rightarrow> database \<Rightarrow> sql_error + sql_row list" where
  "select_where t c D =
    with_table D t (\<lambda>tb. case check_where tb c of e # _ \<Rightarrow> Inl e | [] \<Rightarrow> Inr (filter (holds c) (t_rows tb)))"

section \<open>Statements of a migration\<close>

datatype stmt =
    CreateTableIfNotExists string "col_def list"
  | DropTableIfExists string
  | AddColumnIfNotExists string col_def
  | DropColumnIfExists string string
  | SetNotNull string string
  | SetDefault string string sql_expr
  | UpdateWhere string "(string \<times> sql_expr) list" sql_cond
  | CreateIndexIfNotExists string string "string list"
  | CreateOrReplaceFunction string trigger_function
  | DropFunctionIfExists string
  | CreateTrigger string string "trigger_op list" string
  | DropTriggerIfExists string string
  | Select1

definition create_table :: "string \<Rightarrow> col_def list \<Rightarrow> database \<Rightarrow> sql_error + database" where
  "create_table t defs D =
    (if db_tables D t \<noteq> None then Inr D
     else if \<not> distinct (map fst defs) then Inl (DuplicateColumn t)
     else if \<not> list_all (\<lambda>d. default_fits (column_of d)) defs then Inl (DatatypeMismatch t)
     else Inr (put_table t \<lparr>t_columns = map column_of defs, t_unique = concat (map (unique_of t) defs), t_rows = []\<rparr> D))"

definition drop_table :: "string \<Rightarrow> database \<Rightarrow> database" where
  "drop_table t D = D\<lparr>db_tables := (db_tables D)(t := None),
     db_indexes := (\<lambda>i. case db_indexes D i of None \<Rightarrow> None | Some (u, cs) \<Rightarrow> if u = t then None else Some (u, cs)),
     db_triggers := filter (\<lambda>g. tg_table g \<noteq> t) (db_triggers D)\<rparr>"

definition add_column :: "session \<Rightarrow> string \<Rightarrow> col_def \<Rightarrow> database \<Rightarrow> sql_error + database" where
  "add_column s t d D = with_table D t (\<lambda>tb. let c = column_of d in
     if find_column tb (c_name c) \<noteq> None then Inr D
     else if \<not> default_fits c then Inl (DatatypeMismatch (c_name c))
     else sql_bind (check_table \<lparr>t_columns = t_columns tb @ [c], t_unique = t_unique tb @ unique_of t d,
            t_rows = map (\<lambda>r. r(c_name c := default_value s c)) (t_rows tb)\<rparr>) (\<lambda>tb'. Inr (put_table t tb' D)))"

definition remove_column :: "string \<Rightarrow> sql_table \<Rightarrow> sql_table" where
  "remove_column c tb = \<lparr>t_columns = filter (\<lambda>k. c_name k \<noteq> c) (t_columns tb),
     t_unique = filter (\<lambda>(n, k). k \<noteq> c) (t_unique tb), t_rows = map (\<lambda>r. r(c := None)) (t_rows tb)\<rparr>"

definition drop_column :: "string \<Rightarrow> string \<Rightarrow> database \<Rightarrow> sql_error + database" where
  "drop_column t c D = with_table D t (\<lambda>tb.
     if find_column tb c = None then Inr D
     else Inr (put_table t (remove_column c tb) (D\<lparr>db_indexes :=
       (\<lambda>i. case db_indexes D i of None \<Rightarrow> None
            | Some (u, cs) \<Rightarrow> if u = t \<and> c \<in> set cs then None else Some (u, cs))\<rparr>)))"

definition alter_column :: "string \<Rightarrow> string \<Rightarrow> (column \<Rightarrow> column) \<Rightarrow> database \<Rightarrow> sql_error + database" where
  "alter_column t c f D = with_table D t (\<lambda>tb.
     if find_column tb c = None then Inl (UndefinedColumn c)
     else let cols = map (\<lambda>k. if c_name k = c then f k else k) (t_columns tb) in
       if \<not> list_all default_fits cols then Inl (DatatypeMismatch c)
       else sql_bind (check_table (tb\<lparr>t_columns := cols\<rparr>)) (\<lambda>tb'. Inr (put_table t tb' D)))"

definition create_index :: "string \<Rightarrow> string \<Rightarrow> string list \<Rightarrow> database \<Rightarrow> sql_error + database" where
  "create_index i t cs D = with_table D t (\<lambda>tb.
     case filter (\<lambda>c. find_column tb c = None) cs of c # _ \<Rightarrow> Inl (UndefinedColumn c)
     | [] \<Rightarrow> if db_indexes D i \<noteq> None then Inr D
        else Inr (D\<lparr>db_indexes := (db_indexes D)(i \<mapsto> (t, cs))\<rparr>))"

definition drop_function :: "string \<Rightarrow> database \<Rightarrow> sql_error + database" where
  "drop_function f D = (if list_ex (\<lambda>g. tg_function g = f) (db_triggers D) then Inl (DependentObjects f)
     else Inr (D\<lparr>db_functions := (db_functions D)(f := None)\<rparr>))"

definition create_trigger :: "string \<Rightarrow> string \<Rightarrow> trigger_op list \<Rightarrow> string \<Rightarrow> database \<Rightarrow> sql_error + database" where
  "create_trigger n t ops f D = with_table D t (\<lambda>tb.
     if db_functions D f = None then Inl (UndefinedFunction f)
     else if list_ex (\<lambda>g. tg_table g = t \<and> tg_name g = n) (db_triggers D) then Inl (DuplicateTrigger n)
     else Inr (D\<lparr>db_triggers := db_triggers D @ [\<lparr>tg_name = n, tg_table = t, tg_ops = ops, tg_function = f\<rparr>]\<rparr>))"

fun exec :: "session \<Rightarrow> stmt \<Rightarrow> database \<Rightarrow> sql_error + database" where
  "exec s (CreateTableIfNotExists t defs) D = create_table t defs D"
| "exec s (DropTableIfExists t) D = Inr (if db_tables D t = None then D else drop_table t D)"
| "exec s (AddColumnIfNotExists t d) D = add_column s t d D"
| "exec s (DropColumnIfExists t c) D = drop_column t c D"
| "exec s (SetNotNull t c) D = alter_column t c (\<lambda>k. k\<lparr>c_notnull := True\<rparr>) D"
| "exec s (SetDefault t c e) D = alter_column t c (\<lambda>k. k\<lparr>c_default := Some e\<rparr>) D"
| "exec s (UpdateWhere t sets c) D = sql_bind (update_where s t sets c D) (\<lambda>(hit, D'). Inr D')"
| "exec s (CreateIndexIfNotExists i t cs) D = create_index i t cs D"
| "exec s (CreateOrReplaceFunction f body) D = Inr (D\<lparr>db_functions := (db_functions D)(f \<mapsto> body)\<rparr>)"
| "exec s (DropFunctionIfExists f) D = drop_function f D"
| "exec s (CreateTrigger n t ops f) D = create_trigger n t ops f D"
| "exec s (DropTriggerIfExists n t) D =
     Inr (D\<lparr>db_triggers := filter (\<lambda>g. \<not> (tg_table g = t \<and> tg_name g = n)) (db_triggers D)\<rparr>)"
| "exec s Select1 D = Inr D"

text \<open>A file of statements.\<close>

definition run_file :: "session \<Rightarrow> stmt list \<Rightarrow> database \<Rightarrow> sql_error + database" where
  "run_file s = each_in_turn (exec s)"

section \<open>Well-formed databases\<close>

definition typed :: "sql_table \<Rightarrow> sql_row \<Rightarrow> bool" where
  "typed tb r \<longleftrightarrow> (\<forall>n v. r n = Some v \<longrightarrow> (\<exists>c. find_column tb n = Some c \<and> has_type v (c_type c)))"

text \<open>A row and a later one share no value of a unique column.\<close>

definition apart :: "sql_table \<Rightarrow> sql_row \<Rightarrow> sql_row \<Rightarrow> bool" where
  "apart tb r v \<longleftrightarrow> list_all (\<lambda>(n, c). v c = None \<or> r c \<noteq> v c) (t_unique tb)"

definition table_fits :: "sql_table \<Rightarrow> bool" where
  "table_fits tb \<longleftrightarrow>
     distinct (column_names tb) \<and> snd ` set (t_unique tb) \<subseteq> set (column_names tb) \<and>
     list_all default_fits (t_columns tb) \<and> list_all (typed tb) (t_rows tb) \<and>
     list_all (\<lambda>r. null_columns tb r = []) (t_rows tb) \<and> sorted_wrt (apart tb) (t_rows tb)"

definition tables_fit :: "database \<Rightarrow> bool" where
  "tables_fit D \<longleftrightarrow> (\<forall>t tb. db_tables D t = Some tb \<longrightarrow> table_fits tb)"

definition indexes_fit :: "database \<Rightarrow> bool" where
  "indexes_fit D \<longleftrightarrow> (\<forall>i t cs. db_indexes D i = Some (t, cs) \<longrightarrow>
     (\<exists>tb. db_tables D t = Some tb \<and> set cs \<subseteq> set (column_names tb)))"

definition triggers_fit :: "database \<Rightarrow> bool" where
  "triggers_fit D \<longleftrightarrow> distinct (map (\<lambda>g. (tg_table g, tg_name g)) (db_triggers D)) \<and>
     (\<forall>g\<in>set (db_triggers D). db_tables D (tg_table g) \<noteq> None \<and> db_functions D (tg_function g) \<noteq> None)"

definition database_ok :: "database \<Rightarrow> bool" where
  "database_ok D \<longleftrightarrow> tables_fit D \<and> indexes_fit D \<and> triggers_fit D"

lemma each_in_turn_keeps:
  assumes "\<And>x D D'. x \<in> set xs \<Longrightarrow> P D \<Longrightarrow> f x D = Inr D' \<Longrightarrow> P D'" and "each_in_turn f xs D = Inr D'" and "P D"
  shows "P D'"
  using assms
proof (induction xs arbitrary: D)
  case (Cons x xs)
  from Cons.prems(2) obtain D1 where "f x D = Inr D1" "each_in_turn f xs D1 = Inr D'" by (auto simp: sql_bind_Inr)
  then show ?case using Cons.IH [of D1] Cons.prems(1,3) by (metis list.set_intros)
qed simp

lemma each_in_turn_append:
  "each_in_turn f (xs @ ys) D = sql_bind (each_in_turn f xs D) (each_in_turn f ys)"
proof (induction xs arbitrary: D)
  case (Cons x xs)
  then show ?case by (cases "f x D") simp_all
qed simp

lemma rows_only [simp]:
  "column_names (t_rows_update f tb) = column_names tb" "find_column (t_rows_update f tb) n = find_column tb n"
  "null_columns (t_rows_update f tb) r = null_columns tb r" "apart (t_rows_update f tb) = apart tb"
  "typed (t_rows_update f tb) r = typed tb r" "record_of (t_rows_update f tb) r = record_of tb r"
  by (simp_all add: column_names_def find_column_def null_columns_def apart_def typed_def record_of_def fun_eq_iff)

lemma conflicts_Nil: "conflicts tb r = [] \<longleftrightarrow> list_all (\<lambda>v. apart tb v r) (t_rows tb)"
  by (force simp: conflicts_def apart_def list_all_iff list_ex_iff filter_empty_conv)

lemma add_row_Inr: "add_row r tb = Inr tb' \<longleftrightarrow>
    null_columns tb r = [] \<and> list_all (\<lambda>v. apart tb v r) (t_rows tb) \<and> tb' = tb\<lparr>t_rows := t_rows tb @ [r]\<rparr>"
  unfolding conflicts_Nil [symmetric] by (auto simp: add_row_def split: list.splits)

lemma add_rows_Inr: "each_in_turn add_row rs tb = Inr tb' \<longleftrightarrow>
    list_all (\<lambda>r. null_columns tb r = []) rs \<and> list_all (\<lambda>r. list_all (\<lambda>v. apart tb v r) (t_rows tb)) rs \<and>
    sorted_wrt (apart tb) rs \<and> tb' = tb\<lparr>t_rows := t_rows tb @ rs\<rparr>"
proof (induction rs arbitrary: tb)
  case (Cons r rs)
  show ?case
    by (auto simp: sql_bind_Inr add_row_Inr Cons.IH list_all_iff)
qed auto

lemma check_table_Inr: "check_table tb = Inr tb' \<longleftrightarrow>
    tb' = tb \<and> list_all (\<lambda>r. null_columns tb r = []) (t_rows tb) \<and> sorted_wrt (apart tb) (t_rows tb)"
  by (auto simp: check_table_def add_rows_Inr list_all_iff)

lemma expr_value_fits: "expr_fits cols t e \<Longrightarrow> has_type (eval_expr s r e) t"
  by (induction e) auto

lemma find_column_Some: "find_column tb n = Some c \<Longrightarrow> c \<in> set (t_columns tb) \<and> c_name c = n"
  by (auto simp: find_column_def find_Some_iff)

lemma find_column_None: "find_column tb n = None \<longleftrightarrow> n \<notin> set (column_names tb)"
  by (auto simp: find_column_def find_None_iff column_names_def)

lemma default_value_fits:
  assumes "default_fits c" and "default_value s c = Some v"
  shows "has_type v (c_type c)"
  using assms by (auto simp: default_fits_def default_value_def intro: expr_value_fits)

lemma concat_map_Nil: "concat (map f xs) = [] \<longleftrightarrow> (\<forall>x\<in>set xs. f x = [])"
  by auto

lemma full_row_typed:
  assumes "table_fits tb" and "misfits tb given = []"
  shows "typed tb (full_row s tb given)"
  unfolding typed_def
proof (intro allI impI)
  fix n v assume row: "full_row s tb given n = Some v"
  then obtain c where c: "find_column tb n = Some c" by (auto simp: full_row_def split: option.splits)
  show "\<exists>c. find_column tb n = Some c \<and> has_type v (c_type c)"
  proof (cases "map_of given n")
    case None
    with row c have "default_value s c = Some v" by (simp add: full_row_def)
    moreover have "default_fits c"
      using assms(1) find_column_Some [OF c] by (simp add: table_fits_def list_all_iff)
    ultimately show ?thesis using c default_value_fits by blast
  next
    case (Some x)
    with row c have "(n, Some v) \<in> set given" by (simp add: full_row_def map_of_SomeD)
    with assms(2) have "has_type v (c_type c)"
      using c by (fastforce simp: misfits_def split: if_splits)
    with c show ?thesis by blast
  qed
qed

lemma put_table_ok:
  assumes "database_ok D" and "table_fits tb'" and "db_tables D t = Some tb"
    and "set (column_names tb) \<subseteq> set (column_names tb')"
  shows "database_ok (put_table t tb' D)"
  using assms
  by (fastforce simp: database_ok_def tables_fit_def indexes_fit_def triggers_fit_def put_table_def)

lemma draws_ok [simp]: "database_ok (db_draws_update f D) = database_ok D"
  by (simp add: database_ok_def tables_fit_def indexes_fit_def triggers_fit_def)

lemma table_of_ok: "database_ok D \<Longrightarrow> db_tables D t = Some tb \<Longrightarrow> table_fits tb"
  by (simp add: database_ok_def tables_fit_def)

lemma fire_keeps:
  assumes "\<And>t given D r D'. ins t given D = Inr (r, D') \<Longrightarrow> P D \<Longrightarrow> P D'"
    and "\<And>D. P D \<Longrightarrow> P (D\<lparr>db_draws := Suc (db_draws D)\<rparr>)"
    and "fire ins s op t changes D = Inr D'" and "P D"
  shows "P D'"
proof -
  have one: "P D'" if "P D" "run_trigger ins s op change g D = Inr D'" for D D' change g
    using that assms(1) [OF _ assms(2)]
    by (auto simp: run_trigger_def sql_bind_Inr split: option.splits prod.splits)
  show ?thesis
    using assms(3,4) unfolding fire_def
    by (elim each_in_turn_keeps [where P = P, rotated]) (auto elim: each_in_turn_keeps [where P = P, rotated] intro: one)
qed

lemma insert_at_ok: "insert_at d s t given D = Inr (r, D') \<Longrightarrow> database_ok D \<Longrightarrow> database_ok D'"
proof (induction d arbitrary: t given D r D')
  case (Suc d)
  from Suc.prems obtain tb tb' where tb: "db_tables D t = Some tb" and given: "misfits tb given = []"
    and add: "add_row (full_row s tb given) tb = Inr tb'"
    and fire: "fire (insert_at d s) s INSERT t [([], record_of tb (full_row s tb given))] (put_table t tb' D) = Inr D'"
    by (auto simp: with_table_def Let_def sql_bind_Inr split: option.splits list.splits)
  from table_of_ok [OF Suc.prems(2) tb] full_row_typed [OF _ given] add
  have "table_fits tb'" "column_names tb' = column_names tb"
    by (auto simp: add_row_Inr table_fits_def sorted_wrt_append list_all_iff)
  then have "database_ok (put_table t tb' D)" using put_table_ok [OF Suc.prems(2) _ tb] by simp
  with fire show ?case by (rule fire_keeps [where P = database_ok, rotated 2]) (erule (1) Suc.IH, simp)
qed simp

lemmas insert_into_ok = insert_at_ok [of "ss_depth s" s for s, folded insert_into_def]

lemma set_columns_typed:
  assumes "typed tb r" and "bad_sets tb sets = []"
  shows "typed tb (set_columns s sets r)"
  unfolding typed_def
proof (intro allI impI)
  fix n v assume v: "set_columns s sets r n = Some v"
  show "\<exists>c. find_column tb n = Some c \<and> has_type v (c_type c)"
  proof (cases "map_of sets n")
    case None
    with v assms(1) show ?thesis by (simp add: set_columns_def typed_def)
  next
    case (Some e)
    then have "(n, e) \<in> set sets" by (rule map_of_SomeD)
    with assms(2) Some v show ?thesis
      by (fastforce simp: bad_sets_def set_columns_def expr_value_fits split: option.splits if_splits)
  qed
qed

lemma update_where_ok:
  assumes "database_ok D" and "update_where s t sets c D = Inr (hit, D')"
  shows "database_ok D'"
proof -
  define g where "g = (\<lambda>r. if holds c r then set_columns s sets r else r)"
  obtain tb tb' changes where tb: "db_tables D t = Some tb" and sets: "bad_sets tb sets = []"
    and chk: "check_table (tb\<lparr>t_rows := map g (t_rows tb)\<rparr>) = Inr tb'"
    and fire: "fire (insert_into s) s UPDATE t changes (put_table t tb' D) = Inr D'"
    using assms(2)
    by (auto simp: update_where_def with_table_def Let_def sql_bind_Inr g_def split: option.splits list.splits)
  have "\<forall>r\<in>set (t_rows tb). typed tb (g r)"
    using table_of_ok [OF assms(1) tb] set_columns_typed [OF _ sets]
    by (auto simp: g_def table_fits_def list_all_iff)
  with chk table_of_ok [OF assms(1) tb] have "table_fits tb'" "column_names tb' = column_names tb"
    by (auto simp: check_table_Inr table_fits_def list_all_iff)
  then have "database_ok (put_table t tb' D)" using put_table_ok [OF assms(1) _ tb] by simp
  with fire show ?thesis by (rule fire_keeps [where P = database_ok, rotated 2]) (erule (1) insert_into_ok, simp)
qed

lemma delete_where_ok:
  assumes "database_ok D" and "delete_where s t c D = Inr (hit, D')"
  shows "database_ok D'"
proof -
  obtain tb changes where tb: "db_tables D t = Some tb"
    and fire: "fire (insert_into s) s DELETE t changes
      (put_table t (tb\<lparr>t_rows := filter (\<lambda>r. \<not> holds c r) (t_rows tb)\<rparr>) D) = Inr D'"
    using assms(2)
    by (auto simp: delete_where_def with_table_def Let_def sql_bind_Inr split: option.splits list.splits)
  have "table_fits (tb\<lparr>t_rows := filter (\<lambda>r. \<not> holds c r) (t_rows tb)\<rparr>)"
    using table_of_ok [OF assms(1) tb] by (auto simp: table_fits_def list_all_iff sorted_wrt_filter)
  then have "database_ok (put_table t (tb\<lparr>t_rows := filter (\<lambda>r. \<not> holds c r) (t_rows tb)\<rparr>) D)"
    using put_table_ok [OF assms(1) _ tb] by simp
  with fire show ?thesis by (rule fire_keeps [where P = database_ok, rotated 2]) (erule (1) insert_into_ok, simp)
qed

lemma column_of_name [simp]: "c_name (column_of d) = fst d"
  by (cases d) simp

lemma unique_of_columns: "snd ` set (unique_of t d) \<subseteq> {fst d}"
  by (cases d) (simp only: unique_of.simps set_append split: if_split, simp)

lemma create_table_ok:
  assumes "database_ok D" and "create_table t defs D = Inr D'"
  shows "database_ok D'"
proof (cases "db_tables D t = None")
  case True
  define tb where "tb = \<lparr>t_columns = map column_of defs, t_unique = concat (map (unique_of t) defs), t_rows = []\<rparr>"
  from True assms(2) have D': "D' = put_table t tb D" and
    "distinct (map fst defs)" "list_all (\<lambda>d. default_fits (column_of d)) defs"
    by (auto simp: create_table_def tb_def split: if_splits)
  moreover have names: "column_names tb = map fst defs" by (simp add: tb_def column_names_def o_def)
  moreover have "snd ` set (t_unique tb) \<subseteq> set (column_names tb)"
    unfolding names using unique_of_columns [of t] by (simp add: tb_def) blast
  ultimately have "table_fits tb" unfolding table_fits_def by (simp add: tb_def list_all_iff)
  then show ?thesis
    using assms(1) True unfolding D'
    by (fastforce simp: database_ok_def tables_fit_def indexes_fit_def triggers_fit_def put_table_def)
qed (use assms in \<open>simp add: create_table_def\<close>)

lemma drop_table_ok: "database_ok D \<Longrightarrow> database_ok (drop_table t D)"
  unfolding database_ok_def
proof (elim conjE, intro conjI)
  show "tables_fit D \<Longrightarrow> tables_fit (drop_table t D)" by (simp add: tables_fit_def drop_table_def)
  show "indexes_fit D \<Longrightarrow> indexes_fit (drop_table t D)"
    by (auto simp: indexes_fit_def drop_table_def split: option.splits if_splits)
  show "triggers_fit D \<Longrightarrow> triggers_fit (drop_table t D)"
    by (simp add: triggers_fit_def drop_table_def distinct_map_filter)
qed

lemma add_column_ok:
  assumes "database_ok D" and "add_column s t d D = Inr D'"
  shows "database_ok D'"
proof (cases "\<exists>tb. db_tables D t = Some tb \<and> find_column tb (fst d) = None")
  case True
  then obtain tb where tb: "db_tables D t = Some tb" and new: "find_column tb (fst d) = None" by blast
  define nt where "nt = \<lparr>t_columns = t_columns tb @ [column_of d], t_unique = t_unique tb @ unique_of t d,
      t_rows = map (\<lambda>r. r(fst d := default_value s (column_of d))) (t_rows tb)\<rparr>"
  from tb new assms(2) have fits: "default_fits (column_of d)" and chk: "check_table nt = Inr nt"
    and D': "D' = put_table t nt D"
    by (auto simp: add_column_def with_table_def Let_def nt_def sql_bind_Inr check_table_Inr split: if_splits)
  note ok = table_of_ok [OF assms(1) tb]
  have find: "find_column nt n = (if n = fst d then Some (column_of d) else find_column tb n)" for n
    using new by (auto simp: find_column_def nt_def find_append split: option.splits)
  have "typed nt (r(fst d := default_value s (column_of d)))" if "typed tb r" for r
    using that default_value_fits [OF fits] by (auto simp: typed_def find)
  then have "list_all (typed nt) (t_rows nt)"
    using ok by (auto simp: nt_def table_fits_def list_all_iff)
  moreover have "column_names nt = column_names tb @ [fst d]" by (simp add: nt_def column_names_def)
  moreover have "fst d \<notin> set (column_names tb)" using new by (simp add: find_column_None)
  moreover have "snd ` set (t_unique nt) \<subseteq> insert (fst d) (set (column_names tb))"
    using ok unique_of_columns [of t d] by (auto simp: table_fits_def nt_def)
  moreover have "t_columns nt = t_columns tb @ [column_of d]" by (simp add: nt_def)
  ultimately have "table_fits nt"
    using ok fits chk by (simp add: table_fits_def check_table_Inr)
  moreover have "set (column_names tb) \<subseteq> set (column_names nt)" by (auto simp: nt_def column_names_def)
  ultimately show ?thesis using put_table_ok [OF assms(1) _ tb] D' by blast
qed (use assms in \<open>auto simp: add_column_def with_table_def split: option.splits if_splits\<close>)

lemma remove_column_names: "column_names (remove_column c tb) = filter (\<lambda>n. n \<noteq> c) (column_names tb)"
  by (simp add: remove_column_def column_names_def filter_map o_def)

lemma remove_column_find: "find_column (remove_column c tb) n = (if n = c then None else find_column tb n)"
  by (auto simp: find_column_def remove_column_def find_filter_other find_filter_none)

lemma remove_column_fits:
  assumes "table_fits tb" shows "table_fits (remove_column c tb)"
proof -
  have "null_columns (remove_column c tb) (r(c := None)) = []" if "null_columns tb r = []" for r
    using that by (auto simp: null_columns_def remove_column_def filter_empty_conv)
  moreover have "apart (remove_column c tb) (r(c := None)) (v(c := None))" if "apart tb r v" for r v
    using that by (force simp: apart_def remove_column_def list_all_iff)
  moreover have "typed (remove_column c tb) (r(c := None))" if "typed tb r" for r
    using that by (auto simp: typed_def remove_column_find)
  moreover have rows: "t_rows (remove_column c tb) = map (\<lambda>r. r(c := None)) (t_rows tb)"
    by (simp add: remove_column_def)
  moreover have "sorted_wrt (apart (remove_column c tb)) (t_rows (remove_column c tb))"
    unfolding rows sorted_wrt_map
    by (rule sorted_wrt_mono_rel [of _ "apart tb"]) (use assms calculation(2) in \<open>auto simp: table_fits_def\<close>)
  ultimately show ?thesis
    using assms
    by (auto simp: table_fits_def remove_column_names list_all_iff) (auto simp: remove_column_def)
qed

lemma drop_column_ok:
  assumes "database_ok D" and "drop_column t c D = Inr D'"
  shows "database_ok D'"
proof (cases "\<exists>tb. db_tables D t = Some tb \<and> find_column tb c \<noteq> None")
  case True
  then obtain tb where tb: "db_tables D t = Some tb" and "find_column tb c \<noteq> None" by blast
  with assms(2) have "D' = put_table t (remove_column c tb) (D\<lparr>db_indexes :=
       (\<lambda>i. case db_indexes D i of None \<Rightarrow> None
            | Some (u, cs) \<Rightarrow> if u = t \<and> c \<in> set cs then None else Some (u, cs))\<rparr>)"
    by (auto simp: drop_column_def with_table_def)
  with assms(1) tb remove_column_fits [OF table_of_ok [OF assms(1) tb], of c] show ?thesis
    by (fastforce simp: database_ok_def tables_fit_def indexes_fit_def triggers_fit_def put_table_def
        remove_column_names split: option.splits if_splits)
qed (use assms in \<open>auto simp: drop_column_def with_table_def split: option.splits if_splits\<close>)

lemma alter_column_ok:
  assumes "database_ok D" and "alter_column t c f D = Inr D'"
    and same: "\<And>k. c_name (f k) = c_name k" "\<And>k. c_type (f k) = c_type k"
  shows "database_ok D'"
proof -
  define g where "g = (\<lambda>k. if c_name k = c then f k else k)"
  have g: "c_name (g k) = c_name k" "c_type (g k) = c_type k" for k by (simp_all add: g_def same)
  obtain tb where tb: "db_tables D t = Some tb" and D': "D' = put_table t (tb\<lparr>t_columns := map g (t_columns tb)\<rparr>) D"
    and fits: "list_all default_fits (map g (t_columns tb))"
    and chk: "check_table (tb\<lparr>t_columns := map g (t_columns tb)\<rparr>) = Inr (tb\<lparr>t_columns := map g (t_columns tb)\<rparr>)"
    using assms(2)
    by (auto simp: alter_column_def with_table_def Let_def sql_bind_Inr check_table_Inr g_def
        split: option.splits if_splits)
  let ?nt = "tb\<lparr>t_columns := map g (t_columns tb)\<rparr>"
  have names: "column_names ?nt = column_names tb" by (simp add: column_names_def o_def g)
  have "find_column ?nt n = map_option g (find_column tb n)" for n
    by (simp add: find_column_def find_map_inv g)
  then have "typed ?nt r" if "typed tb r" for r using that by (fastforce simp: typed_def g)
  then have "table_fits ?nt"
    using table_of_ok [OF assms(1) tb] fits chk by (simp add: table_fits_def names check_table_Inr list_all_iff)
  then show ?thesis unfolding D' by (rule put_table_ok [OF assms(1) _ tb]) (simp add: names)
qed

lemma exec_ok:
  assumes "database_ok D" and "exec s q D = Inr D'"
  shows "database_ok D'"
proof (cases q)
  case (CreateIndexIfNotExists i t cs)
  with assms show ?thesis
    by (auto simp: create_index_def with_table_def database_ok_def tables_fit_def indexes_fit_def triggers_fit_def
        find_column_None filter_empty_conv split: option.splits list.splits if_splits)
next
  case (DropFunctionIfExists f)
  with assms show ?thesis
    by (auto simp: drop_function_def list_ex_iff database_ok_def tables_fit_def indexes_fit_def triggers_fit_def
        split: if_splits)
next
  case (CreateTrigger n t ops f)
  with assms show ?thesis
    by (auto simp: create_trigger_def with_table_def list_ex_iff database_ok_def tables_fit_def indexes_fit_def
        triggers_fit_def split: option.splits if_splits)
next
  case (CreateOrReplaceFunction f body)
  with assms show ?thesis by (auto simp: database_ok_def tables_fit_def indexes_fit_def triggers_fit_def)
next
  case (DropTriggerIfExists n t)
  with assms show ?thesis
    by (auto simp: database_ok_def tables_fit_def indexes_fit_def triggers_fit_def distinct_map inj_on_def)
next
  case (UpdateWhere t sets c)
  with assms show ?thesis by (auto simp: sql_bind_Inr dest: update_where_ok)
next
  case (SetNotNull t c)
  with assms show ?thesis by (auto intro: alter_column_ok)
next
  case (SetDefault t c e)
  with assms show ?thesis by (auto intro: alter_column_ok)
qed (use assms in \<open>auto intro: create_table_ok drop_table_ok add_column_ok drop_column_ok split: if_splits\<close>)

lemma run_file_ok: "run_file s qs D = Inr D' \<Longrightarrow> database_ok D \<Longrightarrow> database_ok D'"
  unfolding run_file_def by (erule each_in_turn_keeps [rotated]) (auto intro: exec_ok)

end
