(* ===== verification/Migrations.thy ===== *)
theory Migrations
  imports Sql WriteRepo
begin

text \<open>
  The schema migrations of migration/postgres: each file is a list of statements. \<open>at_version n\<close>
  describes a database the first n up files have been applied to, whatever else it holds and
  whatever rows there are. Each up file takes a database at its version to the next one and its down
  file takes it back; applying it once more, as after a run that was interrupted before it was
  recorded, changes nothing; the users there were keep every column they had.
\<close>

section \<open>The files\<close>

definition create_users_up :: "stmt list" where
  "create_users_up =
    [CreateTableIfNotExists ''users''
       [(''user_id'', UUID, [PRIMARY_KEY]),
        (''username'', TEXT, [NOT_NULL, UNIQUE]),
        (''first_name'', TEXT, [NOT_NULL]),
        (''last_name'', TEXT, [NOT_NULL]),
        (''created_at'', TIMESTAMPTZ, [NOT_NULL, DEFAULT NOW]),
        (''updated_at'', TIMESTAMPTZ, [NOT_NULL, DEFAULT NOW])],
     CreateIndexIfNotExists ''idx_users_username'' ''users'' [''username'']]"

definition create_users_down :: "stmt list" where
  "create_users_down = [DropTableIfExists ''users'']"

definition add_user_activation_up :: "stmt list" where
  "add_user_activation_up =
    [AddColumnIfNotExists ''users'' (''is_active'', BOOLEAN, [NOT_NULL, DEFAULT (Lit (VBool False))]),
     AddColumnIfNotExists ''users'' (''status'', TEXT, []),
     UpdateWhere ''users''
       [(''status'', CaseWhen ''is_active'' (Lit (VText ''active'')) (Lit (VText ''pending_registration'')))]
       (IsNull ''status''),
     SetNotNull ''users'' ''status'',
     SetDefault ''users'' ''status'' (Lit (VText ''pending_registration''))]"

definition add_user_activation_down :: "stmt list" where
  "add_user_activation_down =
    [DropColumnIfExists ''users'' ''status'', DropColumnIfExists ''users'' ''is_active'']"

definition add_user_avatar_id_up :: "stmt list" where
  "add_user_avatar_id_up =
    [AddColumnIfNotExists ''users'' (''avatar_id'', TEXT, [NOT_NULL, DEFAULT (Lit (VText []))])]"

definition add_user_avatar_id_down :: "stmt list" where
  "add_user_avatar_id_down = [DropColumnIfExists ''users'' ''avatar_id'']"

definition add_user_about_up :: "stmt list" where
  "add_user_about_up =
    [AddColumnIfNotExists ''users'' (''about'', TEXT, [NOT_NULL, DEFAULT (Lit (VText []))])]"

definition add_user_about_down :: "stmt list" where
  "add_user_about_down = [DropColumnIfExists ''users'' ''about'']"

text \<open>
  The trigger function: the text of a column of the row is what \<open>->>\<close> takes out of its JSON form,
  and the random identifier stands for the hash of the clock and a random number.
\<close>

fun json_text :: "session \<Rightarrow> sql_value \<Rightarrow> string" where
  "json_text s (VUuid u) = u"
| "json_text s (VText x) = x"
| "json_text s v = ss_text s v"

definition json_field :: "session \<Rightarrow> row_record \<Rightarrow> string \<Rightarrow> sql_value option" where
  "json_field s row_data n = (case map_of row_data n of
     Some (Some v) \<Rightarrow> Some (VText (json_text s v)) | _ \<Rightarrow> None)"

definition operation_value :: "trigger_op \<Rightarrow> string" where
  "operation_value op =
    (if op = INSERT then ''created'' else if op = DELETE then ''deactivated'' else ''updated'')"

definition capture_user_outbox_event_body :: trigger_function where
  "capture_user_outbox_event_body s op old_row new_row event_id =
    (let row_data = (if op = DELETE then old_row else new_row) in
     (''outbox_events'',
      [(''event_id'', Some (VUuid event_id)),
       (''aggregate_type'', Some (VText ''user'')),
       (''aggregate_id'', json_field s row_data ''user_id''),
       (''event_type'', Some (VText (''user.profile.'' @ operation_value op))),
       (''operation'', Some (VText (operation_value op))),
       (''payload'', Some (VJson row_data))]))"

definition outbox_events_columns :: "col_def list" where
  "outbox_events_columns =
    [(''event_id'', UUID, [PRIMARY_KEY]),
     (''aggregate_type'', TEXT, [NOT_NULL]),
     (''aggregate_id'', TEXT, [NOT_NULL]),
     (''event_type'', TEXT, [NOT_NULL]),
     (''operation'', TEXT, [NOT_NULL]),
     (''schema_version'', INT4, [NOT_NULL, DEFAULT (Lit (VInt 1))]),
     (''payload'', JSONB, [NOT_NULL]),
     (''occurred_at'', TIMESTAMPTZ, [NOT_NULL, DEFAULT NOW]),
     (''created_at'', TIMESTAMPTZ, [NOT_NULL, DEFAULT NOW])]"

definition create_outbox_events_up :: "stmt list" where
  "create_outbox_events_up =
    [CreateTableIfNotExists ''outbox_events'' outbox_events_columns,
     CreateIndexIfNotExists ''idx_outbox_events_aggregate'' ''outbox_events''
       [''aggregate_type'', ''aggregate_id'', ''created_at''],
     CreateOrReplaceFunction ''capture_user_outbox_event'' capture_user_outbox_event_body,
     DropTriggerIfExists ''users_outbox'' ''users'',
     CreateTrigger ''users_outbox'' ''users'' [INSERT, UPDATE, DELETE] ''capture_user_outbox_event'']"

definition create_outbox_events_down :: "stmt list" where
  "create_outbox_events_down =
    [DropTriggerIfExists ''users_outbox'' ''users'',
     DropFunctionIfExists ''capture_user_outbox_event'',
     DropTableIfExists ''outbox_events'']"

definition processed_events_columns :: "col_def list" where
  "processed_events_columns =
    [(''event_id'', TEXT, [PRIMARY_KEY]),
     (''event_type'', TEXT, [NOT_NULL]),
     (''source_service'', TEXT, [NOT_NULL]),
     (''aggregate_type'', TEXT, [NOT_NULL]),
     (''aggregate_id'', TEXT, [NOT_NULL]),
     (''aggregate_version'', BIGINT, [NOT_NULL, DEFAULT (Lit (VInt 0))]),
     (''processed_at'', TIMESTAMPTZ, [NOT_NULL, DEFAULT NOW])]"

definition create_processed_events_up :: "stmt list" where
  "create_processed_events_up = [CreateTableIfNotExists ''processed_events'' processed_events_columns]"

definition create_processed_events_down :: "stmt list" where
  "create_processed_events_down = [DropTableIfExists ''processed_events'']"

definition processed_event_id_text_up :: "stmt list" where
  "processed_event_id_text_up = [Select1]"

definition processed_event_id_text_down :: "stmt list" where
  "processed_event_id_text_down = [Select1]"

text \<open>In the order of their numbers.\<close>

definition up_files :: "stmt list list" where
  "up_files = [create_users_up, add_user_activation_up, add_user_avatar_id_up, add_user_about_up,
     create_outbox_events_up, create_processed_events_up, processed_event_id_text_up]"

definition down_files :: "stmt list list" where
  "down_files = [create_users_down, add_user_activation_down, add_user_avatar_id_down, add_user_about_down,
     create_outbox_events_down, create_processed_events_down, processed_event_id_text_down]"

section \<open>The schema at each version\<close>

definition users_columns :: "nat \<Rightarrow> column list" where
  "users_columns n = map column_of
     ([(''user_id'', UUID, [PRIMARY_KEY]), (''username'', TEXT, [NOT_NULL, UNIQUE]),
       (''first_name'', TEXT, [NOT_NULL]), (''last_name'', TEXT, [NOT_NULL]),
       (''created_at'', TIMESTAMPTZ, [NOT_NULL, DEFAULT NOW]),
       (''updated_at'', TIMESTAMPTZ, [NOT_NULL, DEFAULT NOW])] @
      (if 2 \<le> n then [(''is_active'', BOOLEAN, [NOT_NULL, DEFAULT (Lit (VBool False))]),
         (''status'', TEXT, [NOT_NULL, DEFAULT (Lit (VText ''pending_registration''))])] else []) @
      (if 3 \<le> n then [(''avatar_id'', TEXT, [NOT_NULL, DEFAULT (Lit (VText []))])] else []) @
      (if 4 \<le> n then [(''about'', TEXT, [NOT_NULL, DEFAULT (Lit (VText []))])] else []))"

definition users_unique :: "(string \<times> string) list" where
  "users_unique = [(UsersPrimaryKeyConstraint, ''user_id''), (UsersUsernameConstraint, ''username'')]"

definition shape :: "database \<Rightarrow> string \<Rightarrow> (column list \<times> (string \<times> string) list) option" where
  "shape D t = map_option (\<lambda>tb. (t_columns tb, t_unique tb)) (db_tables D t)"

definition users_outbox :: trigger where
  "users_outbox = \<lparr>tg_name = ''users_outbox'', tg_table = ''users'', tg_ops = [INSERT, UPDATE, DELETE],
     tg_function = ''capture_user_outbox_event''\<rparr>"

definition service_tables :: "string list" where
  "service_tables = [''users'', ''outbox_events'', ''processed_events'']"

definition at_version :: "nat \<Rightarrow> database \<Rightarrow> bool" where
  "at_version n D \<longleftrightarrow> database_ok D \<and>
     shape D ''users'' = (if 1 \<le> n then Some (users_columns n, users_unique) else None) \<and>
     shape D ''outbox_events'' = (if 5 \<le> n
       then Some (map column_of outbox_events_columns, [(''outbox_events_pkey'', ''event_id'')]) else None) \<and>
     shape D ''processed_events'' = (if 6 \<le> n
       then Some (map column_of processed_events_columns, [(''processed_events_pkey'', ''event_id'')]) else None) \<and>
     db_indexes D ''idx_users_username'' = (if 1 \<le> n then Some (''users'', [''username'']) else None) \<and>
     db_indexes D ''idx_outbox_events_aggregate'' = (if 5 \<le> n
       then Some (''outbox_events'', [''aggregate_type'', ''aggregate_id'', ''created_at'']) else None) \<and>
     db_functions D ''capture_user_outbox_event'' = (if 5 \<le> n then Some capture_user_outbox_event_body else None) \<and>
     filter (\<lambda>g. tg_table g \<in> set service_tables \<or> tg_function g = ''capture_user_outbox_event'') (db_triggers D) =
       (if 5 \<le> n then [users_outbox] else [])"

text \<open>What each up file makes of a database at its version.\<close>

definition new_values :: "nat \<Rightarrow> sql_row" where
  "new_values n =
    (if n = 1 then [''is_active'' \<mapsto> VBool False, ''status'' \<mapsto> VText ''pending_registration'']
     else if n = 2 then [''avatar_id'' \<mapsto> VText []] else if n = 3 then [''about'' \<mapsto> VText []] else Map.empty)"

definition widened :: "nat \<Rightarrow> sql_table \<Rightarrow> sql_table" where
  "widened n tb = \<lparr>t_columns = users_columns (Suc n), t_unique = t_unique tb,
     t_rows = map (\<lambda>r. r ++ new_values n) (t_rows tb)\<rparr>"

definition migrated :: "nat \<Rightarrow> database \<Rightarrow> database" where
  "migrated n D =
    (if n = 0 then put_table ''users'' \<lparr>t_columns = users_columns 1, t_unique = users_unique, t_rows = []\<rparr>
       (D\<lparr>db_indexes := (db_indexes D)(''idx_users_username'' \<mapsto> (''users'', [''username'']))\<rparr>)
     else if n < 4 then (case db_tables D ''users'' of None \<Rightarrow> D | Some tb \<Rightarrow> put_table ''users'' (widened n tb) D)
     else if n = 4 then put_table ''outbox_events'' \<lparr>t_columns = map column_of outbox_events_columns,
         t_unique = [(''outbox_events_pkey'', ''event_id'')], t_rows = []\<rparr>
       (D\<lparr>db_indexes := (db_indexes D)(''idx_outbox_events_aggregate'' \<mapsto>
            (''outbox_events'', [''aggregate_type'', ''aggregate_id'', ''created_at''])),
          db_functions := (db_functions D)(''capture_user_outbox_event'' \<mapsto> capture_user_outbox_event_body),
          db_triggers := db_triggers D @ [users_outbox]\<rparr>)
     else if n = 5 then put_table ''processed_events'' \<lparr>t_columns = map column_of processed_events_columns,
         t_unique = [(''processed_events_pkey'', ''event_id'')], t_rows = []\<rparr> D
     else D)"

section \<open>Reasoning about columns\<close>

lemma check_fits: "table_fits tb \<Longrightarrow> check_table tb = Inr tb"
  by (simp add: table_fits_def check_table_Inr)

lemma put_same: "db_tables D t = Some tb \<Longrightarrow> put_table t tb D = D"
  by (simp add: put_table_def fun_upd_idem)

text \<open>A new column with a default can be added to any table, and dropping it gives the table back.\<close>

lemma added_column:
  assumes "database_ok D" and tb: "db_tables D t = Some tb" and new: "find_column tb (fst d) = None"
    and "default_fits (column_of d)" and "unique_of t d = []"
    and "c_notnull (column_of d) \<longrightarrow> default_value s (column_of d) \<noteq> None"
  shows "add_column s t d D = Inr (put_table t \<lparr>t_columns = t_columns tb @ [column_of d], t_unique = t_unique tb,
    t_rows = map (\<lambda>r. r(fst d := default_value s (column_of d))) (t_rows tb)\<rparr> D)"
proof -
  define nt where "nt = \<lparr>t_columns = t_columns tb @ [column_of d], t_unique = t_unique tb,
    t_rows = map (\<lambda>r. r(fst d := default_value s (column_of d))) (t_rows tb)\<rparr>"
  have fresh: "fst d \<notin> set (column_names tb)" using new by (simp add: find_column_None)
  note ok = table_of_ok [OF assms(1) tb]
  have "null_columns nt (r(fst d := default_value s (column_of d))) = null_columns tb r" for r
  proof -
    have "filter (\<lambda>c. c_notnull c \<and> (r(fst d := default_value s (column_of d))) (c_name c) = None) (t_columns tb) =
        filter (\<lambda>c. c_notnull c \<and> r (c_name c) = None) (t_columns tb)"
    proof (intro filter_cong refl)
      fix c assume "c \<in> set (t_columns tb)"
      with fresh have "c_name c \<noteq> fst d" by (metis column_names_def image_eqI list.set_map)
      then show "(c_notnull c \<and> (r(fst d := default_value s (column_of d))) (c_name c) = None) =
          (c_notnull c \<and> r (c_name c) = None)" by simp
    qed
    then show ?thesis using assms(6) by (simp add: null_columns_def nt_def)
  qed
  moreover have "apart nt (r(fst d := x)) (v(fst d := x)) = apart tb r v" for r v x
  proof -
    have "k \<noteq> fst d" if "(m, k) \<in> set (t_unique tb)" for m k
    proof -
      have "k \<in> set (column_names tb)" using ok that by (auto simp: table_fits_def)
      with fresh show ?thesis by blast
    qed
    then show ?thesis unfolding apart_def nt_def by (intro list.pred_cong) auto
  qed
  ultimately have "check_table nt = Inr nt"
    using ok by (simp add: check_table_Inr) (simp add: nt_def table_fits_def sorted_wrt_map list_all_iff)
  then show ?thesis
    using assms by (simp add: add_column_def with_table_def Let_def nt_def)
qed

lemma removed_column:
  assumes "table_fits tb" and "c \<notin> set (column_names tb)" and "c_name k = c"
  shows "remove_column c \<lparr>t_columns = t_columns tb @ [k], t_unique = t_unique tb,
    t_rows = map (\<lambda>r. r(c := f r)) (t_rows tb)\<rparr> = tb"
proof -
  have "filter (\<lambda>k. c_name k \<noteq> c) (t_columns tb) = t_columns tb"
    using assms(2) by (auto simp: column_names_def filter_id_conv)
  moreover have "filter (\<lambda>(n, k). k \<noteq> c) (t_unique tb) = t_unique tb"
    using assms(1,2) by (force simp: table_fits_def filter_id_conv)
  moreover have "r(c := None) = r" if "r \<in> set (t_rows tb)" for r
  proof -
    have "typed tb r" using assms(1) that by (simp add: table_fits_def list_all_iff)
    then have "r c = None" using assms(2) by (cases "r c") (fastforce simp: typed_def find_column_None [symmetric])+
    then show ?thesis by (simp add: fun_upd_idem)
  qed
  ultimately show ?thesis using assms(3) by (simp add: remove_column_def o_def map_idI)
qed

lemma unindexed_column:
  assumes "database_ok D" and "db_tables D t = Some tb" and "c \<notin> set (column_names tb)"
  shows "(\<lambda>i. case db_indexes D i of None \<Rightarrow> None
      | Some (u, cs) \<Rightarrow> if u = t \<and> c \<in> set cs then None else Some (u, cs)) = db_indexes D"
  using assms by (fastforce simp: database_ok_def indexes_fit_def fun_eq_iff split: option.splits)

lemma at_version_users:
  assumes "at_version n D" and "1 \<le> n"
  obtains tb where "db_tables D ''users'' = Some tb" "t_columns tb = users_columns n" "t_unique tb = users_unique"
    "table_fits tb"
  using assms by (auto simp: at_version_def shape_def dest: table_of_ok)

lemma no_user_triggers: "at_version n D \<Longrightarrow> n < 5 \<Longrightarrow> triggers_on D op ''users'' = []"
  by (auto simp: at_version_def triggers_on_def service_tables_def filter_empty_conv)

lemma user_column_names:
  "map c_name (users_columns n) = [''user_id'', ''username'', ''first_name'', ''last_name'', ''created_at'', ''updated_at''] @
     (if 2 \<le> n then [''is_active'', ''status''] else []) @ (if 3 \<le> n then [''avatar_id''] else []) @
     (if 4 \<le> n then [''about''] else [])"
  by (simp add: users_columns_def)

section \<open>The files one by one\<close>

lemma create_users_runs:
  assumes "at_version 0 D"
  shows "run_file s create_users_up D = Inr (migrated 0 D)"
  using assms
  by (simp add: run_file_def create_users_up_def create_table_def at_version_def shape_def create_index_def
      with_table_def put_table_def find_column_def default_fits_def migrated_def users_columns_def users_unique_def
      UsersPrimaryKeyConstraint_def UsersUsernameConstraint_def)

text \<open>Dropping a table that was created beside the others, with its index, leaves the others.\<close>

lemma drop_new_table:
  assumes "database_ok D" and "db_tables D t = None"
    and "db_tables D' = (db_tables D)(t \<mapsto> tb)"
    and "db_indexes D' = db_indexes D \<or> db_indexes D i = None \<and> db_indexes D' = (db_indexes D)(i \<mapsto> (t, cs))"
    and "db_functions D' = db_functions D" "db_triggers D' = db_triggers D" "db_draws D' = db_draws D"
  shows "exec s (DropTableIfExists t) D' = Inr D"
proof -
  have "(\<lambda>i. case db_indexes D' i of None \<Rightarrow> None
      | Some (u, cs) \<Rightarrow> if u = t then None else Some (u, cs)) = db_indexes D"
    using assms(1,2,4) by (fastforce simp: database_ok_def indexes_fit_def fun_eq_iff split: option.splits)
  moreover have "filter (\<lambda>g. tg_table g \<noteq> t) (db_triggers D) = db_triggers D"
    using assms(1,2) by (auto simp: database_ok_def triggers_fit_def filter_id_conv)
  ultimately have "drop_table t D' = D"
    using assms(2,3,5-7) by (intro database.equality) (simp_all add: drop_table_def fun_upd_idem)
  then show ?thesis using assms(3) by simp
qed

lemma create_users_reverts:
  assumes "at_version 0 D"
  shows "run_file s create_users_down (migrated 0 D) = Inr D"
proof -
  have "exec s (DropTableIfExists ''users'') (migrated 0 D) = Inr D"
    using assms by (intro drop_new_table [where i = "''idx_users_username''"])
      (auto simp: at_version_def shape_def migrated_def put_table_def)
  then show ?thesis by (simp only: run_file_def create_users_down_def each_in_turn.simps sql_bind_simps)
qed

lemma create_processed_events_runs:
  assumes "at_version 5 D"
  shows "run_file s create_processed_events_up D = Inr (migrated 5 D)"
    and "run_file s create_processed_events_down (migrated 5 D) = Inr D"
proof -
  show "run_file s create_processed_events_up D = Inr (migrated 5 D)"
    using assms
    by (simp add: run_file_def create_processed_events_up_def create_table_def at_version_def shape_def
        default_fits_def migrated_def processed_events_columns_def)
  have "exec s (DropTableIfExists ''processed_events'') (migrated 5 D) = Inr D"
    using assms by (intro drop_new_table)
      (auto simp: at_version_def shape_def migrated_def put_table_def)
  then show "run_file s create_processed_events_down (migrated 5 D) = Inr D"
    by (simp only: run_file_def create_processed_events_down_def each_in_turn.simps sql_bind_simps)
qed

lemma users_column_added:
  assumes "at_version n D" and n: "n = 2 \<and> c = ''avatar_id'' \<or> n = 3 \<and> c = ''about''"
  shows "exec s (AddColumnIfNotExists ''users'' (c, TEXT, [NOT_NULL, DEFAULT (Lit (VText []))])) D = Inr (migrated n D)"
    and "exec s (DropColumnIfExists ''users'' c) (migrated n D) = Inr D"
proof -
  let ?d = "(c, TEXT, [NOT_NULL, DEFAULT (Lit (VText []))])"
  have ok: "database_ok D" using assms(1) by (simp add: at_version_def)
  from assms(1) n obtain tb where tb: "db_tables D ''users'' = Some tb" "t_columns tb = users_columns n"
    and fits: "table_fits tb" by (elim at_version_users) auto
  have fresh: "c \<notin> set (column_names tb)"
    using n by (auto simp: column_names_def tb(2) user_column_names)
  then have none: "find_column tb (fst ?d) = None" by (simp add: find_column_None)
  have wide: "widened n tb = \<lparr>t_columns = t_columns tb @ [column_of ?d], t_unique = t_unique tb,
      t_rows = map (\<lambda>r. r(c := Some (VText []))) (t_rows tb)\<rparr>"
    using n by (auto simp: widened_def tb(2) users_columns_def new_values_def)
  have mig: "migrated n D = put_table ''users'' (widened n tb) D" using n tb by (auto simp: migrated_def)
  show "exec s (AddColumnIfNotExists ''users'' ?d) D = Inr (migrated n D)"
    using added_column [OF ok tb(1) none] unfolding mig wide by (simp add: default_fits_def default_value_def)
  obtain k where "find_column (widened n tb) c = Some k"
    by (cases "find_column (widened n tb) c") (simp_all add: find_column_None wide column_names_def)
  then show "exec s (DropColumnIfExists ''users'' c) (migrated n D) = Inr D"
    using removed_column [OF fits fresh, of "column_of ?d" "\<lambda>r. Some (VText [])"]
      unindexed_column [OF ok tb(1) fresh] put_same [OF tb(1)]
    by (simp add: mig drop_column_def with_table_def put_table_def wide)
qed

lemma create_outbox_events_runs:
  assumes "at_version 4 D"
  shows "run_file s create_outbox_events_up D = Inr (migrated 4 D)"
    and "run_file s create_outbox_events_down (migrated 4 D) = Inr D"
proof -
  let ?ours = "\<lambda>g. tg_table g = ''users'' \<and> tg_name g = ''users_outbox''"
  obtain tb where users: "db_tables D ''users'' = Some tb" using assms by (elim at_version_users) auto
  have none: "db_tables D ''outbox_events'' = None" "db_indexes D ''idx_outbox_events_aggregate'' = None"
      "db_functions D ''capture_user_outbox_event'' = None" and ok: "database_ok D"
    using assms by (auto simp: at_version_def shape_def)
  have own: "\<forall>g\<in>set (db_triggers D). tg_table g \<notin> set service_tables \<and> tg_function g \<noteq> ''capture_user_outbox_event''"
    using assms by (simp add: at_version_def filter_empty_conv)
  then have keep: "filter (\<lambda>g. \<not> ?ours g) (db_triggers D) = db_triggers D" "\<not> list_ex ?ours (db_triggers D)"
      "\<not> list_ex (\<lambda>g. tg_function g = ''capture_user_outbox_event'') (db_triggers D)"
    by (auto simp: filter_id_conv list_ex_iff service_tables_def)
  show "run_file s create_outbox_events_up D = Inr (migrated 4 D)"
    using users none keep
    by (simp add: run_file_def create_outbox_events_up_def create_table_def create_index_def with_table_def
        create_trigger_def migrated_def put_table_def find_column_def default_fits_def users_outbox_def
        outbox_events_columns_def fun_upd_twist)
  let ?D = "migrated 4 D\<lparr>db_triggers := db_triggers D, db_functions := db_functions D\<rparr>"
  have "exec s (DropTableIfExists ''outbox_events'') ?D = Inr D"
    using none ok by (intro drop_new_table [OF ok none(1)]) (auto simp: migrated_def put_table_def)
  moreover have "exec s (DropTriggerIfExists ''users_outbox'' ''users'') (migrated 4 D) =
      Inr (migrated 4 D\<lparr>db_triggers := db_triggers D\<rparr>)"
    using keep by (simp add: migrated_def put_table_def users_outbox_def)
  moreover have "exec s (DropFunctionIfExists ''capture_user_outbox_event'')
      (migrated 4 D\<lparr>db_triggers := db_triggers D\<rparr>) = Inr ?D"
    using keep none by (simp add: drop_function_def migrated_def put_table_def fun_upd_idem)
  ultimately show "run_file s create_outbox_events_down (migrated 4 D) = Inr D"
    by (simp only: run_file_def create_outbox_events_down_def each_in_turn.simps sql_bind_simps)
qed

lemma fire_none: "triggers_on D op t = [] \<Longrightarrow> fire ins s op t changes D = Inr D"
  unfolding fire_def by (induction changes) simp_all

lemma null_columns_Nil: "null_columns tb r = [] \<longleftrightarrow> (\<forall>c\<in>set (t_columns tb). c_notnull c \<longrightarrow> r (c_name c) \<noteq> None)"
  by (auto simp: null_columns_def filter_empty_conv)

lemma null_columns_upd: "null_columns tb r = [] \<Longrightarrow> null_columns tb (r(c \<mapsto> v)) = []"
  by (simp add: null_columns_Nil)

text \<open>Changing columns that are in no unique key keeps the constraints.\<close>

lemma check_updated:
  assumes "table_fits tb" and "\<And>r. r \<in> set (t_rows tb) \<Longrightarrow> null_columns tb (g r) = []"
    and "\<And>r c. c \<in> snd ` set (t_unique tb) \<Longrightarrow> g r c = r c"
  shows "check_table (tb\<lparr>t_rows := map g (t_rows tb)\<rparr>) = Inr (tb\<lparr>t_rows := map g (t_rows tb)\<rparr>)"
proof -
  have "apart tb (g r) (g v) = apart tb r v" for r v
    unfolding apart_def using assms(3) by (intro list.pred_cong) force+
  then show ?thesis
    using assms(1,2) by (simp add: check_table_Inr table_fits_def sorted_wrt_map list_all_iff)
qed

lemma activation_columns:
  "column_of (''is_active'', BOOLEAN, [NOT_NULL, DEFAULT (Lit (VBool False))]) =
     \<lparr>c_name = ''is_active'', c_type = BOOLEAN, c_notnull = True, c_default = Some (Lit (VBool False))\<rparr>"
  "column_of (''status'', TEXT, []) = \<lparr>c_name = ''status'', c_type = TEXT, c_notnull = False, c_default = None\<rparr>"
  by simp_all

text \<open>The table of users while migration 2 runs: with the first column, with both, and with the statuses set.\<close>

abbreviation is_active_def_col :: col_def where
  "is_active_def_col \<equiv> (''is_active'', BOOLEAN, [NOT_NULL, DEFAULT (Lit (VBool False))])"

abbreviation status_column :: "bool \<Rightarrow> sql_expr option \<Rightarrow> column" where
  "status_column nn df \<equiv> \<lparr>c_name = ''status'', c_type = TEXT, c_notnull = nn, c_default = df\<rparr>"

abbreviation set_status :: "(string \<times> sql_expr) list" where
  "set_status \<equiv> [(''status'', CaseWhen ''is_active'' (Lit (VText ''active'')) (Lit (VText ''pending_registration'')))]"

definition with_is_active :: "sql_table \<Rightarrow> sql_table" where
  "with_is_active tb = \<lparr>t_columns = t_columns tb @ [column_of is_active_def_col], t_unique = t_unique tb,
      t_rows = map (\<lambda>r. r(''is_active'' \<mapsto> VBool False)) (t_rows tb)\<rparr>"

definition with_status :: "sql_table \<Rightarrow> sql_table" where
  "with_status tb = \<lparr>t_columns = t_columns tb @ [status_column False None], t_unique = t_unique tb,
      t_rows = map (\<lambda>r. r(''status'' := None)) (t_rows tb)\<rparr>"

definition with_pending :: "bool \<Rightarrow> sql_expr option \<Rightarrow> sql_table \<Rightarrow> sql_table" where
  "with_pending nn df tb = \<lparr>t_columns = t_columns tb @ [status_column nn df], t_unique = t_unique tb,
      t_rows = map (\<lambda>r. r(''status'' \<mapsto> VText ''pending_registration'')) (t_rows tb)\<rparr>"

definition users_put :: "database \<Rightarrow> sql_table \<Rightarrow> database" where
  "users_put D tb = put_table ''users'' tb D"

lemma users_put_simps [simp]:
  "put_table ''users'' t (users_put D u) = users_put D t" "db_tables (users_put D t) ''users'' = Some t"
  "db_indexes (users_put D t) = db_indexes D" "triggers_on (users_put D t) = triggers_on D"
  by (simp_all add: users_put_def put_table_def triggers_on_def fun_eq_iff)

lemma users_version_1:
  assumes "at_version 1 D"
  obtains tb where "db_tables D ''users'' = Some tb" "t_columns tb = users_columns 1" "t_unique tb = users_unique"
    "table_fits tb" "database_ok D"
    "column_names tb = [''user_id'', ''username'', ''first_name'', ''last_name'', ''created_at'', ''updated_at'']"
proof -
  have "database_ok D" using assms by (simp add: at_version_def)
  then show ?thesis using that assms
    by (elim at_version_users) (simp_all add: column_names_def user_column_names)
qed

lemma column_names_snoc: "column_names \<lparr>t_columns = t_columns tb @ [k], t_unique = u, t_rows = rs\<rparr> = column_names tb @ [c_name k]"
  by (simp add: column_names_def)

lemma activation_names: "column_names (with_is_active tb) = column_names tb @ [''is_active'']"
  "column_names (with_pending nn df tb) = column_names tb @ [''status'']"
  by (simp_all add: with_is_active_def with_pending_def column_names_snoc)

lemma activation_added:
  assumes "database_ok D" and "db_tables D ''users'' = Some tb"
    and "''is_active'' \<notin> set (column_names tb)" "''status'' \<notin> set (column_names tb)"
  shows "exec s (AddColumnIfNotExists ''users'' is_active_def_col) D = Inr (users_put D (with_is_active tb))"
    and "exec s (AddColumnIfNotExists ''users'' (''status'', TEXT, [])) (users_put D (with_is_active tb)) =
      Inr (users_put D (with_status (with_is_active tb)))"
    and "database_ok (users_put D (with_is_active tb))" and "table_fits (with_status (with_is_active tb))"
proof -
  show e1: "exec s (AddColumnIfNotExists ''users'' is_active_def_col) D = Inr (users_put D (with_is_active tb))"
    using added_column [OF assms(1,2), of is_active_def_col s] assms(3)
    by (simp add: default_fits_def default_value_def users_put_def with_is_active_def find_column_None)
  show ok1: "database_ok (users_put D (with_is_active tb))" by (rule exec_ok [OF assms(1) e1])
  show e2: "exec s (AddColumnIfNotExists ''users'' (''status'', TEXT, [])) (users_put D (with_is_active tb)) =
      Inr (users_put D (with_status (with_is_active tb)))"
    using added_column [OF ok1, of "''users''" "with_is_active tb" "(''status'', TEXT, [])" s] assms(4)
    by (simp add: default_fits_def default_value_def with_status_def find_column_None activation_names)
  show "table_fits (with_status (with_is_active tb))"
    by (rule table_of_ok [OF exec_ok [OF ok1 e2], of "''users''"]) simp
qed

lemma pending_checked:
  assumes "table_fits (with_status tb)" and "''status'' \<notin> snd ` set (t_unique tb)"
  shows "check_table (with_pending nn df tb) = Inr (with_pending nn df tb)"
proof -
  have eq: "with_pending False None tb =
      with_status tb\<lparr>t_rows := map (\<lambda>r. r(''status'' \<mapsto> VText ''pending_registration'')) (t_rows (with_status tb))\<rparr>"
    by (simp add: with_pending_def with_status_def)
  have "check_table (with_pending False None tb) = Inr (with_pending False None tb)"
    unfolding eq
  proof (intro check_updated null_columns_upd)
    show "null_columns (with_status tb) r = []" if "r \<in> set (t_rows (with_status tb))" for r
      using assms(1) that by (simp add: table_fits_def list_all_iff)
    show "(r(''status'' \<mapsto> VText ''pending_registration'')) c = r c" if "c \<in> snd ` set (t_unique (with_status tb))" for r c
    proof -
      have "t_unique (with_status tb) = t_unique tb" by (simp add: with_status_def)
      with that assms(2) have "c \<noteq> ''status''" by metis
      then show ?thesis by simp
    qed
  qed (rule assms(1))
  then show ?thesis
    unfolding check_table_Inr by (simp add: null_columns_Nil list_all_iff apart_def [abs_def] with_pending_def)
qed

lemma statuses_set:
  assumes "table_fits (with_status tb)" and "''status'' \<notin> snd ` set (t_unique tb)"
    and "\<forall>r\<in>set (t_rows tb). r ''is_active'' = Some (VBool False)"
    and "list_ex (\<lambda>k. c_name k = ''is_active'' \<and> c_type k = BOOLEAN) (t_columns tb)"
    and "''status'' \<notin> set (column_names tb)" and "triggers_on D UPDATE ''users'' = []"
  shows "exec s (UpdateWhere ''users'' set_status (IsNull ''status'')) (users_put D (with_status tb)) =
    Inr (users_put D (with_pending False None tb))"
proof -
  have "map (\<lambda>r. if holds (IsNull ''status'') r then set_columns s set_status r else r) (t_rows (with_status tb)) =
      t_rows (with_pending False None tb)"
    using assms(3) by (auto simp: with_status_def with_pending_def set_columns_def fun_eq_iff)
  then have "with_status tb\<lparr>t_rows := map (\<lambda>r. if holds (IsNull ''status'') r then set_columns s set_status r else r)
      (t_rows (with_status tb))\<rparr> = with_pending False None tb"
    by (simp add: with_status_def with_pending_def)
  moreover have "find (\<lambda>k. c_name k = ''status'') (t_columns tb) = None"
    using assms(5) by (simp add: find_column_None [symmetric] find_column_def)
  then have "find_column (with_status tb) ''status'' = Some (status_column False None)"
    by (simp add: find_column_def with_status_def find_append)
  ultimately show ?thesis
    using pending_checked [OF assms(1,2)] assms(4,6)
    by (simp add: update_where_def with_table_def bad_sets_def check_where_def Let_def fire_none)
      (simp add: with_status_def)
qed

lemma status_altered:
  assumes "table_fits (with_status tb)" and "''status'' \<notin> snd ` set (t_unique tb)"
    and "''status'' \<notin> set (column_names tb)" and "list_all default_fits (t_columns tb)"
    and "f (status_column nn df) = status_column nn' df'" and "default_fits (status_column nn' df')"
  shows "alter_column ''users'' ''status'' f (users_put D (with_pending nn df tb)) =
    Inr (users_put D (with_pending nn' df' tb))"
proof -
  have "map (\<lambda>k. if c_name k = ''status'' then f k else k) (t_columns tb) = t_columns tb"
    using assms(3) by (intro map_idI) (metis column_names_def image_eqI list.set_map)
  then have "map (\<lambda>k. if c_name k = ''status'' then f k else k) (t_columns (with_pending nn df tb)) =
      t_columns (with_pending nn' df' tb)"
    using assms(5) by (simp add: with_pending_def)
  moreover have "list_all default_fits (t_columns (with_pending nn' df' tb))"
    using assms(4,6) by (simp add: with_pending_def)
  moreover have "with_pending nn df tb\<lparr>t_columns := t_columns (with_pending nn' df' tb)\<rparr> = with_pending nn' df' tb"
    by (simp add: with_pending_def)
  moreover have "''status'' \<in> set (column_names (with_pending nn df tb))" by (simp add: activation_names)
  ultimately show ?thesis
    using pending_checked [OF assms(1,2)] by (simp add: alter_column_def with_table_def Let_def find_column_None)
qed

lemma activated_table:
  assumes "db_tables D ''users'' = Some tb" and "t_columns tb = users_columns 1"
  shows "migrated 1 D = users_put D (with_pending True (Some (Lit (VText ''pending_registration''))) (with_is_active tb))"
  using assms
  by (simp add: migrated_def users_put_def widened_def with_pending_def with_is_active_def users_columns_def new_values_def o_def)

lemma add_user_activation_runs:
  assumes "at_version 1 D"
  shows "run_file s add_user_activation_up D = Inr (migrated 1 D)"
proof -
  from assms obtain tb where tb: "db_tables D ''users'' = Some tb" "t_columns tb = users_columns 1"
    "t_unique tb = users_unique" and ok: "table_fits tb" "database_ok D" and names:
    "column_names tb = [''user_id'', ''username'', ''first_name'', ''last_name'', ''created_at'', ''updated_at'']"
    by (rule users_version_1)
  let ?t = "with_is_active tb"
  note added = activation_added [OF ok(2) tb(1)]
  have fits: "table_fits (with_status ?t)" by (rule added(4)) (simp_all add: names)
  have uniq: "''status'' \<notin> snd ` set (t_unique ?t)" by (simp add: with_is_active_def tb(3) users_unique_def)
  have fresh: "''status'' \<notin> set (column_names ?t)" by (simp add: activation_names names)
  have defaults: "list_all default_fits (t_columns ?t)"
    by (simp add: with_is_active_def tb(2) users_columns_def default_fits_def)
  have e3: "exec s (UpdateWhere ''users'' set_status (IsNull ''status'')) (users_put D (with_status ?t)) =
      Inr (users_put D (with_pending False None ?t))"
    using fits uniq _ _ fresh no_user_triggers [OF assms]
    by (rule statuses_set) (auto simp: with_is_active_def)
  show ?thesis
    unfolding activated_table [OF tb(1,2)]
    by (simp add: run_file_def add_user_activation_up_def added names e3 del: column_of.simps exec.simps(3,7))
      (simp add: status_altered [OF fits uniq fresh defaults, where nn' = True and df' = None]
        status_altered [OF fits uniq fresh defaults, where nn' = True and df' = "Some (Lit (VText ''pending_registration''))"]
        default_fits_def)
qed

lemma add_user_activation_reverts:
  assumes "at_version 1 D"
  shows "run_file s add_user_activation_down (migrated 1 D) = Inr D"
proof -
  from assms obtain tb where tb: "db_tables D ''users'' = Some tb" "t_columns tb = users_columns 1"
    "t_unique tb = users_unique" and ok: "table_fits tb" "database_ok D" and names:
    "column_names tb = [''user_id'', ''username'', ''first_name'', ''last_name'', ''created_at'', ''updated_at'']"
    by (rule users_version_1)
  let ?t = "with_is_active tb" and ?df = "Some (Lit (VText ''pending_registration''))"
  have ok1: "database_ok (users_put D ?t)" by (rule activation_added [OF ok(2) tb(1)]) (simp_all add: names)
  obtain k j where found: "find_column (with_pending True ?df ?t) ''status'' = Some k" "find_column ?t ''is_active'' = Some j"
    by (metis activation_names find_column_None in_set_conv_decomp option.exhaust)
  have "remove_column ''status'' (with_pending True ?df ?t) = ?t"
    using removed_column [OF table_of_ok [OF ok1, of "''users''" ?t], of "''status''" "status_column True ?df"
        "\<lambda>r. Some (VText ''pending_registration'')"]
    by (simp add: with_pending_def activation_names names)
  then have d1: "exec s (DropColumnIfExists ''users'' ''status'') (users_put D (with_pending True ?df ?t)) = Inr (users_put D ?t)"
    using unindexed_column [OF ok1, of "''users''" ?t "''status''"] found
    by (simp add: drop_column_def with_table_def activation_names names)
      (simp add: users_put_def put_table_def)
  have "remove_column ''is_active'' ?t = tb"
    using removed_column [OF ok(1), of "''is_active''" "column_of is_active_def_col" "\<lambda>r. Some (VBool False)"]
    by (simp add: with_is_active_def names)
  then have d2: "exec s (DropColumnIfExists ''users'' ''is_active'') (users_put D ?t) = Inr D"
    using unindexed_column [OF ok(2) tb(1), of "''is_active''"] put_same [OF tb(1)] found
    by (simp add: drop_column_def with_table_def names) (simp add: users_put_def put_table_def)
  show ?thesis
    by (simp only: run_file_def add_user_activation_down_def activated_table [OF tb(1,2)]
        each_in_turn.simps d1 d2 sql_bind_simps)
qed

end
