(* ===== verification/Upgrades.thy ===== *)
theory Upgrades
  imports Migrations
begin

text \<open>
  Runs of the migration files of \<open>Migrations\<close>: every file on a database at its version, forwards,
  backwards and a second time, and all files that follow a version one after the other.
\<close>

section \<open>All files\<close>

lemma version_cases:
  assumes "n < (7::nat)"
  obtains "n = 0" | "n = 1" | "n = 2" | "n = 3" | "n = 4" | "n = 5" | "n = 6"
  using assms by (auto simp: less_Suc_eq numeral_eq_Suc)

lemma single_statement: "run_file s [q] D = exec s q D"
  by (cases "exec s q D") (simp_all add: run_file_def)

lemma files_at:
  "up_files ! 0 = create_users_up" "up_files ! 1 = add_user_activation_up" "up_files ! 2 = add_user_avatar_id_up"
  "up_files ! 3 = add_user_about_up" "up_files ! 4 = create_outbox_events_up"
  "up_files ! 5 = create_processed_events_up" "up_files ! 6 = processed_event_id_text_up"
  "down_files ! 0 = create_users_down" "down_files ! 1 = add_user_activation_down"
  "down_files ! 2 = add_user_avatar_id_down" "down_files ! 3 = add_user_about_down"
  "down_files ! 4 = create_outbox_events_down" "down_files ! 5 = create_processed_events_down"
  "down_files ! 6 = processed_event_id_text_down"
  by (simp_all add: up_files_def down_files_def)

lemma up_file_runs:
  assumes "at_version n D" and "n < 7"
  shows "run_file s (up_files ! n) D = Inr (migrated n D)"
  using assms(2)
proof (cases rule: version_cases)
  case 7
  then show ?thesis unfolding 7 files_at
    by (simp add: processed_event_id_text_up_def single_statement migrated_def)
qed (use assms(1) users_column_added [of n D "''avatar_id''"] users_column_added [of n D "''about''"] in
  \<open>simp_all only: files_at create_users_runs add_user_activation_runs create_outbox_events_runs
     create_processed_events_runs add_user_avatar_id_up_def add_user_about_up_def single_statement simp_thms numeral_eq_iff\<close>)

lemma down_file_undoes:
  assumes "at_version n D" and "n < 7"
  shows "run_file s (down_files ! n) (migrated n D) = Inr D"
  using assms(2)
proof (cases rule: version_cases)
  case 7
  then show ?thesis unfolding 7 files_at
    by (simp add: processed_event_id_text_down_def single_statement migrated_def)
qed (use assms(1) users_column_added [of n D "''avatar_id''"] users_column_added [of n D "''about''"] in
  \<open>simp_all only: files_at create_users_reverts add_user_activation_reverts create_outbox_events_runs
     create_processed_events_runs add_user_avatar_id_down_def add_user_about_down_def single_statement simp_thms numeral_eq_iff\<close>)

lemma late_columns: "users_columns 5 = users_columns 4" "users_columns 6 = users_columns 4" "users_columns 7 = users_columns 4"
  by (simp_all add: users_columns_def)

lemma migrated_version:
  assumes "at_version n D" and "n < 7"
  shows "at_version (Suc n) (migrated n D)"
proof -
  have ok: "database_ok (migrated n D)"
    using up_file_runs [OF assms] assms(1) by (auto simp: at_version_def intro: run_file_ok)
  from assms(2) show ?thesis
    using assms(1) ok
    by (cases rule: version_cases)
      (auto simp: at_version_def migrated_def shape_def put_table_def widened_def service_tables_def
        users_outbox_def late_columns split: option.splits)
qed

text \<open>Statements that find their work done leave the database as it is.\<close>

lemma column_there:
  assumes "db_tables D t = Some tb" and "find_column tb (fst d) = Some k"
  shows "exec s (AddColumnIfNotExists t d) D = Inr D"
  using assms by (simp add: add_column_def with_table_def)

lemma no_row_updated:
  assumes "db_tables D t = Some tb" and "table_fits tb" and "bad_sets tb sets @ check_where tb c = []"
    and "list_all (\<lambda>r. \<not> holds c r) (t_rows tb)"
  shows "exec s (UpdateWhere t sets c) D = Inr D"
proof -
  have "filter (holds c) (t_rows tb) = []" using assms(4) by (simp add: list_all_iff filter_empty_conv)
  moreover have "map (\<lambda>r. if holds c r then set_columns s sets r else r) (t_rows tb) = t_rows tb"
    using assms(4) by (intro map_idI) (simp add: list_all_iff)
  ultimately show ?thesis
    using assms check_fits [OF assms(2)] put_same [OF assms(1)]
    by (simp add: update_where_def with_table_def Let_def fire_def)
qed

lemma column_as_altered:
  assumes "db_tables D t = Some tb" and "table_fits tb" and "find_column tb c = Some k"
    and "\<And>k. k \<in> set (t_columns tb) \<Longrightarrow> c_name k = c \<Longrightarrow> f k = k"
  shows "alter_column t c f D = Inr D"
proof -
  have same: "map (\<lambda>k. if c_name k = c then f k else k) (t_columns tb) = t_columns tb"
    using assms(4) by (intro map_idI) simp
  have "list_all default_fits (t_columns tb)" using assms(2) by (simp add: table_fits_def)
  with same show ?thesis
    using assms(1,3) check_fits [OF assms(2)] put_same [OF assms(1)]
    by (simp add: alter_column_def with_table_def)
qed

lemma add_user_activation_again:
  assumes "at_version 2 D"
  shows "run_file s add_user_activation_up D = Inr D"
proof -
  let ?df = "Some (Lit (VText ''pending_registration''))"
  from assms obtain tb where tb: "db_tables D ''users'' = Some tb" "t_columns tb = users_columns 2" and fits: "table_fits tb"
    by (elim at_version_users) auto
  have cols: "t_columns tb = users_columns 1 @ [column_of is_active_def_col, status_column True ?df]"
    by (simp add: tb(2) users_columns_def)
  have found: "find_column tb ''is_active'' = Some (column_of is_active_def_col)" "find_column tb ''status'' = Some (status_column True ?df)"
    by (simp_all add: find_column_def cols users_columns_def)
  have "null_columns tb r = [] \<Longrightarrow> r ''status'' \<noteq> None" for r by (simp add: null_columns_Nil cols)
  then have "list_all (\<lambda>r. \<not> holds (IsNull ''status'') r) (t_rows tb)"
    using fits by (simp add: table_fits_def list_all_iff)
  then have upd: "exec s (UpdateWhere ''users'' set_status (IsNull ''status'')) D = Inr D"
    by (intro no_row_updated [OF tb(1) fits])
      (simp_all add: bad_sets_def check_where_def found, simp add: cols)
  have "alter_column ''users'' ''status'' f D = Inr D" if "f (status_column True ?df) = status_column True ?df" for f
    using that by (intro column_as_altered [OF tb(1) fits found(2)]) (auto simp: cols users_columns_def)
  then show ?thesis
    using column_there [OF tb(1), of is_active_def_col] column_there [OF tb(1), of "(''status'', TEXT, [])"] found
    by (simp add: run_file_def add_user_activation_up_def upd del: exec.simps(3,7) column_of.simps)
qed

lemma users_column_there:
  assumes "at_version (Suc n) D" and n: "n = 2 \<and> c = ''avatar_id'' \<or> n = 3 \<and> c = ''about''"
  shows "exec s (AddColumnIfNotExists ''users'' (c, ty, cs)) D = Inr D"
proof -
  from assms(1) obtain tb where tb: "db_tables D ''users'' = Some tb" "t_columns tb = users_columns (Suc n)"
    by (elim at_version_users) auto
  then have "c \<in> set (column_names tb)" using n by (auto simp: column_names_def user_column_names)
  then obtain k where "find_column tb c = Some k" by (metis find_column_None option.exhaust)
  then show ?thesis by (intro column_there [OF tb(1)]) simp
qed

lemma create_outbox_events_again:
  assumes "at_version 4 D"
  shows "run_file s create_outbox_events_up (migrated 4 D) = Inr (migrated 4 D)"
proof -
  let ?D = "migrated 4 D"
  have at: "at_version 5 ?D" using migrated_version [OF assms] by simp
  have "filter (\<lambda>g. \<not> (tg_table g = ''users'' \<and> tg_name g = ''users_outbox'')) (db_triggers D) = db_triggers D"
    using assms by (auto simp: at_version_def filter_id_conv filter_empty_conv service_tables_def)
  then have trg: "filter (\<lambda>g. \<not> (tg_table g = ''users'' \<and> tg_name g = ''users_outbox'')) (db_triggers ?D) @ [users_outbox] =
      db_triggers ?D" "db_triggers ?D = db_triggers D @ [users_outbox]"
    "\<not> list_ex (\<lambda>g. tg_table g = ''users'' \<and> tg_name g = ''users_outbox'') (db_triggers D)"
    by (simp_all add: migrated_def put_table_def users_outbox_def filter_id_conv list_ex_iff)
  obtain tb u where "db_tables ?D ''outbox_events'' = Some tb" "t_columns tb = map column_of outbox_events_columns"
    "db_tables ?D ''users'' = Some u" "db_functions ?D ''capture_user_outbox_event'' = Some capture_user_outbox_event_body"
    "db_indexes ?D ''idx_outbox_events_aggregate'' = Some (''outbox_events'', [''aggregate_type'', ''aggregate_id'', ''created_at''])"
    using at by (auto simp: at_version_def shape_def)
  with trg show ?thesis
    by (simp add: run_file_def create_outbox_events_up_def create_table_def create_index_def with_table_def
        create_trigger_def find_column_def users_outbox_def outbox_events_columns_def fun_upd_idem)
qed

lemma up_file_again:
  assumes "at_version n D" and "n < 7"
  shows "run_file s (up_files ! n) (migrated n D) = Inr (migrated n D)"
proof -
  let ?D = "migrated n D"
  have at: "at_version (Suc n) ?D" by (rule migrated_version [OF assms])
  from assms(2) show ?thesis
  proof (cases rule: version_cases)
    case 1
    with at obtain tb where "db_tables ?D ''users'' = Some tb" "t_columns tb = users_columns 1"
      by (elim at_version_users) auto
    with at show ?thesis unfolding 1 files_at
      by (simp add: run_file_def create_users_up_def create_table_def create_index_def with_table_def find_column_def
          users_columns_def at_version_def)
  next
    case 2
    with at add_user_activation_again show ?thesis by (simp add: files_at(2) [unfolded One_nat_def] numeral_2_eq_2)
  next
    case 3
    with at show ?thesis unfolding 3 files_at
      by (simp add: add_user_avatar_id_up_def single_statement users_column_there [of 2] del: exec.simps)
  next
    case 4
    with at show ?thesis unfolding 4 files_at
      by (simp add: add_user_about_up_def single_statement users_column_there [of 3] del: exec.simps)
  next
    case 5
    with assms(1) create_outbox_events_again show ?thesis by (simp add: files_at)
  next
    case 6
    with at show ?thesis unfolding 6 files_at
      by (auto simp: create_processed_events_up_def single_statement create_table_def at_version_def shape_def)
  next
    case 7
    then show ?thesis unfolding 7 files_at by (simp add: processed_event_id_text_up_def single_statement)
  qed
qed

section \<open>Bringing a database to the last version\<close>

definition user_rows :: "database \<Rightarrow> sql_row list" where
  "user_rows D = (case db_tables D ''users'' of None \<Rightarrow> [] | Some tb \<Rightarrow> t_rows tb)"

text \<open>What the migrations after version n add to a user who was there.\<close>

definition upgraded :: "nat \<Rightarrow> sql_row \<Rightarrow> sql_row" where
  "upgraded n r = r ++
    (if n \<le> 1 then [''is_active'' \<mapsto> VBool False, ''status'' \<mapsto> VText ''pending_registration'',
       ''avatar_id'' \<mapsto> VText [], ''about'' \<mapsto> VText []]
     else if n = 2 then [''avatar_id'' \<mapsto> VText [], ''about'' \<mapsto> VText []]
     else if n = 3 then [''about'' \<mapsto> VText []] else Map.empty)"

lemma migrated_user_rows:
  "at_version n D \<Longrightarrow> user_rows (migrated n D) = map (\<lambda>r. r ++ new_values n) (user_rows D)"
  by (auto simp: user_rows_def migrated_def put_table_def widened_def new_values_def at_version_def shape_def
      split: option.splits)

lemma upgraded_step: "n < 7 \<Longrightarrow> 1 \<le> n \<Longrightarrow> upgraded (Suc n) (r ++ new_values n) = upgraded n r"
  by (erule version_cases) (simp_all add: upgraded_def new_values_def)

lemma upgrade_from:
  assumes "at_version n D" and "n \<le> 7"
  shows "\<exists>D'. run_file s (concat (drop n up_files)) D = Inr D' \<and> at_version 7 D' \<and>
    user_rows D' = map (upgraded n) (user_rows D)"
  using assms(2,1)
proof (induction n arbitrary: D rule: inc_induct)
  case base
  then show ?case by (simp add: up_files_def run_file_def upgraded_def [abs_def])
next
  case (step n)
  have "n < length up_files" using step.hyps by (simp add: up_files_def)
  then have files: "concat (drop n up_files) = up_files ! n @ concat (drop (Suc n) up_files)"
    by (simp add: Cons_nth_drop_Suc [symmetric])
  have runs: "run_file s (up_files ! n) D = Inr (migrated n D)"
    using up_file_runs step.prems step.hyps by simp
  obtain D' where D': "run_file s (concat (drop (Suc n) up_files)) (migrated n D) = Inr D'" "at_version 7 D'"
    "user_rows D' = map (upgraded (Suc n)) (user_rows (migrated n D))"
    using step.IH migrated_version [OF step.prems] step.hyps by blast
  have "map (upgraded (Suc n)) (user_rows (migrated n D)) = map (upgraded n) (user_rows D)"
  proof (cases "n = 0")
    case True
    then have "user_rows D = []" using step.prems by (simp add: at_version_def shape_def user_rows_def)
    then show ?thesis by (simp add: migrated_user_rows [OF step.prems])
  next
    case False
    then show ?thesis using step.hyps by (simp add: migrated_user_rows [OF step.prems] upgraded_step)
  qed
  with D' runs show ?case by (auto simp: files run_file_def each_in_turn_append)
qed

text \<open>
  C18. A database at any version of the schema is brought to the last one by the files that
  follow, none of them failing, and its users are all still there: they keep every column they had
  and the columns they lacked have the values the migrations give them.
\<close>

theorem migrations_bring_every_version_up:
  assumes "at_version n D" and "n \<le> 7"
  shows "\<exists>D'. run_file s (concat (drop n up_files)) D = Inr D' \<and> at_version 7 D' \<and>
    user_rows D' = map (upgraded n) (user_rows D)"
  by (rule upgrade_from [OF assms])

text \<open>
  C31. Each down file takes a database that its up file has just migrated back to exactly what it
  was.
\<close>

theorem down_migration_undoes_up:
  assumes "at_version n D" and "n < 7"
  shows "\<exists>D'. run_file s (up_files ! n) D = Inr D' \<and> run_file s' (down_files ! n) D' = Inr D"
  using up_file_runs [OF assms] down_file_undoes [OF assms] by blast

text \<open>
  C32. A file that is applied once more, because the run that applied it did not live to record
  it, leaves the database as the first run made it.
\<close>

theorem interrupted_migration_reruns:
  assumes "at_version n D" and "n < 7" and "run_file s (up_files ! n) D = Inr D'"
  shows "run_file s' (up_files ! n) D' = Inr D'"
  using assms up_file_runs [OF assms(1,2)] up_file_again [OF assms(1,2)] by simp

section \<open>A database with a user\<close>

definition sample_session :: session where
  "sample_session = \<lparr>ss_now = 100, ss_random = (\<lambda>n. ''e'' @ replicate n CHR ''0''), ss_text = (\<lambda>_. []), ss_depth = 3\<rparr>"

definition sample_user_row :: sql_row where
  "sample_user_row = [''user_id'' \<mapsto> VUuid ''u1'', ''username'' \<mapsto> VText ''ann'', ''first_name'' \<mapsto> VText ''Ann'',
     ''last_name'' \<mapsto> VText ''Lee'', ''created_at'' \<mapsto> VTime 5, ''updated_at'' \<mapsto> VTime 5]"

definition sample_database :: database where
  "sample_database = put_table ''users'' \<lparr>t_columns = users_columns 1, t_unique = users_unique, t_rows = [sample_user_row]\<rparr>
     (migrated 0 empty_database)"

lemma empty_version: "at_version 0 empty_database"
  by (simp add: at_version_def empty_database_def database_ok_def tables_fit_def indexes_fit_def triggers_fit_def shape_def)

lemma sample_version: "at_version 1 sample_database"
proof -
  let ?tb = "\<lparr>t_columns = users_columns 1, t_unique = users_unique, t_rows = [sample_user_row]\<rparr>"
  have at: "at_version 1 (migrated 0 empty_database)" using migrated_version [OF empty_version] by simp
  have tb: "db_tables (migrated 0 empty_database) ''users'' =
      Some \<lparr>t_columns = users_columns 1, t_unique = users_unique, t_rows = []\<rparr>"
    by (simp add: migrated_def put_table_def)
  have "table_fits \<lparr>t_columns = users_columns 1, t_unique = users_unique, t_rows = []\<rparr>"
    using at tb by (auto simp: at_version_def dest: table_of_ok)
  moreover have "typed ?tb sample_user_row"
    by (auto simp: typed_def sample_user_row_def find_column_def users_columns_def split: if_splits)
  moreover have "null_columns ?tb sample_user_row = []"
    by (simp add: null_columns_Nil users_columns_def sample_user_row_def)
  ultimately have "table_fits ?tb" by (simp add: table_fits_def column_names_def)
  then have "database_ok sample_database"
    unfolding sample_database_def using at
    by (intro put_table_ok [OF _ _ tb]) (simp_all add: at_version_def column_names_def)
  with at show ?thesis by (simp add: at_version_def sample_database_def shape_def put_table_def)
qed

lemma migrations_bring_every_version_up_witness:
  "\<exists>D'. run_file sample_session (concat (drop 1 up_files)) sample_database = Inr D' \<and>
    user_rows D' = [[''user_id'' \<mapsto> VUuid ''u1'', ''username'' \<mapsto> VText ''ann'', ''first_name'' \<mapsto> VText ''Ann'',
     ''last_name'' \<mapsto> VText ''Lee'', ''created_at'' \<mapsto> VTime 5, ''updated_at'' \<mapsto> VTime 5, ''is_active'' \<mapsto> VBool False,
     ''status'' \<mapsto> VText ''pending_registration'', ''avatar_id'' \<mapsto> VText [], ''about'' \<mapsto> VText []]]"
  using migrations_bring_every_version_up [OF sample_version, of sample_session]
  by (auto simp: user_rows_def sample_database_def put_table_def upgraded_def sample_user_row_def)

lemma down_migration_undoes_up_witness:
  "\<exists>D'. run_file sample_session add_user_activation_up sample_database = Inr D' \<and>
    run_file sample_session add_user_activation_down D' = Inr sample_database"
  using down_migration_undoes_up [OF sample_version, of sample_session sample_session] unfolding files_at by simp

lemma interrupted_migration_reruns_witness:
  "run_file sample_session add_user_activation_up (migrated 1 sample_database) = Inr (migrated 1 sample_database)"
  using interrupted_migration_reruns [OF sample_version _ up_file_runs [where s = sample_session, OF sample_version],
      where s' = sample_session]
  unfolding files_at by simp

end
