(* ===== verification/SchemaQueries.thy ===== *)
theory SchemaQueries
  imports Upgrades Samples
begin

text \<open>
  The statements of query.go on the migrated schema. \<open>WriteRepo\<close> gives them on a list of user rows and a
  list of outbox events; here they are the INSERT, UPDATE, DELETE and SELECT statements of \<open>Sql\<close>, run on a
  database the migrations have made, whose constraints, defaults and trigger do the rest. \<open>holds_world D w\<close>
  relates the two, and every statement is shown to do to the database what \<open>WriteRepo\<close> says it
  does to the world.

  The identifiers of outbox events are hashes of the clock and a random number; \<open>new_ids\<close> says that
  those to come differ from each other and from those in the table.
\<close>

declare insert_at.simps [simp del]

section \<open>Statements\<close>

definition create_user_statement :: "session \<Rightarrow> string \<Rightarrow> create_user_params \<Rightarrow> database
    \<Rightarrow> sql_error + sql_row \<times> database" where
  "create_user_statement s uid p = insert_into s ''users''
     [(''user_id'', Some (VUuid uid)), (''username'', Some (VText (p_Username p))),
      (''first_name'', Some (VText (p_FirstName p))), (''last_name'', Some (VText (p_LastName p))),
      (''avatar_id'', Some (VText (p_AvatarID p))), (''about'', Some (VText [])),
      (''status'', Some (VText ''pending_registration''))]"

definition activate_user_statement :: "session \<Rightarrow> string \<Rightarrow> database \<Rightarrow> sql_error + sql_row list \<times> database" where
  "activate_user_statement s uid = update_where s ''users''
     [(''is_active'', Lit (VBool True)), (''status'', Lit (VText ''active'')), (''updated_at'', NOW)]
     (Eq ''user_id'' (VUuid uid))"

definition deactivate_user_statement :: "session \<Rightarrow> string \<Rightarrow> database \<Rightarrow> sql_error + sql_row list \<times> database" where
  "deactivate_user_statement s uid = update_where s ''users''
     [(''is_active'', Lit (VBool False)), (''status'', Lit (VText ''registration_failed'')), (''updated_at'', NOW)]
     (Eq ''user_id'' (VUuid uid))"

definition delete_user_statement :: "session \<Rightarrow> string \<Rightarrow> database \<Rightarrow> sql_error + sql_row list \<times> database" where
  "delete_user_statement s uid = delete_where s ''users'' (Eq ''user_id'' (VUuid uid))"

definition user_by_id_statement :: "string \<Rightarrow> database \<Rightarrow> sql_error + sql_row list" where
  "user_by_id_statement uid = select_where ''users'' (Eq ''user_id'' (VUuid uid))"

definition user_by_username_statement :: "string \<Rightarrow> database \<Rightarrow> sql_error + sql_row list" where
  "user_by_username_statement username = select_where ''users'' (Eq ''username'' (VText username))"

section \<open>Rows and events in the tables\<close>

definition stored_user :: "user_row \<Rightarrow> sql_row" where
  "stored_user r =
    [''user_id'' \<mapsto> VUuid (row_ID r), ''username'' \<mapsto> VText (row_Username r),
     ''first_name'' \<mapsto> VText (row_FirstName r), ''last_name'' \<mapsto> VText (row_LastName r),
     ''created_at'' \<mapsto> VTime (row_CreatedAt r), ''updated_at'' \<mapsto> VTime (row_UpdatedAt r),
     ''is_active'' \<mapsto> VBool (row_IsActive r), ''status'' \<mapsto> VText (row_Status r),
     ''avatar_id'' \<mapsto> VText (row_AvatarID r), ''about'' \<mapsto> VText (row_About r)]"

definition user_record :: "user_row \<Rightarrow> row_record" where
  "user_record r = map (\<lambda>n. (n, stored_user r n)) (map c_name (users_columns 7))"

definition stored_event :: "outbox_event \<Rightarrow> sql_row" where
  "stored_event e =
    [''aggregate_type'' \<mapsto> VText (ob_aggregate_type e), ''aggregate_id'' \<mapsto> VText (ob_aggregate_id e),
     ''event_type'' \<mapsto> VText (ob_event_type e), ''operation'' \<mapsto> VText (ob_operation e),
     ''schema_version'' \<mapsto> VInt (ob_schema_version e), ''payload'' \<mapsto> VJson (user_record (ob_payload e)),
     ''occurred_at'' \<mapsto> VTime (ob_occurred_at e), ''created_at'' \<mapsto> VTime (ob_occurred_at e)]"

definition outbox_rows :: "database \<Rightarrow> sql_row list" where
  "outbox_rows D = (case db_tables D ''outbox_events'' of None \<Rightarrow> [] | Some tb \<Rightarrow> t_rows tb)"

text \<open>The events in the table, without their random identifiers.\<close>

definition outbox_view :: "database \<Rightarrow> sql_row list" where
  "outbox_view D = map (\<lambda>r. r(''event_id'' := None)) (outbox_rows D)"

definition holds_world :: "database \<Rightarrow> world \<Rightarrow> bool" where
  "holds_world D w \<longleftrightarrow> at_version 7 D \<and> user_rows D = map stored_user (w_users w) \<and>
     outbox_view D = map stored_event (w_outbox w)"

definition new_ids :: "session \<Rightarrow> database \<Rightarrow> bool" where
  "new_ids s D \<longleftrightarrow> inj_on (ss_random s) {db_draws D..} \<and>
     (\<forall>i\<ge>db_draws D. \<forall>r\<in>set (outbox_rows D). r ''event_id'' \<noteq> Some (VUuid (ss_random s i)))"

section \<open>The trigger\<close>

definition recorded :: "session \<Rightarrow> trigger_op \<Rightarrow> user_row \<Rightarrow> outbox_event" where
  "recorded s op r = capture_user_outbox_event (operation_value op) r (ss_now s)"

definition add_event :: "session \<Rightarrow> trigger_op \<Rightarrow> user_row \<Rightarrow> database \<Rightarrow> database" where
  "add_event s op r D = (case db_tables D ''outbox_events'' of None \<Rightarrow> D | Some tb \<Rightarrow>
     put_table ''outbox_events'' (tb\<lparr>t_rows := t_rows tb @
       [(stored_event (recorded s op r))(''event_id'' \<mapsto> VUuid (ss_random s (db_draws D)))]\<rparr>)
       (D\<lparr>db_draws := Suc (db_draws D)\<rparr>))"

lemma version_7_tables:
  assumes "at_version 7 D"
  obtains tb ot where "db_tables D ''users'' = Some tb" "t_columns tb = users_columns 4" "t_unique tb = users_unique"
    "table_fits tb" "user_rows D = t_rows tb" "db_tables D ''outbox_events'' = Some ot"
    "t_columns ot = map column_of outbox_events_columns" "t_unique ot = [(''outbox_events_pkey'', ''event_id'')]"
    "outbox_rows D = t_rows ot"
  using assms by (auto simp: at_version_def shape_def late_columns user_rows_def outbox_rows_def dest: table_of_ok)

lemma filter_singleton_within:
  assumes "filter P xs = [x]" and "\<And>y. Q y \<Longrightarrow> P y"
  shows "filter Q xs = (if Q x then [x] else [])"
proof -
  have "filter Q xs = filter Q (filter P xs)" using assms(2) by (auto intro!: filter_cong)
  then show ?thesis by (simp add: assms(1))
qed

lemma triggers_at_7:
  assumes "at_version 7 D"
  shows "triggers_on D op ''users'' = [users_outbox]" and "triggers_on D op ''outbox_events'' = []"
proof -
  have one: "filter (\<lambda>g. tg_table g \<in> set service_tables \<or> tg_function g = ''capture_user_outbox_event'')
      (db_triggers D) = [users_outbox]" using assms by (simp add: at_version_def)
  show "triggers_on D op ''users'' = [users_outbox]"
    unfolding triggers_on_def
    by (subst filter_singleton_within [OF one]) (auto simp: service_tables_def users_outbox_def intro: trigger_op.exhaust)
  show "triggers_on D op ''outbox_events'' = []"
    unfolding triggers_on_def
    by (subst filter_singleton_within [OF one]) (auto simp: service_tables_def users_outbox_def)
qed

lemma record_of_user:
  assumes "t_columns tb = users_columns 4" shows "record_of tb (stored_user r) = user_record r"
  using assms by (simp add: record_of_def user_record_def column_names_def late_columns)

lemma user_id_recorded: "map_of (user_record r) ''user_id'' = Some (Some (VUuid (row_ID r)))"
  by (simp add: user_record_def users_columns_def stored_user_def)

lemma captured:
  assumes "at_version 7 D" and "new_ids s D" and "(if op = DELETE then old else new) = user_record r"
  shows "run_trigger (insert_at (Suc d) s) s op (old, new) users_outbox D = Inr (add_event s op r D)"
proof -
  obtain ot where ot: "db_tables D ''outbox_events'' = Some ot"
    "t_columns ot = map column_of outbox_events_columns" "t_unique ot = [(''outbox_events_pkey'', ''event_id'')]"
    "outbox_rows D = t_rows ot" using assms(1) by (rule version_7_tables)
  let ?id = "ss_random s (db_draws D)" and ?e = "recorded s op r"
  define given where "given = snd (capture_user_outbox_event_body s op old new ?id)"
  have given: "capture_user_outbox_event_body s op old new ?id = (''outbox_events'', given)"
    "given = [(''event_id'', Some (VUuid ?id)), (''aggregate_type'', Some (VText ''user'')),
       (''aggregate_id'', Some (VText (row_ID r))), (''event_type'', Some (VText (''user.profile.'' @ operation_value op))),
       (''operation'', Some (VText (operation_value op))), (''payload'', Some (VJson (user_record r)))]"
    using assms(3) by (simp_all add: given_def capture_user_outbox_event_body_def json_field_def user_id_recorded Let_def)
  have fits: "misfits ot given = []"
    by (simp add: misfits_def given(2) find_column_def ot(2) outbox_events_columns_def)
  have row: "full_row s ot given = (stored_event ?e)(''event_id'' \<mapsto> VUuid ?id)"
    by (rule ext) (simp add: full_row_def given(2) find_column_def ot(2) outbox_events_columns_def stored_event_def
        recorded_def capture_user_outbox_event_def default_value_def)
  have "null_columns ot ((stored_event ?e)(''event_id'' \<mapsto> VUuid ?id)) = []"
    by (simp add: null_columns_Nil ot(2) outbox_events_columns_def stored_event_def)
  moreover have "list_all (\<lambda>v. apart ot v ((stored_event ?e)(''event_id'' \<mapsto> VUuid ?id))) (t_rows ot)"
    using assms(2) by (auto simp: apart_def ot(3) new_ids_def ot(4) list_all_iff)
  ultimately have add: "add_row (full_row s ot given) ot =
      Inr (ot\<lparr>t_rows := t_rows ot @ [(stored_event ?e)(''event_id'' \<mapsto> VUuid ?id)]\<rparr>)"
    by (simp add: row add_row_Inr)
  have "triggers_on (add_event s op r D) INSERT ''outbox_events'' = []"
    using triggers_at_7 [OF assms(1)] ot(1) by (simp add: add_event_def triggers_on_def put_table_def)
  then have "insert_at (Suc d) s ''outbox_events'' given (D\<lparr>db_draws := Suc (db_draws D)\<rparr>) =
      Inr (full_row s ot given, add_event s op r D)"
    using ot(1) by (simp add: insert_at.simps with_table_def fits add Let_def add_event_def fire_none)
  then show ?thesis
    using assms(1) given(1) by (simp add: run_trigger_def at_version_def users_outbox_def)
qed

lemma add_event_keeps:
  assumes "at_version 7 D" and "new_ids s D"
  shows "at_version 7 (add_event s op r D)" and "new_ids s (add_event s op r D)"
    and "user_rows (add_event s op r D) = user_rows D"
    and "outbox_view (add_event s op r D) =
      outbox_view D @ [stored_event (recorded s op r)]"
proof -
  let ?D = "add_event s op r D"
  obtain ot where ot: "db_tables D ''outbox_events'' = Some ot" "outbox_rows D = t_rows ot"
    using assms(1) by (rule version_7_tables)
  have "fire (insert_at 1 s) s op ''users'' [(user_record r, user_record r)] D = Inr ?D"
    using captured [OF assms, of op "user_record r" "user_record r" r 0]
    by (simp add: fire_def triggers_at_7 [OF assms(1)])
  moreover have "database_ok D" using assms(1) by (simp add: at_version_def)
  ultimately have "database_ok ?D"
    by (rule fire_keeps [where P = database_ok, rotated 2]) (erule (1) insert_at_ok, simp)
  then show "at_version 7 ?D"
    using assms(1) ot by (simp add: at_version_def add_event_def shape_def put_table_def)
  show "new_ids s ?D"
  proof -
    have "inj_on (ss_random s) {Suc (db_draws D)..}" using assms(2) by (auto simp: new_ids_def inj_on_def)
    moreover have "ss_random s (db_draws D) \<noteq> ss_random s i" if "i \<ge> Suc (db_draws D)" for i
      using assms(2) that inj_onD [of "ss_random s" "{db_draws D..}" "db_draws D" i] by (auto simp: new_ids_def)
    ultimately show ?thesis using assms(2) ot by (auto simp: new_ids_def add_event_def put_table_def outbox_rows_def)
  qed
  show "user_rows ?D = user_rows D" using ot by (simp add: user_rows_def add_event_def put_table_def)
  have "(stored_event e)(''event_id'' := None) = stored_event e" for e
    by (simp add: stored_event_def fun_eq_iff)
  then show "outbox_view ?D =
      outbox_view D @ [stored_event (recorded s op r)]"
    using ot by (simp add: outbox_view_def outbox_rows_def add_event_def put_table_def)
qed

text \<open>A statement that has changed users records one event for each.\<close>

lemma fired:
  assumes "at_version 7 D" and "new_ids s D"
    and "list_all2 (\<lambda>c r. (if op = DELETE then fst c else snd c) = user_record r) changes hit"
  shows "\<exists>D'. fire (insert_at (Suc d) s) s op ''users'' changes D = Inr D' \<and> at_version 7 D' \<and>
    user_rows D' = user_rows D \<and> new_ids s D' \<and> outbox_view D' =
      outbox_view D @ map (\<lambda>r. stored_event (recorded s op r)) hit"
  using assms(3,1,2)
proof (induction arbitrary: D rule: list_all2_induct)
  case Nil
  then show ?case by (simp add: fire_def)
next
  case (Cons c changes r hit)
  let ?D = "add_event s op r D"
  note keeps = add_event_keeps [OF Cons.prems, of op r]
  have "run_trigger (insert_at (Suc d) s) s op c users_outbox D = Inr ?D"
    using captured [OF Cons.prems, of op "fst c" "snd c" r d] Cons.hyps(1) by simp
  then have "fire (insert_at (Suc d) s) s op ''users'' (c # changes) D = fire (insert_at (Suc d) s) s op ''users'' changes ?D"
    by (simp add: fire_def triggers_at_7 [OF Cons.prems(1)] triggers_at_7 [OF keeps(1)])
  then show ?case using Cons.IH [OF keeps(1,2)] keeps(3,4) by auto
qed

text \<open>The events of a statement on users, once its rows are in the table.\<close>

lemma statement_recorded:
  assumes "holds_world D w" and "new_ids s D" and "db_tables D ''users'' = Some tb"
    and "table_fits (tb\<lparr>t_rows := map stored_user us\<rparr>)"
    and "list_all2 (\<lambda>c r. (if op = DELETE then fst c else snd c) = user_record r) changes hit"
    and "w_users w' = us" and "w_outbox w' = w_outbox w @ map (recorded s op) hit"
  shows "\<exists>D'. fire (insert_at (Suc d) s) s op ''users'' changes (put_table ''users'' (tb\<lparr>t_rows := map stored_user us\<rparr>) D) =
    Inr D' \<and> holds_world D' w' \<and> new_ids s D'"
proof -
  let ?D = "put_table ''users'' (tb\<lparr>t_rows := map stored_user us\<rparr>) D"
  have at: "at_version 7 D" using assms(1) by (simp add: holds_world_def)
  then have "database_ok ?D"
    using assms(3,4) by (intro put_table_ok) (auto simp: at_version_def)
  then have "at_version 7 ?D" using at assms(3) by (simp add: at_version_def shape_def put_table_def)
  moreover have "outbox_view ?D = outbox_view D" by (simp add: outbox_view_def outbox_rows_def put_table_def)
  moreover have "user_rows ?D = map stored_user us" by (simp add: user_rows_def put_table_def)
  moreover have "new_ids s ?D" using assms(2) by (simp add: new_ids_def outbox_rows_def put_table_def)
  ultimately show ?thesis
    using fired [of ?D s op changes hit d] assms(1,5-7) by (auto simp: holds_world_def)
qed

section \<open>The statements do what the write model says\<close>

lemma stores_users:
  assumes "holds_world D w"
  obtains tb where "db_tables D ''users'' = Some tb" "t_columns tb = users_columns 4" "t_unique tb = users_unique"
    "table_fits tb" "t_rows tb = map stored_user (w_users w)"
  using assms by (auto simp: holds_world_def elim!: version_7_tables)

lemma stored_user_keys [simp]:
  "stored_user r ''user_id'' = Some (VUuid (row_ID r))" "stored_user r ''username'' = Some (VText (row_Username r))"
  by (simp_all add: stored_user_def)

lemma insert_on_schema:
  assumes "holds_world D w" and "e_uuid E (p_ID p) = Some uid"
    and "list_all (e_text_ok E) [p_Username p, p_FirstName p, p_LastName p, p_AvatarID p]"
    and "ss_now s = e_clock E (w_calls w)" and "new_ids s D" and "2 \<le> ss_depth s"
  shows "case createUserQuery E p w of
      (Inr row, w') \<Rightarrow> \<exists>D'. create_user_statement s uid p D = Inr (stored_user row, D') \<and> holds_world D' w' \<and> new_ids s D'
    | (Inl err, w') \<Rightarrow> w' = w \<and> (\<exists>cs. err = e_reject E (UniqueViolation cs) \<and>
        create_user_statement s uid p D = Inl (UniqueConflict cs))"
proof -
  obtain tb where tb: "db_tables D ''users'' = Some tb" "t_columns tb = users_columns 4" "t_unique tb = users_unique"
    "table_fits tb" "t_rows tb = map stored_user (w_users w)" using assms(1) by (rule stores_users)
  obtain d where d: "ss_depth s = Suc (Suc d)" using assms(6) by (metis Suc_le_D numeral_2_eq_2 Suc_le_mono)
  let ?row = "inserted_row uid p (ss_now s)"
  define given where "given = [(''user_id'', Some (VUuid uid)), (''username'', Some (VText (p_Username p))),
      (''first_name'', Some (VText (p_FirstName p))), (''last_name'', Some (VText (p_LastName p))),
      (''avatar_id'', Some (VText (p_AvatarID p))), (''about'', Some (VText [])),
      (''status'', Some (VText ''pending_registration''))]"
  have fits: "misfits tb given = []"
    by (simp add: misfits_def given_def find_column_def tb(2) users_columns_def)
  have row: "full_row s tb given = stored_user ?row"
    by (rule ext) (simp add: full_row_def given_def find_column_def tb(2) users_columns_def stored_user_def
        inserted_row_def default_value_def)
  have nulls: "null_columns tb (stored_user ?row) = []"
    by (simp add: null_columns_Nil tb(2) users_columns_def stored_user_def)
  have conf: "conflicts tb (stored_user ?row) = violated_constraints uid (p_Username p) (w_users w)"
    by (simp add: conflicts_def tb(3,5) users_unique_def violated_constraints_def inserted_row_def list_ex_iff o_def)
  have stmt: "create_user_statement s uid p D = sql_bind (add_row (stored_user ?row) tb) (\<lambda>tb'.
      sql_bind (fire (insert_at (Suc d) s) s INSERT ''users'' [([], record_of tb (stored_user ?row))] (put_table ''users'' tb' D))
        (\<lambda>D'. Inr (stored_user ?row, D')))"
    unfolding create_user_statement_def given_def [symmetric] insert_into_def d
    by (subst insert_at.simps) (simp add: with_table_def tb(1) fits row Let_def)
  show ?thesis
  proof (cases "violated_constraints uid (p_Username p) (w_users w)")
    case Nil
    let ?us = "w_users w @ [?row]"
    let ?w = "w\<lparr>w_users := ?us, w_outbox := w_outbox w @ map (recorded s INSERT) [?row]\<rparr>"
    have "t_rows tb @ [stored_user ?row] = map stored_user ?us" by (simp add: tb(5))
    then have eq: "tb\<lparr>t_rows := t_rows tb @ [stored_user ?row]\<rparr> = tb\<lparr>t_rows := map stored_user ?us\<rparr>"
      by (rule arg_cong)
    have add: "add_row (stored_user ?row) tb = Inr (tb\<lparr>t_rows := map stored_user ?us\<rparr>)"
      unfolding eq [symmetric] by (simp add: add_row_def nulls conf Nil)
    moreover have "typed tb (stored_user ?row)" using full_row_typed [OF tb(4) fits, of s] by (simp add: row)
    ultimately have "table_fits (tb\<lparr>t_rows := map stored_user ?us\<rparr>)"
      using tb(4) by (auto simp: add_row_Inr table_fits_def sorted_wrt_append list_all_iff tb(5))
    then obtain D' where fire: "fire (insert_at (Suc d) s) s INSERT ''users'' [([], record_of tb (stored_user ?row))]
        (put_table ''users'' (tb\<lparr>t_rows := map stored_user ?us\<rparr>) D) = Inr D'" and "holds_world D' ?w" "new_ids s D'"
      using statement_recorded [OF assms(1,5) tb(1), of ?us INSERT "[([], record_of tb (stored_user ?row))]" "[?row]" ?w d]
      by (auto simp: record_of_user [OF tb(2)])
    moreover have "create_user_statement s uid p D = Inr (stored_user ?row, D')"
      by (simp only: stmt add fire sql_bind_simps)
    moreover have "createUserQuery E p w = (Inr ?row, ?w)"
      using assms(2,3) Nil by (simp add: createUserQuery_def Let_def recorded_def operation_value_def assms(4))
    ultimately show ?thesis by (simp only: prod.case sum.case) blast
  next
    case (Cons c cs)
    then show ?thesis
      using assms(2,3) by (simp add: stmt add_row_def nulls conf createUserQuery_def Let_def)
  qed
qed

text \<open>An UPDATE of the row with a given identifier.\<close>

lemma update_on_schema:
  assumes "holds_world D w" and "new_ids s D" and "1 \<le> ss_depth s"
    and sets: "\<And>r. set_columns s sets (stored_user r) = stored_user (upd r)"
    and fit: "\<And>tb. t_columns tb = users_columns 4 \<Longrightarrow> bad_sets tb sets = []"
    and keys: "\<And>r. row_ID (upd r) = row_ID r" "\<And>r. row_Username (upd r) = row_Username r"
    and "update_rows upd uid (ss_now s) w = (hit, w')"
  shows "\<exists>D'. update_where s ''users'' sets (Eq ''user_id'' (VUuid uid)) D = Inr (map stored_user hit, D') \<and>
    holds_world D' w' \<and> new_ids s D'"
proof -
  obtain tb where tb: "db_tables D ''users'' = Some tb" "t_columns tb = users_columns 4" "t_unique tb = users_unique"
    "table_fits tb" "t_rows tb = map stored_user (w_users w)" using assms(1) by (rule stores_users)
  obtain d where d: "ss_depth s = Suc d" using assms(3) by (metis Suc_le_D One_nat_def)
  let ?c = "Eq ''user_id'' (VUuid uid)" and ?old = "filter (\<lambda>r. row_ID r = uid) (w_users w)"
  let ?us = "map (\<lambda>r. if row_ID r = uid then upd r else r) (w_users w)"
  have hits: "filter (holds ?c) (map stored_user (w_users w)) = map stored_user ?old"
    by (simp add: filter_map o_def)
  have new: "map (\<lambda>r. if holds ?c r then set_columns s sets r else r) (map stored_user (w_users w)) = map stored_user ?us"
    by (simp add: sets)
  have changes: "map (\<lambda>r. (record_of tb r, record_of tb (set_columns s sets r))) (map stored_user ?old) =
      map (\<lambda>r. (user_record r, user_record (upd r))) ?old"
    and returned: "map (set_columns s sets) (map stored_user ?old) = map stored_user (map upd ?old)"
    by (simp_all add: sets record_of_user [OF tb(2)])
  have full: "null_columns tb (stored_user r) = []" for r
    by (simp add: null_columns_Nil tb(2) users_columns_def stored_user_def)
  define g where "g = (\<lambda>r. if row_ID r = uid then upd r else r)"
  have g: "row_ID (g r) = row_ID r" "row_Username (g r) = row_Username r" for r by (simp_all add: g_def keys)
  have chk: "check_table (tb\<lparr>t_rows := map stored_user ?us\<rparr>) = Inr (tb\<lparr>t_rows := map stored_user ?us\<rparr>)"
  proof -
    have "sorted_wrt (\<lambda>r v. row_ID r \<noteq> row_ID v \<and> row_Username r \<noteq> row_Username v) (w_users w)"
      using tb(4) by (simp add: table_fits_def tb(3,5) sorted_wrt_map apart_def users_unique_def)
    then have "sorted_wrt (apart tb) (map stored_user ?us)"
      unfolding g_def [symmetric] by (simp add: sorted_wrt_map apart_def tb(3) users_unique_def g)
    then show ?thesis by (simp add: check_table_Inr full list_all_iff)
  qed
  have "typed tb (stored_user (upd r))" if "typed tb (stored_user r)" for r
    using set_columns_typed [OF that fit [OF tb(2)], of s] by (simp add: sets)
  then have "list_all (typed tb) (map stored_user ?us)"
    using tb(4) by (auto simp: table_fits_def tb(5) list_all_iff)
  then have "table_fits (tb\<lparr>t_rows := map stored_user ?us\<rparr>)"
    using tb(4) chk by (simp add: table_fits_def check_table_Inr list_all_iff)
  moreover have "w_users w' = ?us" "w_outbox w' = w_outbox w @ map (recorded s UPDATE) hit" "hit = map upd ?old"
    using assms(8) by (auto simp: update_rows_def Let_def recorded_def operation_value_def)
  ultimately obtain D' where "fire (insert_at (Suc d) s) s UPDATE ''users''
      (map (\<lambda>r. (user_record r, user_record (upd r))) ?old) (put_table ''users'' (tb\<lparr>t_rows := map stored_user ?us\<rparr>) D) = Inr D'"
      "holds_world D' w'" "new_ids s D'"
    using statement_recorded [OF assms(1,2) tb(1), of ?us UPDATE "map (\<lambda>r. (user_record r, user_record (upd r))) ?old" hit w' d]
    by (auto simp: list_all2_conv_all_nth)
  then show ?thesis
    using \<open>hit = map upd ?old\<close>
    by (simp add: update_where_def with_table_def tb(1) fit [OF tb(2)] check_where_def find_column_def tb(2)
        users_columns_def Let_def tb(5) hits new [unfolded holds.simps] chk insert_into_def d changes returned
        del: map_map)
qed

lemma delete_on_schema:
  assumes "holds_world D w" and "new_ids s D" and "1 \<le> ss_depth s" and "ss_now s = e_clock E (w_calls w)"
    and "e_uuid E i = Some uid" and "deleteUserByID E i w = (r, w')"
  shows "\<exists>hit D'. delete_user_statement s uid D = Inr (map stored_user hit, D') \<and>
    holds_world D' w' \<and> new_ids s D' \<and> r = Inr (length hit)"
proof -
  obtain tb where tb: "db_tables D ''users'' = Some tb" "t_columns tb = users_columns 4" "t_unique tb = users_unique"
    "table_fits tb" "t_rows tb = map stored_user (w_users w)" using assms(1) by (rule stores_users)
  obtain d where d: "ss_depth s = Suc d" using assms(3) by (metis Suc_le_D One_nat_def)
  let ?c = "Eq ''user_id'' (VUuid uid)" and ?hit = "filter (\<lambda>r. row_ID r = uid) (w_users w)"
  let ?us = "filter (\<lambda>r. row_ID r \<noteq> uid) (w_users w)"
  have hits: "filter (holds ?c) (map stored_user (w_users w)) = map stored_user ?hit"
    and rest: "filter (\<lambda>r. \<not> holds ?c r) (map stored_user (w_users w)) = map stored_user ?us"
    by (simp_all add: filter_map o_def)
  note rest' = rest [unfolded holds.simps]
  have "table_fits (tb\<lparr>t_rows := map stored_user ?us\<rparr>)"
    using tb(4) unfolding rest [symmetric] tb(5) [symmetric]
    by (auto simp: table_fits_def list_all_iff sorted_wrt_filter)
  moreover have "w_users w' = ?us" "w_outbox w' = w_outbox w @ map (recorded s DELETE) ?hit" "r = Inr (length ?hit)"
    using assms(4-6) by (auto simp: deleteUserByID_def Let_def recorded_def operation_value_def)
  ultimately obtain D' where "fire (insert_at (Suc d) s) s DELETE ''users'' (map (\<lambda>r. (user_record r, [])) ?hit)
      (put_table ''users'' (tb\<lparr>t_rows := map stored_user ?us\<rparr>) D) = Inr D'" "holds_world D' w'" "new_ids s D'"
    using statement_recorded [OF assms(1,2) tb(1), of ?us DELETE "map (\<lambda>r. (user_record r, [])) ?hit" ?hit w' d]
    by (auto simp: list_all2_conv_all_nth)
  then have "delete_user_statement s uid D = Inr (map stored_user ?hit, D')"
    by (simp add: delete_user_statement_def delete_where_def with_table_def tb(1) check_where_def find_column_def tb(2)
        users_columns_def Let_def tb(5) hits rest' insert_into_def d record_of_user [OF tb(2)] o_def
       )
  then show ?thesis using \<open>holds_world D' w'\<close> \<open>new_ids s D'\<close> \<open>r = Inr (length ?hit)\<close> by blast
qed

lemma activate_on_schema:
  assumes "holds_world D w" and "new_ids s D" and "1 \<le> ss_depth s" and "ss_now s = e_clock E (w_calls w)"
    and "e_uuid E i = Some uid" and "activateUserByID E i w = (r, w')"
  shows "\<exists>hit D'. activate_user_statement s uid D = Inr (map stored_user hit, D') \<and>
    holds_world D' w' \<and> new_ids s D' \<and> r = (case hit of [] \<Rightarrow> Inl sql_ErrNoRows | u # _ \<Rightarrow> Inr u)"
proof -
  obtain hit v where upd: "update_rows (activate_row (ss_now s)) uid (ss_now s) w = (hit, v)" by force
  have "\<exists>D'. activate_user_statement s uid D = Inr (map stored_user hit, D') \<and> holds_world D' v \<and> new_ids s D'"
    unfolding activate_user_statement_def
    by (rule update_on_schema [OF assms(1-3) _ _ _ _ upd])
      (auto simp: set_columns_def stored_user_def activate_row_def bad_sets_def find_column_def users_columns_def)
  moreover have "w' = v \<and> r = (case hit of [] \<Rightarrow> Inl sql_ErrNoRows | u # _ \<Rightarrow> Inr u)"
    using assms(4-6) upd by (auto simp: activateUserByID_def Let_def split: list.splits)
  ultimately show ?thesis by blast
qed

lemma deactivate_on_schema:
  assumes "holds_world D w" and "new_ids s D" and "1 \<le> ss_depth s" and "ss_now s = e_clock E (w_calls w)"
    and "e_uuid E i = Some uid" and "deactivateUserByID E i w = (r, w')"
  shows "\<exists>hit D'. deactivate_user_statement s uid D = Inr (map stored_user hit, D') \<and>
    holds_world D' w' \<and> new_ids s D' \<and> r = Inr (length hit)"
proof -
  obtain hit v where upd: "update_rows (deactivate_row (ss_now s)) uid (ss_now s) w = (hit, v)" by force
  have "\<exists>D'. deactivate_user_statement s uid D = Inr (map stored_user hit, D') \<and> holds_world D' v \<and> new_ids s D'"
    unfolding deactivate_user_statement_def
    by (rule update_on_schema [OF assms(1-3) _ _ _ _ upd])
      (auto simp: set_columns_def stored_user_def deactivate_row_def bad_sets_def find_column_def users_columns_def)
  moreover have "w' = v \<and> r = Inr (length hit)"
    using assms(4-6) upd by (auto simp: deactivateUserByID_def Let_def)
  ultimately show ?thesis by blast
qed

text \<open>
  C15. The INSERT of createUserQuery on the migrated schema does what the write model says: the
  defaults make the row, the trigger records the event, and a taken key is reported under the
  constraint names the error translator looks for, with nothing changed.
\<close>

theorem insert_runs_on_the_migrated_schema:
  assumes "holds_world D w" and "e_uuid E (p_ID p) = Some uid"
    and "list_all (e_text_ok E) [p_Username p, p_FirstName p, p_LastName p, p_AvatarID p]"
    and "ss_now s = e_clock E (w_calls w)" and "new_ids s D" and "2 \<le> ss_depth s"
  shows "case createUserQuery E p w of
      (Inr row, w') \<Rightarrow> \<exists>D'. create_user_statement s uid p D = Inr (stored_user row, D') \<and> holds_world D' w' \<and> new_ids s D'
    | (Inl err, w') \<Rightarrow> w' = w \<and> (\<exists>cs. err = e_reject E (UniqueViolation cs) \<and>
        create_user_statement s uid p D = Inl (UniqueConflict cs))"
  by (rule insert_on_schema [OF assms])

text \<open>
  C16. The statements that activate, deactivate and delete a user do on the migrated schema what
  the write model says: they never fail there, the rows they return or count are those of the
  model, and the table and the outbox the trigger fills go on to agree with the world.
\<close>

theorem changes_run_on_the_migrated_schema:
  assumes "holds_world D w" and "new_ids s D" and "1 \<le> ss_depth s" and "ss_now s = e_clock E (w_calls w)"
    and "e_uuid E i = Some uid"
  shows "(case activateUserByID E i w of (r, w') \<Rightarrow> \<exists>hit D'. activate_user_statement s uid D = Inr (map stored_user hit, D') \<and>
      holds_world D' w' \<and> new_ids s D' \<and> r = (case hit of [] \<Rightarrow> Inl sql_ErrNoRows | u # _ \<Rightarrow> Inr u)) \<and>
    (case deactivateUserByID E i w of (r, w') \<Rightarrow> \<exists>hit D'. deactivate_user_statement s uid D = Inr (map stored_user hit, D') \<and>
      holds_world D' w' \<and> new_ids s D' \<and> r = Inr (length hit)) \<and>
    (case deleteUserByID E i w of (r, w') \<Rightarrow> \<exists>hit D'. delete_user_statement s uid D = Inr (map stored_user hit, D') \<and>
      holds_world D' w' \<and> new_ids s D' \<and> r = Inr (length hit))"
  using activate_on_schema [OF assms] deactivate_on_schema [OF assms] delete_on_schema [OF assms]
  by (auto split: prod.splits)

text \<open>The queries that read find the rows in the order of the table.\<close>

lemma select_on_schema:
  assumes "holds_world D w" and "\<And>r. holds c (stored_user r) = P r" and "cond_column c \<in> set (map c_name (users_columns 4))"
  shows "select_where ''users'' c D = Inr (map stored_user (filter P (w_users w)))"
proof -
  obtain tb where tb: "db_tables D ''users'' = Some tb" "t_columns tb = users_columns 4"
    "t_rows tb = map stored_user (w_users w)" using assms(1) by (rule stores_users)
  have "find_column tb (cond_column c) \<noteq> None" using assms(3) by (simp add: find_column_None column_names_def tb(2))
  moreover have "filter (holds c) (map stored_user (w_users w)) = map stored_user (filter P (w_users w))"
    by (simp add: filter_map o_def assms(2))
  ultimately show ?thesis
    by (simp only: select_where_def with_table_def tb option.case check_where_def if_False list.case)
qed

lemma find_hd_filter: "find P xs = (case filter P xs of [] \<Rightarrow> None | x # _ \<Rightarrow> Some x)"
  by (induction xs) auto

lemma reads_on_schema:
  assumes "holds_world D w" and "e_uuid E i = Some uid" and "e_text_ok E n"
  shows "\<exists>hit. user_by_id_statement uid D = Inr (map stored_user hit) \<and>
      getUserByID E i w = (case hit of [] \<Rightarrow> Inl sql_ErrNoRows | r # _ \<Rightarrow> Inr r, w)"
    and "\<exists>hit. user_by_username_statement n D = Inr (map stored_user hit) \<and>
      getUserByUsername E n w = (case hit of [] \<Rightarrow> Inl sql_ErrNoRows | r # _ \<Rightarrow> Inr r, w) \<and>
      existsByUsernameQuery E n w = (Inr (hit \<noteq> []), w)"
proof -
  let ?i = "filter (\<lambda>r. row_ID r = uid) (w_users w)" and ?n = "filter (\<lambda>r. row_Username r = n) (w_users w)"
  have "user_by_id_statement uid D = Inr (map stored_user ?i)"
    unfolding user_by_id_statement_def by (rule select_on_schema [OF assms(1)]) (simp_all add: user_column_names)
  moreover have "getUserByID E i w = (case ?i of [] \<Rightarrow> Inl sql_ErrNoRows | r # _ \<Rightarrow> Inr r, w)"
    using assms(2) by (simp add: getUserByID_def find_hd_filter split: list.splits)
  ultimately show "\<exists>hit. user_by_id_statement uid D = Inr (map stored_user hit) \<and>
      getUserByID E i w = (case hit of [] \<Rightarrow> Inl sql_ErrNoRows | r # _ \<Rightarrow> Inr r, w)" by blast
  have "user_by_username_statement n D = Inr (map stored_user ?n)"
    unfolding user_by_username_statement_def by (rule select_on_schema [OF assms(1)]) (simp_all add: user_column_names)
  moreover have "getUserByUsername E n w = (case ?n of [] \<Rightarrow> Inl sql_ErrNoRows | r # _ \<Rightarrow> Inr r, w)"
    using assms(3) by (simp add: getUserByUsername_def find_hd_filter split: list.splits)
  moreover have "existsByUsernameQuery E n w = (Inr (?n \<noteq> []), w)"
    using assms(3) by (auto simp: existsByUsernameQuery_def list_ex_iff filter_empty_conv)
  ultimately show "\<exists>hit. user_by_username_statement n D = Inr (map stored_user hit) \<and>
      getUserByUsername E n w = (case hit of [] \<Rightarrow> Inl sql_ErrNoRows | r # _ \<Rightarrow> Inr r, w) \<and>
      existsByUsernameQuery E n w = (Inr (hit \<noteq> []), w)" by blast
qed

section \<open>A new database\<close>

definition new_database :: database where
  "new_database = foldl (\<lambda>D n. migrated n D) empty_database [0..<7]"

lemma new_database_stores: "holds_world new_database empty_world"
proof -
  have "at_version n (foldl (\<lambda>D i. migrated i D) empty_database [0..<n])" if "n \<le> 7" for n
    using that by (induction n) (simp_all add: empty_version migrated_version)
  then have "at_version 7 new_database" by (simp add: new_database_def)
  then show ?thesis
    by (simp add: upt_rec holds_world_def empty_world_def user_rows_def outbox_view_def outbox_rows_def new_database_def migrated_def
        widened_def put_table_def empty_database_def)
qed

definition sample_params :: create_user_params where
  "sample_params = \<lparr>p_ID = ''A1'', p_Username = ''ann'', p_FirstName = ''Ann'', p_LastName = ''Lee'', p_AvatarID = []\<rparr>"

definition sample_statement_session :: session where
  "sample_statement_session = sample_session\<lparr>ss_now := 0\<rparr>"

lemma sample_new_ids: "outbox_rows D = [] \<Longrightarrow> new_ids sample_statement_session D"
  by (auto simp: new_ids_def sample_statement_session_def sample_session_def inj_on_def)

lemma sample_statement_ready:
  "e_uuid sample_env ''A1'' = Some ''a1''" "2 \<le> ss_depth sample_statement_session"
  "ss_now sample_statement_session = e_clock sample_env (w_calls empty_world)"
  "list_all (e_text_ok sample_env) [''ann'', ''Ann'', ''Lee'', []]"
  by (simp_all add: sample_env_def sample_uuid_def sample_statement_session_def sample_session_def
      empty_world_def utf8_valid_ascii ToLower_ascii_map lower_char_def char_of_eq_iff take_bit_eq_mod
      del: of_char_eq_iff)

lemma sample_insert:
  "createUserQuery sample_env sample_params empty_world =
    (Inr (inserted_row ''a1'' sample_params 0), snd (createUserQuery sample_env sample_params empty_world))"
  using sample_statement_ready
  by (simp add: createUserQuery_def Let_def sample_params_def empty_world_def violated_constraints_def sample_env_def)

lemma insert_runs_on_the_migrated_schema_witness:
  "\<exists>D'. create_user_statement sample_statement_session ''a1'' sample_params new_database =
      Inr (stored_user (inserted_row ''a1'' sample_params 0), D') \<and>
    holds_world D' (snd (createUserQuery sample_env sample_params empty_world))"
  using insert_runs_on_the_migrated_schema [OF new_database_stores, of sample_env sample_params "''a1''" sample_statement_session]
    sample_statement_ready sample_insert sample_new_ids [of new_database] new_database_stores
  by (auto simp: sample_params_def holds_world_def outbox_view_def empty_world_def split: prod.splits)

lemma changes_run_on_the_migrated_schema_witness:
  "\<exists>D D' rows. activate_user_statement sample_statement_session ''a1'' D =
    Inr (stored_user (activate_row 0 (inserted_row ''a1'' sample_params 0)) # rows, D')"
proof -
  let ?w = "snd (createUserQuery sample_env sample_params empty_world)"
  obtain D where D: "holds_world D ?w" "new_ids sample_statement_session D"
    using insert_on_schema [OF new_database_stores, of sample_env sample_params "''a1''" sample_statement_session]
      sample_statement_ready sample_insert sample_new_ids [of new_database] new_database_stores
    by (auto simp: sample_params_def holds_world_def outbox_view_def empty_world_def split: prod.splits)
  have w: "w_calls ?w = 0" "w_users ?w = [inserted_row ''a1'' sample_params 0]"
    using sample_statement_ready
    by (simp_all add: createUserQuery_def Let_def sample_params_def empty_world_def violated_constraints_def sample_env_def)
  obtain hit D' v where "activate_user_statement sample_statement_session ''a1'' D = Inr (map stored_user hit, D')"
    "activateUserByID sample_env ''A1'' ?w = (case hit of [] \<Rightarrow> Inl sql_ErrNoRows | u # _ \<Rightarrow> Inr u, v)"
    using changes_run_on_the_migrated_schema [OF D, of sample_env "''A1''" "''a1''"] sample_statement_ready w(1)
    by (auto simp: empty_world_def split: prod.splits)
  moreover have "fst (activateUserByID sample_env ''A1'' ?w) = Inr (activate_row 0 (inserted_row ''a1'' sample_params 0))"
    using sample_statement_ready w
    by (simp add: activateUserByID_def update_rows_def Let_def inserted_row_def empty_world_def
        sample_statement_session_def sample_session_def)
  ultimately show ?thesis by (auto split: list.splits)
qed

end
