(* ===== verification/OutboxTable.thy ===== *)
theory OutboxTable
  imports SchemaQueries
begin

text \<open>
  Sequences of the statements of query.go on the tables themselves. Nothing here is about the world of
  the other theories: the service issues statements, the constraints of the migrated schema accept or
  reject them, the trigger fills the outbox, and whoever reads the rows of the outbox in order rebuilds the
  table of users. The proof goes through the world, by the refinement of \<open>SchemaQueries\<close> and the
  invariant of \<open>WriteRepo\<close>.
\<close>

section \<open>Runs of statements\<close>

datatype statement_call = InsertUser create_user_params | ActivateRow string | DeactivateRow string | DeleteRow string

text \<open>The session of the n-th statement reads the clock at that point.\<close>

definition session_at :: "env \<Rightarrow> session \<Rightarrow> nat \<Rightarrow> session" where
  "session_at E s n = s\<lparr>ss_now := e_clock E n\<rparr>"

definition after :: "sql_error + 'a \<times> database \<Rightarrow> database \<Rightarrow> database" where
  "after result D = (case result of Inl e \<Rightarrow> D | Inr (x, D') \<Rightarrow> D')"

text \<open>A parameter that the server cannot read fails the statement before it runs.\<close>

definition issue :: "env \<Rightarrow> session \<Rightarrow> nat \<Rightarrow> statement_call \<Rightarrow> database \<Rightarrow> database" where
  "issue E s n c D =
    (case c of
       InsertUser p \<Rightarrow>
         (case e_uuid E (p_ID p) of
            None \<Rightarrow> D
          | Some uid \<Rightarrow>
              if list_all (e_text_ok E) [p_Username p, p_FirstName p, p_LastName p, p_AvatarID p]
              then after (create_user_statement (session_at E s n) uid p D) D else D)
     | ActivateRow i \<Rightarrow>
         (case e_uuid E i of None \<Rightarrow> D | Some uid \<Rightarrow> after (activate_user_statement (session_at E s n) uid D) D)
     | DeactivateRow i \<Rightarrow>
         (case e_uuid E i of None \<Rightarrow> D | Some uid \<Rightarrow> after (deactivate_user_statement (session_at E s n) uid D) D)
     | DeleteRow i \<Rightarrow>
         (case e_uuid E i of None \<Rightarrow> D | Some uid \<Rightarrow> after (delete_user_statement (session_at E s n) uid D) D))"

fun issue_all :: "env \<Rightarrow> session \<Rightarrow> nat \<Rightarrow> statement_call list \<Rightarrow> database \<Rightarrow> database" where
  "issue_all E s n [] D = D"
| "issue_all E s n (c # cs) D = issue_all E s (Suc n) cs (issue E s n c D)"

section \<open>Reading the outbox\<close>

definition read_event :: "(string \<rightharpoonup> row_record) \<Rightarrow> sql_row \<Rightarrow> (string \<rightharpoonup> row_record)" where
  "read_event m r =
    (case (r ''operation'', r ''aggregate_id'', r ''payload'') of
       (Some (VText operation), Some (VText k), Some (VJson data)) \<Rightarrow>
         if operation = ''deactivated'' then m(k := None) else m(k \<mapsto> data)
     | _ \<Rightarrow> m)"

definition read_outbox :: "database \<Rightarrow> (string \<rightharpoonup> row_record)" where
  "read_outbox D = foldl read_event Map.empty (outbox_rows D)"

definition users_by_id :: "database \<Rightarrow> (string \<rightharpoonup> row_record)" where
  "users_by_id D k = (case db_tables D ''users'' of None \<Rightarrow> None
     | Some tb \<Rightarrow> map_option (record_of tb) (find (\<lambda>r. r ''user_id'' = Some (VUuid k)) (t_rows tb)))"

section \<open>The same in the world\<close>

definition world_issue :: "env \<Rightarrow> nat \<Rightarrow> statement_call \<Rightarrow> world \<Rightarrow> world" where
  "world_issue E n c w =
    (let w = w\<lparr>w_calls := n\<rparr> in
     case c of
       InsertUser p \<Rightarrow> snd (createUserQuery E p w)
     | ActivateRow i \<Rightarrow> snd (activateUserByID E i w)
     | DeactivateRow i \<Rightarrow> snd (deactivateUserByID E i w)
     | DeleteRow i \<Rightarrow> snd (deleteUserByID E i w))"

lemma holds_world_calls [simp]: "holds_world D (w\<lparr>w_calls := n\<rparr>) = holds_world D w"
  by (simp add: holds_world_def)

lemma session_at_simps [simp]: "ss_now (session_at E s n) = e_clock E n" "ss_depth (session_at E s n) = ss_depth s"
  "new_ids (session_at E s n) D = new_ids s D"
  by (simp_all add: session_at_def new_ids_def)

lemma world_issue_inv:
  assumes "pg_inv E w" shows "pg_inv E (world_issue E n c w)"
proof -
  have inv: "pg_inv E (w\<lparr>w_calls := n\<rparr>)" using assms by simp
  show ?thesis
  proof (cases c)
    case (InsertUser p)
    show ?thesis
    proof (cases rule: result_cases [of "createUserQuery E p (w\<lparr>w_calls := n\<rparr>)"])
      case (error e v)
      with insert_failed [OF error] assms show ?thesis by (simp add: world_issue_def InsertUser)
    next
      case (ok r v)
      with insert_stmt_effect(2) [OF inv ok] show ?thesis by (simp add: world_issue_def InsertUser)
    qed
  next
    case (ActivateRow i)
    then show ?thesis using activate_frame [OF inv surjective_pairing, of i] by (simp add: world_issue_def)
  next
    case (DeactivateRow i)
    then show ?thesis using deactivate_frame [OF inv surjective_pairing, of i] by (simp add: world_issue_def)
  next
    case (DeleteRow i)
    then show ?thesis using delete_frame [OF inv surjective_pairing, of i] by (simp add: world_issue_def)
  qed
qed

lemma issue_follows:
  assumes "holds_world D w" and "new_ids s D" and "2 \<le> ss_depth s"
  shows "holds_world (issue E s n c D) (world_issue E n c w) \<and> new_ids s (issue E s n c D)"
proof (cases c)
  case (InsertUser p)
  show ?thesis
  proof (cases "e_uuid E (p_ID p)")
    case (Some uid)
    show ?thesis
    proof (cases "list_all (e_text_ok E) [p_Username p, p_FirstName p, p_LastName p, p_AvatarID p]")
      case True
      show ?thesis
        using insert_on_schema [of D "w\<lparr>w_calls := n\<rparr>" E p uid "session_at E s n"] assms Some True InsertUser
        by (auto simp: issue_def world_issue_def after_def split: prod.splits sum.splits)
    next
      case False
      then show ?thesis using assms Some InsertUser
        by (auto simp: issue_def world_issue_def createUserQuery_def)
    qed
  qed (use assms InsertUser in \<open>simp add: issue_def world_issue_def createUserQuery_def\<close>)
next
  case (ActivateRow i)
  then show ?thesis
    using activate_on_schema [of D "w\<lparr>w_calls := n\<rparr>" "session_at E s n" E i] assms
    by (cases "e_uuid E i"; cases "activateUserByID E i (w\<lparr>w_calls := n\<rparr>)")
      (fastforce simp: issue_def world_issue_def after_def activateUserByID_def)+
next
  case (DeactivateRow i)
  then show ?thesis
    using deactivate_on_schema [of D "w\<lparr>w_calls := n\<rparr>" "session_at E s n" E i] assms
    by (cases "e_uuid E i"; cases "deactivateUserByID E i (w\<lparr>w_calls := n\<rparr>)")
      (fastforce simp: issue_def world_issue_def after_def deactivateUserByID_def)+
next
  case (DeleteRow i)
  then show ?thesis
    using delete_on_schema [of D "w\<lparr>w_calls := n\<rparr>" "session_at E s n" E i] assms
    by (cases "e_uuid E i"; cases "deleteUserByID E i (w\<lparr>w_calls := n\<rparr>)")
      (fastforce simp: issue_def world_issue_def after_def deleteUserByID_def)+
qed

lemma issue_all_follows:
  assumes "holds_world D w" and "new_ids s D" and "2 \<le> ss_depth s" and "pg_inv E w"
  shows "\<exists>w'. holds_world (issue_all E s n cs D) w' \<and> pg_inv E w'"
  using assms
proof (induction cs arbitrary: n D w)
  case (Cons c cs)
  from issue_follows [OF Cons.prems(1-3), of E n c] world_issue_inv [OF Cons.prems(4), of n c]
  show ?case using Cons.IH Cons.prems(3) by auto
qed auto

section \<open>The outbox rebuilds the table\<close>

lemma read_stored_event:
  assumes "r(''event_id'' := None) = stored_event e"
  shows "read_event m r = (if ob_operation e = ''deactivated'' then m(ob_aggregate_id e := None)
    else m(ob_aggregate_id e \<mapsto> user_record (ob_payload e)))"
proof -
  have "r n = stored_event e n" if "n \<noteq> ''event_id''" for n
    using fun_cong [OF assms, of n] that by simp
  then show ?thesis by (simp add: read_event_def stored_event_def)
qed

lemma read_events:
  assumes "map (\<lambda>r. r(''event_id'' := None)) rows = map stored_event es"
    and "m = map_option user_record \<circ> m'"
  shows "foldl read_event m rows = map_option user_record \<circ> foldl apply_event m' es"
  using assms
proof (induction es arbitrary: rows m m')
  case (Cons e es)
  then obtain r rs where rows: "rows = r # rs" "r(''event_id'' := None) = stored_event e"
    "map (\<lambda>r. r(''event_id'' := None)) rs = map stored_event es"
    by (auto simp: map_eq_Cons_conv simp del: fun_upd_apply)
  have "read_event m r = map_option user_record \<circ> apply_event m' e"
    by (rule ext) (simp add: read_stored_event [OF rows(2)] apply_event_def Cons.prems(2))
  from Cons.IH [OF rows(3) this] rows(1) show ?case by simp
qed simp

lemma outbox_of_world:
  assumes "holds_world D w" and "outbox_ok w"
  shows "read_outbox D = users_by_id D"
proof -
  obtain tb where tb: "db_tables D ''users'' = Some tb" "t_columns tb = users_columns 4"
    "t_rows tb = map stored_user (w_users w)" using assms(1) by (rule stores_users)
  have "read_outbox D = map_option user_record \<circ> replay (w_outbox w)"
    unfolding read_outbox_def replay_def
    by (rule read_events) (use assms(1) in \<open>auto simp: holds_world_def outbox_view_def\<close>)
  moreover have "users_by_id D k = map_option user_record (rows_view w k)" for k
  proof -
    have "find (\<lambda>r. r ''user_id'' = Some (VUuid k)) (map stored_user us) =
        map_option stored_user (find (\<lambda>r. row_ID r = k) us)" for us
      by (induction us) simp_all
    then show ?thesis
      by (simp add: users_by_id_def tb rows_view_def option.map_comp o_def record_of_user [OF tb(2)])
  qed
  ultimately show ?thesis using assms(2) by (simp add: outbox_ok_def fun_eq_iff)
qed

text \<open>
  C17. Whatever statements the service issues on a newly migrated database, with whatever
  parameters, the rows of the outbox, read in their order, give back the table of users: every row
  under its identifier with all its columns, and no row that is gone.
\<close>

theorem outbox_table_rebuilds_the_users_table:
  assumes "env_ok utf8_valid E" and "inj (ss_random s)" and "2 \<le> ss_depth s"
  shows "let D = issue_all E s 0 calls new_database in read_outbox D = users_by_id D \<and> database_ok D"
proof -
  have "outbox_rows new_database = []"
    using new_database_stores by (simp add: holds_world_def outbox_view_def empty_world_def)
  then have "new_ids s new_database" using assms(2) by (auto simp: new_ids_def intro: inj_on_subset)
  then obtain w where w: "holds_world (issue_all E s 0 calls new_database) w" "pg_inv E w"
    using issue_all_follows [OF new_database_stores, of s E 0 calls] assms(3) empty_world_ok [OF assms(1)] by auto
  then have "database_ok (issue_all E s 0 calls new_database)" by (simp add: holds_world_def at_version_def)
  with outbox_of_world [OF w(1)] w(2) show ?thesis by (simp add: pg_inv_def Let_def)
qed

text \<open>A user is registered and activated: the table then has an active user, and so does the outbox.\<close>

lemma outbox_table_rebuilds_the_users_table_witness:
  "let D = issue_all sample_env sample_session 0 [InsertUser sample_params, ActivateRow ''A1''] new_database in
     read_outbox D = users_by_id D \<and> database_ok D"
  by (rule outbox_table_rebuilds_the_users_table [OF sample_env_ok])
    (auto simp: sample_session_def inj_def)

end
