(* ===== verification/Rollback.thy ===== *)
theory Rollback
  imports Upgrades
begin

text \<open>
  The down files of \<open>Migrations\<close> run one after the other, on databases with any rows: each leaves the
  database at the version before it, with the users it had and, of each, the columns of that version.
\<close>

section \<open>The columns of a version\<close>

definition user_columns_at :: "nat \<Rightarrow> string set" where
  "user_columns_at n = (if n = 0 then {} else set (map c_name (users_columns n)))"

lemma user_columns_at_simps:
  "user_columns_at 4 = insert ''about'' (user_columns_at 3)" "user_columns_at 3 = insert ''avatar_id'' (user_columns_at 2)"
  "user_columns_at 2 = insert ''status'' (insert ''is_active'' (user_columns_at 1))"
  "4 \<le> n \<Longrightarrow> user_columns_at n = user_columns_at 4"
  unfolding user_columns_at_def user_column_names by auto

lemma user_columns_new:
  "''about'' \<notin> user_columns_at 3" "''avatar_id'' \<notin> user_columns_at 2"
  "''status'' \<notin> insert ''is_active'' (user_columns_at 1)" "''is_active'' \<notin> user_columns_at 1"
  by (simp_all add: user_columns_at_def user_column_names)

lemma user_columns_mono:
  assumes "n \<le> m" shows "user_columns_at n \<subseteq> user_columns_at m"
proof (cases "n = 0")
  case False
  have "set (if k \<le> n then xs else []) \<subseteq> set (if k \<le> m then xs else [])" for k and xs :: "string list"
    using assms by auto
  note sub = this
  from False assms have "m \<noteq> 0" by simp
  with False show ?thesis
    unfolding user_columns_at_def user_column_names set_append
    by (simp only: if_False simp_thms) (intro Un_mono subset_refl sub)
qed (simp add: user_columns_at_def)

text \<open>The users of a version as an older version keeps them.\<close>

definition narrowed :: "nat \<Rightarrow> sql_row list \<Rightarrow> sql_row list" where
  "narrowed n rows = (if n = 0 then [] else map (\<lambda>r. r |` user_columns_at n) rows)"

lemma narrowed_again: "n \<le> m \<Longrightarrow> narrowed n (narrowed m rows) = narrowed n rows"
  using user_columns_mono [of n m] by (auto simp: narrowed_def Int_absorb1)

lemma rows_within:
  assumes "at_version n D" and "r \<in> set (user_rows D)"
  shows "dom r \<subseteq> user_columns_at n"
proof -
  from assms(2) obtain tb where tb: "db_tables D ''users'' = Some tb" "r \<in> set (t_rows tb)"
    by (cases "db_tables D ''users''") (auto simp: user_rows_def)
  have n: "1 \<le> n" using assms(1) tb(1) by (cases n) (simp_all add: at_version_def shape_def)
  obtain tb' where "db_tables D ''users'' = Some tb'" "t_columns tb' = users_columns n" "table_fits tb'"
    using assms(1) n by (rule at_version_users)
  with tb have tb': "t_columns tb = users_columns n" "typed tb r" by (simp_all add: table_fits_def list_all_iff)
  show ?thesis
  proof
    fix c assume "c \<in> dom r"
    then obtain k where "find_column tb c = Some k" using tb'(2) by (auto simp: typed_def)
    then have "k \<in> set (users_columns n)" "c_name k = c" using find_column_Some tb'(1) by metis+
    then show "c \<in> user_columns_at n" using n by (auto simp: user_columns_at_def)
  qed
qed

lemma restrict_within:
  assumes "dom r \<subseteq> A" shows "r |` A = r"
proof (rule ext)
  show "(r |` A) x = r x" for x using assms by (cases "x \<in> A"; cases "r x") auto
qed

lemma restrict_without:
  assumes "dom r \<subseteq> insert c A" and "c \<notin> A" shows "r(c := None) = r |` A"
proof (rule ext)
  show "(r(c := None)) x = (r |` A) x" for x using assms by (cases "x \<in> A"; cases "x = c"; cases "r x") auto
qed

lemma narrowed_rows:
  assumes "at_version n D" shows "narrowed n (user_rows D) = user_rows D"
proof (cases "n = 0")
  case True
  with assms show ?thesis by (simp add: narrowed_def user_rows_def at_version_def shape_def)
next
  case False
  have "r |` user_columns_at n = r" if "r \<in> set (user_rows D)" for r
    by (rule restrict_within [OF rows_within [OF assms that]])
  with False show ?thesis by (simp add: narrowed_def map_idI)
qed

text \<open>Dropping a column of the users.\<close>

lemma column_dropped:
  assumes "db_tables D ''users'' = Some tb" and "c \<in> set (column_names tb)"
  obtains D' where "exec s (DropColumnIfExists ''users'' c) D = Inr D'"
    "db_tables D' = (db_tables D)(''users'' \<mapsto> remove_column c tb)" "db_functions D' = db_functions D"
    "db_triggers D' = db_triggers D"
    "\<And>i. db_indexes D i = None \<Longrightarrow> db_indexes D' i = None"
    "\<And>i u cs. db_indexes D i = Some (u, cs) \<Longrightarrow> c \<notin> set cs \<Longrightarrow> db_indexes D' i = Some (u, cs)"
    "user_rows D' = map (\<lambda>r. r(c := None)) (user_rows D)"
proof -
  obtain k where "find_column tb c = Some k" using assms(2) by (cases "find_column tb c") (simp_all add: find_column_None)
  with assms(1) have run: "exec s (DropColumnIfExists ''users'' c) D =
      Inr (put_table ''users'' (remove_column c tb) (D\<lparr>db_indexes :=
        (\<lambda>i. case db_indexes D i of None \<Rightarrow> None
             | Some (u, cs) \<Rightarrow> if u = ''users'' \<and> c \<in> set cs then None else Some (u, cs))\<rparr>))"
    by (simp add: drop_column_def with_table_def)
  show thesis
    by (rule that [OF run]) (simp_all add: assms(1) put_table_def user_rows_def remove_column_def)
qed

lemma version_kept:
  assumes "run_file s qs D = Inr D'" and "at_version m D" and "n < 5" and "1 \<le> n" and "m < 5" and "1 \<le> m"
    and "\<And>t. t \<noteq> ''users'' \<Longrightarrow> db_tables D' t = db_tables D t"
    and "db_tables D' ''users'' = Some tb" "t_columns tb = users_columns n" "t_unique tb = users_unique"
    and "db_functions D' = db_functions D" "db_triggers D' = db_triggers D"
    and "db_indexes D' ''idx_users_username'' = db_indexes D ''idx_users_username''"
    and "db_indexes D' ''idx_outbox_events_aggregate'' = db_indexes D ''idx_outbox_events_aggregate''"
  shows "at_version n D'"
  using assms run_file_ok [OF assms(1)] by (simp add: at_version_def shape_def)

section \<open>Each down file\<close>

lemma users_columns_without:
  "filter (\<lambda>k. c_name k \<noteq> ''about'') (users_columns 4) = users_columns 3"
  "filter (\<lambda>k. c_name k \<noteq> ''avatar_id'') (users_columns 3) = users_columns 2"
  "filter (\<lambda>k. c_name k \<noteq> ''is_active'') (filter (\<lambda>k. c_name k \<noteq> ''status'') (users_columns 2)) = users_columns 1"
  by (simp_all add: users_columns_def)

lemma users_unique_without:
  "c \<in> {''about'', ''avatar_id'', ''status'', ''is_active''} \<Longrightarrow> filter (\<lambda>(n, k). k \<noteq> c) users_unique = users_unique"
  by (auto simp: users_unique_def)

lemma users_column_rolled_back:
  assumes "at_version (Suc n) D" and n: "n = 2 \<and> c = ''avatar_id'' \<or> n = 3 \<and> c = ''about''"
  shows "\<exists>D'. run_file s [DropColumnIfExists ''users'' c] D = Inr D' \<and> at_version n D' \<and>
    user_rows D' = narrowed n (user_rows D)"
proof -
  from assms obtain tb where tb: "db_tables D ''users'' = Some tb" "t_columns tb = users_columns (Suc n)"
    "t_unique tb = users_unique" by (elim at_version_users) auto
  have "c \<in> set (column_names tb)" using n by (auto simp: column_names_def tb(2) user_column_names)
  with tb(1) obtain D' where D': "exec s (DropColumnIfExists ''users'' c) D = Inr D'"
    "db_tables D' = (db_tables D)(''users'' \<mapsto> remove_column c tb)" "db_functions D' = db_functions D"
    "db_triggers D' = db_triggers D" "\<And>i. db_indexes D i = None \<Longrightarrow> db_indexes D' i = None"
    "\<And>i u cs. db_indexes D i = Some (u, cs) \<Longrightarrow> c \<notin> set cs \<Longrightarrow> db_indexes D' i = Some (u, cs)"
    "user_rows D' = map (\<lambda>r. r(c := None)) (user_rows D)"
    by (rule column_dropped) blast
  have run: "run_file s [DropColumnIfExists ''users'' c] D = Inr D'" unfolding single_statement by (rule D'(1))
  have "at_version n D'"
  proof (rule version_kept [OF run assms(1)])
    show "db_tables D' ''users'' = Some (remove_column c tb)" by (simp add: D'(2))
    show "t_columns (remove_column c tb) = users_columns n" "t_unique (remove_column c tb) = users_unique"
      using n users_columns_without(1,2) users_unique_without [of c] by (auto simp: remove_column_def tb)
    show "db_indexes D' ''idx_users_username'' = db_indexes D ''idx_users_username''"
      "db_indexes D' ''idx_outbox_events_aggregate'' = db_indexes D ''idx_outbox_events_aggregate''"
      using D'(5,6) assms(1) n by (auto simp: at_version_def)
  qed (use n D' in auto)
  moreover have "r(c := None) = r |` user_columns_at n" if "r \<in> set (user_rows D)" for r
  proof -
    have "Suc 2 = 3" "Suc 3 = 4" by simp_all
    then have "user_columns_at (Suc n) = insert c (user_columns_at n)" "c \<notin> user_columns_at n"
      using n user_columns_at_simps(1,2) user_columns_new(1,2) by metis+
    then show ?thesis using rows_within [OF assms(1) that] by (intro restrict_without) simp_all
  qed
  ultimately show ?thesis using run D'(7) n by (auto simp: narrowed_def)
qed

lemma activation_rolled_back:
  assumes "at_version 2 D"
  shows "\<exists>D'. run_file s add_user_activation_down D = Inr D' \<and> at_version 1 D' \<and> user_rows D' = narrowed 1 (user_rows D)"
proof -
  from assms obtain tb where tb: "db_tables D ''users'' = Some tb" "t_columns tb = users_columns 2"
    "t_unique tb = users_unique" by (elim at_version_users) auto
  have "''status'' \<in> set (column_names tb)" by (simp add: column_names_def tb(2) user_column_names)
  with tb(1) obtain D1 where D1: "exec s (DropColumnIfExists ''users'' ''status'') D = Inr D1"
    "db_tables D1 = (db_tables D)(''users'' \<mapsto> remove_column ''status'' tb)" "db_functions D1 = db_functions D"
    "db_triggers D1 = db_triggers D" "\<And>i. db_indexes D i = None \<Longrightarrow> db_indexes D1 i = None"
    "\<And>i u cs. db_indexes D i = Some (u, cs) \<Longrightarrow> ''status'' \<notin> set cs \<Longrightarrow> db_indexes D1 i = Some (u, cs)"
    "user_rows D1 = map (\<lambda>r. r(''status'' := None)) (user_rows D)"
    by (rule column_dropped) blast
  have tb1: "db_tables D1 ''users'' = Some (remove_column ''status'' tb)" by (simp add: D1(2))
  have "''is_active'' \<in> set (column_names (remove_column ''status'' tb))"
    by (simp add: remove_column_names) (simp add: column_names_def tb(2) user_column_names)
  with tb1 obtain D2 where D2: "exec s (DropColumnIfExists ''users'' ''is_active'') D1 = Inr D2"
    "db_tables D2 = (db_tables D1)(''users'' \<mapsto> remove_column ''is_active'' (remove_column ''status'' tb))" "db_functions D2 = db_functions D1"
    "db_triggers D2 = db_triggers D1" "\<And>i. db_indexes D1 i = None \<Longrightarrow> db_indexes D2 i = None"
    "\<And>i u cs. db_indexes D1 i = Some (u, cs) \<Longrightarrow> ''is_active'' \<notin> set cs \<Longrightarrow> db_indexes D2 i = Some (u, cs)"
    "user_rows D2 = map (\<lambda>r. r(''is_active'' := None)) (user_rows D1)"
    by (rule column_dropped) blast
  have run: "run_file s add_user_activation_down D = Inr D2"
    by (simp only: run_file_def add_user_activation_down_def each_in_turn.simps D1(1) D2(1) sql_bind_simps)
  have "at_version 1 D2"
  proof (rule version_kept [OF run assms])
    let ?tb = "remove_column ''is_active'' (remove_column ''status'' tb)"
    show "db_tables D2 ''users'' = Some ?tb" by (simp add: D2(2))
    show "t_columns ?tb = users_columns 1" "t_unique ?tb = users_unique"
      using users_columns_without(3) by (simp_all add: remove_column_def tb users_unique_without)
    show "db_indexes D2 ''idx_users_username'' = db_indexes D ''idx_users_username''"
      "db_indexes D2 ''idx_outbox_events_aggregate'' = db_indexes D ''idx_outbox_events_aggregate''"
      using D1(5,6) D2(5,6) assms by (auto simp: at_version_def)
  qed (use D1(2-4) D2(2-4) in auto)
  moreover have "r(''status'' := None, ''is_active'' := None) = r |` user_columns_at 1" if "r \<in> set (user_rows D)" for r
  proof -
    let ?A = "insert ''is_active'' (user_columns_at 1)"
    note new = user_columns_new(3,4)
    have "dom r \<subseteq> insert ''status'' ?A" using rows_within [OF assms that] by (simp add: user_columns_at_simps)
    then have "r(''status'' := None) = r |` ?A" using new(1) by (rule restrict_without)
    moreover have "(r |` ?A)(''is_active'' := None) = (r |` ?A) |` user_columns_at 1"
      using new(2) by (intro restrict_without) auto
    ultimately show ?thesis by (simp add: Int_absorb1 subset_insertI)
  qed
  ultimately show ?thesis using run D1(7) D2(7) by (auto simp: narrowed_def)
qed

text \<open>Dropping one of the tables of the service leaves the others, their indexes and their triggers.\<close>

lemma dropped_trigger_filter:
  "filter P (filter Q xs) = filter Q (filter P xs)"
  by (simp add: conj_commute)

lemma triggers_left:
  "db_triggers (drop_table t D) = filter (\<lambda>g. tg_table g \<noteq> t) (db_triggers D)"
  "filter P (db_triggers D) = [] \<Longrightarrow> filter P (db_triggers (drop_table t D)) = []"
  by (auto simp add: drop_table_def filter_empty_conv)

lemma table_rolled_back:
  assumes "at_version (Suc n) D" and n: "n = 0 \<and> t = ''users'' \<or> n = 5 \<and> t = ''processed_events''"
  shows "\<exists>D'. run_file s [DropTableIfExists t] D = Inr D' \<and> at_version n D' \<and> user_rows D' = narrowed n (user_rows D)"
proof -
  have "db_tables D t \<noteq> None" using assms by (auto simp: at_version_def shape_def)
  then obtain tb where "db_tables D t = Some tb" by (rule not_None_eq [THEN iffD1, THEN exE])
  then have run: "run_file s [DropTableIfExists t] D = Inr (drop_table t D)" by (simp add: single_statement)
  have ok: "database_ok (drop_table t D)" using run_file_ok [OF run] assms(1) by (simp add: at_version_def)
  have "filter (\<lambda>g. tg_table g \<in> set service_tables \<or> tg_function g = ''capture_user_outbox_event'') (db_triggers (drop_table t D)) =
      filter (\<lambda>g. tg_table g \<noteq> t) (filter (\<lambda>g. tg_table g \<in> set service_tables \<or> tg_function g = ''capture_user_outbox_event'') (db_triggers D))"
    unfolding triggers_left(1) by (rule dropped_trigger_filter)
  moreover have "filter (\<lambda>g. tg_table g \<in> set service_tables \<or> tg_function g = ''capture_user_outbox_event'') (db_triggers D) =
      (if n = 5 then [users_outbox] else [])" using assms by (auto simp: at_version_def)
  ultimately have trg: "filter (\<lambda>g. tg_table g \<in> set service_tables \<or> tg_function g = ''capture_user_outbox_event'')
      (db_triggers (drop_table t D)) = (if n = 5 then [users_outbox] else [])"
    using n by (auto simp: users_outbox_def)
  have "at_version n (drop_table t D)"
    unfolding at_version_def trg using n
  proof (elim disjE conjE, goal_cases)
    case 1
    then show ?case using ok assms(1) by (simp add: at_version_def shape_def drop_table_def split: option.splits)
  next
    case 2
    then show ?case using ok assms(1) by (simp add: at_version_def shape_def drop_table_def late_columns)
  qed
  moreover have "user_rows (drop_table t D) = narrowed n (user_rows D)"
  proof (cases "n = 0")
    case True
    with n show ?thesis by (simp add: user_rows_def drop_table_def narrowed_def)
  next
    case False
    then have "user_rows (drop_table t D) = user_rows D" using n by (auto simp: user_rows_def drop_table_def)
    with narrowed_rows [OF calculation] show ?thesis by simp
  qed
  ultimately show ?thesis using run by blast
qed

lemma outbox_rolled_back:
  assumes "at_version 5 D"
  shows "\<exists>D'. run_file s create_outbox_events_down D = Inr D' \<and> at_version 4 D' \<and> user_rows D' = narrowed 4 (user_rows D)"
proof -
  let ?P = "\<lambda>g. tg_table g \<in> set service_tables \<or> tg_function g = ''capture_user_outbox_event''"
  let ?trs = "filter (\<lambda>g. \<not> (tg_table g = ''users'' \<and> tg_name g = ''users_outbox'')) (db_triggers D)"
  let ?D1 = "D\<lparr>db_triggers := ?trs\<rparr>"
  let ?D2 = "?D1\<lparr>db_functions := (db_functions D)(''capture_user_outbox_event'' := None)\<rparr>"
  let ?D3 = "drop_table ''outbox_events'' ?D2"
  have "filter ?P ?trs = filter (\<lambda>g. \<not> (tg_table g = ''users'' \<and> tg_name g = ''users_outbox'')) (filter ?P (db_triggers D))"
    by (rule dropped_trigger_filter)
  also have "filter ?P (db_triggers D) = [users_outbox]" using assms by (simp add: at_version_def)
  finally have none: "filter ?P ?trs = []" by (simp add: users_outbox_def)
  then have free: "\<not> list_ex (\<lambda>g. tg_function g = ''capture_user_outbox_event'') ?trs"
    unfolding filter_empty_conv list_ex_iff by blast
  have "db_tables D ''outbox_events'' \<noteq> None" using assms by (auto simp: at_version_def shape_def)
  then obtain tb where there: "db_tables D ''outbox_events'' = Some tb" by (rule not_None_eq [THEN iffD1, THEN exE])
  have e1: "exec s (DropTriggerIfExists ''users_outbox'' ''users'') D = Inr ?D1" by simp
  have e2: "exec s (DropFunctionIfExists ''capture_user_outbox_event'') ?D1 = Inr ?D2" using free by (simp add: drop_function_def)
  have e3: "exec s (DropTableIfExists ''outbox_events'') ?D2 = Inr ?D3" using there by simp
  have run: "run_file s create_outbox_events_down D = Inr ?D3"
    by (simp only: run_file_def create_outbox_events_down_def each_in_turn.simps e1 e2 e3 sql_bind_simps)
  have ok: "database_ok ?D3" using run_file_ok [OF run] assms by (simp add: at_version_def)
  have trg: "filter ?P (db_triggers ?D3) = []"
    by (rule triggers_left(2)) (use none in simp)
  have "at_version 4 ?D3"
    unfolding at_version_def trg using ok assms by (simp add: at_version_def shape_def drop_table_def late_columns)
  moreover have "user_rows ?D3 = user_rows D" by (simp add: user_rows_def drop_table_def)
  ultimately show ?thesis using run narrowed_rows [of 4 ?D3] by auto
qed

lemma down_file_runs:
  assumes "at_version (Suc n) D" and "n < 7"
  shows "\<exists>D'. run_file s (down_files ! n) D = Inr D' \<and> at_version n D' \<and> user_rows D' = narrowed n (user_rows D)"
  using assms(2)
proof (cases rule: version_cases)
  case 1
  with assms(1) table_rolled_back [of 0 D "''users''"] show ?thesis unfolding 1 files_at create_users_down_def by simp
next
  case 2
  with assms(1) activation_rolled_back show ?thesis unfolding 2 files_at by (simp add: numeral_2_eq_2)
next
  case 3
  with assms(1) users_column_rolled_back [of 2 D "''avatar_id''"] show ?thesis unfolding 3 files_at add_user_avatar_id_down_def by simp
next
  case 4
  with assms(1) users_column_rolled_back [of 3 D "''about''"] show ?thesis unfolding 4 files_at add_user_about_down_def by simp
next
  case 5
  with assms(1) outbox_rolled_back show ?thesis unfolding 5 files_at by simp
next
  case 6
  with assms(1) table_rolled_back [of 5 D "''processed_events''"] show ?thesis unfolding 6 files_at create_processed_events_down_def by simp
next
  case 7
  have "at_version 6 D" using assms(1) 7 by (simp add: at_version_def late_columns)
  with narrowed_rows [OF this] show ?thesis unfolding 7 files_at processed_event_id_text_down_def by (simp add: single_statement)
qed

section \<open>Several of them\<close>

lemma rollback_to:
  assumes "n \<le> m" and "m \<le> 7" and "at_version m D"
  shows "\<exists>D'. run_file s (concat (rev (drop n (take m down_files)))) D = Inr D' \<and> at_version n D' \<and>
    user_rows D' = narrowed n (user_rows D)"
  using assms
proof (induction m arbitrary: D rule: dec_induct)
  case base
  then show ?case by (auto simp: run_file_def narrowed_rows)
next
  case (step m)
  have "m < length down_files" using step.prems(1) by (simp add: down_files_def)
  then have files: "concat (rev (drop n (take (Suc m) down_files))) = down_files ! m @ concat (rev (drop n (take m down_files)))"
    using step.hyps by (simp add: take_Suc_conv_app_nth)
  obtain D1 where D1: "run_file s (down_files ! m) D = Inr D1" "at_version m D1" "user_rows D1 = narrowed m (user_rows D)"
    using down_file_runs [OF step.prems(2), of s] step.prems(1) by auto
  obtain D2 where "run_file s (concat (rev (drop n (take m down_files)))) D1 = Inr D2" "at_version n D2"
    "user_rows D2 = narrowed n (user_rows D1)"
    using step.IH [OF _ D1(2)] step.prems(1) by auto
  with D1 show ?case using step.hyps by (auto simp: files run_file_def each_in_turn_append narrowed_again)
qed

text \<open>
  C40. The down files that take a database at any version of the schema, with any rows in it, back
  to any earlier version run one after the other, none of them failing, and leave a database at
  that version: its users are all still there, each with exactly the columns of that version,
  unless the table of users itself is rolled back.
\<close>

theorem rollback_keeps_the_older_columns:
  assumes "n \<le> m" and "m \<le> 7" and "at_version m D"
  shows "\<exists>D'. run_file s (concat (rev (drop n (take m down_files)))) D = Inr D' \<and> at_version n D' \<and>
    user_rows D' = (if n = 0 then [] else map (\<lambda>r. r |` set (map c_name (users_columns n))) (user_rows D))"
  using rollback_to [OF assms, of s] unfolding narrowed_def user_columns_at_def
  by (cases "n = 0") (simp_all only: if_True if_False simp_thms)

lemma rollback_keeps_the_older_columns_witness:
  "\<exists>D'. run_file sample_session (concat (rev (drop 1 (take 2 down_files)))) (migrated 1 sample_database) = Inr D' \<and>
     user_rows D' = [sample_user_row]"
proof -
  have at: "at_version 2 (migrated 1 sample_database)"
    using migrated_version [OF sample_version] by (simp add: numeral_2_eq_2)
  have "(sample_user_row ++ new_values 1) |` set (map c_name (users_columns 1)) = sample_user_row"
    unfolding user_column_names by (auto simp: sample_user_row_def new_values_def restrict_map_def fun_eq_iff)
  moreover have "user_rows (migrated 1 sample_database) = [sample_user_row ++ new_values 1]"
    unfolding migrated_user_rows [OF sample_version] by (simp add: user_rows_def sample_database_def put_table_def)
  ultimately show ?thesis
    using rollback_keeps_the_older_columns [of 1 2 "migrated 1 sample_database" sample_session] at by auto
qed

end
