(* ===== verification/KafkaRun.thy ===== *)
theory KafkaRun
  imports KafkaWire
begin

text \<open>
  The rest of the Kafka broker: its two constructors and the providers that call them, what a run sets up before its loop (the retry
  queue it drains in the background, the reader, the writer of the retry topic), and the calls to the
  shared library's metrics. The observed loop is the loop of \<open>KafkaConsumer\<close> with those calls
  beside it; leaving them out gives that loop.
\<close>

section \<open>Constructors\<close>

text \<open>A broker with the claim store of its database, when it was given one.\<close>

definition newBroker_with :: "kafka_config \<Rightarrow> 's claim_store option \<Rightarrow> goerr + kafka_broker \<times> 's claim_store option" where
  "newBroker_with cfg db = (case newBroker cfg of Inl err \<Rightarrow> Inl err | Inr b \<Rightarrow> Inr (b, db))"

definition NewBroker :: "kafka_config \<Rightarrow> goerr + kafka_broker \<times> 's claim_store option" where
  "NewBroker cfg = newBroker_with cfg None"

definition NewBrokerWithDB :: "kafka_config \<Rightarrow> 's claim_store option \<Rightarrow> goerr + kafka_broker \<times> 's claim_store option" where
  "NewBrokerWithDB cfg db = newBroker_with cfg db"

text \<open>The providers of internal/fx/messaging.go that the application does not install.\<close>

definition provideEventBroker :: "kafka_config \<Rightarrow> 's claim_store option \<Rightarrow> goerr + kafka_broker \<times> 's claim_store option" where
  "provideEventBroker cfg db = (case db of None \<Rightarrow> NewBroker cfg | Some d \<Rightarrow> NewBrokerWithDB cfg (Some d))"

definition ProvideEventBroker :: "service_config \<Rightarrow> goerr + kafka_broker \<times> 's claim_store option" where
  "ProvideEventBroker cfg = provideEventBroker (cfg_Kafka cfg) None"

definition ensureStream :: "nats_config option \<Rightarrow> goerr option" where
  "ensureStream cfg = None"

definition InvokeEnsureStream :: "service_config \<Rightarrow> goerr option" where
  "InvokeEnsureStream cfg = ensureStream None"

lemma provideEventBroker_with: "provideEventBroker cfg db = newBroker_with cfg db"
  by (simp add: provideEventBroker_def NewBroker_def NewBrokerWithDB_def split: option.splits)

text \<open>The runs of a broker claim events exactly when it was built with a database.\<close>

definition broker_env :: "kafka_broker \<times> 's claim_store option \<Rightarrow> 's consumer_env \<Rightarrow> 's consumer_env" where
  "broker_env bd N = N\<lparr>ce_broker := fst bd, ce_db := snd bd\<rparr>"

lemma broker_without_database_claims_nothing:
  "NewBroker cfg = Inr bd \<Longrightarrow> claim_message (broker_env bd N) event s = (Inr True, s)"
  by (auto simp: NewBroker_def newBroker_with_def broker_env_def claim_message_def split: sum.splits)

section \<open>The set-up of a run\<close>

record retry_queue_config =
  rq_Brokers :: "string list"
  rq_Group :: string
  rq_MaxAttempts :: int

record reader_config =
  rc_Brokers :: "string list"
  rc_Topic :: string
  rc_GroupID :: string
  rc_MinBytes :: int
  rc_MaxBytes :: int
  rc_MaxWait :: time

definition retry_queue :: "'s consumer_env \<Rightarrow> pull_consumer_config \<Rightarrow> retry_queue_config" where
  "retry_queue N cfg = \<lparr>rq_Brokers = kb_brokers (ce_broker N), rq_Group = consumer_group (kb_group (ce_broker N)) cfg,
     rq_MaxAttempts = ce_max_attempts N\<rparr>"

definition run_reader :: "'s consumer_env \<Rightarrow> pull_consumer_config \<Rightarrow> reader_config" where
  "run_reader N cfg = \<lparr>rc_Brokers = kb_brokers (ce_broker N), rc_Topic = pc_Subject cfg,
     rc_GroupID = consumer_group (kb_group (ce_broker N)) cfg, rc_MinBytes = 1, rc_MaxBytes = 10000000,
     rc_MaxWait = 50 * millisecond\<rparr>"

text \<open>The topic of a group's retry queue is named by the shared library.\<close>

definition retry_writer :: "(string \<Rightarrow> string) \<Rightarrow> 's consumer_env \<Rightarrow> pull_consumer_config \<Rightarrow> kafka_writer" where
  "retry_writer retryTopic N cfg =
    \<lparr>wr_Addr = kb_brokers (ce_broker N), wr_Topic = retryTopic (consumer_group (kb_group (ce_broker N)) cfg),
     wr_HashBalancer = False, wr_BatchSize = 0, wr_BatchTimeout = 0, wr_WriteTimeout = 5 * second\<rparr>"

text \<open>An entry the background queue of the run picks up and puts back on the topic the run reads.\<close>

definition drained_by :: "'s consumer_env \<Rightarrow> pull_consumer_config \<Rightarrow> retry_entry \<Rightarrow> bool" where
  "drained_by N cfg e \<longleftrightarrow>
     re_Group e = rq_Group (retry_queue N cfg) \<and> re_Topic e = rc_Topic (run_reader N cfg) \<and>
     re_Group e = rc_GroupID (run_reader N cfg) \<and> 2 \<le> re_Attempt e \<and> re_Attempt e \<le> rq_MaxAttempts (retry_queue N cfg)"

lemma handle_message_drained:
  assumes "handle_message N cfg handler msg offset c = (x, c')"
  shows "\<exists>new. cs_retry c' = cs_retry c @ new \<and> list_all (drained_by N cfg) new"
  using assms retryAttempt_pos [of "km_Headers msg"]
  by (auto simp: handle_defs Let_def drained_by_def retry_queue_def run_reader_def split: consumer_splits)

lemma run_drained:
  "\<exists>new. cs_retry (snd (RunPullConsumer N cfg handler c)) = cs_retry c @ new \<and> list_all (drained_by N cfg) new"
proof (rule run_invariant [where I = "\<lambda>v. \<exists>new. cs_retry v = cs_retry c @ new \<and> list_all (drained_by N cfg) new"])
  fix msg offset v x v'
  assume "\<exists>new. cs_retry v = cs_retry c @ new \<and> list_all (drained_by N cfg) new"
    and "handle_message N cfg handler msg offset v = (x, v')"
  then show "\<exists>new. cs_retry v' = cs_retry c @ new \<and> list_all (drained_by N cfg) new"
    using handle_message_drained [of N cfg handler msg offset v x v'] by (metis append.assoc list_all_append)
qed auto

section \<open>The observed loop\<close>

text \<open>
  The messages reported as consumed, with offset, attempt and payload, and the dead-letter topics whose
  counter went up; the numbers of partitions are left out.
\<close>

record telemetry =
  tm_Consumed :: "(string \<times> nat \<times> int \<times> string) list"
  tm_DLQ :: "string list"

type_synonym 's observed = "'s consumer \<times> telemetry"

definition count_dead_letter :: "'s consumer_env \<Rightarrow> 's consumer \<Rightarrow> telemetry \<Rightarrow> telemetry" where
  "count_dead_letter N c t =
    (case ce_dlq_fault N (cs_iter c) of NoFault \<Rightarrow> t\<lparr>tm_DLQ := tm_DLQ t @ [kb_deadLetter (ce_broker N)]\<rparr> | _ \<Rightarrow> t)"

definition observed_dead_letter :: "'s consumer_env \<Rightarrow> string \<Rightarrow> kafka_message \<Rightarrow> nat \<Rightarrow> int \<Rightarrow> goerr
    \<Rightarrow> 's observed \<Rightarrow> outcome \<times> 's observed" where
  "observed_dead_letter N subject msg offset attempts cause = (\<lambda>(c, t).
     case deadLetterMessage N subject msg offset attempts cause c of (x, c') \<Rightarrow> (x, (c', count_dead_letter N c t)))"

definition observed_failure :: "'s consumer_env \<Rightarrow> pull_consumer_config \<Rightarrow> kafka_message \<Rightarrow> nat \<Rightarrow> int \<Rightarrow> goerr
    \<Rightarrow> 's observed \<Rightarrow> outcome \<times> 's observed" where
  "observed_failure N cfg msg offset attempts err = (\<lambda>(c, t).
     if \<not> is_permanent err \<and> attempts < ce_max_attempts N then
       (case handler_failed N cfg msg offset attempts err c of (x, c') \<Rightarrow> (x, (c', t)))
     else observed_dead_letter N (pc_Subject cfg) msg offset attempts err (c, t))"

definition observed_message :: "'s consumer_env \<Rightarrow> pull_consumer_config \<Rightarrow> 's message_handler \<Rightarrow> kafka_message
    \<Rightarrow> nat \<Rightarrow> 's observed \<Rightarrow> outcome \<times> 's observed" where
  "observed_message N cfg handler msg offset = (\<lambda>(c, t).
    (let attempts = retryAttempt (km_Headers msg);
         event = ce_event N (pc_Subject cfg) (km_Value msg)
     in case claim_message N event (cs_state c) of
          (Inl claimErr, s1) \<Rightarrow> (Return (Some claimErr), (c\<lparr>cs_state := s1\<rparr>, t))
        | (Inr False, s1) \<Rightarrow> (Continue, (note_trace (Skipped offset event) (c\<lparr>cs_state := s1\<rparr>), t))
        | (Inr True, s1) \<Rightarrow>
            (case ce_unwrap N (km_Value msg) of
               Inl unwrapErr \<Rightarrow>
                 observed_dead_letter N (pc_Subject cfg) msg offset attempts unwrapErr
                   (note_trace (Unreadable offset) (c\<lparr>cs_state := s1\<rparr>), t)
             | Inr unwrapped \<Rightarrow>
                 (let t1 = t\<lparr>tm_Consumed := tm_Consumed t @ [(pc_Subject cfg, offset, attempts, unwrapped)]\<rparr>;
                      payload = (if HasPrefix (pc_Subject cfg) recovery_prefix then km_Value msg else unwrapped) in
                  case handler (pc_Subject cfg) payload s1 of
                    (Inl err, s2) \<Rightarrow>
                      observed_failure N cfg msg offset attempts err
                        (note_trace (Handled offset event False) (c\<lparr>cs_state := release_event N event s2\<rparr>), t1)
                  | (Inr _, s2) \<Rightarrow>
                      (case commit_message N offset (note_trace (Handled offset event True) (c\<lparr>cs_state := s2\<rparr>)) of
                         (x, c') \<Rightarrow> (x, (c', t1)))))))"

definition observed_step :: "'s consumer_env \<Rightarrow> pull_consumer_config \<Rightarrow> 's message_handler \<Rightarrow> 's observed
    \<Rightarrow> outcome \<times> 's observed" where
  "observed_step N cfg handler = (\<lambda>(c0, t).
    (let c = c0\<lparr>cs_iter := Suc (cs_iter c0)\<rparr> in
     case ce_fetch_err N (cs_iter c) of
       Some err \<Rightarrow> (Return (Some err), (c, t))
     | None \<Rightarrow>
         if cs_pos c < length (cs_log c) then
           observed_message N cfg handler (cs_log c ! cs_pos c) (cs_pos c) (c\<lparr>cs_pos := Suc (cs_pos c)\<rparr>, t)
         else (Return (Some (ce_end_err N)), (c, t))))"

definition unobserved :: "outcome \<times> 's observed \<Rightarrow> outcome \<times> 's consumer" where
  "unobserved r = (fst r, fst (snd r))"

lemma unobserved_message:
  "unobserved (observed_message N cfg handler msg offset (c, t)) = handle_message N cfg handler msg offset c"
  by (simp add: unobserved_def observed_message_def handle_message_def observed_failure_def observed_dead_letter_def
      handler_failed_def Let_def split: consumer_splits)

lemma unobserved_step:
  "unobserved (observed_step N cfg handler (c, t)) = consume_step N cfg handler c"
  using unobserved_message [of N cfg handler "cs_log c ! cs_pos c" "cs_pos c"
      "c\<lparr>cs_iter := Suc (cs_iter c), cs_pos := Suc (cs_pos c)\<rparr>" t]
  by (simp add: observed_step_def consume_step_def Let_def unobserved_def split: option.splits)

function observed_consume :: "'s consumer_env \<Rightarrow> pull_consumer_config \<Rightarrow> 's message_handler \<Rightarrow> 's observed
    \<Rightarrow> goerr option \<times> 's observed" where
  "observed_consume N cfg handler ob =
    (case observed_step N cfg handler ob of
       (Return r, ob') \<Rightarrow> (r, ob')
     | (Continue, ob') \<Rightarrow> observed_consume N cfg handler ob')"
  by pat_completeness auto
termination
proof (relation "measure (\<lambda>(N, cfg, handler, ob). length (cs_log (fst ob)) - cs_pos (fst ob))")
  fix N :: "'s consumer_env" and cfg handler ob x ob'
  assume "(x, ob') = observed_step N cfg handler ob" "x = Continue"
  then have "consume_step N cfg handler (fst ob) = (Continue, fst ob')"
    using unobserved_step [of N cfg handler "fst ob" "snd ob"] by (simp add: unobserved_def) (metis fst_conv snd_conv)
  then show "((N, cfg, handler, ob'), (N, cfg, handler, ob)) \<in>
      measure (\<lambda>(N, cfg, handler, ob). length (cs_log (fst ob)) - cs_pos (fst ob))"
    using consume_step_continues by fastforce
qed simp

declare observed_consume.simps [simp del]

definition observed_run :: "'s consumer_env \<Rightarrow> pull_consumer_config \<Rightarrow> 's message_handler \<Rightarrow> 's observed
    \<Rightarrow> goerr option \<times> 's observed" where
  "observed_run N cfg handler = (\<lambda>(c, t). observed_consume N cfg handler (c\<lparr>cs_pos := cs_committed c\<rparr>, t))"

text \<open>A publication is counted before it is written, so the counter has at least what reached the bus.\<close>

definition observed_Publish :: "env \<Rightarrow> string \<Rightarrow> string \<Rightarrow> world \<times> (string \<times> string) list
    \<Rightarrow> (goerr + unit) \<times> (world \<times> (string \<times> string) list)" where
  "observed_Publish E subject payload = (\<lambda>(w, published).
    case e_wrap E (w_calls w) subject payload of
      Inl err \<Rightarrow> (Inl err, (w, published))
    | Inr body \<Rightarrow>
        (case ext_call (e_bus_fault E) (bus_write subject body) w of
           (r, w') \<Rightarrow> (r, (w', published @ [(subject, body)]))))"

lemma observed_Publish_counts:
  assumes "observed_Publish E subject payload (w, published) = (r, (w', published'))"
  shows "Publish E subject payload w = (r, w')"
    and "\<exists>counted written. published' = published @ counted \<and> w_bus w' = w_bus w @ written \<and> subseq written counted"
  using assms
  by (auto simp: observed_Publish_def Publish_def ext_call_def bus_write_def Let_def
      split: sum.splits prod.splits fault.splits)

section \<open>What the metrics say\<close>

text \<open>The report of a handled message: its topic, offset, attempt and unwrapped payload.\<close>

fun handled_offset :: "consumed \<Rightarrow> nat list" where
  "handled_offset (Handled offset event ok) = [offset]"
| "handled_offset _ = []"

definition consumed_report :: "'s consumer_env \<Rightarrow> pull_consumer_config \<Rightarrow> kafka_message list \<Rightarrow> nat
    \<Rightarrow> string \<times> nat \<times> int \<times> string" where
  "consumed_report N cfg msgs offset =
    (pc_Subject cfg, offset, retryAttempt (km_Headers (msgs ! offset)), projr (ce_unwrap N (km_Value (msgs ! offset))))"

text \<open>
  The messages reported since are the ones handled since, in their order, each as it is in the topic; the
  dead letters counted since, all on the dead-letter topic, are among those written, and as many when no
  write was answered with an error after it took effect.
\<close>

definition metrics_agree :: "'s consumer_env \<Rightarrow> pull_consumer_config \<Rightarrow> 's observed \<Rightarrow> 's observed \<Rightarrow> bool" where
  "metrics_agree N cfg = (\<lambda>(c1, t1) (c2, t2). cs_log c2 = cs_log c1 \<and>
     (\<exists>new dead k. cs_trace c2 = cs_trace c1 @ new \<and> cs_dlq c2 = cs_dlq c1 @ dead \<and>
        tm_Consumed t2 = tm_Consumed t1 @ map (consumed_report N cfg (cs_log c1)) (concat (map handled_offset new)) \<and>
        tm_DLQ t2 = tm_DLQ t1 @ replicate k (kb_deadLetter (ce_broker N)) \<and> k \<le> length dead \<and>
        ((\<forall>n e. ce_dlq_fault N n \<noteq> Late e) \<longrightarrow> k = length dead)))"

lemma metrics_agree_refl: "metrics_agree N cfg o1 o1"
  by (cases o1) (auto simp: metrics_agree_def)

lemma metrics_agree_trans:
  assumes "metrics_agree N cfg o1 o2" and "metrics_agree N cfg o2 o3"
  shows "metrics_agree N cfg o1 o3"
proof -
  obtain c1 t1 c2 t2 c3 t3 where o: "o1 = (c1, t1)" "o2 = (c2, t2)" "o3 = (c3, t3)" by (metis prod.collapse)
  let ?late = "\<forall>n e. ce_dlq_fault N n \<noteq> Late e"
  from assms(1) obtain n1 d1 k1 where 1: "cs_log c2 = cs_log c1" "cs_trace c2 = cs_trace c1 @ n1" "cs_dlq c2 = cs_dlq c1 @ d1"
    "tm_Consumed t2 = tm_Consumed t1 @ map (consumed_report N cfg (cs_log c1)) (concat (map handled_offset n1))"
    "tm_DLQ t2 = tm_DLQ t1 @ replicate k1 (kb_deadLetter (ce_broker N))" "k1 \<le> length d1" "?late \<longrightarrow> k1 = length d1"
    unfolding metrics_agree_def o prod.case by blast
  from assms(2) obtain n2 d2 k2 where 2: "cs_log c3 = cs_log c2" "cs_trace c3 = cs_trace c2 @ n2" "cs_dlq c3 = cs_dlq c2 @ d2"
    "tm_Consumed t3 = tm_Consumed t2 @ map (consumed_report N cfg (cs_log c2)) (concat (map handled_offset n2))"
    "tm_DLQ t3 = tm_DLQ t2 @ replicate k2 (kb_deadLetter (ce_broker N))" "k2 \<le> length d2" "?late \<longrightarrow> k2 = length d2"
    unfolding metrics_agree_def o prod.case by blast
  have "cs_trace c3 = cs_trace c1 @ n1 @ n2" "cs_dlq c3 = cs_dlq c1 @ d1 @ d2" "cs_log c3 = cs_log c1"
    "tm_Consumed t3 = tm_Consumed t1 @ map (consumed_report N cfg (cs_log c1)) (concat (map handled_offset (n1 @ n2)))"
    "tm_DLQ t3 = tm_DLQ t1 @ replicate (k1 + k2) (kb_deadLetter (ce_broker N))" "k1 + k2 \<le> length (d1 @ d2)"
    "?late \<longrightarrow> k1 + k2 = length (d1 @ d2)"
    using 1 2 by (simp_all add: replicate_add)
  then show ?thesis unfolding metrics_agree_def o by (simp only: prod.case) blast
qed

lemma single_replicate: "[x] = replicate k x \<longleftrightarrow> k = Suc 0"
  by (cases k) auto

lemma observed_message_agrees:
  assumes "observed_message N cfg handler (cs_log c ! offset) offset (c, t) = (x, o2)"
  shows "metrics_agree N cfg (c, t) o2"
  using assms
  by (cases o2) (auto simp: metrics_agree_def observed_message_def observed_failure_def observed_dead_letter_def
      count_dead_letter_def consumed_report_def handler_failed_def deadLetterMessage_def commit_message_def request_def
      note_trace_def single_replicate Let_def split: consumer_splits)

lemma observed_step_agrees:
  assumes "observed_step N cfg handler o1 = (x, o2)"
  shows "metrics_agree N cfg o1 o2"
proof -
  obtain c t where o1: "o1 = (c, t)" by force
  have "metrics_agree N cfg (c\<lparr>cs_iter := i, cs_pos := p\<rparr>, t) o2 = metrics_agree N cfg (c, t) o2" for i p
    by (simp add: metrics_agree_def)
  moreover have "metrics_agree N cfg (c, t) (c\<lparr>cs_iter := i\<rparr>, t)" for i
    by (simp add: metrics_agree_def)
  ultimately show ?thesis
    using assms observed_message_agrees [of N cfg handler "c\<lparr>cs_iter := Suc (cs_iter c), cs_pos := Suc (cs_pos c)\<rparr>" "cs_pos c" t x o2]
    unfolding o1 by (auto simp: observed_step_def Let_def split: option.splits if_splits)
qed

lemma observed_consume_agrees:
  "observed_consume N cfg handler o1 = (r, o2) \<Longrightarrow>
     consume N cfg handler (fst o1) = (r, fst o2) \<and> metrics_agree N cfg o1 o2"
proof (induction N cfg handler o1 rule: observed_consume.induct)
  case (1 N cfg handler o1)
  obtain x v where s: "observed_step N cfg handler o1 = (x, v)" by (rule prod.exhaust)
  have c: "consume_step N cfg handler (fst o1) = (x, fst v)"
    using unobserved_step [of N cfg handler "fst o1" "snd o1"] s by (simp add: unobserved_def)
  show ?case
  proof (cases x)
    case Continue
    with 1 s have "consume N cfg handler (fst v) = (r, fst o2) \<and> metrics_agree N cfg v o2"
      by (simp add: observed_consume.simps [of N cfg handler o1])
    moreover have "consume N cfg handler (fst o1) = consume N cfg handler (fst v)"
      using Continue c by (simp add: consume.simps [of N cfg handler "fst o1"])
    ultimately show ?thesis using metrics_agree_trans [OF observed_step_agrees [OF s]] by simp
  next
    case (Return r')
    with 1(2) s have "r' = r" "v = o2" by (simp_all add: observed_consume.simps [of N cfg handler o1])
    with Return c observed_step_agrees [OF s] show ?thesis by (simp add: consume.simps [of N cfg handler "fst o1"])
  qed
qed

text \<open>
  C36. The loop with its calls to the metrics does what the loop without them does. A run reports
  as consumed the messages it hands to the handler, each once and in their order, with the topic,
  the offset, the attempt in its headers and its unwrapped payload; it counts a dead letter, on
  the dead-letter topic, only for one it has written, and when no write is answered with an error
  after it took effect, one for each.
\<close>

theorem metrics_count_what_happened:
  "case observed_run N cfg handler (c, t) of (r, o2) \<Rightarrow>
     RunPullConsumer N cfg handler c = (r, fst o2) \<and> metrics_agree N cfg (c, t) o2"
proof -
  obtain r o2 where "observed_run N cfg handler (c, t) = (r, o2)" by (rule prod.exhaust)
  then show ?thesis
    using observed_consume_agrees [of N cfg handler "(c\<lparr>cs_pos := cs_committed c\<rparr>, t)" r o2]
    by (simp add: observed_run_def RunPullConsumer_def metrics_agree_def)
qed

text \<open>
  C35. Every message a run puts aside for another attempt is one the retry queue that the run has
  started brings back: the entry is in its group, names the topic that the reader of the run reads
  in that group, and has an attempt number from two up to the maximum of the policy of the queue,
  whatever the headers of the message say.
\<close>

theorem retries_reach_the_queue_of_the_run:
  "\<exists>new. cs_retry (snd (RunPullConsumer N cfg handler c)) = cs_retry c @ new \<and>
    list_all (\<lambda>e. re_Group e = rq_Group (retry_queue N cfg) \<and> re_Group e = rc_GroupID (run_reader N cfg) \<and>
      re_Topic e = rc_Topic (run_reader N cfg) \<and> 2 \<le> re_Attempt e \<and>
      re_Attempt e \<le> rq_MaxAttempts (retry_queue N cfg)) new"
  using run_drained [of N cfg handler c] by (auto simp: drained_by_def list_all_iff)

end
