(* ===== verification/NatsInterfaces.thy ===== *)
theory NatsInterfaces
  imports NatsRuntime NatsEvents
begin

text \<open>
  The interfaces of the NATS package (type.go) and what fills them. Each is a record of its methods. The
  broker runs a pull consumer through two of them, the validator and the runtime factory, which a test
  may replace and which are made anew when they are nil; the saga handlers reach the wire format
  through a third. With the implementations of the package they are the operations of \<open>NatsPull\<close>,
  \<open>NatsRuntime\<close> and \<open>NatsEvents\<close>; with any others the broker still starts nothing after an error.
\<close>

section \<open>Interfaces\<close>

text \<open>The commands of commands.go have the fields and the tags of the Kafka ones, and their decoders.\<close>

type_synonym nats_create_user_command = create_user_command
type_synonym nats_delete_user_command = delete_user_command

record 's saga_subscriber_methods =
  sm_Subscribe :: "(goerr, unit, 's) io"

record 's projection_relay_methods =
  rm_Start :: "(goerr, unit, 's) io"

record 's projection_subscriber_methods =
  pj_Start :: "(goerr, unit, 's) io"

record saga_message_mapper =
  mm_ToCreateFailureResultPayload :: "time \<Rightarrow> nats_create_user_command \<Rightarrow> string \<Rightarrow> goerr + string"
  mm_ToCreateSuccessResultPayload :: "time \<Rightarrow> nats_create_user_command \<Rightarrow> goerr + string"
  mm_ToDeleteFailureResultPayload :: "time \<Rightarrow> nats_delete_user_command \<Rightarrow> string \<Rightarrow> goerr + string"
  mm_ToDeleteSuccessResultPayload :: "time \<Rightarrow> nats_delete_user_command \<Rightarrow> goerr + string"

record config_validator =
  cv_Validate :: "pull_consumer_config \<Rightarrow> goerr option"

record 's runtime_methods =
  rt_Start :: "time \<Rightarrow> 's \<Rightarrow> 's pull_state"

record 's runtime_factory =
  rf_Create :: "(goerr + 's jetstream) \<Rightarrow> pull_consumer_config \<Rightarrow> 's message_handler \<Rightarrow> (goerr, 's runtime_methods, 's) io"

section \<open>Implementations\<close>

definition saga_methods :: "'s nats_saga_subscriber \<Rightarrow> 's saga_subscriber_methods" where
  "saga_methods S = \<lparr>sm_Subscribe = saga_Subscribe S\<rparr>"

definition relay_methods :: "'s event_broker \<Rightarrow> nats_config \<Rightarrow> 's projection_relay_methods" where
  "relay_methods b cfg = \<lparr>rm_Start = nats_relay_Start b cfg\<rparr>"

definition projection_methods :: "'s event_broker \<Rightarrow> 's user_read_repository \<Rightarrow> nats_config
    \<Rightarrow> 's projection_subscriber_methods" where
  "projection_methods b read cfg = \<lparr>pj_Start = nats_projection_Start b read cfg\<rparr>"

definition newRegistrationSagaMessageMapper :: "json_marshal \<Rightarrow> saga_message_mapper" where
  "newRegistrationSagaMessageMapper marshal =
    \<lparr>mm_ToCreateFailureResultPayload = ToCreateFailureResultPayload marshal,
     mm_ToCreateSuccessResultPayload = ToCreateSuccessResultPayload marshal,
     mm_ToDeleteFailureResultPayload = ToDeleteFailureResultPayload marshal,
     mm_ToDeleteSuccessResultPayload = ToDeleteSuccessResultPayload marshal\<rparr>"

definition newPullConsumerConfigValidator :: config_validator where
  "newPullConsumerConfigValidator = \<lparr>cv_Validate = Validate\<rparr>"

definition newPullConsumerRuntimeFactory :: "'s runtime_factory" where
  "newPullConsumerRuntimeFactory = \<lparr>rf_Create = (\<lambda>jetStream cfg handler s.
     case NatsRuntime.Create jetStream cfg handler s of
       (Inl err, s1) \<Rightarrow> (Inl err, s1) | (Inr R, s1) \<Rightarrow> (Inr \<lparr>rt_Start = started R\<rparr>, s1))\<rparr>"

section \<open>The saga handlers over any mapper\<close>

definition create_reply :: "saga_message_mapper \<Rightarrow> failure_reason_resolver \<Rightarrow> time \<Rightarrow> create_user_command \<Rightarrow> goerr option
    \<Rightarrow> goerr + string" where
  "create_reply m resolver now cmd failure = (case failure of
     Some err \<Rightarrow> mm_ToCreateFailureResultPayload m now cmd (fr_CreateUserFailureReason resolver err)
   | None \<Rightarrow> mm_ToCreateSuccessResultPayload m now cmd)"

definition delete_reply :: "saga_message_mapper \<Rightarrow> failure_reason_resolver \<Rightarrow> time \<Rightarrow> delete_user_command \<Rightarrow> goerr option
    \<Rightarrow> goerr + string" where
  "delete_reply m resolver now cmd failure = (case failure of
     Some err \<Rightarrow> mm_ToDeleteFailureResultPayload m now cmd (fr_DeleteUserFailureReason resolver err)
   | None \<Rightarrow> mm_ToDeleteSuccessResultPayload m now cmd)"

definition mapped_handleCreate :: "saga_message_mapper \<Rightarrow> 's nats_saga_subscriber \<Rightarrow> 's message_handler" where
  "mapped_handleCreate m S subject payload s =
    (case unmarshal_create_command payload of
       Inl err \<Rightarrow> (Inl (WrapUnmarshalCreateUserCommandError err), s)
     | Inr cmd \<Rightarrow>
         (case us_CreateUser (ns_service S) (cc_UserID cmd) (cc_Username cmd) (cc_FirstName cmd) (cc_LastName cmd) s of
            (r, s1) \<Rightarrow> publish_payload S (n_SagaCreateUserResultSubject (ns_cfg S))
              (create_reply m (ns_resolver S) (ns_now S s1) cmd (case r of Inl err \<Rightarrow> Some err | Inr _ \<Rightarrow> None)) s1))"

definition mapped_handleDelete :: "saga_message_mapper \<Rightarrow> 's nats_saga_subscriber \<Rightarrow> 's message_handler" where
  "mapped_handleDelete m S subject payload s =
    (case unmarshal_delete_command payload of
       Inl err \<Rightarrow> (Inl (WrapUnmarshalDeleteUserCommandError err), s)
     | Inr cmd \<Rightarrow>
         (case us_DeleteUser (ns_service S) (dc_UserID cmd) s of
            (r, s1) \<Rightarrow> publish_payload S (n_SagaDeleteUserResultSubject (ns_cfg S))
              (delete_reply m (ns_resolver S) (ns_now S s1) cmd (case r of Inl err \<Rightarrow> Some err | Inr _ \<Rightarrow> None)) s1))"

lemma mapped_handlers:
  "mapped_handleCreate (newRegistrationSagaMessageMapper (ns_marshal S)) S = handleCreateUserCommand S"
  "mapped_handleDelete (newRegistrationSagaMessageMapper (ns_marshal S)) S = handleDeleteUserCommand S"
  by (simp_all add: fun_eq_iff mapped_handleCreate_def handleCreateUserCommand_def mapped_handleDelete_def
      handleDeleteUserCommand_def create_reply_def delete_reply_def newRegistrationSagaMessageMapper_def
      split: sum.splits prod.splits)

section \<open>Running a consumer through the interfaces\<close>

definition run_through :: "config_validator option \<Rightarrow> 's runtime_factory option \<Rightarrow> (goerr + 's jetstream) \<Rightarrow> time
    \<Rightarrow> pull_consumer_config \<Rightarrow> 's message_handler \<Rightarrow> (goerr, 's pull_state, 's) io" where
  "run_through validator factory jetStream now cfg handler s =
    (let v = (case validator of None \<Rightarrow> newPullConsumerConfigValidator | Some v \<Rightarrow> v) in
     case cv_Validate v cfg of
       Some err \<Rightarrow> (Inl err, s)
     | None \<Rightarrow>
        (let f = (case factory of None \<Rightarrow> newPullConsumerRuntimeFactory | Some f \<Rightarrow> f) in
         case rf_Create f jetStream cfg handler s of
           (Inl err, s1) \<Rightarrow> (Inl err, s1)
         | (Inr runtime, s1) \<Rightarrow> (Inr (rt_Start runtime now s1), s1)))"

lemma run_through_package:
  assumes "validator \<in> {None, Some newPullConsumerConfigValidator}"
    and "factory \<in> {None, Some newPullConsumerRuntimeFactory}"
  shows "run_through validator factory jetStream now cfg handler = NatsRuntime.RunPullConsumer jetStream now cfg handler"
proof -
  have "(case validator of None \<Rightarrow> newPullConsumerConfigValidator | Some v \<Rightarrow> v) = newPullConsumerConfigValidator"
    and "(case factory of None \<Rightarrow> newPullConsumerRuntimeFactory | Some f \<Rightarrow> f) = newPullConsumerRuntimeFactory"
    using assms by auto
  then show ?thesis
    by (simp add: fun_eq_iff run_through_def NatsRuntime.RunPullConsumer_def newPullConsumerConfigValidator_def
        newPullConsumerRuntimeFactory_def split: option.splits sum.splits prod.splits)
qed

text \<open>Whatever the implementations, a rejected configuration reaches no server.\<close>

lemma rejected_settings_touch_nothing:
  "cv_Validate v cfg = Some err \<Longrightarrow> run_through (Some v) factory jetStream now cfg handler s = (Inl err, s)"
  by (simp add: run_through_def)

end
