(* ===== verification/Spec2Isabelle.thy ===== *)
theory Spec2Isabelle
  imports Samples GrpcServer KafkaConsumer SagaFlow NatsBroker NatsRuntime Transports Storage Supervision Boot
    Interleaving Rejections CachedViews LiveRuns Results Bounded Redelivery ServerLifecycle Lifecycle Observability KafkaWire RedisHook
    OutboxTable Rollback KafkaRun NatsInterfaces
begin

text \<open>
  Verification of user-service (ofm-user-service), a Go microservice that owns the users of a
  platform: it registers and deletes them on commands of a registration saga, activates and
  deactivates them, answers queries over gRPC, and keeps cached views of them. PostgreSQL holds the
  users, Redis the views, Kafka (or NATS) the commands and events.

  Parts of the program and their theories (paths under src/):

  \<^item> Base: \<open>Prelude\<close> (results, shared lemmas, fact collections); \<open>GoStrings\<close>, \<open>GoErrors\<close>, \<open>GoTime\<close>,
    \<open>GoJson\<close>: what the program uses of Go's standard library, on byte strings.
  \<^item> internal/domain: \<open>Domain\<close>. The entity, the error variables, the repository interfaces as records
    of methods, and the contracts of the interfaces as the locales \<open>user_repository_contract\<close> and
    \<open>user_read_contract\<close>.
  \<^item> internal/infra/write/postgres and migration/postgres: \<open>WriteRepo\<close>. The table is a list of rows in
    the field \<open>w_users\<close> of \<open>world\<close>, its outbox the field \<open>w_outbox\<close>; one definition per statement of
    query.go and per method of repository.go; the trigger of migration 5; error_translator.go.
  \<^item> migration/postgres: \<open>Sql\<close>, the part of SQL that the files and the queries use (typed tables with
    defaults and keys, indexes, trigger functions, row triggers, and statements that succeed or leave
    the database alone); \<open>Migrations\<close>, every up and down file as a list of statements and the schema at
    each version; \<open>Upgrades\<close>, runs of the files; \<open>Rollback\<close>, runs of the down files one after the other on
    any rows; \<open>SchemaQueries\<close>, the statements of query.go on the
    migrated schema, which refine those of \<open>WriteRepo\<close>; \<open>OutboxTable\<close>, sequences of these statements on
    the tables themselves.
  \<^item> internal/infra/read/redis: \<open>ReadRepo\<close>. The keys and JSON values in \<open>w_redis\<close>, the cache models, the
    mapper and the six methods.
  \<^item> internal/infra/file/grpc: \<open>FileClient\<close>. internal/application: \<open>Application\<close>, the service on its four
    collaborators, inside the locale \<open>user_service_backend\<close> (both repository contracts together).
  \<^item> internal/presentation/grpc: \<open>GrpcServer\<close>, one definition per handler; \<open>ServerLifecycle\<close>, Start
    and Shutdown.
  \<^item> internal/presentation/event_broker: \<open>EventBroker\<close> (the interface, with the locale
    \<open>publisher_contract\<close>); its kafka package in \<open>KafkaBroker\<close> (Publish), \<open>KafkaWire\<close> (writers, keys,
    headers, and the open readers), \<open>KafkaRun\<close> (the constructors, what a run sets up, and the calls to the
    metrics), \<open>KafkaConsumer\<close> (the consumer loop, with claims, retries, dead
    letters and commits), \<open>KafkaDetailed\<close>, \<open>KafkaSaga\<close> and
    \<open>KafkaRecovery\<close> (the adapters); its nats package in \<open>NatsPull\<close> (settings and their validator),
    \<open>NatsBroker\<close>, \<open>NatsRuntime\<close> (the pull consumer, fetcher and workers around a bounded channel, as a
    step relation), \<open>NatsEvents\<close> (the adapters) and \<open>NatsInterfaces\<close> (the interfaces of type.go).
  \<^item> config: \<open>Config\<close>. pkg/storage and pkg/messaging: \<open>Storage\<close>, and \<open>RedisHook\<close> for the circuit breaker
    around the Redis client.
  \<^item> internal/fx and cmd: \<open>Wiring\<close> (the service on its real adapters), \<open>Startup\<close> (the providers from the
    stores on, in order), \<open>Boot\<close> (the whole start, from reading the configuration and making the logger),
    \<open>Lifecycle\<close> (what each constructor and invocation needs and hooks into the application, and how it
    stops), \<open>Observability\<close> (logger, meter, tracer), \<open>Supervision\<close> (the loops around the consumers).
  \<^item> Composition: \<open>SagaFlow\<close> (commands through the wired service to the topics), \<open>Transports\<close> (the
    projection flow; Kafka against NATS), \<open>Rejections\<close> (database errors through the translator to the
    saga's reasons), \<open>CachedViews\<close> (what clients see), \<open>Interleaving\<close> (all entry points of the started
    service over shared stores, turn by turn).
  \<^item> Interleaving of single calls: \<open>Programs\<close> (programs as sequences of atomic calls, and a
    rely-guarantee judgement for them), \<open>ServicePrograms\<close> (the operations, handlers and consumers as
    such programs), \<open>SoundCalls\<close> (what each call keeps of the stores), \<open>Concurrency\<close> (the service as a
    step relation \<open>live_step\<close>), \<open>Claims\<close> (how often an event is handled), \<open>LiveRuns\<close> (its properties and
    runs), \<open>Results\<close> (what it reports of its commands), \<open>Bounded\<close> (how many calls a request makes).
    \<open>Redelivery\<close> has the recovery commands that are delivered again. \<open>Samples\<close> holds the concrete environments of the witnesses.

  State. \<open>world\<close> is what the adapters share: the table, the outbox, Redis, the topics, the metrics, and
  a counter of external calls. \<open>env\<close> is everything the program does not decide: for each external call
  no fault, a lost request, or a request carried out whose reply was lost; the clock; which strings
  PostgreSQL reads as UUIDs and as which; the texts of its errors; the file service's replies; the
  envelope of the shared library. \<open>env_ok\<close> states what is relied on: a canonical identifier stays so,
  stored text is valid UTF-8, and no failure of a dependency is the program's own not-found error. A
  method is a function from the state to a result and a state, in the order of the code's calls.

  Lemmas. \<open>WriteRepo\<close> and \<open>ReadRepo\<close> prove for each method what it did when it succeeds and what it may
  have done when it fails; \<open>pg\<close>, \<open>redis\<close> and \<open>wired\<close> interpret the locales on these methods, \<open>kafka\<close> and
  \<open>nats\<close> the publisher's contract on both brokers. \<open>Application\<close> has an effect lemma per operation, from
  which refinement of the life cycle (\<open>user_step\<close>) and coherence of the previews follow by induction on
  runs. \<open>KafkaConsumer\<close> has invariants kept by every handled message and lifts them to runs;
  \<open>NatsRuntime\<close> an invariant of the step relation and a measure for shutdown; \<open>GoJson\<close> the round trip of
  flat objects through encoder and parser. \<open>Sql\<close> shows that every statement keeps a database well-formed
  (\<open>database_ok\<close>), \<open>Migrations\<close> and \<open>Upgrades\<close> what each file makes of a database at its version
  (\<open>at_version\<close>), backwards and a second time too, and \<open>SchemaQueries\<close> relates such a database to the
  world (\<open>holds_world\<close>): constraint names, defaults and outbox of the write model come from the files,
  and \<open>OutboxTable\<close> carries the invariant of the outbox back to the tables. \<open>SoundCalls\<close> and \<open>Results\<close>
  show of every call what it keeps and what it does to the stores, and \<open>Concurrency\<close> lifts that, for any
  relation the calls stay within (the locale \<open>world_guarantee\<close>), to every state of \<open>live_step\<close>; \<open>LiveRuns\<close>
  shows that a program run without interruption is the operation it stands for. \<open>RedisHook\<close> shows that a
  hooked Redis command does what a bare one does that may lose one more request.

  Bounds. The JSON parser has fuel of one more than twice the length of its input, and
  \<open>parse_fuel_enough\<close> shows that more never changes a result. The Kafka loop terminates on the messages
  of a topic that a run sees, by a measure; the loops around the consumers take the number of their
  rounds as an argument, and the statements hold for every number. Rows inserted by triggers may fire
  triggers up to the depth of the server's stack, which is a parameter; two levels are enough for the
  schema. Nothing else has fuel.

  Simplifications. A topic is one partition, with its messages in order. In \<open>live_step\<close> a call of a
  repository, of the file client, of the publisher or of the claim store is atomic, and what runs
  between two calls is local to its goroutine; the NATS runtime is interleaved by its own actions.
  Contexts are not modelled but for the cancellation of the NATS consumer: an expired deadline is one
  of the faults. Times before the year 0 or after 9999 are formatted without the error that
  time.MarshalJSON gives for them.

  Hypotheses on libraries, each with an instance that meets it: \<open>claim_contract\<close> (an event is granted
  once until it is released), \<open>runtime_contract\<close> (listening, serving and stopping of the gRPC library),
  \<open>builds\<close> and \<open>stops_in_reverse\<close> (the fx container), \<open>breaker_contract\<close> (the circuit breaker refuses a
  call or passes it through), \<open>new_ids\<close> (the random identifiers of outbox events are new).

  Not modelled: log lines and printed lines; the gRPC interceptors; reading the environment (the env package;
  \<open>default_Config\<close> is what it yields from the tags); the shared library (resilience, idempotency,
  envelopes, the breaker, the retry queue's own consumer) and all clients of external systems, which
  are parameters; the order in which the migrate library applies the files and its table of versions; and the tests.
\<close>

theorem service_refines_life_cycle:
  assumes "env_ok utf8_valid E"
  shows "let w = run_calls (wired_service E topic) calls empty_world in
    user_step\<^sup>*\<^sup>* Map.empty (users_view w) \<and> store_ok (users_view w) \<and> table_ok E w \<and>
    replay (w_outbox w) = rows_view w"
proof -
  have "store_ok Map.empty" by (simp add: store_ok_def)
  with wired.run_effect [of E empty_world topic calls] empty_world_ok [OF assms] show ?thesis
    by (auto simp: Let_def pg_inv_def outbox_ok_def dest: user_steps_ok)
qed

theorem service_refines_life_cycle_witness:
  "let w = run_calls (wired_service sample_env ''t'')
       [CallCreateUser ''U1'' ''alex'' ''Alex'' ''Doe'', CallDeactivateUser ''u1'', CallDeleteUser ''u1'']
       empty_world in
    user_step\<^sup>*\<^sup>* Map.empty (users_view w) \<and> store_ok (users_view w) \<and> table_ok sample_env w \<and>
    replay (w_outbox w) = rows_view w"
  by (rule service_refines_life_cycle [OF sample_env_ok])

text \<open>
  C3. Runs of calls in which activations, deactivations and deletions complete, with the
  identifier in canonical form where the cache entry is removed by it, keep every cached preview
  equal, up to the avatar URL, to the user stored under its key; creations and queries may fail at
  any point.
\<close>

theorem completed_calls_keep_previews_coherent:
  assumes "pg_inv E w" and "coherent (users_view w) (preview w)"
    and "all_complete (wired_service E topic) (e_uuid E) calls w"
  shows "let w' = run_calls (wired_service E topic) calls w in coherent (users_view w') (preview w')"
  using wired.run_coherent [of E w topic calls] assms by (simp add: Let_def)

theorem completed_calls_keep_previews_coherent_witness:
  "let w' = run_calls sample_service [CallDeactivateUser ''u1'', CallDeleteUser ''u1''] sample_world in
     coherent (users_view w') (preview w')"
  by (rule completed_calls_keep_previews_coherent [OF sample_inv sample_coherent])
    (simp add: eval_defs env_eval Let_def sample_world_users sample_row_def db_metric_def
      redis_metric_def observe_def isl_def)

text \<open>
  C4. From a coherent cache, a preview query leaves the stored users alone and the cache coherent;
  a user it returns is the one stored under the identifier asked for, up to the avatar URL, and an
  error that says not found means that no such user is stored.
\<close>

theorem preview_query_correct:
  assumes "pg_inv E w" and "coherent (users_view w) (preview w)"
  shows "case GetUserPreviewByID (wired_service E topic) i w of (r, w') \<Rightarrow>
    users_view w' = users_view w \<and> coherent (users_view w') (preview w') \<and>
    (case r of
       Inr v \<Rightarrow> e_uuid E (TrimSpace i) = Some (u_ID v) \<and>
         (\<exists>u. users_view w (u_ID v) = Some u \<and> previews u (as_preview v))
     | Inl e \<Rightarrow> errors_is e ErrUserNotFound \<longrightarrow> absent (e_uuid E (TrimSpace i)) (users_view w))"
  using wired.preview_query_effect [OF assms(1) redis_inv_pg [OF assms(1)] assms(2) surjective_pairing, of topic i]
  by (auto simp: case_prod_unfold split: sum.splits)

theorem preview_query_correct_witness:
  "case GetUserPreviewByID sample_service ''u1'' sample_world of (r, w') \<Rightarrow>
    users_view w' = users_view sample_world \<and> coherent (users_view w') (preview w') \<and>
    (case r of
       Inr v \<Rightarrow> e_uuid sample_env (TrimSpace ''u1'') = Some (u_ID v) \<and>
         (\<exists>u. users_view sample_world (u_ID v) = Some u \<and> previews u (as_preview v))
     | Inl e \<Rightarrow> errors_is e ErrUserNotFound \<longrightarrow>
         absent (e_uuid sample_env (TrimSpace ''u1'')) (users_view sample_world))"
  by (rule preview_query_correct [OF sample_inv sample_coherent])

text \<open>
  C9. A detailed query that finds no cache entry returns the stored user of that name with its
  display name and the URL the file service gives for its avatar, empty when it has no avatar or
  the file service fails, and stores its public view under that name; not found means that no
  stored user has the name; neither the stored users nor the previews change.
\<close>

theorem detailed_query_correct:
  assumes "pg_inv E w" and "detailed w (TrimSpace name) = None"
  shows "case GetDetailedUserByUsername (wired_service E topic) name w of (r, w') \<Rightarrow>
    users_view w' = users_view w \<and> preview w' = preview w \<and>
    (case r of
       Inr v \<Rightarrow> \<exists>u. users_view w (u_ID u) = Some u \<and> u_Username u = TrimSpace name \<and>
         v = u\<lparr>u_AvatarURL := avatar_url E (w_calls w + 2) u,
               u_DisplayName := DisplayName (u_FirstName u) (u_LastName u)\<rparr> \<and>
         detailed w' = (detailed w)(TrimSpace name \<mapsto> public_view v)
     | Inl e \<Rightarrow> errors_is e ErrUserNotFound \<longrightarrow>
         (\<forall>k u. users_view w k = Some u \<longrightarrow> u_Username u \<noteq> TrimSpace name))"
proof -
  obtain r w' where q: "GetDetailedUserByUsername (wired_service E topic) name w = (r, w')" by fastforce
  note e = wired.detailed_query_effect [OF assms(1) redis_inv_pg [OF assms(1)] q]
  show ?thesis
  proof (cases r)
    case (Inr v)
    with e assms(2) obtain u where u: "users_view w (u_ID u) = Some u" "u_Username u = TrimSpace name"
      "v = u\<lparr>u_AvatarURL := u_AvatarURL v, u_DisplayName := DisplayName (u_FirstName u) (u_LastName u)\<rparr>" by auto
    have "u_AvatarID v = u_AvatarID u" by (subst u(3)) simp
    then have "u_AvatarURL v = avatar_url E (w_calls w + 2) u"
      using detailed_query_avatar [OF assms(1,2) q [unfolded Inr]] by (simp add: avatar_url_def)
    with e Inr q u assms(2) show ?thesis by auto
  qed (use e q in auto)
qed

theorem detailed_query_correct_witness:
  "case GetDetailedUserByUsername sample_service ''alex'' sample_world of (r, w') \<Rightarrow>
    users_view w' = users_view sample_world \<and> preview w' = preview sample_world \<and>
    (case r of
       Inr v \<Rightarrow> \<exists>u. users_view sample_world (u_ID u) = Some u \<and> u_Username u = TrimSpace ''alex'' \<and>
         v = u\<lparr>u_AvatarURL := avatar_url sample_env (w_calls sample_world + 2) u,
               u_DisplayName := DisplayName (u_FirstName u) (u_LastName u)\<rparr> \<and>
         detailed w' = (detailed sample_world)(TrimSpace ''alex'' \<mapsto> public_view v)
     | Inl e \<Rightarrow> errors_is e ErrUserNotFound \<longrightarrow>
         (\<forall>k u. users_view sample_world k = Some u \<longrightarrow> u_Username u \<noteq> TrimSpace ''alex''))"
  by (rule detailed_query_correct [OF sample_inv]) (simp add: sample_detailed)

theorem stored_users_stay_the_same_person:
  assumes "pg_inv E w" and "users_view w k = Some v"
    and "users_view (serve (wired_service E topic) c w) k = Some u"
  shows "same_person v u"
  using wired.serve_effect [OF assms(1) redis_inv_pg [OF assms(1)], of topic c] assms(2,3)
  by (auto simp: user_moves_def dest: user_step_same)

theorem stored_users_stay_the_same_person_witness:
  "same_person (MapUserRowToDomain sample_row) (MapUserRowToDomain (deactivate_row 5 sample_row))"
  by (rule stored_users_stay_the_same_person [OF sample_inv, of "''u1''" _ "''t''" "CallDeactivateUser ''u1''"])
    (simp_all add: users_view_def sample_world_users run_eval sample_row_def sample_world_calls)

theorem failed_creation_is_permanent:
  assumes "pg_inv E w" and "CreateUser (wired_service E topic) i n f l w = (Inl e, w')"
    and "users_view w' \<noteq> users_view w"
  shows "case CreateUser (wired_service E topic) i n' f' l' w' of (r, w'') \<Rightarrow>
    isl r \<and> users_view w'' = users_view w'"
proof -
  note c = wired.create_effect [OF assms(1) redis_inv_pg [OF assms(1)] assms(2)]
  then obtain k where k: "e_uuid E i = Some k" "users_view w' k \<noteq> None"
    using assms(3) by (auto simp: inserts_def)
  have inv: "pg_inv E w'" using c by simp
  from wired.create_effect [OF inv redis_inv_pg [OF inv] surjective_pairing, of topic i n' f' l'] k
  show ?thesis by (auto simp: inserts_def case_prod_unfold split: sum.splits)
qed

theorem failed_creation_is_permanent_witness:
  "case CreateUser (wired_service (redis_down {1}) ''t'') ''u1'' ''bob'' ''Bob'' ''Roe''
      (snd (CreateUser (wired_service (redis_down {1}) ''t'') ''u1'' ''alex'' ''Alex'' ''Doe'' empty_world))
    of (r, w'') \<Rightarrow> isl r \<and> users_view w'' = users_view
      (snd (CreateUser (wired_service (redis_down {1}) ''t'') ''u1'' ''alex'' ''Alex'' ''Doe'' empty_world))"
proof (rule failed_creation_is_permanent)
  let ?r = "CreateUser (wired_service (redis_down {1}) ''t'') ''u1'' ''alex'' ''Alex'' ''Doe'' empty_world"
  show "pg_inv (redis_down {1}) empty_world" using empty_world_ok [OF redis_down_ok] by simp
  show "?r = (Inl (projl (fst ?r)), snd ?r)"
    by (simp add: run_eval redis_down_def prod_eq_iff)
  show "users_view (snd ?r) \<noteq> users_view empty_world"
    by (rule notI, drule fun_cong [of _ _ "''u1''"])
      (simp add: run_eval redis_down_def users_view_def)
qed

text \<open>
  C13. A deletion that succeeds removes the user of the identifier from the table but leaves the
  detailed view: when Redis answers, the detailed query by the name goes on returning what is
  cached, the deleted user.
\<close>

theorem deleted_user_stays_in_detailed_view:
  assumes "pg_inv E w" and "DeleteUser (wired_service E topic) i w = (Inr (), w')"
    and "detailed w (TrimSpace name) = Some d" and "TrimSpace name \<noteq> []"
    and "e_redis_fault E (w_calls w') = NoFault"
  shows "removes (e_uuid E i) (users_view w) (users_view w') \<and>
    fst (GetDetailedUserByUsername (wired_service E topic) name w') = Inr d"
proof
  note e = wired.delete_effect [OF assms(1) redis_inv_pg [OF assms(1)] assms(2)]
  then show "removes (e_uuid E i) (users_view w) (users_view w')" by auto
  have "detailed w' (TrimSpace name) = Some d" using e assms(3) by auto
  then have "fst (ReadRepo.GetByUsername E (TrimSpace name) w') = Inr (Some d)"
    using assms(5)
    by (auto simp: ReadRepo.GetByUsername_def detailed_def ext_call_def redis_get_def Let_def
        split: option.splits sum.splits)
  with assms(4) show "fst (GetDetailedUserByUsername (wired_service E topic) name w') = Inr d"
    by (cases "ReadRepo.GetByUsername E (TrimSpace name) w'")
      (simp add: GetDetailedUserByUsername_def)
qed

theorem deleted_user_stays_in_detailed_view_witness:
  "removes (Some ''u1'') (users_view detailed_world) (users_view (snd (DeleteUser sample_service ''u1'' detailed_world))) \<and>
   fst (GetDetailedUserByUsername sample_service ''alex'' (snd (DeleteUser sample_service ''u1'' detailed_world))) =
     Inr (public_view (MapUserRowToDomain sample_row))"
proof -
  let ?d = "DeleteUser sample_service ''u1'' detailed_world"
  have d: "?d = (Inr (), snd ?d)" by (simp add: run_eval detailed_world_users sample_row_def prod_eq_iff)
  have v: "detailed detailed_world (TrimSpace ''alex'') = Some (public_view (MapUserRowToDomain sample_row))"
    by (simp add: detailed_world_entry)
  have k: "e_uuid sample_env ''u1'' = Some ''u1''" by (simp add: env_eval run_eval)
  have n: "TrimSpace ''alex'' \<noteq> []" "e_redis_fault sample_env (w_calls (snd ?d)) = NoFault" by (simp_all add: sample_env_def)
  from deleted_user_stays_in_detailed_view [OF detailed_world_inv d v n] show ?thesis unfolding k .
qed

end
